(* ===== verification/Prelude.thy ===== *)
theory Prelude
  imports Main "HOL-Library.Word"
begin

text \<open>
  The prelude of the development: names for the machine types, the error numbers the kernel
  code returns, C's conversions between integer types, and the generic lemmas on lists that the
  component theories share. The collections \<open>errno_defs\<close> and \<open>overwrite_simps\<close> are filled here
  and used by \<open>simp add:\<close> in the components.
\<close>

named_theorems errno_defs \<open>definitions of the error numbers\<close>
named_theorems overwrite_simps \<open>laws of writing a block of bytes into a buffer\<close>

type_synonym byte = "8 word"
type_synonym u32 = "32 word"
type_synonym pid = nat

section \<open>Error numbers\<close>

text \<open>
  A kernel handler reports an error by returning a negative error number; the numbers are those
  of the kernel headers for x86.
\<close>

definition EPERM :: int where "EPERM = 1"
definition ESRCH :: int where "ESRCH = 3"
definition EAGAIN :: int where "EAGAIN = 11"
definition ENOMEM :: int where "ENOMEM = 12"
definition EACCES :: int where "EACCES = 13"
definition EFAULT :: int where "EFAULT = 14"
definition EINVAL :: int where "EINVAL = 22"
definition ENOSYS :: int where "ENOSYS = 38"
definition ERESTARTSYS :: int where "ERESTARTSYS = 512"

lemmas errno_all [errno_defs] =
  EPERM_def ESRCH_def EAGAIN_def ENOMEM_def EACCES_def EFAULT_def EINVAL_def ENOSYS_def
  ERESTARTSYS_def

section \<open>C integer conversions\<close>

text \<open>
  \<open>int32 x\<close> is the value a 32-bit signed \<open>int\<close> holds after the mathematical value \<open>x\<close> was stored
  into it (two's complement); \<open>size_t32 x\<close> is the conversion to a 32-bit unsigned \<open>size_t\<close>.
\<close>

definition int32 :: "int \<Rightarrow> int" where
  "int32 x = (x + 2 ^ 31) mod 2 ^ 32 - 2 ^ 31"

definition size_t32 :: "int \<Rightarrow> nat" where
  "size_t32 x = nat (x mod 2 ^ 32)"

lemma int32_id: "- (2 ^ 31) \<le> x \<Longrightarrow> x < 2 ^ 31 \<Longrightarrow> int32 x = x"
  by (simp add: int32_def)

lemma int32_range: "- (2 ^ 31) \<le> int32 x" "int32 x < 2 ^ 31"
proof -
  have "0 \<le> (x + 2 ^ 31) mod 2 ^ 32" "(x + 2 ^ 31) mod 2 ^ 32 < (2 ^ 32 :: int)"
    by simp_all
  then show "- (2 ^ 31) \<le> int32 x" "int32 x < 2 ^ 31"
    by (simp_all add: int32_def)
qed

lemma int32_even: "even (int32 x) \<longleftrightarrow> even x"
proof -
  have "2 dvd (2 ^ 32 :: int)" by simp
  then have "even ((x + 2 ^ 31) mod 2 ^ 32) \<longleftrightarrow> even (x + 2 ^ 31)"
    by (rule dvd_mod_iff)
  then show ?thesis by (simp add: int32_def)
qed

lemma size_t32_id: "0 \<le> x \<Longrightarrow> x < 2 ^ 32 \<Longrightarrow> size_t32 x = nat x"
  by (simp add: size_t32_def)

text \<open>C's integer division and remainder, which round towards zero.\<close>

definition cdiv :: "int \<Rightarrow> int \<Rightarrow> int" where
  "cdiv a b = sgn a * sgn b * (\<bar>a\<bar> div \<bar>b\<bar>)"

definition cmod :: "int \<Rightarrow> int \<Rightarrow> int" where
  "cmod a b = a - b * cdiv a b"

lemma cdiv_pos: "0 \<le> a \<Longrightarrow> 0 < b \<Longrightarrow> cdiv a b = a div b"
  by (cases "a = 0") (simp_all add: cdiv_def)

lemma cmod_pos: "0 \<le> a \<Longrightarrow> 0 < b \<Longrightarrow> cmod a b = a mod b"
  by (simp add: cmod_def cdiv_pos minus_div_mult_eq_mod [symmetric] mult.commute)

section \<open>Copying between user and kernel space\<close>

text \<open>
  \<open>copy_from_user\<close> with \<open>k\<close> bytes left uncopied pads the rest of the requested \<open>n\<close> bytes with
  zeros, as its kernel documentation says.
\<close>

definition user_bytes :: "nat \<Rightarrow> nat \<Rightarrow> byte list \<Rightarrow> byte list" where
  "user_bytes k n src = take (n - k) src @ replicate (min k n) 0"

section \<open>Writing a block into a buffer\<close>

text \<open>
  \<open>overwrite i ys xs\<close> is the buffer \<open>xs\<close> after the bytes \<open>ys\<close> were copied to offset \<open>i\<close>; it is
  used where \<open>i + length ys \<le> length xs\<close>.
\<close>

definition overwrite :: "nat \<Rightarrow> 'a list \<Rightarrow> 'a list \<Rightarrow> 'a list" where
  "overwrite i ys xs = take i xs @ ys @ drop (i + length ys) xs"

lemma length_overwrite [overwrite_simps]:
  "i + length ys \<le> length xs \<Longrightarrow> length (overwrite i ys xs) = length xs"
  by (simp add: overwrite_def)

lemma take_overwrite [overwrite_simps]:
  "j \<le> i \<Longrightarrow> i \<le> length xs \<Longrightarrow> take j (overwrite i ys xs) = take j xs"
  by (simp add: overwrite_def min_def)

lemma drop_overwrite [overwrite_simps]:
  "i + length ys \<le> j \<Longrightarrow> i + length ys \<le> length xs \<Longrightarrow>
   drop j (overwrite i ys xs) = drop j xs"
  by (simp add: overwrite_def add.commute)

lemma take_overwrite_end [overwrite_simps]:
  "i + length ys \<le> length xs \<Longrightarrow> take (i + length ys) (overwrite i ys xs) = take i xs @ ys"
  by (simp add: overwrite_def)

lemma overwrite_Nil [simp]: "overwrite i [] xs = xs"
  by (simp add: overwrite_def)

text \<open>A segment of a list and how two neighbouring segments join.\<close>

definition segment :: "nat \<Rightarrow> nat \<Rightarrow> 'a list \<Rightarrow> 'a list" where
  "segment i j xs = take (j - i) (drop i xs)"

lemma segment_empty [simp]: "segment i i xs = []"
  by (simp add: segment_def)

lemma length_segment: "j \<le> length xs \<Longrightarrow> length (segment i j xs) = j - i"
  by (simp add: segment_def)

lemma segment_join: "i \<le> j \<Longrightarrow> j \<le> k \<Longrightarrow> segment i k xs = segment i j xs @ segment j k xs"
proof -
  assume "i \<le> j" and "j \<le> k"
  then have "k - i = (j - i) + (k - j)" by simp
  then have "take (k - i) (drop i xs) = take (j - i) (drop i xs) @ take (k - j) (drop (j - i) (drop i xs))"
    by (simp only: take_add)
  then show ?thesis
    using \<open>i \<le> j\<close> by (simp add: segment_def)
qed

lemma take_segment: "n \<le> j - i \<Longrightarrow> i \<le> j \<Longrightarrow> take n (segment i j xs) = segment i (i + n) xs"
  by (simp add: segment_def)

lemma segment_overwrite_before:
  "j \<le> i \<Longrightarrow> i \<le> length xs \<Longrightarrow> segment k j (overwrite i ys xs) = segment k j xs"
  by (simp add: segment_def overwrite_def min_def flip: drop_take)

lemma segment_overwrite_after:
  "i + length ys \<le> k \<Longrightarrow> i + length ys \<le> length xs \<Longrightarrow>
   segment k j (overwrite i ys xs) = segment k j xs"
  by (simp add: segment_def drop_overwrite)

lemma segment_overwrite_in:
  "i + length ys \<le> length xs \<Longrightarrow> segment i (i + length ys) (overwrite i ys xs) = ys"
  by (simp add: segment_def overwrite_def)

end
