(* ===== verification/Fifo.thy ===== *)
theory Fifo
  imports Prelude
begin

text \<open>
  The contract of a bounded byte stream, as a locale: what a client that reads and writes through
  partial transfers may rely on. The transfers are \<open>get n\<close>, which hands out at most \<open>n\<close> elements,
  and \<open>put xs\<close>, which accepts a prefix of \<open>xs\<close>; both may transfer less than asked for. The lemmas
  of the locale are about arbitrary sequences of transfers.
\<close>

datatype 'a fifo_op = Get nat | Put "'a list"

text \<open>
  A run collects everything that was accepted and everything that was handed out.
\<close>

fun fifo_run ::
  "(nat \<Rightarrow> 'd \<Rightarrow> 'd \<times> 'a list) \<Rightarrow> ('a list \<Rightarrow> 'd \<Rightarrow> 'd \<times> 'a list) \<Rightarrow> 'a fifo_op list \<Rightarrow> 'd \<Rightarrow>
   'd \<times> 'a list \<times> 'a list" where
  "fifo_run get put [] d = (d, [], [])"
| "fifo_run get put (Get n # ops) d =
     (let (d1, xs) = get n d; (d2, ins, outs) = fifo_run get put ops d1 in (d2, ins, xs @ outs))"
| "fifo_run get put (Put xs # ops) d =
     (let (d1, ys) = put xs d; (d2, ins, outs) = fifo_run get put ops d1 in (d2, ys @ ins, outs))"

text \<open>Reading \<open>k\<close> times with a user buffer of \<open>n\<close> elements.\<close>

fun drain :: "(nat \<Rightarrow> 'd \<Rightarrow> 'd \<times> 'a list) \<Rightarrow> nat \<Rightarrow> nat \<Rightarrow> 'd \<Rightarrow> 'd \<times> 'a list" where
  "drain get 0 n d = (d, [])"
| "drain get (Suc k) n d =
     (let (d1, xs) = get n d; (d2, ys) = drain get k n d1 in (d2, xs @ ys))"

text \<open>Writing a list with at most \<open>k\<close> calls, each offering what was not yet accepted.\<close>

fun feed :: "('a list \<Rightarrow> 'd \<Rightarrow> 'd \<times> 'a list) \<Rightarrow> nat \<Rightarrow> 'a list \<Rightarrow> 'd \<Rightarrow> 'd \<times> 'a list" where
  "feed put 0 xs d = (d, [])"
| "feed put (Suc k) xs d =
     (let (d1, ys) = put xs d; (d2, zs) = feed put k (drop (length ys) xs) d1 in (d2, ys @ zs))"

locale bounded_fifo =
  fixes invar :: "'d \<Rightarrow> bool"
    and content :: "'d \<Rightarrow> 'a list"
    and room :: "'d \<Rightarrow> nat"
    and get :: "nat \<Rightarrow> 'd \<Rightarrow> 'd \<times> 'a list"
    and put :: "'a list \<Rightarrow> 'd \<Rightarrow> 'd \<times> 'a list"
  assumes get_invar: "invar d \<Longrightarrow> get n d = (d', xs) \<Longrightarrow> invar d'"
    and get_content: "invar d \<Longrightarrow> get n d = (d', xs) \<Longrightarrow> content d = xs @ content d'"
    and get_length: "invar d \<Longrightarrow> get n d = (d', xs) \<Longrightarrow> length xs \<le> n"
    and get_progress:
      "invar d \<Longrightarrow> get n d = (d', xs) \<Longrightarrow> 0 < n \<Longrightarrow> content d \<noteq> [] \<Longrightarrow> xs \<noteq> []"
    and put_invar: "invar d \<Longrightarrow> put xs d = (d', ys) \<Longrightarrow> invar d'"
    and put_content: "invar d \<Longrightarrow> put xs d = (d', ys) \<Longrightarrow> content d' = content d @ ys"
    and put_prefix: "invar d \<Longrightarrow> put xs d = (d', ys) \<Longrightarrow> ys = take (length ys) xs"
    and put_room: "invar d \<Longrightarrow> put xs d = (d', ys) \<Longrightarrow> room d = length ys + room d'"
    and put_progress:
      "invar d \<Longrightarrow> put xs d = (d', ys) \<Longrightarrow> 0 < room d \<Longrightarrow> xs \<noteq> [] \<Longrightarrow> ys \<noteq> []"
begin

lemma run_invar:
  "invar d \<Longrightarrow> fifo_run get put ops d = (d', ins, outs) \<Longrightarrow> invar d'"
proof (induction ops arbitrary: d ins outs)
  case (Cons op ops)
  then show ?case
    by (cases op) (fastforce dest: get_invar put_invar split: prod.splits)+
qed simp

lemma run_fifo:
  "invar d \<Longrightarrow> fifo_run get put ops d = (d', ins, outs) \<Longrightarrow> content d @ ins = outs @ content d'"
proof (induction ops arbitrary: d ins outs)
  case (Cons op ops)
  show ?case
  proof (cases op)
    case (Get n)
    obtain d1 xs where g: "get n d = (d1, xs)" by fastforce
    obtain ins1 outs1 where r: "fifo_run get put ops d1 = (d', ins1, outs1)"
      and e: "ins = ins1" "outs = xs @ outs1"
      using Cons.prems(2) Get g by (auto split: prod.splits)
    have "content d1 @ ins1 = outs1 @ content d'"
      using Cons.IH get_invar [OF Cons.prems(1) g] r by blast
    then show ?thesis using get_content [OF Cons.prems(1) g] e by simp
  next
    case (Put xs)
    obtain d1 ys where p: "put xs d = (d1, ys)" by fastforce
    obtain ins1 outs1 where r: "fifo_run get put ops d1 = (d', ins1, outs1)"
      and e: "ins = ys @ ins1" "outs = outs1"
      using Cons.prems(2) Put p by (auto split: prod.splits)
    have "content d1 @ ins1 = outs1 @ content d'"
      using Cons.IH put_invar [OF Cons.prems(1) p] r by blast
    then show ?thesis using put_content [OF Cons.prems(1) p] e by simp
  qed
qed simp

lemma drain_all:
  "invar d \<Longrightarrow> 0 < n \<Longrightarrow> length (content d) \<le> k \<Longrightarrow> drain get k n d = (d', xs) \<Longrightarrow>
   xs = content d \<and> content d' = []"
proof (induction k arbitrary: d xs)
  case (Suc k)
  obtain d1 ys where g: "get n d = (d1, ys)" by fastforce
  obtain zs where r: "drain get k n d1 = (d', zs)" and e: "xs = ys @ zs"
    using Suc.prems(4) g by (auto split: prod.splits)
  have c: "content d = ys @ content d1" and i: "invar d1"
    using get_content get_invar Suc.prems(1) g by blast+
  have "length (content d1) \<le> k"
  proof (cases "content d = []")
    case True
    then show ?thesis using c by simp
  next
    case False
    then have "ys \<noteq> []" using get_progress [OF Suc.prems(1) g Suc.prems(2)] by simp
    then show ?thesis using Suc.prems(3) c by (cases ys) auto
  qed
  then have "zs = content d1 \<and> content d' = []"
    using Suc.IH [OF i Suc.prems(2) _ r] by simp
  then show ?case using c e by simp
qed simp

lemma feed_invar:
  "invar d \<Longrightarrow> feed put k xs d = (d', ys) \<Longrightarrow> invar d'"
  by (induction k arbitrary: d xs ys) (auto dest: put_invar split: prod.splits)

lemma feed_all:
  "invar d \<Longrightarrow> length xs \<le> room d \<Longrightarrow> length xs \<le> k \<Longrightarrow> feed put k xs d = (d', ys) \<Longrightarrow>
   ys = xs \<and> content d' = content d @ xs"
proof (induction k arbitrary: d xs ys)
  case (Suc k)
  obtain d1 us where p: "put xs d = (d1, us)" by fastforce
  obtain vs where r: "feed put k (drop (length us) xs) d1 = (d', vs)" and e: "ys = us @ vs"
    using Suc.prems(4) p by (auto split: prod.splits)
  have us: "us = take (length us) xs" and i: "invar d1"
    and c: "content d1 = content d @ us" and rm: "room d = length us + room d1"
    using put_prefix put_invar put_content put_room Suc.prems(1) p by blast+
  have "us \<noteq> []" if "xs \<noteq> []"
    using put_progress [OF Suc.prems(1) p _ that] Suc.prems(2) that by (cases xs) auto
  then have "length (drop (length us) xs) \<le> k"
    using Suc.prems(3) by (cases us; cases xs) auto
  moreover have "length (drop (length us) xs) \<le> room d1"
    using Suc.prems(2) rm by simp
  ultimately have "vs = drop (length us) xs \<and> content d' = content d1 @ drop (length us) xs"
    using Suc.IH [OF i _ _ r] by blast
  moreover have "us @ drop (length us) xs = xs"
    using us by (metis append_take_drop_id)
  ultimately show ?case using c e by simp
qed simp

text \<open>What fits into an empty stream can be written and read back in any portions.\<close>

lemma feed_drain:
  assumes "invar d" and "content d = []" and "length xs \<le> room d" and "0 < n"
    and "feed put (length xs) xs d = (d1, ys)" and "drain get (length xs) n d1 = (d2, zs)"
  shows "ys = xs \<and> zs = xs \<and> content d2 = []"
proof -
  have y: "ys = xs" "content d1 = xs"
    using feed_all [OF assms(1,3) order.refl assms(5)] assms(2) by simp_all
  have "invar d1" using feed_invar assms(1,5) by blast
  then have "zs = content d1 \<and> content d2 = []"
    using drain_all [of d1 n "length xs" d2 zs] assms(4,6) y by simp
  with y show ?thesis by simp
qed

end

end
