(* ===== verification/ScullPipe.thy ===== *)
theory ScullPipe
  imports Fifo
begin

text \<open>
  The character-device pipe driver (\<open>src/7/pipe/scull_pipe.c\<close>). A device is a circular buffer
  shared by readers and writers and guarded by a semaphore. Each file operation is a small-step
  machine: its program counter names the places where the call can lose the processor (taking
  the semaphore, sleeping on a wait queue, waking the other side after the semaphore was
  released), so that interleavings of calls are sequences of steps.

  Pointers into the buffer (\<open>end\<close>, \<open>rp\<close>, \<open>wp\<close>) are offsets from \<open>buffer\<close>. What the kernel
  decides is an input of each step (record \<open>kenv\<close>): whether a signal is pending, how many bytes
  \<open>copy_to_user\<close>/\<open>copy_from_user\<close> left uncopied, what \<open>kmalloc\<close> returned. The field \<open>sigio\<close> records to
  whom \<open>kill_fasync\<close> has sent \<open>SIGIO\<close>. A wait queue of the source holds two kinds of entries: those of
  sleeping reads and writes, which a wake-up takes off the queue (\<open>inq\<close>, \<open>outq\<close>), and those of
  \<open>poll_wait\<close>, which a wake-up leaves there until the poll ends (\<open>inq_poll\<close>, \<open>outq_poll\<close>).
\<close>

section \<open>State\<close>

record scull_pipe =
  inq :: "pid list"
  outq :: "pid list"
  buffer :: "byte list option"
  end_off :: nat
  buffersize :: int
  rp :: nat
  wp :: nat
  nreaders :: int
  nwriters :: int
  async_queue :: "pid list"
  sem :: nat
  sigio :: "pid list"
  inq_poll :: "pid list"
  outq_poll :: "pid list"

record pfile =
  f_nonblock :: bool
  f_read :: bool
  f_write :: bool

record kenv =
  ke_signal :: bool
  ke_uncopied :: nat
  ke_alloc :: "byte list option"

text \<open>The bytes at \<open>dev->buffer\<close>; nothing when the pointer is \<open>NULL\<close>.\<close>

definition buf_bytes :: "scull_pipe \<Rightarrow> byte list" where
  "buf_bytes d = (case buffer d of None \<Rightarrow> [] | Some bs \<Rightarrow> bs)"

definition up :: "scull_pipe \<Rightarrow> scull_pipe" where
  "up d = d\<lparr>sem := sem d + 1\<rparr>"

text \<open>
  \<open>down_interruptible\<close>: take the semaphore if it is free; otherwise a pending signal makes the
  call fail, and without one the caller keeps waiting.
\<close>

datatype down_result = Acquired scull_pipe | Interrupted | Waiting

definition down_interruptible :: "kenv \<Rightarrow> scull_pipe \<Rightarrow> down_result" where
  "down_interruptible e d =
     (if 0 < sem d then Acquired (d\<lparr>sem := sem d - 1\<rparr>)
      else if ke_signal e then Interrupted else Waiting)"

definition prepare_to_wait :: "pid \<Rightarrow> pid list \<Rightarrow> pid list" where
  "prepare_to_wait p q = (if p \<in> set q then q else p # q)"

definition finish_wait :: "pid \<Rightarrow> pid list \<Rightarrow> pid list" where
  "finish_wait p q = filter (\<lambda>x. x \<noteq> p) q"

section \<open>Free space\<close>

definition spacefree :: "scull_pipe \<Rightarrow> int" where
  "spacefree d =
     (if rp d = wp d then buffersize d - 1
      else (int (rp d) + buffersize d - int (wp d)) mod buffersize d - 1)"

section \<open>Opening a device\<close>

datatype open_pc = O_down | O_locked | O_ret int

text \<open>
  \<open>pbuf\<close> is the module parameter \<open>scull_p_buffer\<close>. \<open>open_reset\<close> is what the code does once the
  buffer exists: the positions restart at the beginning of the buffer and the opening is counted.
\<close>

definition open_reset :: "int \<Rightarrow> pfile \<Rightarrow> scull_pipe \<Rightarrow> scull_pipe" where
  "open_reset pbuf f d =
     d\<lparr>buffersize := pbuf, end_off := nat pbuf, rp := 0, wp := 0,
       nreaders := (if f_read f then nreaders d + 1 else nreaders d),
       nwriters := (if f_write f then nwriters d + 1 else nwriters d)\<rparr>"

fun scull_p_open_step :: "int \<Rightarrow> kenv \<Rightarrow> pfile \<Rightarrow> scull_pipe \<Rightarrow> open_pc \<Rightarrow> scull_pipe \<times> open_pc" where
  "scull_p_open_step pbuf e f d O_down =
     (case down_interruptible e d of
        Acquired d' \<Rightarrow> (d', O_locked)
      | Interrupted \<Rightarrow> (d, O_ret (- ERESTARTSYS))
      | Waiting \<Rightarrow> (d, O_down))"
| "scull_p_open_step pbuf e f d O_locked =
     (case buffer d of
        Some _ \<Rightarrow> (up (open_reset pbuf f d), O_ret 0)
      | None \<Rightarrow>
          (case ke_alloc e of
             None \<Rightarrow> (up d, O_ret (- ENOMEM))
           | Some bs \<Rightarrow> (up (open_reset pbuf f (d\<lparr>buffer := Some bs\<rparr>)), O_ret 0)))"
| "scull_p_open_step pbuf e f d (O_ret r) = (d, O_ret r)"

section \<open>Releasing a file\<close>

datatype release_pc = L_down | L_locked | L_ret int

text \<open>
  \<open>fasync_helper\<close> with \<open>on = 0\<close> takes the file off the list of asynchronously notified files,
  otherwise it puts it there.
\<close>

definition scull_p_fasync :: "pid \<Rightarrow> bool \<Rightarrow> scull_pipe \<Rightarrow> scull_pipe" where
  "scull_p_fasync p mode d =
     d\<lparr>async_queue := (if mode then prepare_to_wait p (async_queue d)
                       else finish_wait p (async_queue d))\<rparr>"

definition release_counts :: "pfile \<Rightarrow> scull_pipe \<Rightarrow> scull_pipe" where
  "release_counts f d =
     d\<lparr>nreaders := (if f_read f then nreaders d - 1 else nreaders d),
       nwriters := (if f_write f then nwriters d - 1 else nwriters d)\<rparr>"

fun scull_p_release_step :: "pid \<Rightarrow> pfile \<Rightarrow> scull_pipe \<Rightarrow> release_pc \<Rightarrow> scull_pipe \<times> release_pc" where
  "scull_p_release_step p f d L_down =
     (let d = scull_p_fasync p False d
      in if 0 < sem d then (d\<lparr>sem := sem d - 1\<rparr>, L_locked) else (d, L_down))"
| "scull_p_release_step p f d L_locked =
     (let d = release_counts f d;
          d = (if nreaders d + nwriters d = 0 then d\<lparr>buffer := None\<rparr> else d)
      in (up d, L_ret 0))"
| "scull_p_release_step p f d (L_ret r) = (d, L_ret r)"

section \<open>Reading\<close>

datatype read_pc =
    R_down | R_locked | R_wait | R_prepare | R_check | R_sleep
  | R_wake int "byte list" | R_ret int "byte list"

definition read_count :: "nat \<Rightarrow> scull_pipe \<Rightarrow> nat" where
  "read_count count d =
     (if rp d < wp d then min count (wp d - rp d) else min count (end_off d - rp d))"

definition advance_rp :: "nat \<Rightarrow> scull_pipe \<Rightarrow> scull_pipe" where
  "advance_rp n d = d\<lparr>rp := (if rp d + n = end_off d then 0 else rp d + n)\<rparr>"

text \<open>
  The part of \<open>scull_p_read\<close> that moves data: what is handed to the user and the device after it.
\<close>

definition read_data :: "nat \<Rightarrow> scull_pipe \<Rightarrow> scull_pipe \<times> byte list" where
  "read_data count d =
     (let n = read_count count d
      in (advance_rp n d, segment (rp d) (rp d + n) (buf_bytes d)))"

text \<open>
  The second component of \<open>R_wake\<close> and \<open>R_ret\<close> is what was put into the user's buffer. A call
  that has to sleep leaves the loop only through the semaphore, so the loop of the source is the
  cycle \<open>R_locked\<close>, \<open>R_wait\<close>, ..., \<open>R_down\<close>. The macro \<open>wait_event_interruptible\<close> first tests its
  condition without queueing (\<open>R_wait\<close>); then it queues the caller (\<open>R_prepare\<close>), tests again, looks
  for a signal (\<open>R_check\<close>) and sleeps (\<open>R_sleep\<close>) until a wake-up has taken the caller off the queue
  or a signal arrives, which leads back to \<open>R_prepare\<close>.
\<close>

fun scull_p_read_step ::
  "kenv \<Rightarrow> pid \<Rightarrow> pfile \<Rightarrow> nat \<Rightarrow> scull_pipe \<Rightarrow> read_pc \<Rightarrow> scull_pipe \<times> read_pc" where
  "scull_p_read_step e p f count d R_down =
     (case down_interruptible e d of
        Acquired d' \<Rightarrow> (d', R_locked)
      | Interrupted \<Rightarrow> (d, R_ret (- ERESTARTSYS) [])
      | Waiting \<Rightarrow> (d, R_down))"
| "scull_p_read_step e p f count d R_locked =
     (if rp d = wp d then
        (if f_nonblock f then (up d, R_ret (- EAGAIN) []) else (up d, R_wait))
      else
        if min (ke_uncopied e) (read_count count d) \<noteq> 0 then (up d, R_ret (- EFAULT) [])
        else let (d', bs) = read_data count d in (up d', R_wake (int (length bs)) bs))"
| "scull_p_read_step e p f count d R_wait =
     (if rp d \<noteq> wp d then (d, R_down) else (d, R_prepare))"
| "scull_p_read_step e p f count d R_prepare = (d\<lparr>inq := prepare_to_wait p (inq d)\<rparr>, R_check)"
| "scull_p_read_step e p f count d R_check =
     (if rp d \<noteq> wp d then (d\<lparr>inq := finish_wait p (inq d)\<rparr>, R_down)
      else if ke_signal e then (d\<lparr>inq := finish_wait p (inq d)\<rparr>, R_ret (- ERESTARTSYS) [])
      else (d, R_sleep))"
| "scull_p_read_step e p f count d R_sleep =
     (if p \<in> set (inq d) \<and> \<not> ke_signal e then (d, R_sleep) else (d, R_prepare))"
| "scull_p_read_step e p f count d (R_wake r bs) = (d\<lparr>outq := []\<rparr>, R_ret r bs)"
| "scull_p_read_step e p f count d (R_ret r bs) = (d, R_ret r bs)"

section \<open>Writing\<close>

datatype write_pc =
  W_down | W_locked | W_prepare | W_check | W_sleep | W_wake int "byte list" | W_ret int "byte list"

definition write_count :: "nat \<Rightarrow> scull_pipe \<Rightarrow> nat" where
  "write_count count d =
     (let n = min count (size_t32 (spacefree d)) in
      if rp d \<le> wp d then min n (end_off d - wp d)
      else min n (size_t32 (int (rp d) - int (wp d) - 1)))"

definition store_at_wp :: "byte list \<Rightarrow> scull_pipe \<Rightarrow> scull_pipe" where
  "store_at_wp bs d = d\<lparr>buffer := map_option (overwrite (wp d) bs) (buffer d)\<rparr>"

definition advance_wp :: "nat \<Rightarrow> scull_pipe \<Rightarrow> scull_pipe" where
  "advance_wp n d = d\<lparr>wp := (if wp d + n = end_off d then 0 else wp d + n)\<rparr>"

text \<open>The part of \<open>scull_p_write\<close> that moves data, when \<open>copy_from_user\<close> succeeds.\<close>

definition write_data :: "byte list \<Rightarrow> scull_pipe \<Rightarrow> scull_pipe \<times> byte list" where
  "write_data src d =
     (let n = write_count (length src) d
      in (advance_wp n (store_at_wp (user_bytes 0 n src) d), take n src))"

text \<open>
  \<open>W_locked\<close> is the loop test of \<open>scull_getwritespace\<close> with the semaphore held, \<open>W_prepare\<close>,
  \<open>W_check\<close> and \<open>W_sleep\<close> are its body after the semaphore was released; when there is space the
  rest of \<open>scull_p_write\<close> follows. The byte list of \<open>W_wake\<close> and \<open>W_ret\<close> is what was accepted.
\<close>

fun scull_getwritespace_step ::
  "kenv \<Rightarrow> pid \<Rightarrow> scull_pipe \<Rightarrow> write_pc \<Rightarrow> scull_pipe \<times> write_pc" where
  "scull_getwritespace_step e p d W_prepare = (d\<lparr>outq := prepare_to_wait p (outq d)\<rparr>, W_check)"
| "scull_getwritespace_step e p d W_check =
     (if spacefree d = 0 then (d, W_sleep)
      else (d\<lparr>outq := finish_wait p (outq d)\<rparr>,
            if ke_signal e then W_ret (- ERESTARTSYS) [] else W_down))"
| "scull_getwritespace_step e p d W_sleep =
     (if p \<in> set (outq d) \<and> \<not> ke_signal e then (d, W_sleep)
      else (d\<lparr>outq := finish_wait p (outq d)\<rparr>,
            if ke_signal e then W_ret (- ERESTARTSYS) [] else W_down))"
| "scull_getwritespace_step e p d pc = (d, pc)"

fun scull_p_write_step ::
  "kenv \<Rightarrow> pid \<Rightarrow> pfile \<Rightarrow> byte list \<Rightarrow> scull_pipe \<Rightarrow> write_pc \<Rightarrow> scull_pipe \<times> write_pc" where
  "scull_p_write_step e p f src d W_down =
     (case down_interruptible e d of
        Acquired d' \<Rightarrow> (d', W_locked)
      | Interrupted \<Rightarrow> (d, W_ret (- ERESTARTSYS) [])
      | Waiting \<Rightarrow> (d, W_down))"
| "scull_p_write_step e p f src d W_locked =
     (if spacefree d = 0 then
        (if f_nonblock f then (up d, W_ret (- EAGAIN) []) else (up d, W_prepare))
      else
        let n = write_count (length src) d; k = min (ke_uncopied e) n in
        if k \<noteq> 0 then (up (store_at_wp (user_bytes k n src) d), W_ret (- EFAULT) [])
        else let (d', bs) = write_data src d in (up d', W_wake (int (length bs)) bs))"
| "scull_p_write_step e p f src d (W_wake r bs) =
     (d\<lparr>inq := [], sigio := sigio d @ async_queue d\<rparr>, W_ret r bs)"
| "scull_p_write_step e p f src d (W_ret r bs) = (d, W_ret r bs)"
| "scull_p_write_step e p f src d W_prepare = scull_getwritespace_step e p d W_prepare"
| "scull_p_write_step e p f src d W_check = scull_getwritespace_step e p d W_check"
| "scull_p_write_step e p f src d W_sleep = scull_getwritespace_step e p d W_sleep"

section \<open>Polling\<close>

datatype poll_pc = P_down | P_locked | P_ret int

text \<open>The event bits of the poll interface.\<close>

definition POLLIN :: int where "POLLIN = 0x1"
definition POLLOUT :: int where "POLLOUT = 0x4"
definition POLLRDNORM :: int where "POLLRDNORM = 0x40"
definition POLLWRNORM :: int where "POLLWRNORM = 0x100"

definition poll_mask :: "scull_pipe \<Rightarrow> int" where
  "poll_mask d =
     (if rp d \<noteq> wp d then POLLIN + POLLRDNORM else 0) +
     (if spacefree d \<noteq> 0 then POLLOUT + POLLWRNORM else 0)"

text \<open>
  \<open>poll_wait\<close> queues the caller when it is given a poll table; \<open>wait\<close> says whether the table is there
  (the kernel passes \<open>NULL\<close> when it does not mean to sleep). \<open>poll_freewait\<close> takes the caller off both
  queues when its poll ends.
\<close>

definition poll_wait :: "pid \<Rightarrow> bool \<Rightarrow> pid list \<Rightarrow> pid list" where
  "poll_wait p wait q = (if wait then prepare_to_wait p q else q)"

definition poll_freewait :: "pid \<Rightarrow> scull_pipe \<Rightarrow> scull_pipe" where
  "poll_freewait p d =
     d\<lparr>inq_poll := finish_wait p (inq_poll d), outq_poll := finish_wait p (outq_poll d)\<rparr>"

fun scull_p_poll_step :: "pid \<Rightarrow> bool \<Rightarrow> scull_pipe \<Rightarrow> poll_pc \<Rightarrow> scull_pipe \<times> poll_pc" where
  "scull_p_poll_step p wait d P_down =
     (if 0 < sem d then (d\<lparr>sem := sem d - 1\<rparr>, P_locked) else (d, P_down))"
| "scull_p_poll_step p wait d P_locked =
     (up (d\<lparr>inq_poll := poll_wait p wait (inq_poll d), outq_poll := poll_wait p wait (outq_poll d)\<rparr>),
      P_ret (poll_mask d))"
| "scull_p_poll_step p wait d (P_ret m) = (d, P_ret m)"

section \<open>The buffer as a bounded FIFO\<close>

definition pipe_inv :: "scull_pipe \<Rightarrow> bool" where
  "pipe_inv d =
     (case buffer d of
        None \<Rightarrow> True
      | Some bs \<Rightarrow>
          0 < length bs \<and> length bs < 2 ^ 31 \<and> buffersize d = int (length bs) \<and>
          end_off d = length bs \<and> rp d < length bs \<and> wp d < length bs)"

definition contents :: "scull_pipe \<Rightarrow> byte list" where
  "contents d =
     (if rp d \<le> wp d then segment (rp d) (wp d) (buf_bytes d)
      else segment (rp d) (length (buf_bytes d)) (buf_bytes d) @ segment 0 (wp d) (buf_bytes d))"

lemma pipe_inv_Some:
  "buffer d = Some bs \<Longrightarrow>
   pipe_inv d \<longleftrightarrow> 0 < length bs \<and> length bs < 2 ^ 31 \<and> buffersize d = int (length bs) \<and>
     end_off d = length bs \<and> rp d < length bs \<and> wp d < length bs"
  by (simp add: pipe_inv_def)

lemma buf_bytes_simps [simp]:
  "buffer d = Some bs \<Longrightarrow> buf_bytes d = bs"
  "buffer d = None \<Longrightarrow> buf_bytes d = []"
  by (simp_all add: buf_bytes_def)

lemma contents_None [simp]: "buffer d = None \<Longrightarrow> contents d = []"
  by (simp add: contents_def segment_def)

lemma contents_empty:
  assumes "pipe_inv d" and "buffer d = Some bs"
  shows "contents d = [] \<longleftrightarrow> rp d = wp d"
  using assms by (auto simp: contents_def pipe_inv_Some segment_def)

lemma length_contents:
  assumes "pipe_inv d" and "buffer d = Some bs"
  shows "length (contents d) =
    (if rp d \<le> wp d then wp d - rp d else length bs - rp d + wp d)"
  using assms by (simp add: contents_def pipe_inv_Some length_segment)

lemma spacefree_contents:
  assumes "pipe_inv d" and "buffer d = Some bs"
  shows "spacefree d = int (length bs) - 1 - int (length (contents d))"
proof -
  have b: "rp d < length bs" "wp d < length bs" "buffersize d = int (length bs)"
    using assms by (simp_all add: pipe_inv_Some)
  consider "rp d = wp d" | "rp d < wp d" | "wp d < rp d" by linarith
  then show ?thesis
  proof cases
    case 1
    then show ?thesis using b assms by (simp add: spacefree_def length_contents)
  next
    case 2
    then have "(int (rp d) + int (length bs) - int (wp d)) mod int (length bs) =
        int (rp d) + int (length bs) - int (wp d)"
      using b by (intro mod_pos_pos_trivial) simp_all
    then show ?thesis using 2 b assms by (simp add: spacefree_def length_contents)
  next
    case 3
    have "int (rp d) + int (length bs) - int (wp d) = (int (rp d) - int (wp d)) + int (length bs)"
      by simp
    then have "(int (rp d) + int (length bs) - int (wp d)) mod int (length bs) =
        (int (rp d) - int (wp d)) mod int (length bs)"
      by (simp only: mod_add_self2)
    also have "\<dots> = int (rp d) - int (wp d)"
      using 3 b by (intro mod_pos_pos_trivial) simp_all
    finally show ?thesis using 3 b assms by (simp add: spacefree_def length_contents)
  qed
qed

lemma read_count_le:
  assumes "pipe_inv d" and "buffer d = Some bs" and "rp d \<noteq> wp d"
  shows "rp d + read_count n d \<le> length bs"
    and "rp d < wp d \<Longrightarrow> rp d + read_count n d \<le> wp d"
  using assms by (auto simp: pipe_inv_Some read_count_def)

lemma read_count_pos:
  assumes "pipe_inv d" and "buffer d = Some bs" and "rp d \<noteq> wp d" and "0 < n"
  shows "0 < read_count n d"
  using assms by (auto simp: pipe_inv_Some read_count_def)

lemma read_data_laws:
  assumes inv: "pipe_inv d" and b: "buffer d = Some bs" and ne: "rp d \<noteq> wp d"
    and r: "read_data n d = (d', xs)"
  shows "pipe_inv d'" and "contents d = xs @ contents d'"
    and "length xs = read_count n d" and "buffer d' = buffer d"
proof -
  let ?n = "read_count n d"
  note le = read_count_le [OF inv b ne, of n]
  have f: "rp d < length bs" "wp d < length bs" "end_off d = length bs"
    "0 < length bs" "length bs < 2 ^ 31" "buffersize d = int (length bs)"
    using inv b by (simp_all add: pipe_inv_Some)
  have d': "d' = advance_rp ?n d" and xs: "xs = segment (rp d) (rp d + ?n) bs"
    using r b by (simp_all add: read_data_def Let_def)
  show "buffer d' = buffer d" by (simp add: d' advance_rp_def)
  with b f le show "pipe_inv d'" by (auto simp: d' advance_rp_def pipe_inv_Some)
  show "length xs = ?n" using le by (simp add: xs length_segment)
  have b': "buf_bytes d' = bs" using b by (simp add: d' advance_rp_def)
  show "contents d = xs @ contents d'"
  proof (cases "rp d < wp d")
    case True
    then have l: "rp d + ?n \<le> wp d" by (rule le)
    with f have w: "rp d + ?n \<noteq> length bs" by simp
    show ?thesis
      using True l w b f
      by (simp add: contents_def b' xs) (simp add: d' advance_rp_def segment_join [of "rp d" "rp d + ?n" "wp d"])
  next
    case False
    with ne have lt: "wp d < rp d" by simp
    show ?thesis
    proof (cases "rp d + ?n = length bs")
      case True
      then show ?thesis
        using lt b f by (simp add: contents_def b' xs) (simp add: d' advance_rp_def)
    next
      case False
      with le have "rp d + ?n < length bs" by simp
      then show ?thesis
        using lt b f segment_join [of "rp d" "rp d + ?n" "length bs" bs]
        by (simp add: contents_def b' xs) (simp add: d' advance_rp_def)
    qed
  qed
qed

lemma write_count_le:
  assumes inv: "pipe_inv d" and b: "buffer d = Some bs"
  shows "write_count n d \<le> n"
    and "wp d + write_count n d \<le> length bs"
    and "wp d < rp d \<Longrightarrow> wp d + write_count n d < rp d"
    and "int (write_count n d) \<le> spacefree d"
proof -
  have f: "rp d < length bs" "wp d < length bs" "end_off d = length bs"
    "length bs < 2 ^ 31" "buffersize d = int (length bs)"
    using inv b by (simp_all add: pipe_inv_Some)
  have sf: "0 \<le> spacefree d" "spacefree d < 2 ^ 31"
    using f by (auto simp: spacefree_contents [OF inv b] length_contents [OF inv b])
  show "write_count n d \<le> n"
    by (auto simp: write_count_def Let_def)
  show "wp d + write_count n d \<le> length bs"
    using f by (auto simp: write_count_def Let_def size_t32_def)
  show "wp d < rp d \<Longrightarrow> wp d + write_count n d < rp d"
    using f by (auto simp: write_count_def Let_def size_t32_id)
  show "int (write_count n d) \<le> spacefree d"
    using sf by (auto simp: write_count_def Let_def size_t32_id)
qed

lemma write_count_pos:
  assumes inv: "pipe_inv d" and b: "buffer d = Some bs" and "spacefree d \<noteq> 0" and "0 < n"
  shows "0 < write_count n d"
proof -
  have f: "rp d < length bs" "wp d < length bs" "end_off d = length bs"
    "length bs < 2 ^ 31" "buffersize d = int (length bs)"
    using inv b by (simp_all add: pipe_inv_Some)
  have sf: "0 < spacefree d" "spacefree d < 2 ^ 31"
    using f assms(3) by (auto simp: spacefree_contents [OF inv b] length_contents [OF inv b]
      split: if_splits)
  have "wp d < rp d \<Longrightarrow> 1 < rp d - wp d"
    using sf f by (simp add: spacefree_contents [OF inv b] length_contents [OF inv b])
  then show ?thesis
    using f sf \<open>0 < n\<close> by (auto simp: write_count_def Let_def size_t32_id)
qed

lemma store_at_wp_laws:
  assumes inv: "pipe_inv d" and b: "buffer d = Some bs"
    and l: "wp d + length ys \<le> length bs" and r: "wp d < rp d \<Longrightarrow> wp d + length ys \<le> rp d"
  shows "pipe_inv (store_at_wp ys d)" and "contents (store_at_wp ys d) = contents d"
    and "buffer (store_at_wp ys d) = Some (overwrite (wp d) ys bs)"
proof -
  have f: "rp d < length bs" "wp d < length bs" using inv b by (simp_all add: pipe_inv_Some)
  show b': "buffer (store_at_wp ys d) = Some (overwrite (wp d) ys bs)"
    using b by (simp add: store_at_wp_def)
  show "pipe_inv (store_at_wp ys d)"
    using inv b l b' by (simp add: pipe_inv_Some length_overwrite) (simp add: store_at_wp_def)
  have len: "length (overwrite (wp d) ys bs) = length bs"
    using l by (rule length_overwrite)
  show "contents (store_at_wp ys d) = contents d"
  proof (cases "rp d \<le> wp d")
    case True
    then show ?thesis
      using f b b' l
      by (simp add: contents_def) (simp add: store_at_wp_def segment_overwrite_before)
  next
    case False
    then have "wp d + length ys \<le> rp d" using r by simp
    with False show ?thesis
      using f b b' l len
      by (simp add: contents_def)
        (simp add: store_at_wp_def segment_overwrite_before segment_overwrite_after)
  qed
qed

lemma length_user_bytes: "n \<le> length src \<Longrightarrow> length (user_bytes k n src) = n"
  by (simp add: user_bytes_def)

lemma user_bytes_0 [simp]: "user_bytes 0 n src = take n src"
  by (simp add: user_bytes_def)

lemma failed_copy_laws:
  fixes k :: nat and src :: "byte list"
  assumes inv: "pipe_inv d" and b: "buffer d = Some bs"
  defines "ys \<equiv> user_bytes k (write_count (length src) d) src"
  shows "pipe_inv (store_at_wp ys d)" and "contents (store_at_wp ys d) = contents d"
proof -
  note wc = write_count_le [OF inv b, of "length src"]
  have "length ys = write_count (length src) d"
    unfolding ys_def by (rule length_user_bytes) (rule wc)
  with wc have "wp d + length ys \<le> length bs" "wp d < rp d \<Longrightarrow> wp d + length ys \<le> rp d"
    by (simp, fastforce)
  then show "pipe_inv (store_at_wp ys d)" and "contents (store_at_wp ys d) = contents d"
    by (auto intro!: store_at_wp_laws [OF inv b])
qed

lemma write_data_laws:
  assumes inv: "pipe_inv d" and b: "buffer d = Some bs"
    and w: "write_data src d = (d', xs)"
  shows "pipe_inv d'" and "contents d' = contents d @ xs"
    and "xs = take (write_count (length src) d) src" and "buffer d' \<noteq> None"
proof -
  let ?n = "write_count (length src) d"
  let ?ys = "take ?n src"
  note wc = write_count_le [OF inv b, of "length src"]
  have d': "d' = advance_wp ?n (store_at_wp ?ys d)" and xs: "xs = ?ys"
    using w by (auto simp: write_data_def Let_def)
  show "xs = take ?n src" by (rule xs)
  have f: "rp d < length bs" "wp d < length bs" "end_off d = length bs"
    "0 < length bs" "length bs < 2 ^ 31" "buffersize d = int (length bs)"
    using inv b by (simp_all add: pipe_inv_Some)
  have len: "length ?ys = ?n" using wc by simp
  have b': "buffer d' = Some (overwrite (wp d) ?ys bs)"
    using b by (simp add: d' advance_wp_def store_at_wp_def)
  then show "buffer d' \<noteq> None" by simp
  have lo: "length (overwrite (wp d) ?ys bs) = length bs"
    using wc len by (intro length_overwrite) simp
  have pos: "rp d' = rp d" "wp d' = (if wp d + ?n = length bs then 0 else wp d + ?n)"
    "end_off d' = end_off d" "buffersize d' = buffersize d"
    using f by (simp_all add: d' advance_wp_def store_at_wp_def)
  show "pipe_inv d'" using f wc lo by (auto simp: pipe_inv_Some [OF b'] pos)
  have in_seg: "segment (wp d) (wp d + ?n) (overwrite (wp d) ?ys bs) = ?ys"
    using segment_overwrite_in [of "wp d" ?ys bs] wc len by simp
  show "contents d' = contents d @ xs"
  proof (cases "rp d \<le> wp d")
    case True
    have before: "segment (rp d) (wp d) (overwrite (wp d) ?ys bs) = segment (rp d) (wp d) bs"
      using f by (intro segment_overwrite_before) simp_all
    have j: "segment (rp d) (wp d + ?n) (overwrite (wp d) ?ys bs) = segment (rp d) (wp d) bs @ ?ys"
      using True in_seg before segment_join [of "rp d" "wp d" "wp d + ?n" "overwrite (wp d) ?ys bs"]
      by simp
    have "wp d + ?n = length bs \<Longrightarrow> 0 < rp d"
      using wc(4) True by (simp add: spacefree_contents [OF inv b] length_contents [OF inv b])
    then show ?thesis
      using True j b b' lo by (auto simp: contents_def pos xs)
  next
    case False
    then have lt: "wp d + ?n < rp d" using wc(3) by simp
    with f have "wp d + ?n \<noteq> length bs" by simp
    moreover have "segment (rp d) (length bs) (overwrite (wp d) ?ys bs) = segment (rp d) (length bs) bs"
      using lt f len by (intro segment_overwrite_after) simp_all
    moreover have "segment 0 (wp d) (overwrite (wp d) ?ys bs) = segment 0 (wp d) bs"
      using f by (intro segment_overwrite_before) simp_all
    ultimately show ?thesis
      using False lt b b' lo in_seg segment_join [of 0 "wp d" "wp d + ?n" "overwrite (wp d) ?ys bs"]
      by (simp add: contents_def pos xs)
  qed
qed

text \<open>
  One successful pass through the critical section of \<open>scull_p_read\<close> and \<open>scull_p_write\<close>, with
  nothing transferred where the source goes back to sleep.
\<close>

definition pipe_get :: "nat \<Rightarrow> scull_pipe \<Rightarrow> scull_pipe \<times> byte list" where
  "pipe_get n d = (if rp d = wp d then (d, []) else read_data n d)"

definition pipe_put :: "byte list \<Rightarrow> scull_pipe \<Rightarrow> scull_pipe \<times> byte list" where
  "pipe_put xs d = (if spacefree d = 0 then (d, []) else write_data xs d)"

definition live_pipe :: "scull_pipe \<Rightarrow> bool" where
  "live_pipe d \<longleftrightarrow> pipe_inv d \<and> buffer d \<noteq> None"

lemma live_pipeE:
  assumes "live_pipe d" obtains bs where "pipe_inv d" "buffer d = Some bs"
  using assms by (auto simp: live_pipe_def)

lemma write_data_room:
  assumes inv: "pipe_inv d" and b: "buffer d = Some bs" and w: "write_data src d = (d', xs)"
  shows "nat (spacefree d) = length xs + nat (spacefree d')"
proof -
  note laws = write_data_laws [OF inv b w]
  have "buffer d' = Some (overwrite (wp d) xs bs)"
    using w b by (auto simp: write_data_def Let_def advance_wp_def store_at_wp_def)
  moreover have "wp d + length xs \<le> length bs"
    using laws(3) write_count_le(2) [OF inv b, of "length src"] by simp
  ultimately have b': "buffer d' = Some (overwrite (wp d) xs bs)"
    "length (overwrite (wp d) xs bs) = length bs"
    by (simp_all add: length_overwrite)
  have "length (contents d') = length (contents d) + length xs"
    using laws(2) by simp
  moreover have "int (length xs) \<le> spacefree d"
    using laws(3) write_count_le [OF inv b, of "length src"] by simp
  ultimately show ?thesis
    using spacefree_contents [OF inv b] spacefree_contents [OF laws(1) b'(1)] b'(2) by simp
qed

interpretation pipe_fifo:
  bounded_fifo live_pipe contents "\<lambda>d. nat (spacefree d)" pipe_get pipe_put
proof unfold_locales
  fix d n d' xs
  assume l: "live_pipe d" and g: "pipe_get n d = (d', xs :: byte list)"
  then obtain bs where inv: "pipe_inv d" and b: "buffer d = Some bs" by (auto elim: live_pipeE)
  show "live_pipe d'" and "contents d = xs @ contents d'"
    using l g b inv read_data_laws [OF inv b]
    by (auto simp: pipe_get_def live_pipe_def split: if_splits)
  have "read_count n d \<le> n" by (auto simp: read_count_def)
  then show "length xs \<le> n"
    using g read_data_laws(3) [OF inv b] by (auto simp: pipe_get_def split: if_splits)
  show "xs \<noteq> []" if "0 < n" "contents d \<noteq> []"
  proof -
    have ne: "rp d \<noteq> wp d" using that(2) contents_empty [OF inv b] by simp
    then have "length xs = read_count n d"
      using g read_data_laws(3) [OF inv b ne] by (simp add: pipe_get_def)
    then show ?thesis using read_count_pos [OF inv b ne that(1)] by auto
  qed
next
  fix d xs d' ys
  assume l: "live_pipe d" and p: "pipe_put xs d = (d', ys :: byte list)"
  then obtain bs where inv: "pipe_inv d" and b: "buffer d = Some bs" by (auto elim: live_pipeE)
  show "live_pipe d'" and "contents d' = contents d @ ys"
    using l p b inv write_data_laws [OF inv b]
    by (auto simp: pipe_put_def live_pipe_def split: if_splits)
  show "ys = take (length ys) xs"
  proof (cases "spacefree d = 0")
    case False
    then have "ys = take (write_count (length xs) d) xs"
      using p write_data_laws(3) [OF inv b] by (simp add: pipe_put_def)
    then show ?thesis by (metis length_take take_take min.idem min.commute take_all_iff nle_le)
  qed (use p in \<open>simp add: pipe_put_def\<close>)
  show "nat (spacefree d) = length ys + nat (spacefree d')"
    using p write_data_room [OF inv b] by (auto simp: pipe_put_def split: if_splits)
  show "ys \<noteq> []" if "0 < nat (spacefree d)" "xs \<noteq> []"
  proof -
    have "spacefree d \<noteq> 0" using that(1) by simp
    moreover from this have "ys = take (write_count (length xs) d) xs"
      using p write_data_laws(3) [OF inv b] by (simp add: pipe_put_def)
    ultimately show ?thesis
      using that(2) write_count_pos [OF inv b, of "length xs"] by auto
  qed
qed

end
