(* ===== verification/ScullPipeSystem.thy ===== *)
theory ScullPipeSystem
  imports ScullPipe
begin

text \<open>
  A device of the pipe driver together with the files opened on it: any number of calls of
  \<open>scull_p_open\<close>, \<open>scull_p_read\<close>, \<open>scull_p_write\<close>, \<open>scull_p_poll\<close>, \<open>scull_p_fasync\<close> and
  \<open>scull_p_release\<close> run concurrently, one call per file at a time, interleaved at the steps of theory
  \<open>ScullPipe\<close>. A file is identified by the process that uses it. A poll calls \<open>scull_p_poll\<close> as often as
  the kernel likes, with or without a poll table, and stays queued between these calls; it ends
  with \<open>poll_freewait\<close>. The two ghost lists record what was accepted from writers and handed to
  readers since the device was last opened; an opening restarts both, because the code restarts
  the buffer.
\<close>

datatype fstate =
    F_closed
  | F_opening open_pc
  | F_open
  | F_reading nat read_pc
  | F_writing "byte list" write_pc
  | F_polling bool poll_pc
  | F_freewait
  | F_fasync bool
  | F_releasing release_pc

record psys =
  pdev :: scull_pipe
  fstat :: "pid \<Rightarrow> fstate"
  accepted :: "byte list"
  delivered :: "byte list"

datatype paction =
    A_open pid
  | A_read pid nat
  | A_write pid "byte list"
  | A_poll pid bool
  | A_poll_end pid
  | A_fasync pid bool
  | A_release pid
  | A_run pid kenv

text \<open>\<open>kmalloc(scull_p_buffer)\<close> returns a block of the requested size or fails.\<close>

definition kenv_ok :: "int \<Rightarrow> kenv \<Rightarrow> bool" where
  "kenv_ok pbuf e = (case ke_alloc e of None \<Rightarrow> True | Some bs \<Rightarrow> int (length bs) = pbuf)"

text \<open>One step of the call a file is in: the device and the file's state after it.\<close>

fun file_step :: "int \<Rightarrow> pfile \<Rightarrow> pid \<Rightarrow> kenv \<Rightarrow> scull_pipe \<Rightarrow> fstate \<Rightarrow> scull_pipe \<times> fstate" where
  "file_step pbuf f p e d F_closed = (d, F_closed)"
| "file_step pbuf f p e d F_open = (d, F_open)"
| "file_step pbuf f p e d (F_opening (O_ret r)) = (d, if r = 0 then F_open else F_closed)"
| "file_step pbuf f p e d (F_opening pc) =
     map_prod id F_opening (scull_p_open_step pbuf e f d pc)"
| "file_step pbuf f p e d (F_reading n (R_ret r bs)) = (d, F_open)"
| "file_step pbuf f p e d (F_reading n pc) =
     map_prod id (F_reading n) (scull_p_read_step e p f n d pc)"
| "file_step pbuf f p e d (F_writing src (W_ret r bs)) = (d, F_open)"
| "file_step pbuf f p e d (F_writing src pc) =
     map_prod id (F_writing src) (scull_p_write_step e p f src d pc)"
| "file_step pbuf f p e d (F_polling wait (P_ret m)) = (d, F_polling wait (P_ret m))"
| "file_step pbuf f p e d (F_polling wait pc) =
     map_prod id (F_polling wait) (scull_p_poll_step p wait d pc)"
| "file_step pbuf f p e d F_freewait = (poll_freewait p d, F_open)"
| "file_step pbuf f p e d (F_fasync on) = (scull_p_fasync p on d, F_open)"
| "file_step pbuf f p e d (F_releasing (L_ret r)) = (d, F_closed)"
| "file_step pbuf f p e d (F_releasing pc) =
     map_prod id F_releasing (scull_p_release_step p f d pc)"

text \<open>The ghost lists: \<open>st'\<close> is the file's state after the step, \<open>d'\<close> the device.\<close>

fun handed_out :: "fstate \<Rightarrow> byte list" where
  "handed_out (F_reading n (R_wake r bs)) = bs"
| "handed_out _ = []"

fun taken_in :: "fstate \<Rightarrow> byte list" where
  "taken_in (F_writing src (W_wake r bs)) = bs"
| "taken_in _ = []"

definition restarts :: "scull_pipe \<Rightarrow> fstate \<Rightarrow> fstate \<Rightarrow> bool" where
  "restarts d' st st' \<longleftrightarrow>
     st = F_opening O_locked \<and> st' = F_opening (O_ret 0) \<or> st = F_releasing L_locked \<and> buffer d' = None"

definition run_file :: "int \<Rightarrow> (pid \<Rightarrow> pfile) \<Rightarrow> pid \<Rightarrow> kenv \<Rightarrow> psys \<Rightarrow> psys" where
  "run_file pbuf mode p e s =
     (case file_step pbuf (mode p) p e (pdev s) (fstat s p) of (d', st') \<Rightarrow>
        \<lparr>pdev = d', fstat = (fstat s)(p := st'),
         accepted = (if restarts d' (fstat s p) st' then [] else accepted s @ taken_in st'),
         delivered = (if restarts d' (fstat s p) st' then [] else delivered s @ handed_out st')\<rparr>)"

fun poll_returned :: "fstate \<Rightarrow> bool" where
  "poll_returned (F_polling wait (P_ret m)) = True"
| "poll_returned _ = False"

fun pipe_exec :: "int \<Rightarrow> (pid \<Rightarrow> pfile) \<Rightarrow> paction \<Rightarrow> psys \<Rightarrow> psys option" where
  "pipe_exec pbuf mode (A_open p) s =
     (if fstat s p = F_closed then Some (s\<lparr>fstat := (fstat s)(p := F_opening O_down)\<rparr>) else None)"
| "pipe_exec pbuf mode (A_read p n) s =
     (if fstat s p = F_open \<and> f_read (mode p)
      then Some (s\<lparr>fstat := (fstat s)(p := F_reading n R_down)\<rparr>) else None)"
| "pipe_exec pbuf mode (A_write p src) s =
     (if fstat s p = F_open \<and> f_write (mode p)
      then Some (s\<lparr>fstat := (fstat s)(p := F_writing src W_down)\<rparr>) else None)"
| "pipe_exec pbuf mode (A_poll p wait) s =
     (if fstat s p = F_open \<or> poll_returned (fstat s p)
      then Some (s\<lparr>fstat := (fstat s)(p := F_polling wait P_down)\<rparr>) else None)"
| "pipe_exec pbuf mode (A_poll_end p) s =
     (if poll_returned (fstat s p) then Some (s\<lparr>fstat := (fstat s)(p := F_freewait)\<rparr>) else None)"
| "pipe_exec pbuf mode (A_fasync p on) s =
     (if fstat s p = F_open then Some (s\<lparr>fstat := (fstat s)(p := F_fasync on)\<rparr>) else None)"
| "pipe_exec pbuf mode (A_release p) s =
     (if fstat s p = F_open then Some (s\<lparr>fstat := (fstat s)(p := F_releasing L_down)\<rparr>) else None)"
| "pipe_exec pbuf mode (A_run p e) s =
     (if kenv_ok pbuf e then Some (run_file pbuf mode p e s) else None)"

text \<open>
  The device as \<open>scull_p_init\<close> leaves it: cleared by \<open>memset\<close>, the wait queues empty, the
  semaphore initialised to 1.
\<close>

definition fresh_pipe :: scull_pipe where
  "fresh_pipe =
     \<lparr>inq = [], outq = [], buffer = None, end_off = 0, buffersize = 0, rp = 0, wp = 0,
      nreaders = 0, nwriters = 0, async_queue = [], sem = 1, sigio = [], inq_poll = [], outq_poll = []\<rparr>"

definition init_psys :: psys where
  "init_psys = \<lparr>pdev = fresh_pipe, fstat = (\<lambda>_. F_closed), accepted = [], delivered = []\<rparr>"

inductive pipe_reachable :: "int \<Rightarrow> (pid \<Rightarrow> pfile) \<Rightarrow> psys \<Rightarrow> bool"
  for pbuf :: int and mode :: "pid \<Rightarrow> pfile" where
  pipe_start: "pipe_reachable pbuf mode init_psys"
| pipe_next: "pipe_reachable pbuf mode s \<Longrightarrow> pipe_exec pbuf mode a s = Some t \<Longrightarrow>
     pipe_reachable pbuf mode t"

fun pipe_execs :: "int \<Rightarrow> (pid \<Rightarrow> pfile) \<Rightarrow> paction list \<Rightarrow> psys \<Rightarrow> psys option" where
  "pipe_execs pbuf mode [] s = Some s"
| "pipe_execs pbuf mode (a # as) s =
     (case pipe_exec pbuf mode a s of None \<Rightarrow> None | Some t \<Rightarrow> pipe_execs pbuf mode as t)"

lemma pipe_execs_reachable:
  "pipe_reachable pbuf mode s \<Longrightarrow> pipe_execs pbuf mode as s = Some t \<Longrightarrow> pipe_reachable pbuf mode t"
  by (induction as arbitrary: s) (auto split: option.splits intro: pipe_next)

section \<open>Invariants\<close>

fun holds_sem :: "fstate \<Rightarrow> bool" where
  "holds_sem (F_opening O_locked) = True"
| "holds_sem (F_reading n R_locked) = True"
| "holds_sem (F_writing src W_locked) = True"
| "holds_sem (F_polling wait P_locked) = True"
| "holds_sem (F_releasing L_locked) = True"
| "holds_sem _ = False"

text \<open>A file counts in \<open>nreaders\<close>/\<open>nwriters\<close> from its successful opening to its release.\<close>

fun counted :: "fstate \<Rightarrow> bool" where
  "counted F_closed = False"
| "counted (F_opening (O_ret r)) = (r = 0)"
| "counted (F_opening _) = False"
| "counted (F_releasing (L_ret r)) = False"
| "counted _ = True"

definition sem_inv :: "psys \<Rightarrow> bool" where
  "sem_inv s \<longleftrightarrow>
     sem (pdev s) \<le> 1 \<and> (sem (pdev s) = 1 \<longleftrightarrow> (\<forall>p. \<not> holds_sem (fstat s p))) \<and>
     (\<forall>p q. holds_sem (fstat s p) \<longrightarrow> holds_sem (fstat s q) \<longrightarrow> p = q)"

definition count_inv :: "(pid \<Rightarrow> pfile) \<Rightarrow> psys \<Rightarrow> bool" where
  "count_inv mode s \<longleftrightarrow>
     finite {p. counted (fstat s p)} \<and>
     nreaders (pdev s) = int (card {p. counted (fstat s p) \<and> f_read (mode p)}) \<and>
     nwriters (pdev s) = int (card {p. counted (fstat s p) \<and> f_write (mode p)}) \<and>
     (buffer (pdev s) = None \<longrightarrow>
        (\<forall>p. counted (fstat s p) \<longrightarrow> \<not> f_read (mode p) \<and> \<not> f_write (mode p)))"

fun mode_ok :: "pfile \<Rightarrow> fstate \<Rightarrow> bool" where
  "mode_ok f (F_reading n pc) = f_read f"
| "mode_ok f (F_writing src pc) = f_write f"
| "mode_ok f _ = True"

definition stream_inv :: "(pid \<Rightarrow> pfile) \<Rightarrow> psys \<Rightarrow> bool" where
  "stream_inv mode s \<longleftrightarrow>
     pipe_inv (pdev s) \<and> (\<forall>p. mode_ok (mode p) (fstat s p)) \<and>
     delivered s @ contents (pdev s) = accepted s"

text \<open>Every action starts a call of an idle file or runs a step of a call.\<close>

lemma pipe_exec_cases:
  assumes "pipe_exec pbuf mode a s = Some t"
  obtains (start) p st' where "t = s\<lparr>fstat := (fstat s)(p := st')\<rparr>"
      "fstat s p = F_closed \<and> st' = F_opening O_down \<or>
       (fstat s p = F_open \<or> (\<exists>w m. fstat s p = F_polling w (P_ret m))) \<and>
        ((\<exists>n. st' = F_reading n R_down) \<and> f_read (mode p) \<or>
         (\<exists>src. st' = F_writing src W_down) \<and> f_write (mode p) \<or>
         (\<exists>w. st' = F_polling w P_down) \<or> st' = F_freewait \<or> (\<exists>on. st' = F_fasync on) \<or>
         st' = F_releasing L_down)"
  | (run) p e d' st' where "kenv_ok pbuf e"
      "file_step pbuf (mode p) p e (pdev s) (fstat s p) = (d', st')"
      "t = run_file pbuf mode p e s" "pdev t = d'" "fstat t = (fstat s)(p := st')"
proof (cases a)
  case (A_run p e)
  obtain d' st' where "file_step pbuf (mode p) p e (pdev s) (fstat s p) = (d', st')"
    by fastforce
  then show thesis
    using assms A_run by (intro run [of e p d' st']) (auto simp: run_file_def split: if_splits)
qed (use assms in \<open>auto split: if_splits elim!: poll_returned.elims intro: start\<close>)

subsection \<open>The semaphore\<close>

lemma sem_up [simp]: "sem (up d) = Suc (sem d)"
  by (simp add: up_def)

lemma sem_data_steps [simp]:
  "sem (open_reset pbuf f d) = sem d" "sem (release_counts f d) = sem d"
  "sem (scull_p_fasync p m d) = sem d" "sem (advance_rp n d) = sem d"
  "sem (advance_wp n d) = sem d" "sem (store_at_wp bs d) = sem d"
  "sem (fst (read_data n d)) = sem d" "sem (fst (write_data src d)) = sem d"
  "sem (poll_freewait p d) = sem d"
  by (simp_all add: poll_freewait_def open_reset_def release_counts_def scull_p_fasync_def advance_rp_def
      advance_wp_def store_at_wp_def read_data_def write_data_def Let_def)

lemma sem_data_eqs:
  "read_data n d = (d', bs) \<Longrightarrow> sem d' = sem d" "write_data src d = (d', bs) \<Longrightarrow> sem d' = sem d"
  by (metis fst_conv sem_data_steps)+

text \<open>
  The effect of one step on the semaphore: it is kept, taken by a call that does not hold it, or
  given back by its holder.
\<close>

lemma file_step_sem:
  assumes "file_step pbuf f p e d st = (d', st')"
  shows "(sem d' = sem d \<and> holds_sem st' = holds_sem st) \<or>
    (0 < sem d \<and> sem d' = sem d - 1 \<and> \<not> holds_sem st \<and> holds_sem st') \<or>
    (holds_sem st \<and> \<not> holds_sem st' \<and> sem d' = sem d + 1)"
  using assms
  by (induction pbuf f p e d st rule: file_step.induct)
    (auto simp: Let_def down_interruptible_def sem_data_eqs split: prod.splits option.splits if_splits)

lemma sem_inv_step:
  assumes inv: "sem_inv s" and ex: "pipe_exec pbuf mode a s = Some t"
  shows "sem_inv t"
  using ex
proof (cases rule: pipe_exec_cases)
  case (start p st')
  then have "\<not> holds_sem (fstat s p)" "\<not> holds_sem st'" by auto
  then have "holds_sem (fstat t q) = holds_sem (fstat s q)" for q by (simp add: start(1))
  then show ?thesis using inv by (simp add: sem_inv_def) (simp add: start(1))
next
  case (run p e d' st')
  note t = run(4,5)
  from file_step_sem [OF run(2)] show ?thesis
  proof (elim disjE conjE)
    assume *: "sem d' = sem (pdev s)" "holds_sem st' = holds_sem (fstat s p)"
    then have "holds_sem (fstat t q) = holds_sem (fstat s q)" for q by (simp add: t)
    with * show ?thesis using inv by (simp add: sem_inv_def t(1))
  next
    assume *: "0 < sem (pdev s)" "sem d' = sem (pdev s) - 1" "holds_sem st'"
    then have "\<not> holds_sem (fstat s q)" for q using inv by (auto simp: sem_inv_def)
    then have "holds_sem (fstat t q) \<longleftrightarrow> q = p" for q using *(3) by (simp add: t)
    with * show ?thesis using inv by (auto simp: sem_inv_def t(1))
  next
    assume *: "holds_sem (fstat s p)" "\<not> holds_sem st'" "sem d' = sem (pdev s) + 1"
    then have "sem (pdev s) = 0" using inv by (auto simp: sem_inv_def)
    moreover have "\<not> holds_sem (fstat t q)" for q
      using * inv by (auto simp: sem_inv_def t)
    ultimately show ?thesis using * by (simp add: sem_inv_def t(1))
  qed
qed

lemma sem_inv_init: "sem_inv init_psys"
  by (simp add: sem_inv_def init_psys_def fresh_pipe_def)

subsection \<open>Open counts\<close>

text \<open>What one step does to the open counts and to the buffer pointer.\<close>

lemma file_step_counts:
  assumes "file_step pbuf f p e d st = (d', st')"
  shows "counted st' = counted st \<and> nreaders d' = nreaders d \<and> nwriters d' = nwriters d \<and>
      (buffer d' = None \<longleftrightarrow> buffer d = None)
    \<or> st = F_opening O_locked \<and> st' = F_opening (O_ret 0) \<and> buffer d' \<noteq> None \<and>
      nreaders d' = nreaders d + of_bool (f_read f) \<and> nwriters d' = nwriters d + of_bool (f_write f)
    \<or> st = F_releasing L_locked \<and> st' = F_releasing (L_ret 0) \<and>
      nreaders d' = nreaders d - of_bool (f_read f) \<and> nwriters d' = nwriters d - of_bool (f_write f) \<and>
      (buffer d' = None \<longleftrightarrow> buffer d = None \<or> nreaders d' + nwriters d' = 0)"
  using assms
  by (induction pbuf f p e d st rule: file_step.induct)
    (auto simp: Let_def down_interruptible_def up_def open_reset_def release_counts_def
      scull_p_fasync_def advance_rp_def advance_wp_def store_at_wp_def read_data_def write_data_def
      poll_freewait_def errno_defs split: prod.splits option.splits if_splits)

lemma counted_insert:
  fixes Q :: "pid \<Rightarrow> bool"
  assumes "finite {q. counted (g q)}" and "\<not> counted (g p)" and "counted st'"
  shows "finite {q. counted ((g(p := st')) q)}"
    and "card {q. counted ((g(p := st')) q) \<and> Q q} = card {q. counted (g q) \<and> Q q} + of_bool (Q p)"
proof -
  have "{q. counted ((g(p := st')) q)} = insert p {q. counted (g q)}"
    using assms(2,3) by auto
  then show "finite {q. counted ((g(p := st')) q)}" using assms(1) by simp
  have "{q. counted ((g(p := st')) q) \<and> Q q} =
      (if Q p then insert p {q. counted (g q) \<and> Q q} else {q. counted (g q) \<and> Q q})"
    using assms(2,3) by auto
  moreover have "finite {q. counted (g q) \<and> Q q}" using assms(1) by simp
  ultimately show "card {q. counted ((g(p := st')) q) \<and> Q q} =
      card {q. counted (g q) \<and> Q q} + of_bool (Q p)"
    using assms(2) by simp
qed

lemma counted_remove:
  fixes Q :: "pid \<Rightarrow> bool"
  assumes "finite {q. counted (g q)}" and "counted (g p)" and "\<not> counted st'"
  shows "finite {q. counted ((g(p := st')) q)}"
    and "card {q. counted ((g(p := st')) q) \<and> Q q} + of_bool (Q p) = card {q. counted (g q) \<and> Q q}"
proof -
  have "{q. counted ((g(p := st')) q)} \<subseteq> {q. counted (g q)}" using assms(3) by auto
  then show f: "finite {q. counted ((g(p := st')) q)}" using assms(1) by (rule finite_subset)
  have "(g(p := st'))(p := g p) = g" by simp
  moreover have "card {q. counted (((g(p := st'))(p := g p)) q) \<and> Q q} =
      card {q. counted ((g(p := st')) q) \<and> Q q} + of_bool (Q p)"
    using assms(2,3) by (intro counted_insert(2) [OF f]) simp_all
  ultimately show "card {q. counted ((g(p := st')) q) \<and> Q q} + of_bool (Q p) =
      card {q. counted (g q) \<and> Q q}"
    by simp
qed

lemma counted_same:
  "counted st' = counted (g p) \<Longrightarrow> counted ((g(p := st')) q) = counted (g q)"
  by simp

lemma count_inv_step:
  assumes inv: "count_inv mode s" and ex: "pipe_exec pbuf mode a s = Some t"
  shows "count_inv mode t"
  using ex
proof (cases rule: pipe_exec_cases)
  case (start p st')
  then have "counted st' = counted (fstat s p)" by auto
  then have "counted (fstat t q) = counted (fstat s q)" for q
    using counted_same by (simp add: start(1))
  then show ?thesis using inv by (simp add: count_inv_def) (simp add: start(1))
next
  case (run p e d' st')
  note t = run(4,5)
  have fin: "finite {q. counted (fstat s q)}" using inv by (simp add: count_inv_def)
  from file_step_counts [OF run(2)] show ?thesis
  proof (elim disjE)
    assume *: "counted st' = counted (fstat s p) \<and> nreaders d' = nreaders (pdev s) \<and>
      nwriters d' = nwriters (pdev s) \<and> (buffer d' = None \<longleftrightarrow> buffer (pdev s) = None)"
    then have "counted (fstat t q) = counted (fstat s q)" for q
      unfolding t(2) by (intro counted_same) simp
    with * show ?thesis using inv by (simp add: count_inv_def t(1))
  next
    assume *: "fstat s p = F_opening O_locked \<and> st' = F_opening (O_ret 0) \<and> buffer d' \<noteq> None \<and>
      nreaders d' = nreaders (pdev s) + of_bool (f_read (mode p)) \<and>
      nwriters d' = nwriters (pdev s) + of_bool (f_write (mode p))"
    then have "\<not> counted (fstat s p)" "counted st'" by simp_all
    note ci = counted_insert [OF fin this]
    have "int (card {q. counted (fstat t q) \<and> f_read (mode q)}) = nreaders d'"
      "int (card {q. counted (fstat t q) \<and> f_write (mode q)}) = nwriters d'"
      using * ci(2) inv by (simp_all only: count_inv_def t(2) of_nat_add of_nat_of_bool)
    then show ?thesis using * ci(1) by (simp add: count_inv_def t(1)) (auto simp: t(2))
  next
    assume *: "fstat s p = F_releasing L_locked \<and> st' = F_releasing (L_ret 0) \<and>
      nreaders d' = nreaders (pdev s) - of_bool (f_read (mode p)) \<and>
      nwriters d' = nwriters (pdev s) - of_bool (f_write (mode p)) \<and>
      (buffer d' = None \<longleftrightarrow> buffer (pdev s) = None \<or> nreaders d' + nwriters d' = 0)"
    then have "counted (fstat s p)" "\<not> counted st'" by simp_all
    note cr = counted_remove [OF fin this]
    let ?R = "{q. counted (fstat t q) \<and> f_read (mode q)}"
    let ?W = "{q. counted (fstat t q) \<and> f_write (mode q)}"
    have fin': "finite {q. counted (fstat t q)}" using cr(1) by (simp add: t)
    have "int (card ?R + of_bool (f_read (mode p))) = nreaders (pdev s)"
      "int (card ?W + of_bool (f_write (mode p))) = nwriters (pdev s)"
      using cr(2) [of "\<lambda>q. f_read (mode q)"] cr(2) [of "\<lambda>q. f_write (mode q)"] inv
      by (simp_all only: count_inv_def t(2))
    then have n: "nreaders d' = int (card ?R)" "nwriters d' = int (card ?W)"
      using * by simp_all
    have "\<not> f_read (mode q) \<and> \<not> f_write (mode q)" if "buffer d' = None" "counted (fstat t q)" for q
    proof (cases "buffer (pdev s) = None")
      case True
      moreover have "counted (fstat s q)" using that(2) \<open>\<not> counted st'\<close> by (auto simp: t split: if_splits)
      ultimately show ?thesis using inv by (simp add: count_inv_def)
    next
      case False
      then have "card ?R = 0" "card ?W = 0" using * that n by auto
      then have "?R = {}" "?W = {}" using fin' by (simp_all)
      then show ?thesis using that(2) by auto
    qed
    then show ?thesis using n fin' by (simp add: count_inv_def t(1))
  qed
qed

lemma count_inv_init: "count_inv mode init_psys"
  by (simp add: count_inv_def init_psys_def fresh_pipe_def)

subsection \<open>The stream\<close>

text \<open>Fields of the device the stream does not depend on.\<close>

lemma contents_frame [simp]:
  "contents (inq_update a d) = contents d" "contents (outq_update b d) = contents d"
  "contents (sem_update c d) = contents d" "contents (nreaders_update g d) = contents d"
  "contents (nwriters_update g d) = contents d" "contents (async_queue_update b d) = contents d"
  "contents (sigio_update k d) = contents d" "contents (inq_poll_update a d) = contents d"
  "contents (outq_poll_update a d) = contents d" "contents (poll_freewait p d) = contents d"
  "contents (up d) = contents d" "contents (scull_p_fasync p m d) = contents d"
  "contents (release_counts f d) = contents d"
  by (simp_all add: contents_def buf_bytes_def up_def scull_p_fasync_def release_counts_def
      poll_freewait_def)

lemma pipe_inv_frame [simp]:
  "pipe_inv (inq_update a d) = pipe_inv d" "pipe_inv (outq_update b d) = pipe_inv d"
  "pipe_inv (sem_update c d) = pipe_inv d" "pipe_inv (nreaders_update g d) = pipe_inv d"
  "pipe_inv (nwriters_update g d) = pipe_inv d" "pipe_inv (async_queue_update b d) = pipe_inv d"
  "pipe_inv (sigio_update k d) = pipe_inv d" "pipe_inv (inq_poll_update a d) = pipe_inv d"
  "pipe_inv (outq_poll_update a d) = pipe_inv d" "pipe_inv (poll_freewait p d) = pipe_inv d"
  "pipe_inv (up d) = pipe_inv d" "pipe_inv (scull_p_fasync p m d) = pipe_inv d"
  "pipe_inv (release_counts f d) = pipe_inv d"
  by (simp_all add: pipe_inv_def up_def scull_p_fasync_def release_counts_def poll_freewait_def
      split: option.split)

lemma open_reset_laws:
  assumes "buffer d = Some bs" and "int (length bs) = pbuf" and "0 < pbuf" and "pbuf < 2 ^ 31"
  shows "pipe_inv (open_reset pbuf f d)" and "contents (open_reset pbuf f d) = []"
  using assms by (auto simp: open_reset_def pipe_inv_def contents_def buf_bytes_def)

text \<open>The buffer of an open device has the size the module parameter gives.\<close>

definition size_inv :: "int \<Rightarrow> scull_pipe \<Rightarrow> bool" where
  "size_inv pbuf d = (case buffer d of None \<Rightarrow> True | Some bs \<Rightarrow> int (length bs) = pbuf)"

lemma size_inv_None [simp]: "buffer d = None \<Longrightarrow> size_inv pbuf d"
  by (simp add: size_inv_def)

lemma size_inv_frame [simp]:
  "size_inv pbuf (inq_update a d) = size_inv pbuf d" "size_inv pbuf (outq_update b d) = size_inv pbuf d"
  "size_inv pbuf (sem_update c d) = size_inv pbuf d" "size_inv pbuf (nreaders_update g d) = size_inv pbuf d"
  "size_inv pbuf (nwriters_update g d) = size_inv pbuf d"
  "size_inv pbuf (async_queue_update b d) = size_inv pbuf d"
  "size_inv pbuf (sigio_update k d) = size_inv pbuf d"
  "size_inv pbuf (inq_poll_update a d) = size_inv pbuf d"
  "size_inv pbuf (outq_poll_update a d) = size_inv pbuf d"
  "size_inv pbuf (poll_freewait p d) = size_inv pbuf d"
  "size_inv pbuf (up d) = size_inv pbuf d" "size_inv pbuf (scull_p_fasync p m d) = size_inv pbuf d"
  "size_inv pbuf (release_counts f d) = size_inv pbuf d"
  "size_inv pbuf (advance_rp n d) = size_inv pbuf d" "size_inv pbuf (advance_wp n d) = size_inv pbuf d"
  "size_inv pbuf (open_reset pbuf f d) = size_inv pbuf d"
  by (simp_all add: size_inv_def up_def scull_p_fasync_def release_counts_def advance_rp_def
      advance_wp_def open_reset_def poll_freewait_def)

lemma size_inv_store:
  "size_inv pbuf d \<Longrightarrow> buffer d = Some bs \<Longrightarrow> wp d + length ys \<le> length bs \<Longrightarrow>
   size_inv pbuf (store_at_wp ys d)"
  by (simp add: size_inv_def store_at_wp_def length_overwrite)

lemma open_step_stream:
  assumes "scull_p_open_step pbuf e f d pc = (d', pc')" and "pipe_inv d" and "size_inv pbuf d"
    and "kenv_ok pbuf e" and "0 < pbuf" and "pbuf < 2 ^ 31"
  shows "pipe_inv d' \<and> size_inv pbuf d'"
    and "pc = O_locked \<Longrightarrow> pc' = O_ret 0 \<Longrightarrow> contents d' = []"
    and "\<not> (pc = O_locked \<and> pc' = O_ret 0) \<Longrightarrow> contents d' = contents d"
  using assms
  by (cases pc; auto simp: down_interruptible_def open_reset_laws size_inv_def kenv_ok_def errno_defs
      split: option.splits if_splits; simp add: up_def open_reset_def)+

lemma read_step_stream:
  assumes st: "scull_p_read_step e p f n d pc = (d', pc')" and inv: "pipe_inv d"
    and sz: "size_inv pbuf d" and b: "buffer d \<noteq> None"
  shows "pipe_inv d' \<and> size_inv pbuf d' \<and>
    contents d = handed_out (F_reading n pc') @ contents d'"
proof (cases "pc = R_locked \<and> rp d \<noteq> wp d")
  case True
  obtain bs where bs: "buffer d = Some bs" using b by auto
  obtain d1 xs where r: "read_data n d = (d1, xs)" by fastforce
  have "d1 = advance_rp (read_count n d) d" using r by (simp add: read_data_def Let_def)
  then have "size_inv pbuf d1" using sz by simp
  with r st True read_data_laws [OF inv bs _ r] sz inv show ?thesis
    by (auto simp: Let_def split: if_splits)
next
  case False
  then show ?thesis
    using st inv sz by (cases pc) (auto simp: down_interruptible_def split: if_splits)
qed

lemma write_step_stream:
  assumes st: "scull_p_write_step e p f src d pc = (d', pc')" and inv: "pipe_inv d"
    and sz: "size_inv pbuf d" and b: "buffer d \<noteq> None"
  shows "pipe_inv d' \<and> size_inv pbuf d' \<and> contents d' = contents d @ taken_in (F_writing src pc')"
proof (cases "pc = W_locked \<and> spacefree d \<noteq> 0")
  case True
  obtain bs where bs: "buffer d = Some bs" using b by auto
  let ?n = "write_count (length src) d"
  let ?k = "min (ke_uncopied e) ?n"
  obtain d1 xs where w: "write_data src d = (d1, xs)" by fastforce
  have room: "wp d + length (user_bytes k ?n src) \<le> length bs" for k
    using write_count_le [OF inv bs, of "length src"] by (simp add: length_user_bytes)
  have "d1 = advance_wp ?n (store_at_wp (user_bytes 0 ?n src) d)"
    using w by (auto simp: write_data_def Let_def)
  then have "size_inv pbuf d1" using size_inv_store [OF sz bs room [of 0]] by simp
  moreover have "size_inv pbuf (store_at_wp (user_bytes ?k ?n src) d)"
    by (rule size_inv_store [OF sz bs room])
  ultimately show ?thesis
    using w st True write_data_laws [OF inv bs w] failed_copy_laws [OF inv bs] sz inv
    by (auto simp: Let_def split: if_splits)
next
  case False
  then show ?thesis
    using st inv sz by (cases pc) (auto simp: down_interruptible_def split: if_splits)
qed

lemma release_step_stream:
  assumes "scull_p_release_step p f d pc = (d', pc')" and "pipe_inv d" and "size_inv pbuf d"
  shows "pipe_inv d' \<and> size_inv pbuf d'"
    and "pc = L_locked \<Longrightarrow> buffer d' = None \<Longrightarrow> contents d' = []"
    and "\<not> (pc = L_locked \<and> buffer d' = None) \<Longrightarrow> contents d' = contents d"
proof -
  have n: "pipe_inv (x\<lparr>buffer := None\<rparr>)" "size_inv pbuf (x\<lparr>buffer := None\<rparr>)" for x
    by (simp_all add: pipe_inv_def size_inv_def)
  show "pipe_inv d' \<and> size_inv pbuf d'"
    using assms n by (cases pc) (auto simp: Let_def split: if_splits)
  show "pc = L_locked \<Longrightarrow> buffer d' = None \<Longrightarrow> contents d' = []"
    by simp
  show "\<not> (pc = L_locked \<and> buffer d' = None) \<Longrightarrow> contents d' = contents d"
    using assms(1) by (cases pc) (auto simp: Let_def up_def split: if_splits)
qed

text \<open>One step of any call keeps the buffer well-formed and moves bytes only at its ends.\<close>

lemma file_step_stream:
  assumes st: "file_step pbuf f p e d st = (d', st')" and inv: "pipe_inv d" "size_inv pbuf d"
    and env: "kenv_ok pbuf e" and pb: "0 < pbuf" "pbuf < 2 ^ 31" and m: "mode_ok f st"
    and b: "counted st \<Longrightarrow> f_read f \<or> f_write f \<Longrightarrow> buffer d \<noteq> None"
  shows "pipe_inv d' \<and> size_inv pbuf d' \<and> mode_ok f st'"
    and "restarts d' st st' \<Longrightarrow> contents d' = []"
    and "\<not> restarts d' st st' \<Longrightarrow> contents d @ taken_in st' = handed_out st' @ contents d'"
proof -
  have "pipe_inv d' \<and> size_inv pbuf d' \<and> mode_ok f st' \<and> (restarts d' st st' \<longrightarrow> contents d' = []) \<and>
    (\<not> restarts d' st st' \<longrightarrow> contents d @ taken_in st' = handed_out st' @ contents d')"
  proof (cases st)
    case (F_opening pc)
    show ?thesis
    proof (cases "\<exists>r. pc = O_ret r")
      case False
      then obtain pc' where o: "scull_p_open_step pbuf e f d pc = (d', pc')" "st' = F_opening pc'"
        using st F_opening by (cases pc) (auto simp: map_prod_def split: prod.splits)
      then show ?thesis
        using open_step_stream [OF o(1) inv env pb] F_opening by (auto simp: restarts_def)
    qed (use st inv F_opening in \<open>auto simp: restarts_def\<close>)
  next
    case (F_reading n pc)
    then have nn: "buffer d \<noteq> None" using b m by simp
    show ?thesis
    proof (cases "\<exists>r bs. pc = R_ret r bs")
      case False
      then obtain pc' where o: "scull_p_read_step e p f n d pc = (d', pc')" "st' = F_reading n pc'"
        using st F_reading by (cases pc) (auto simp: map_prod_def split: prod.splits)
      then show ?thesis
        using read_step_stream [OF o(1) inv nn] F_reading m by (auto simp: restarts_def)
    qed (use st inv F_reading in \<open>auto simp: restarts_def\<close>)
  next
    case (F_writing src pc)
    then have nn: "buffer d \<noteq> None" using b m by simp
    show ?thesis
    proof (cases "\<exists>r bs. pc = W_ret r bs")
      case False
      then obtain pc' where o: "scull_p_write_step e p f src d pc = (d', pc')" "st' = F_writing src pc'"
        using st F_writing by (cases pc) (auto simp: map_prod_def split: prod.splits)
      then show ?thesis
        using write_step_stream [OF o(1) inv nn] F_writing m by (auto simp: restarts_def)
    qed (use st inv F_writing in \<open>auto simp: restarts_def\<close>)
  next
    case (F_polling w pc)
    then show ?thesis
      using st inv by (cases pc) (auto simp: restarts_def split: if_splits)
  next
    case (F_releasing pc)
    show ?thesis
    proof (cases "\<exists>r. pc = L_ret r")
      case False
      then obtain pc' where o: "scull_p_release_step p f d pc = (d', pc')" "st' = F_releasing pc'"
        using st F_releasing by (cases pc) (auto simp: map_prod_def split: prod.splits)
      then show ?thesis
        using release_step_stream [OF o(1) inv] F_releasing by (auto simp: restarts_def)
    qed (use st inv F_releasing in \<open>auto simp: restarts_def\<close>)
  qed (use st inv in \<open>auto simp: restarts_def\<close>)
  then show "pipe_inv d' \<and> size_inv pbuf d' \<and> mode_ok f st'"
    and "restarts d' st st' \<Longrightarrow> contents d' = []"
    and "\<not> restarts d' st st' \<Longrightarrow> contents d @ taken_in st' = handed_out st' @ contents d'"
    by blast+
qed

lemma stream_inv_step:
  assumes inv: "stream_inv mode s" "size_inv pbuf (pdev s)" and cnt: "count_inv mode s"
    and pb: "0 < pbuf" "pbuf < 2 ^ 31" and ex: "pipe_exec pbuf mode a s = Some t"
  shows "stream_inv mode t \<and> size_inv pbuf (pdev t)"
  using ex
proof (cases rule: pipe_exec_cases)
  case (start p st')
  then show ?thesis using inv by (auto simp: stream_inv_def)
next
  case (run p e d' st')
  let ?d = "pdev s" and ?st = "fstat s p"
  have i: "pipe_inv ?d" "\<And>q. mode_ok (mode q) (fstat s q)"
    and h: "delivered s @ contents ?d = accepted s"
    using inv by (auto simp: stream_inv_def)
  have b: "counted ?st \<Longrightarrow> f_read (mode p) \<or> f_write (mode p) \<Longrightarrow> buffer ?d \<noteq> None"
    using cnt by (auto simp: count_inv_def)
  note fs = file_step_stream [OF run(2) i(1) inv(2) run(1) pb i(2) b]
  have ghost: "accepted t = (if restarts d' ?st st' then [] else accepted s @ taken_in st')"
    "delivered t = (if restarts d' ?st st' then [] else delivered s @ handed_out st')"
    using run(2,3) by (simp_all add: run_file_def)
  have "delivered t @ contents d' = accepted t"
  proof (cases "restarts d' ?st st'")
    case False
    then have "delivered t @ contents d' = delivered s @ contents ?d @ taken_in st'"
      using fs(3) ghost by simp
    then show ?thesis using False h ghost by (simp flip: append_assoc)
  qed (use fs(2) ghost in simp)
  then show ?thesis
    using fs(1) i(2) by (simp add: stream_inv_def run(4,5))
qed

lemma stream_inv_init: "stream_inv mode init_psys" "size_inv pbuf (pdev init_psys)"
  by (simp_all add: stream_inv_def init_psys_def fresh_pipe_def pipe_inv_def size_inv_def
      contents_def buf_bytes_def segment_def)

subsection \<open>Sleeping readers\<close>

text \<open>A reader with an entry in the queue is at \<open>R_check\<close>, at \<open>R_sleep\<close>, or back at \<open>R_prepare\<close> after a signal.\<close>

fun waits_for_data :: "fstate \<Rightarrow> bool" where
  "waits_for_data (F_reading n R_prepare) = True"
| "waits_for_data (F_reading n R_check) = True"
| "waits_for_data (F_reading n R_sleep) = True"
| "waits_for_data _ = False"

fun sleeps_for_data :: "fstate \<Rightarrow> bool" where
  "sleeps_for_data (F_reading n R_sleep) = True"
| "sleeps_for_data _ = False"

fun about_to_wake_readers :: "fstate \<Rightarrow> bool" where
  "about_to_wake_readers (F_writing src (W_wake r bs)) = True"
| "about_to_wake_readers _ = False"

definition reader_inv :: "psys \<Rightarrow> bool" where
  "reader_inv s \<longleftrightarrow>
     (\<forall>p \<in> set (inq (pdev s)). waits_for_data (fstat s p)) \<and>
     (\<forall>p. p \<in> set (inq (pdev s)) \<and> sleeps_for_data (fstat s p) \<and> rp (pdev s) \<noteq> wp (pdev s) \<longrightarrow>
        (\<exists>q. about_to_wake_readers (fstat s q)))"

lemma inq_data_steps [simp]:
  "inq (up d) = inq d" "inq (open_reset pbuf f d) = inq d" "inq (release_counts f d) = inq d"
  "inq (scull_p_fasync p m d) = inq d" "inq (store_at_wp bs d) = inq d" "inq (poll_freewait p d) = inq d"
  "read_data n d = (d', xs) \<Longrightarrow> inq d' = inq d" "write_data src d = (d', xs) \<Longrightarrow> inq d' = inq d"
  by (auto simp: up_def open_reset_def release_counts_def scull_p_fasync_def store_at_wp_def
      read_data_def advance_rp_def write_data_def advance_wp_def poll_freewait_def Let_def)

lemma pos_data_steps [simp]:
  "rp (up d) = rp d" "wp (up d) = wp d" "rp (release_counts f d) = rp d" "wp (release_counts f d) = wp d"
  "rp (scull_p_fasync p m d) = rp d" "wp (scull_p_fasync p m d) = wp d"
  "rp (store_at_wp bs d) = rp d" "wp (store_at_wp bs d) = wp d"
  "rp (open_reset pbuf f d) = 0" "wp (open_reset pbuf f d) = 0"
  "rp (poll_freewait p d) = rp d" "wp (poll_freewait p d) = wp d"
  by (simp_all add: up_def open_reset_def release_counts_def scull_p_fasync_def store_at_wp_def
      poll_freewait_def)

text \<open>
  A step takes no other process into the readers' queue, leaves its own process there only while
  it waits for data, and makes data available to a queued reader only on the way to waking it.
\<close>

lemma file_step_readers:
  assumes "file_step pbuf f p e d st = (d', st')"
  shows "q \<in> set (inq d') \<Longrightarrow> q \<noteq> p \<Longrightarrow> q \<in> set (inq d)"
    and "p \<in> set (inq d') \<Longrightarrow> (p \<in> set (inq d) \<Longrightarrow> waits_for_data st) \<Longrightarrow> waits_for_data st'"
    and "q \<in> set (inq d') \<Longrightarrow> rp d' \<noteq> wp d' \<Longrightarrow> (q = p \<Longrightarrow> sleeps_for_data st') \<Longrightarrow>
      q \<in> set (inq d) \<and> rp d \<noteq> wp d \<and> \<not> about_to_wake_readers st \<and> (q = p \<longrightarrow> sleeps_for_data st)
      \<or> about_to_wake_readers st'"
  using assms
  by (induction pbuf f p e d st rule: file_step.induct;
      auto simp: Let_def down_interruptible_def prepare_to_wait_def finish_wait_def
        split: prod.splits option.splits if_splits)+

lemma reader_inv_step:
  assumes inv: "reader_inv s" and ex: "pipe_exec pbuf mode a s = Some t"
  shows "reader_inv t"
  using ex
proof (cases rule: pipe_exec_cases)
  case (start p st')
  then have "\<not> waits_for_data (fstat s p)" "\<not> about_to_wake_readers (fstat s p)" by auto
  then show ?thesis
    using inv unfolding reader_inv_def start(1) by auto
next
  case (run p e d' st')
  note fr = file_step_readers [OF run(2)]
  have "waits_for_data (fstat t q)" if "q \<in> set (inq d')" for q
    using fr(1,2) that inv by (auto simp: reader_inv_def run(5))
  moreover have "\<exists>q. about_to_wake_readers (fstat t q)"
    if "r \<in> set (inq d')" "sleeps_for_data (fstat t r)" "rp d' \<noteq> wp d'" for r
  proof -
    have "r = p \<Longrightarrow> sleeps_for_data st'" using that(2) by (simp add: run(5))
    from fr(3) [OF that(1,3) this] have "r \<in> set (inq (pdev s)) \<and> sleeps_for_data (fstat s r) \<and>
      rp (pdev s) \<noteq> wp (pdev s) \<and> \<not> about_to_wake_readers (fstat s p) \<or> about_to_wake_readers st'"
      using that(2) by (auto simp: run(5) split: if_splits)
    then show ?thesis
    proof (elim disjE conjE)
      assume "r \<in> set (inq (pdev s))" "sleeps_for_data (fstat s r)" "rp (pdev s) \<noteq> wp (pdev s)"
        "\<not> about_to_wake_readers (fstat s p)"
      then obtain q where "about_to_wake_readers (fstat s q)" "q \<noteq> p"
        using inv unfolding reader_inv_def by metis
      then show ?thesis by (intro exI [of _ q]) (simp add: run(5))
    next
      assume "about_to_wake_readers st'"
      then show ?thesis by (intro exI [of _ p]) (simp add: run(5))
    qed
  qed
  ultimately show ?thesis unfolding reader_inv_def run(4) by blast
qed

text \<open>The step of a writer that is about to wake the readers empties their queue.\<close>

lemma waking_readers:
  "about_to_wake_readers (fstat s q) \<Longrightarrow> inq (pdev (run_file pbuf mode q e s)) = []"
  by (cases "fstat s q" rule: about_to_wake_readers.cases) (simp_all add: run_file_def)

lemma reader_inv_init: "reader_inv init_psys"
  by (simp add: reader_inv_def init_psys_def fresh_pipe_def)

section \<open>Properties of all interleavings\<close>

lemma pipe_reachable_inv:
  assumes "pipe_reachable pbuf mode s" and "0 < pbuf" and "pbuf < 2 ^ 31"
  shows "sem_inv s \<and> count_inv mode s \<and> stream_inv mode s \<and> size_inv pbuf (pdev s) \<and> reader_inv s"
  using assms
proof (induction rule: pipe_reachable.induct)
  case pipe_start
  then show ?case
    using sem_inv_init count_inv_init stream_inv_init reader_inv_init by blast
next
  case (pipe_next s a t)
  then show ?case
    using sem_inv_step count_inv_step stream_inv_step reader_inv_step by metis
qed

text \<open>
  C1: whatever the interleaving of openings, reads, writes, polls, \<open>fasync\<close> calls, releases, signals and
  copy faults,
  the bytes handed to readers since the last opening, followed by the bytes still in the circular
  buffer, are exactly the bytes accepted from writers, in order: nothing is lost, duplicated or
  reordered.
\<close>

theorem pipe_stream_fifo:
  assumes "pipe_reachable pbuf mode s" and "0 < pbuf" and "pbuf < 2 ^ 31"
  shows "delivered s @ contents (pdev s) = accepted s"
  using pipe_reachable_inv [OF assms] by (simp add: stream_inv_def)

text \<open>
  C14: at most one call (of open, read, write, poll or release) is inside a critical section of the
  device, and the semaphore is free exactly when none is.
\<close>

theorem pipe_mutual_exclusion:
  assumes "pipe_reachable pbuf mode s" and "0 < pbuf" and "pbuf < 2 ^ 31"
  shows "(holds_sem (fstat s p) \<and> holds_sem (fstat s q) \<longrightarrow> p = q) \<and>
    (sem (pdev s) = 1 \<longleftrightarrow> (\<forall>r. \<not> holds_sem (fstat s r))) \<and> sem (pdev s) \<le> 1"
  using pipe_reachable_inv [OF assms] by (auto simp: sem_inv_def)

text \<open>
  C2: no reader sleeps past its data. Take any interleaving of openings, reads, writes, polls,
  \<open>fasync\<close> calls, releases, signals and faults, and a process asleep in \<open>scull_p_read\<close> (at the
  \<open>schedule\<close> of \<open>wait_event_interruptible\<close>, its entry still in the readers' queue) although the
  buffer is not empty. Then some writer has released the semaphore and is about to wake the queue;
  its next step takes every sleeping reader off the queue, and the woken reader goes on to test
  the buffer again. Only processes inside \<open>scull_p_read\<close> have such entries; what \<open>poll_wait\<close> queues is
  kept apart, and nothing is claimed about a sleeping poll.
\<close>

theorem pipe_reader_wakeup:
  assumes "pipe_reachable pbuf mode s" and "0 < pbuf" and "pbuf < 2 ^ 31"
    and "r \<in> set (inq (pdev s))" and "contents (pdev s) \<noteq> []"
  shows "waits_for_data (fstat s r) \<and>
    (fstat s r = F_reading n R_sleep \<longrightarrow>
       (\<exists>q. q \<noteq> r \<and> about_to_wake_readers (fstat s q) \<and>
          (\<forall>e e'. inq (pdev (run_file pbuf mode q e s)) = [] \<and>
             fstat (run_file pbuf mode r e' (run_file pbuf mode q e s)) r = F_reading n R_prepare)))"
proof -
  have i: "reader_inv s" "pipe_inv (pdev s)"
    using pipe_reachable_inv [OF assms(1-3)] by (auto simp: stream_inv_def)
  obtain bs where "buffer (pdev s) = Some bs" using assms(5) by (cases "buffer (pdev s)") auto
  then have ne: "rp (pdev s) \<noteq> wp (pdev s)" using contents_empty [OF i(2)] assms(5) by blast
  have "\<exists>q. q \<noteq> r \<and> about_to_wake_readers (fstat s q) \<and>
      (\<forall>e e'. inq (pdev (run_file pbuf mode q e s)) = [] \<and>
         fstat (run_file pbuf mode r e' (run_file pbuf mode q e s)) r = F_reading n R_prepare)"
    if sl: "fstat s r = F_reading n R_sleep"
  proof -
    obtain q where q: "about_to_wake_readers (fstat s q)"
      using i(1) ne sl assms(4) by (auto simp: reader_inv_def)
    then have "q \<noteq> r" using sl by auto
    moreover have w: "inq (pdev (run_file pbuf mode q e s)) = []" for e
      using waking_readers [OF q] .
    moreover have "fstat (run_file pbuf mode q e s) r = F_reading n R_sleep" for e
      using \<open>q \<noteq> r\<close> sl by (simp add: run_file_def split: prod.split)
    ultimately show ?thesis using q by (intro exI [of _ q]) (simp add: run_file_def [of _ _ r])
  qed
  then show ?thesis using i(1) assms(4) by (auto simp: reader_inv_def)
qed

text \<open>
  C15: the reader and writer counts of a device are the numbers of files opened for reading and for
  writing, and the buffer exists as long as one of them is open, so no call ever runs on a freed
  buffer.
\<close>

theorem pipe_open_counts:
  assumes "pipe_reachable pbuf mode s" and "0 < pbuf" and "pbuf < 2 ^ 31"
  shows "nreaders (pdev s) = int (card {p. counted (fstat s p) \<and> f_read (mode p)}) \<and>
    nwriters (pdev s) = int (card {p. counted (fstat s p) \<and> f_write (mode p)}) \<and>
    (counted (fstat s p) \<and> (f_read (mode p) \<or> f_write (mode p)) \<longrightarrow> buffer (pdev s) \<noteq> None)"
  using pipe_reachable_inv [OF assms] by (auto simp: count_inv_def)

text \<open>
  On an idle open device, a list shorter than the buffer is accepted completely by repeated
  calls of \<open>scull_p_write\<close>, and repeated reads with any non-empty user buffer return the same list.
\<close>

theorem pipe_write_read_roundtrip:
  assumes "live_pipe d" and "rp d = wp d" and "int (length xs) < buffersize d" and "0 < n"
    and "feed pipe_put (length xs) xs d = (d1, ys)"
    and "drain pipe_get (length xs) n d1 = (d2, zs)"
  shows "ys = xs \<and> zs = xs \<and> contents d2 = []"
proof -
  obtain bs where i: "pipe_inv d" "buffer d = Some bs" using assms(1) by (rule live_pipeE)
  then have "contents d = []" using contents_empty assms(2) by blast
  moreover have "length xs \<le> nat (spacefree d)"
    using assms(2,3) by (simp add: spacefree_def)
  ultimately show ?thesis
    using pipe_fifo.feed_drain [OF assms(1) _ _ assms(4-6)] by simp
qed

section \<open>Concrete runs\<close>

text \<open>
  Process 0 writes and process 1 reads, both blocking, on a device whose buffer has two bytes and
  so holds one. \<open>quiet\<close> is a step without signals and faults.
\<close>

definition quiet :: kenv where
  "quiet = \<lparr>ke_signal = False, ke_uncopied = 0, ke_alloc = Some [0, 0]\<rparr>"

definition rw_mode :: "pid \<Rightarrow> pfile" where
  "rw_mode p = \<lparr>f_nonblock = False, f_read = True, f_write = True\<rparr>"

definition both_open :: "paction list" where
  "both_open = A_open 0 # replicate 3 (A_run 0 quiet) @ A_open 1 # replicate 3 (A_run 1 quiet)"

definition reach_by :: "paction list \<Rightarrow> psys" where
  "reach_by as = the (pipe_execs 2 rw_mode as init_psys)"

text \<open>A reader that went to sleep, and a writer that has just stored a byte.\<close>

definition late_reader :: "paction list" where
  "late_reader = both_open @ A_read 1 1 # replicate 5 (A_run 1 quiet)
     @ A_write 0 [7] # replicate 2 (A_run 0 quiet)"

text \<open>The byte was read and a second one was written.\<close>

definition second_byte :: "paction list" where
  "second_byte = late_reader @ replicate 2 (A_run 0 quiet) @ replicate 7 (A_run 1 quiet)
     @ A_write 0 [8] # replicate 2 (A_run 0 quiet)"

lemma reach_by_reachable:
  "pipe_execs 2 rw_mode as init_psys \<noteq> None \<Longrightarrow> pipe_reachable 2 rw_mode (reach_by as)"
  by (auto simp: reach_by_def intro: pipe_execs_reachable [OF pipe_start])

lemma late_reader_reachable: "pipe_reachable 2 rw_mode (reach_by late_reader)"
  by (rule reach_by_reachable) code_simp

lemma second_byte_reachable: "pipe_reachable 2 rw_mode (reach_by second_byte)"
  by (rule reach_by_reachable) code_simp

theorem pipe_stream_fifo_witness:
  "delivered (reach_by second_byte) = [7] \<and> accepted (reach_by second_byte) = [7, 8] \<and>
   delivered (reach_by second_byte) @ contents (pdev (reach_by second_byte)) =
     accepted (reach_by second_byte)"
  using pipe_stream_fifo [OF second_byte_reachable] by simp code_simp

theorem pipe_mutual_exclusion_witness:
  "sem (pdev (reach_by late_reader)) = 1 \<and> (\<forall>r. \<not> holds_sem (fstat (reach_by late_reader) r))"
proof -
  have "sem (pdev (reach_by late_reader)) = 1" by code_simp
  then show ?thesis using pipe_mutual_exclusion [OF late_reader_reachable] by simp
qed

theorem pipe_reader_wakeup_witness:
  "fstat (reach_by late_reader) 1 = F_reading 1 R_sleep \<and> contents (pdev (reach_by late_reader)) = [7] \<and>
   (\<exists>q. about_to_wake_readers (fstat (reach_by late_reader) q))"
proof -
  have "fstat (reach_by late_reader) 1 = F_reading 1 R_sleep" by code_simp
  moreover have "1 \<in> set (inq (pdev (reach_by late_reader)))" by code_simp
  moreover have "contents (pdev (reach_by late_reader)) = [7]" by code_simp
  ultimately show ?thesis
    using pipe_reader_wakeup [OF late_reader_reachable, of 1 1] by auto
qed

theorem pipe_open_counts_witness:
  "buffer (pdev (reach_by late_reader)) \<noteq> None"
proof -
  have "counted (fstat (reach_by late_reader) 0)" by code_simp
  moreover have "f_read (rw_mode 0)" by (simp add: rw_mode_def)
  ultimately show ?thesis using pipe_open_counts [OF late_reader_reachable, of 0] by simp
qed

definition idle_pipe :: scull_pipe where
  "idle_pipe = fresh_pipe\<lparr>buffer := Some [0, 0, 0], end_off := 3, buffersize := 3, rp := 2, wp := 2\<rparr>"

theorem pipe_write_read_roundtrip_witness:
  "snd (feed pipe_put 2 [5, 6] idle_pipe) = [5, 6] \<and>
   snd (drain pipe_get 2 1 (fst (feed pipe_put 2 [5, 6] idle_pipe))) = [5, 6]"
proof -
  have live: "live_pipe idle_pipe" by (simp add: live_pipe_def pipe_inv_def idle_pipe_def)
  have pos: "rp idle_pipe = wp idle_pipe" "int (length [5, 6 :: byte]) < buffersize idle_pipe"
    by (simp_all add: idle_pipe_def)
  obtain d1 ys where f: "feed pipe_put (length [5, 6 :: byte]) [5, 6] idle_pipe = (d1, ys)" by fastforce
  obtain d2 zs where g: "drain pipe_get (length [5, 6 :: byte]) 1 d1 = (d2, zs)" by fastforce
  show ?thesis
    using pipe_write_read_roundtrip [OF live pos _ f g] f g by (simp add: numeral_2_eq_2)
qed

subsection \<open>Opening a device strands a sleeping writer\<close>

definition writer_asleep :: "pid \<Rightarrow> psys \<Rightarrow> bool" where
  "writer_asleep p s =
     (p \<in> set (outq (pdev s)) \<and> (case fstat s p of F_writing src W_sleep \<Rightarrow> True | _ \<Rightarrow> False))"

fun about_to_wake_writers :: "fstate \<Rightarrow> bool" where
  "about_to_wake_writers (F_reading n (R_wake r bs)) = True"
| "about_to_wake_writers _ = False"

lemma outq_data_steps [simp]:
  "outq (up d) = outq d" "outq (open_reset pbuf f d) = outq d" "outq (release_counts f d) = outq d"
  "outq (scull_p_fasync p m d) = outq d" "outq (store_at_wp bs d) = outq d"
  "outq (poll_freewait p d) = outq d" "outq (advance_rp n d) = outq d" "outq (advance_wp n d) = outq d"
  "outq (fst (read_data n d)) = outq d" "outq (fst (write_data src d)) = outq d"
  by (simp_all add: up_def open_reset_def release_counts_def scull_p_fasync_def store_at_wp_def
      read_data_def advance_rp_def write_data_def advance_wp_def poll_freewait_def Let_def)

lemma outq_data_eqs:
  "read_data n d = (d', bs) \<Longrightarrow> outq d' = outq d" "write_data src d = (d', bs) \<Longrightarrow> outq d' = outq d"
  by (metis fst_conv outq_data_steps)+

text \<open>
  Only a reader that has taken data out removes another process from the writers' queue, and a
  sleeping writer leaves the queue by itself only for a signal.
\<close>

lemma file_step_writers:
  assumes "file_step pbuf f p e d st = (d', st')" and "\<not> about_to_wake_writers st"
  shows "q \<in> set (outq d) \<Longrightarrow> q \<noteq> p \<Longrightarrow> q \<in> set (outq d')"
    and "st = F_writing src W_sleep \<Longrightarrow> p \<in> set (outq d) \<Longrightarrow> \<not> ke_signal e \<Longrightarrow> d' = d \<and> st' = st"
  using assms
  by (induction pbuf f p e d st rule: file_step.induct;
      auto simp: Let_def down_interruptible_def prepare_to_wait_def finish_wait_def outq_data_eqs
        split: prod.splits option.splits if_splits)+

lemma writer_asleep_step:
  assumes "writer_asleep w s" and "\<not> about_to_wake_writers (fstat s q)" and "q = w \<Longrightarrow> \<not> ke_signal e"
  shows "writer_asleep w (run_file pbuf mode q e s)"
proof -
  obtain d' st' where fs: "file_step pbuf (mode q) q e (pdev s) (fstat s q) = (d', st')" by fastforce
  obtain src where w: "fstat s w = F_writing src W_sleep" "w \<in> set (outq (pdev s))"
    using assms(1) by (auto simp: writer_asleep_def split: fstate.splits write_pc.splits)
  note fw = file_step_writers [OF fs assms(2)]
  show ?thesis
  proof (cases "q = w")
    case True
    then show ?thesis using fw(2) [of src] w assms(3) fs by (simp add: writer_asleep_def run_file_def)
  next
    case False
    then show ?thesis using fw(1) [of w] w fs by (simp add: writer_asleep_def run_file_def)
  qed
qed

text \<open>
  A run after which process \<open>w\<close> was never woken: no step is that of a reader that has taken data
  out and is about to wake the writers, and no signal reaches \<open>w\<close>.
\<close>

fun unwoken :: "pid \<Rightarrow> (pid \<Rightarrow> pfile) \<Rightarrow> int \<Rightarrow> paction list \<Rightarrow> psys \<Rightarrow> bool" where
  "unwoken w mode pbuf [] s = True"
| "unwoken w mode pbuf (a # as) s =
     ((case a of A_run q e \<Rightarrow> \<not> about_to_wake_writers (fstat s q) \<and> (q = w \<longrightarrow> \<not> ke_signal e) | _ \<Rightarrow> True) \<and>
      (case pipe_exec pbuf mode a s of None \<Rightarrow> True | Some t \<Rightarrow> unwoken w mode pbuf as t))"

lemma writer_asleep_exec:
  assumes "writer_asleep w s" and "pipe_exec pbuf mode a s = Some t"
    and "\<And>q e. a = A_run q e \<Longrightarrow> \<not> about_to_wake_writers (fstat s q) \<and> (q = w \<longrightarrow> \<not> ke_signal e)"
  shows "writer_asleep w t"
  using assms writer_asleep_step [OF assms(1)]
  by (cases a) (auto simp: writer_asleep_def elim!: poll_returned.elims split: if_splits)

lemma writer_asleep_execs:
  "writer_asleep w s \<Longrightarrow> pipe_execs pbuf mode as s = Some t \<Longrightarrow> unwoken w mode pbuf as s \<Longrightarrow>
   writer_asleep w t"
proof (induction as arbitrary: s)
  case (Cons a as)
  from Cons.prems(2) obtain u where u: "pipe_exec pbuf mode a s = Some u"
    and rest: "pipe_execs pbuf mode as u = Some t"
    by (auto split: option.splits)
  have "writer_asleep w u"
    using Cons.prems(1,3) by (intro writer_asleep_exec [OF _ u]) auto
  then show ?case using Cons.IH [OF _ rest] Cons.prems(3) u by simp
qed simp

text \<open>
  C39: a defect of \<open>scull_p_open\<close>: it restarts the buffer of a device that is in use, but does not
  wake the writers' queue. In any reachable state, let a writer be asleep for space while another
  process holds the semaphore inside \<open>scull_p_open\<close>. The step that completes the opening throws
  away what the buffer held and leaves it empty, with all of its space free, makes nobody about to
  wake the writers, and leaves the writer asleep in the queue; it stays asleep, whatever is done
  afterwards, until a signal reaches it or a reader that has taken data out runs its wake-up.
\<close>

theorem pipe_open_strands_writer:
  fixes e :: kenv
  assumes "pipe_reachable pbuf mode s" and "0 < pbuf" and "pbuf < 2 ^ 31"
    and "writer_asleep w s" and "fstat s q = F_opening O_locked"
  defines "t \<equiv> run_file pbuf mode q e s"
  shows "fstat t q = F_opening (O_ret 0) \<and> writer_asleep w t \<and> contents (pdev t) = [] \<and>
    spacefree (pdev t) = pbuf - 1 \<and>
    (about_to_wake_writers (fstat t r) \<longrightarrow> about_to_wake_writers (fstat s r)) \<and>
    (pipe_execs pbuf mode as t = Some u \<and> unwoken w mode pbuf as t \<longrightarrow> writer_asleep w u)"
proof -
  have inv: "count_inv mode s" "stream_inv mode s" "size_inv pbuf (pdev s)"
    using pipe_reachable_inv [OF assms(1-3)] by auto
  obtain src where w: "fstat s w = F_writing src W_sleep"
    using assms(4) by (auto simp: writer_asleep_def split: fstate.splits write_pc.splits)
  then have "f_write (mode w)" using inv(2) by (auto simp: stream_inv_def dest: spec [of _ w])
  then obtain bs where b: "buffer (pdev s) = Some bs"
    using inv(1) w by (auto simp: count_inv_def dest: spec [of _ w])
  then have len: "int (length bs) = pbuf" using inv(3) by (simp add: size_inv_def)
  have t: "pdev t = up (open_reset pbuf (mode q) (pdev s))" "fstat t = (fstat s)(q := F_opening (O_ret 0))"
    using assms(5) b by (simp_all add: t_def run_file_def)
  have "contents (pdev t) = []" using open_reset_laws(2) [OF b len assms(2,3)] by (simp add: t)
  moreover have "spacefree (pdev t) = pbuf - 1"
    by (simp add: t spacefree_def) (simp add: up_def open_reset_def)
  moreover have "writer_asleep w t"
    unfolding t_def using assms(5) w by (intro writer_asleep_step [OF assms(4)]) auto
  ultimately show ?thesis using writer_asleep_execs by (auto simp: t(2) split: if_splits)
qed

text \<open>Process 0 filled the buffer and sleeps in a second write while process 1 opens the device.\<close>

definition strand_run :: "paction list" where
  "strand_run = A_open 0 # replicate 3 (A_run 0 quiet)
     @ A_write 0 [7] # replicate 4 (A_run 0 quiet)
     @ A_write 0 [8] # replicate 4 (A_run 0 quiet)
     @ A_open 1 # [A_run 1 quiet]"

text \<open>The reader that opened the device then sleeps too: each waits for the other.\<close>

definition strand_after :: "paction list" where
  "strand_after = A_run 1 quiet # A_read 1 1 # replicate 5 (A_run 1 quiet)"

lemma strand_run_reachable: "pipe_reachable 2 rw_mode (reach_by strand_run)"
  by (rule reach_by_reachable) code_simp

theorem pipe_open_strands_writer_witness:
  "contents (pdev (reach_by strand_run)) = [7] \<and>
   contents (pdev (run_file 2 rw_mode 1 quiet (reach_by strand_run))) = [] \<and>
   (\<exists>u. pipe_execs 2 rw_mode strand_after (run_file 2 rw_mode 1 quiet (reach_by strand_run)) = Some u \<and>
      writer_asleep 0 u \<and> fstat u 1 = F_reading 1 R_sleep)"
proof -
  let ?s = "reach_by strand_run" and ?t = "run_file 2 rw_mode 1 quiet (reach_by strand_run)"
  have a: "writer_asleep 0 ?s" by code_simp
  have o: "fstat ?s 1 = F_opening O_locked" by code_simp
  have c: "contents (pdev ?s) = [7]" by code_simp
  have n: "unwoken 0 rw_mode 2 strand_after ?t" by code_simp
  have "pipe_execs 2 rw_mode strand_after ?t \<noteq> None" by code_simp
  then obtain u where u: "pipe_execs 2 rw_mode strand_after ?t = Some u" by blast
  have "fstat (the (pipe_execs 2 rw_mode strand_after ?t)) 1 = F_reading 1 R_sleep" by code_simp
  then have "fstat u 1 = F_reading 1 R_sleep" using u by simp
  then show ?thesis
    using pipe_open_strands_writer [OF strand_run_reachable _ _ a o, of quiet 0 strand_after u] c n u
    by simp
qed

end
