(* ===== verification/ScullPipeModule.thy ===== *)
theory ScullPipeModule
  imports ScullPipeSystem
begin

text \<open>
  Loading and unloading the pipe driver: \<open>scull_p_init\<close>, \<open>scull_p_setup_cdev\<close> and
  \<open>scull_p_cleanup\<close> of \<open>src/7/pipe/scull_pipe.c\<close>, and the variant of \<open>scull_p_init\<close> in
  \<open>src/7/pipe/pipe.c\<close>, which takes its device number from its caller. The kernel's tables of
  device-number regions and of character devices are part of the state; the results of the
  kernel's allocation calls are inputs.
\<close>

record p_module =
  p_devno :: int
  p_devices :: "scull_pipe list option"
  p_regions :: "(int \<times> nat) list"
  p_cdevs :: "int list"

text \<open>
  \<open>li_region\<close> is the result of \<open>alloc_chrdev_region\<close> or \<open>register_chrdev_region\<close> (negative on
  failure), \<open>li_dev\<close> the device number the former hands out, \<open>li_mem\<close> whether \<open>kmalloc\<close> succeeds,
  \<open>li_cdev i\<close> the result of \<open>cdev_add\<close> for the device with index \<open>i\<close>.
\<close>

record load_inputs =
  li_region :: int
  li_dev :: int
  li_mem :: bool
  li_cdev :: "nat \<Rightarrow> int"

definition scull_p_setup_cdev :: "load_inputs \<Rightarrow> nat \<Rightarrow> p_module \<Rightarrow> p_module" where
  "scull_p_setup_cdev l i m =
     (if li_cdev l i \<noteq> 0 then m else m\<lparr>p_cdevs := (p_devno m + int i) # p_cdevs m\<rparr>)"

text \<open>
  The body of \<open>scull_p_init\<close> after the region was obtained: \<open>n\<close> is \<open>scull_p_nr_devs\<close>. Both files
  share it; it returns the number of devices, or 0 when nothing was set up.
\<close>

definition p_init_devices :: "load_inputs \<Rightarrow> nat \<Rightarrow> int \<Rightarrow> p_module \<Rightarrow> p_module \<times> int" where
  "p_init_devices l n dev m =
     (let m = m\<lparr>p_devno := dev\<rparr> in
      if \<not> li_mem l then
        (m\<lparr>p_devices := None, p_regions := remove1 (dev, n) (p_regions m)\<rparr>, 0)
      else
        (fold (scull_p_setup_cdev l) [0..<n] (m\<lparr>p_devices := Some (replicate n fresh_pipe)\<rparr>), int n))"

definition scull_p_init :: "load_inputs \<Rightarrow> nat \<Rightarrow> p_module \<Rightarrow> p_module \<times> int" where
  "scull_p_init l n m =
     (if li_region l < 0 then (m, 0)
      else p_init_devices l n (li_dev l) (m\<lparr>p_regions := (li_dev l, n) # p_regions m\<rparr>))"

definition scull_p_init_at :: "load_inputs \<Rightarrow> nat \<Rightarrow> int \<Rightarrow> p_module \<Rightarrow> p_module \<times> int" where
  "scull_p_init_at l n firstdev m =
     (if li_region l < 0 then (m, 0)
      else p_init_devices l n firstdev (m\<lparr>p_regions := (firstdev, n) # p_regions m\<rparr>))"

fun del_cdevs :: "int \<Rightarrow> nat list \<Rightarrow> int list \<Rightarrow> int list" where
  "del_cdevs dev [] cs = cs"
| "del_cdevs dev (i # is) cs = del_cdevs dev is (removeAll (dev + int i) cs)"

definition scull_p_cleanup :: "nat \<Rightarrow> p_module \<Rightarrow> p_module" where
  "scull_p_cleanup n m =
     (case p_devices m of
        None \<Rightarrow> m
      | Some _ \<Rightarrow>
          m\<lparr>p_cdevs := del_cdevs (p_devno m) [0..<n] (p_cdevs m), p_devices := None,
            p_regions := remove1 (p_devno m, n) (p_regions m)\<rparr>)"

section \<open>Unloading undoes loading\<close>

lemma setup_cdev_fold:
  "fold (scull_p_setup_cdev l) is m =
     m\<lparr>p_cdevs := rev (map (\<lambda>i. p_devno m + int i) (filter (\<lambda>i. li_cdev l i = 0) is)) @ p_cdevs m\<rparr>"
  by (induction "is" arbitrary: m) (simp_all add: scull_p_setup_cdev_def)

lemma del_cdevs_filter:
  "del_cdevs dev is cs = filter (\<lambda>c. \<forall>i \<in> set is. c \<noteq> dev + int i) cs"
  by (induction "is" arbitrary: cs)
    (auto simp: removeAll_filter_not_eq intro!: filter_cong)

lemma p_init_devices_cleanup:
  assumes "\<And>c i. c \<in> set (p_cdevs m) \<Longrightarrow> i < n \<Longrightarrow> c \<noteq> dev + int i"
    and "p_init_devices l n dev (m\<lparr>p_regions := (dev, n) # p_regions m\<rparr>) = (m', r)"
  shows "p_cdevs (scull_p_cleanup n m') = p_cdevs m \<and> p_regions (scull_p_cleanup n m') = p_regions m \<and>
    p_devices (scull_p_cleanup n m') = None"
proof -
  have keep: "filter (\<lambda>c. \<forall>i \<in> set [0..<n]. c \<noteq> dev + int i) (p_cdevs m) = p_cdevs m"
    using assms(1) by (intro filter_True) auto
  have gone: "filter (\<lambda>c. \<forall>i \<in> set [0..<n]. c \<noteq> dev + int i)
      (rev (map (\<lambda>i. dev + int i) (filter P [0..<n]))) = []" for P
    by (auto simp: filter_empty_conv)
  show ?thesis
  proof (cases "li_mem l")
    case True
    then have m': "m' = m\<lparr>p_regions := (dev, n) # p_regions m, p_devno := dev,
        p_devices := Some (replicate n fresh_pipe),
        p_cdevs := rev (map (\<lambda>i. dev + int i) (filter (\<lambda>i. li_cdev l i = 0) [0..<n])) @ p_cdevs m\<rparr>"
      using assms(2) by (auto simp: p_init_devices_def Let_def setup_cdev_fold)
    show ?thesis
      unfolding m' using keep gone
      by (simp add: scull_p_cleanup_def del_cdevs_filter del: set_upt)
  next
    case False
    then show ?thesis using assms(2) by (auto simp: p_init_devices_def scull_p_cleanup_def Let_def)
  qed
qed

text \<open>
  Loading the pipe driver and unloading it again gives back every device number and every
  character device it had taken, whichever of the kernel's allocations failed on the way; a load
  that fails leaves no region behind.
\<close>

theorem scull_p_init_cleanup:
  assumes "p_devices m = None"
    and "\<forall>c \<in> set (p_cdevs m). \<forall>i < n. c \<noteq> li_dev l + int i"
    and "scull_p_init l n m = (m', r)"
  shows "p_cdevs (scull_p_cleanup n m') = p_cdevs m \<and> p_regions (scull_p_cleanup n m') = p_regions m \<and>
    p_devices (scull_p_cleanup n m') = None \<and> (r = 0 \<and> 0 < n \<longrightarrow> p_regions m' = p_regions m)"
proof (cases "li_region l < 0")
  case True
  then show ?thesis using assms by (auto simp: scull_p_init_def scull_p_cleanup_def)
next
  case False
  then have e: "p_init_devices l n (li_dev l) (m\<lparr>p_regions := (li_dev l, n) # p_regions m\<rparr>) = (m', r)"
    using assms(3) by (simp add: scull_p_init_def)
  moreover have "r = 0 \<Longrightarrow> 0 < n \<Longrightarrow> p_regions m' = p_regions m"
    using e by (auto simp: p_init_devices_def Let_def split: if_splits)
  moreover have "p_cdevs (scull_p_cleanup n m') = p_cdevs m \<and>
      p_regions (scull_p_cleanup n m') = p_regions m \<and> p_devices (scull_p_cleanup n m') = None"
    using assms(2) by (intro p_init_devices_cleanup [OF _ e]) auto
  ultimately show ?thesis by simp
qed

theorem scull_p_init_cleanup_witness:
  "p_cdevs (scull_p_cleanup 2 (fst (scull_p_init
      \<lparr>li_region = 0, li_dev = 260046848, li_mem = True, li_cdev = (\<lambda>i. if i = 1 then -12 else 0)\<rparr> 2
      \<lparr>p_devno = 0, p_devices = None, p_regions = [(1, 3)], p_cdevs = [1]\<rparr>))) = [1]"
proof -
  define l where "l = \<lparr>li_region = 0, li_dev = 260046848, li_mem = True,
    li_cdev = (\<lambda>i::nat. if i = 1 then -12 else (0::int))\<rparr>"
  define m where "m = \<lparr>p_devno = 0, p_devices = None, p_regions = [(1, 3)], p_cdevs = [1]\<rparr>"
  obtain m' r where i: "scull_p_init l 2 m = (m', r)" by fastforce
  have "p_cdevs (scull_p_cleanup 2 m') = p_cdevs m"
    using scull_p_init_cleanup [of m 2 l m' r, OF _ _ i] by (simp add: l_def m_def)
  then show ?thesis using i by (simp add: l_def m_def)
qed

end
