(* ===== verification/CString.thy ===== *)
theory CString
  imports Prelude
begin

text \<open>
  The part of the C library the user programs share: \<open>atoi\<close> and the conversion \<open>%d\<close> of \<open>printf\<close>,
  \<open>strtok\<close>, \<open>strncmp\<close> against a fixed prefix and the line reader \<open>fgets\<close>. A C string is the list of its
  characters before the terminating zero; the contents of a text file is a list of characters without a zero.
\<close>

abbreviation NL :: char where "NL \<equiv> CHR 0x0A"
abbreviation TAB :: char where "TAB \<equiv> CHR 0x09"

section \<open>Outcomes\<close>

text \<open>
  What a function of a C program does: it returns, it ends the program, or its behaviour is undefined (\<open>Crash\<close>): a null
  pointer handed to \<open>strcmp\<close> or \<open>fopen\<close>, a write past the end of an array, an uninitialised variable.
\<close>

datatype 'a sh = Go 'a | Exit int | Crash

fun sbind :: "'a sh \<Rightarrow> ('a \<Rightarrow> 'b sh) \<Rightarrow> 'b sh" where
  "sbind (Go x) f = f x"
| "sbind (Exit n) f = Exit n"
| "sbind Crash f = Crash"

lemma sbind_eq_Go: "sbind x f = Go y \<longleftrightarrow> (\<exists>z. x = Go z \<and> f z = Go y)"
  by (cases x) auto

section \<open>Numbers\<close>

definition is_space :: "char \<Rightarrow> bool" where
  "is_space c \<longleftrightarrow> of_char c \<in> {32, 9, 10, 11, 12, 13 :: nat}"

definition is_digit :: "char \<Rightarrow> bool" where
  "is_digit c \<longleftrightarrow> 48 \<le> (of_char c :: nat) \<and> (of_char c :: nat) \<le> 57"

definition digits_val :: "string \<Rightarrow> int" where
  "digits_val s = foldl (\<lambda>v c. 10 * v + (of_char c - 48)) 0 (takeWhile is_digit s)"

text \<open>
  The number a string starts with, after white space and an optional sign. \<open>atoi\<close> keeps 32 bits of it, as
  does \<open>atol\<close> where \<open>long\<close> has 32 bits.
\<close>

definition strtol10 :: "string \<Rightarrow> int" where
  "strtol10 s =
     (case dropWhile is_space s of
        [] \<Rightarrow> 0
      | c # cs \<Rightarrow>
          if c = CHR ''-'' then - digits_val cs
          else if c = CHR ''+'' then digits_val cs
          else digits_val (c # cs))"

definition atoi :: "string \<Rightarrow> int" where
  "atoi s = int32 (strtol10 s)"

text \<open>The conversion \<open>%d\<close> of \<open>printf\<close>.\<close>

fun dec_nat :: "nat \<Rightarrow> string" where
  "dec_nat n = (if n < 10 then [char_of (48 + n)] else dec_nat (n div 10) @ [char_of (48 + n mod 10)])"

declare dec_nat.simps [simp del]

definition dec :: "int \<Rightarrow> string" where
  "dec i = (if i < 0 then CHR ''-'' # dec_nat (nat (- i)) else dec_nat (nat i))"

lemma of_char_digit: "n < 10 \<Longrightarrow> of_char (char_of (48 + n :: nat)) = 48 + n"
  by (simp add: take_bit_eq_mod)

lemma is_digit_char_of: "n < 10 \<Longrightarrow> is_digit (char_of (48 + n :: nat))"
  by (simp add: is_digit_def of_char_digit)

lemma digit_value: "n < 10 \<Longrightarrow> of_char (char_of (48 + n :: nat)) - 48 = int n"
  using of_char_digit [of n] of_nat_of_char [of "char_of (48 + n)", where 'a = int] by simp

lemma dec_nat_digits: "c \<in> set (dec_nat n) \<Longrightarrow> is_digit c"
proof (induction n rule: dec_nat.induct)
  case (1 n)
  then show ?case
    by (subst (asm) (2) dec_nat.simps) (auto split: if_splits simp: is_digit_char_of)
qed

lemma dec_nat_nonempty: "dec_nat n \<noteq> []"
  by (subst dec_nat.simps) simp

lemma dec_nat_length: "n < 10 ^ k \<Longrightarrow> 0 < k \<Longrightarrow> length (dec_nat n) \<le> k"
proof (induction n arbitrary: k rule: dec_nat.induct)
  case (1 n)
  show ?case
  proof (cases "n < 10")
    case False
    with 1(2) have "k \<noteq> 1" by auto
    with 1(3) have j: "k = Suc (k - 1)" "0 < k - 1" by auto
    then have "n < 10 ^ (k - 1) * 10" using 1(2) by (metis power_Suc2)
    then have "n div 10 < 10 ^ (k - 1)" by (simp add: less_mult_imp_div_less)
    then have "length (dec_nat (n div 10)) \<le> k - 1" using 1(1) [OF False] j by blast
    with False j show ?thesis by (subst dec_nat.simps) simp
  qed (use 1(3) in \<open>subst dec_nat.simps, simp\<close>)
qed

lemma digits_val_snoc:
  assumes "\<forall>c \<in> set s. is_digit c" "n < 10"
  shows "digits_val (s @ [char_of (48 + n)]) = 10 * digits_val s + int n"
  using assms is_digit_char_of [of n] digit_value [of n]
  by (simp add: digits_val_def takeWhile_eq_all_conv [THEN iffD2])

lemma digits_val_dec_nat: "digits_val (dec_nat n) = int n"
proof (induction n rule: dec_nat.induct)
  case (1 n)
  show ?case
  proof (cases "n < 10")
    case True
    then show ?thesis using digits_val_snoc [of "[]" n]
      by (subst dec_nat.simps) (simp add: digits_val_def)
  next
    case False
    then have "digits_val (dec_nat n) = 10 * int (n div 10) + int (n mod 10)"
      using 1 digits_val_snoc [of "dec_nat (n div 10)" "n mod 10"] dec_nat_digits
      by (subst dec_nat.simps) simp
    then show ?thesis by presburger
  qed
qed

lemma digits_val_append:
  assumes "\<forall>c \<in> set s. is_digit c" "r = [] \<or> \<not> is_digit (hd r)"
  shows "digits_val (s @ r) = digits_val s"
  using assms by (cases r) (auto simp: digits_val_def takeWhile_append2 takeWhile_eq_all_conv [THEN iffD2])

lemma is_digit_simps: "is_digit c \<Longrightarrow> \<not> is_space c \<and> c \<noteq> CHR ''-'' \<and> c \<noteq> CHR ''+''"
  by (auto simp: is_digit_def is_space_def)

text \<open>Reading back what \<open>%d\<close> printed, also in front of text that does not start with a digit.\<close>

lemma strtol10_dec:
  assumes "r = [] \<or> \<not> is_digit (hd r)"
  shows "strtol10 (dec i @ r) = i"
proof (cases "i < 0")
  case True
  then show ?thesis
    using digits_val_append [of "dec_nat (nat (- i))" r] assms dec_nat_digits
    by (simp add: dec_def strtol10_def is_space_def digits_val_dec_nat)
next
  case False
  obtain c cs where c: "dec_nat (nat i) = c # cs" using dec_nat_nonempty by (cases "dec_nat (nat i)") auto
  then have "is_digit c" using dec_nat_digits [of c "nat i"] by simp
  with False c digits_val_append [of "dec_nat (nat i)" r] assms dec_nat_digits [of _ "nat i"] show ?thesis
    using is_digit_simps [of c] digits_val_dec_nat [of "nat i"] by (simp add: dec_def strtol10_def)
qed

lemma atoi_dec:
  assumes "r = [] \<or> \<not> is_digit (hd r)"
  shows "atoi (dec i @ r) = int32 i"
  using assms by (simp add: atoi_def strtol10_dec)

section \<open>Words\<close>

text \<open>
  One call of \<open>strtok\<close> on the rest \<open>s\<close> of the string: the next maximal run of characters that are no
  delimiters, and what is left for the following call. \<open>strtok_all\<close> calls it until it returns a null pointer.
\<close>

definition strtok :: "(char \<Rightarrow> bool) \<Rightarrow> string \<Rightarrow> (string \<times> string) option" where
  "strtok d s =
     (let s = dropWhile d s
      in if s = [] then None else Some (takeWhile (Not \<circ> d) s, drop 1 (dropWhile (Not \<circ> d) s)))"

function strtok_all :: "(char \<Rightarrow> bool) \<Rightarrow> string \<Rightarrow> string list" where
  "strtok_all d [] = []"
| "strtok_all d (c # cs) =
     (if d c then strtok_all d cs
      else (c # takeWhile (Not \<circ> d) cs) # strtok_all d (dropWhile (Not \<circ> d) cs))"
  by pat_completeness auto
termination
  by (relation "measure (length \<circ> snd)") (auto simp: length_dropWhile_le le_imp_less_Suc)

lemma takeWhile_append_if:
  "takeWhile P (xs @ ys) = (if \<forall>x \<in> set xs. P x then xs @ takeWhile P ys else takeWhile P xs)"
  by (induction xs) auto

lemma dropWhile_append_if:
  "dropWhile P (xs @ ys) = (if \<forall>x \<in> set xs. P x then dropWhile P ys else dropWhile P xs @ ys)"
  by (induction xs) auto

lemma strtok_all_delim: "d c \<Longrightarrow> strtok_all d (c # cs) = strtok_all d cs"
  by simp

lemma strtok_all_drop: "strtok_all d (dropWhile d s) = strtok_all d s"
  by (induction s) auto

lemma strtok_all_rec:
  "strtok_all d s = (case strtok d s of None \<Rightarrow> [] | Some (w, r) \<Rightarrow> w # strtok_all d r)"
proof (cases "dropWhile d s")
  case Nil
  then have "strtok_all d s = []" by (metis strtok_all_drop strtok_all.simps(1))
  with Nil show ?thesis by (simp add: strtok_def)
next
  case (Cons c cs)
  then have "\<not> d c" by (metis dropWhile_eq_Cons_conv)
  have r: "strtok_all d (drop 1 r) = strtok_all d r" if "r = [] \<or> d (hd r)" for r
    using that by (cases r) auto
  have "dropWhile (Not \<circ> d) cs = [] \<or> d (hd (dropWhile (Not \<circ> d) cs))"
    using hd_dropWhile [of "Not \<circ> d" cs] by auto
  with Cons \<open>\<not> d c\<close> r strtok_all_drop [of d s] show ?thesis
    by (simp add: strtok_def)
qed

lemma strtok_nonempty: "w \<in> set (strtok_all d s) \<Longrightarrow> w \<noteq> []"
  by (induction d s rule: strtok_all.induct) (auto split: if_splits)

lemma strtok_Nil: "strtok_all d s = [] \<longleftrightarrow> (\<forall>c \<in> set s. d c)"
  by (induction d s rule: strtok_all.induct) auto

text \<open>A character that is no delimiter, put behind a text, joins its last word or is a word of its own.\<close>

lemma strtok_snoc:
  assumes "\<not> d x"
  shows "strtok_all d (body @ [x]) =
     (if body = [] \<or> d (last body) then strtok_all d body @ [[x]]
      else butlast (strtok_all d body) @ [last (strtok_all d body) @ [x]])"
  using assms
proof (induction d body rule: strtok_all.induct)
  case 1
  then show ?case by simp
next
  case (2 d c cs)
  note nl = 2(3)
  show ?case
  proof (cases "d c")
    case True
    with 2(1) nl show ?thesis by (cases "cs = []") auto
  next
    case False
    show ?thesis
    proof (cases "\<forall>x \<in> set cs. \<not> d x")
      case True
      with False nl show ?thesis
        by (cases "cs = []")
          (auto simp: takeWhile_append_if dropWhile_append_if takeWhile_eq_all_conv [THEN iffD2] dropWhile_eq_Nil_conv [THEN iffD2])
    next
      case all: False
      let ?r = "dropWhile (Not \<circ> d) cs"
      obtain y where "y \<in> set cs" "d y" using all by blast
      then have r: "?r \<noteq> []" "last ?r = last cs" "cs \<noteq> []"
        by (auto simp: dropWhile_eq_Nil_conv intro!: dropWhile_last [of y])
      have "strtok_all d ?r \<noteq> []" if "\<not> d (last cs)"
        using that r by (metis last_in_set strtok_Nil)
      with 2(2) [OF False nl] r False all show ?thesis
        by (auto simp: takeWhile_append_if dropWhile_append_if)
    qed
  qed
qed

section \<open>Lines\<close>

text \<open>\<open>strncmp (s, p, strlen (p)) == 0\<close>.\<close>

fun has_prefix :: "string \<Rightarrow> string \<Rightarrow> bool" where
  "has_prefix [] s = True"
| "has_prefix (p # ps) [] = False"
| "has_prefix (p # ps) (c # cs) = (p = c \<and> has_prefix ps cs)"

lemma has_prefix_iff: "has_prefix p s \<longleftrightarrow> (\<exists>r. s = p @ r)"
  by (induction p s rule: has_prefix.induct) auto

text \<open>
  \<open>fgets (buf, n, f)\<close>: at most \<open>n - 1\<close> characters of the rest \<open>s\<close> of the file, up to the first newline.
  \<open>fgets_all\<close> is the sequence of buffers that \<open>while (fgets (...) != NULL)\<close> sees.
\<close>

definition line_end :: "string \<Rightarrow> nat" where
  "line_end s = length (takeWhile (\<lambda>c. c \<noteq> NL) s) + 1"

definition fgets :: "nat \<Rightarrow> string \<Rightarrow> (string \<times> string) option" where
  "fgets n s =
     (let k = min (n - 1) (line_end s) in if s = [] then None else Some (take k s, drop k s))"

function fgets_all :: "nat \<Rightarrow> string \<Rightarrow> string list" where
  "fgets_all n s =
     (if n \<le> 1 \<or> s = [] then []
      else take (min (n - 1) (line_end s)) s # fgets_all n (drop (min (n - 1) (line_end s)) s))"
  by pat_completeness auto
termination
  by (relation "measure (length \<circ> snd)") (auto simp: line_end_def)

declare fgets_all.simps [simp del]

lemma fgets_all_Nil [simp]: "fgets_all n [] = []"
  by (simp add: fgets_all.simps)

lemma fgets_all_rec:
  "1 < n \<Longrightarrow> fgets_all n s = (case fgets n s of None \<Rightarrow> [] | Some (l, r) \<Rightarrow> l # fgets_all n r)"
  by (subst fgets_all.simps) (simp add: fgets_def Let_def)

text \<open>A file whose lines all fit into the buffer is read line by line.\<close>

lemma fgets_line:
  assumes "NL \<notin> set l" "length l + 2 \<le> n"
  shows "fgets_all n ((l @ [NL]) @ s) = (l @ [NL]) # fgets_all n s"
proof -
  have "line_end ((l @ [NL]) @ s) = length l + 1"
    using assms(1) by (auto simp: line_end_def takeWhile_append_if)
  with assms have "min (n - 1) (line_end ((l @ [NL]) @ s)) = length (l @ [NL])" by simp
  with assms show ?thesis by (subst fgets_all.simps) simp
qed

lemma fgets_lines:
  assumes "\<forall>l \<in> set ls. NL \<notin> set l \<and> length l + 2 \<le> n"
  shows "fgets_all n (concat (map (\<lambda>l. l @ [NL]) ls) @ s) = map (\<lambda>l. l @ [NL]) ls @ fgets_all n s"
  using assms
proof (induction ls)
  case (Cons l ls)
  then show ?case using fgets_line [of l n "concat (map (\<lambda>l. l @ [NL]) ls) @ s"] by simp
qed simp

lemma fgets_head:
  assumes "NL \<notin> set p" "length p + 2 \<le> n" "p \<noteq> []"
  shows "\<exists>r ls. fgets_all n (p @ s) = (p @ r) # ls"
proof -
  have "length p \<le> line_end (p @ s)"
    using assms(1) by (auto simp: line_end_def takeWhile_append_if)
  then have "length p \<le> min (n - 1) (line_end (p @ s))" using assms(2) by simp
  then obtain k where "min (n - 1) (line_end (p @ s)) = length p + k" using le_Suc_ex by blast
  with assms(2,3) show ?thesis by (subst fgets_all.simps) auto
qed

lemma dec_no_NL: "NL \<notin> set (dec i)"
  using dec_nat_digits [of NL] by (auto simp: dec_def is_digit_def)

text \<open>In every case the buffers together are the file, and none is longer than the buffer allows.\<close>

lemma fgets_all_concat: "1 < n \<Longrightarrow> concat (fgets_all n s) = s"
  by (induction n s rule: fgets_all.induct) (subst fgets_all.simps, auto)

lemma fgets_all_length: "l \<in> set (fgets_all n s) \<Longrightarrow> l \<noteq> [] \<and> length l < n"
proof (induction n s rule: fgets_all.induct)
  case (1 n s)
  then show ?case
    by (subst (asm) (2) fgets_all.simps) (auto split: if_splits simp: line_end_def)
qed

end
