(* ===== verification/PipeListing.thy ===== *)
theory PipeListing
  imports ScullPipeSystem CString
begin

text \<open>
  The debug listing of the pipe driver (\<open>src/7/pipe/pipe.c\<close>, under \<open>SCULL_DEBUG\<close>): \<open>scull_read_p_mem\<close> prints the
  state of every device into a page, taking the semaphore of each in turn, and \<open>scullp_proc_offset\<close> keeps
  track of where the part begins that the reader of \<open>/proc/scullpipe\<close> asked for.
\<close>

definition PAGE_SIZE :: nat where "PAGE_SIZE = 4096"

definition LIMIT :: nat where "LIMIT = PAGE_SIZE - 200"

text \<open>
  The page, the variables \<open>*start\<close> (as an offset into the page), \<open>offset\<close> and \<open>len\<close>. A \<open>sprintf\<close> at \<open>buf + len\<close> writes
  the text and a zero byte; \<open>None\<close> when that does not fit into the page.
\<close>

record listing =
  l_page :: "nat \<Rightarrow> char"
  l_start :: nat
  l_offset :: nat
  l_len :: nat

definition put :: "string \<Rightarrow> listing \<Rightarrow> listing option" where
  "put tx l =
     (let n = l_len l; m = n + length tx in
      if PAGE_SIZE < m + 1 then None
      else Some (l\<lparr>l_page := (\<lambda>j. if n \<le> j \<and> j < m then tx ! (j - n) else if j = m then CHR 0x00 else l_page l j),
                   l_len := m\<rparr>))"

fun put_all :: "string list \<Rightarrow> listing \<Rightarrow> listing option" where
  "put_all [] l = Some l"
| "put_all (x # xs) l = (case put x l of None \<Rightarrow> None | Some l \<Rightarrow> put_all xs l)"

definition scullp_proc_offset :: "listing \<Rightarrow> listing" where
  "scullp_proc_offset l =
     (if l_offset l = 0 then l
      else if l_len l \<le> l_offset l then l\<lparr>l_offset := l_offset l - l_len l, l_len := 0\<rparr>
      else l\<lparr>l_start := l_offset l, l_offset := 0\<rparr>)"

text \<open>
  What the conversion \<open>%p\<close> prints, the addresses of the devices and of their buffers (the model of a device has
  offsets), and the answers of the kernel while the listing takes a semaphore.
\<close>

record plenv =
  pe_ptr :: "nat \<Rightarrow> string"
  pe_dev :: "nat \<Rightarrow> nat"
  pe_buf :: "nat \<Rightarrow> nat"
  pe_kenv :: "nat \<Rightarrow> kenv"

definition header_text :: "int \<Rightarrow> string" where
  "header_text pbuf = ''Default buffersize is '' @ dec pbuf @ [NL]"

definition device_lines :: "plenv \<Rightarrow> nat \<Rightarrow> scull_pipe \<Rightarrow> string list" where
  "device_lines e i d =
     [[NL] @ ''Device '' @ dec (int i) @ '': '' @ pe_ptr e (pe_dev e i) @ [NL],
      ''   Buffer: '' @ pe_ptr e (if buffer d = None then 0 else pe_buf e i) @ '' to '' @
        pe_ptr e (pe_buf e i + end_off d) @ '' ('' @ dec (buffersize d) @ '' bytes)'' @ [NL],
      ''   rp '' @ pe_ptr e (pe_buf e i + rp d) @ ''   wp '' @ pe_ptr e (pe_buf e i + wp d) @ [NL],
      ''   readers '' @ dec (nreaders d) @ ''   writers '' @ dec (nwriters d) @ [NL]]"

text \<open>
  The loop over the devices. A call returns a number, sleeps at the semaphore of a device, or has written
  past the page. The result carries the devices and, for a call that returned, the page and \<open>*eof\<close>.
\<close>

datatype plresult = PL_ret int "scull_pipe list" listing bool | PL_waits nat | PL_oops

fun list_devices :: "plenv \<Rightarrow> nat \<Rightarrow> scull_pipe list \<Rightarrow> scull_pipe list \<Rightarrow> listing \<Rightarrow> plresult" where
  "list_devices e i pre [] l = PL_ret (int (l_len l)) pre l (l_len l \<le> LIMIT)"
| "list_devices e i pre (d # ds) l =
     (if LIMIT < l_len l then PL_ret (int (l_len l)) (pre @ d # ds) l (l_len l \<le> LIMIT)
      else (case down_interruptible (pe_kenv e i) d of
              Interrupted \<Rightarrow> PL_ret (- ERESTARTSYS) (pre @ d # ds) l False
            | Waiting \<Rightarrow> PL_waits i
            | Acquired d' \<Rightarrow>
                (case put_all (device_lines e i d') l of
                   None \<Rightarrow> PL_oops
                 | Some l \<Rightarrow> list_devices e (i + 1) (pre @ [up d']) ds (scullp_proc_offset l))))"

definition scull_read_p_mem :: "plenv \<Rightarrow> int \<Rightarrow> (nat \<Rightarrow> char) \<Rightarrow> nat \<Rightarrow> scull_pipe list \<Rightarrow> plresult" where
  "scull_read_p_mem e pbuf page off ds =
     (case put (header_text pbuf) \<lparr>l_page = page, l_start = 0, l_offset = off, l_len = 0\<rparr> of
        None \<Rightarrow> PL_oops
      | Some l \<Rightarrow> list_devices e 0 [] ds l)"

section \<open>No entry is written past the page\<close>

text \<open>
  The range of the numbers printed, and what the code expects of \<open>%p\<close> on a machine with 32-bit pointers.
\<close>

definition int_range :: "int \<Rightarrow> bool" where
  "int_range x \<longleftrightarrow> - (2 ^ 31) \<le> x \<and> x < 2 ^ 31"

definition dev_range :: "scull_pipe \<Rightarrow> bool" where
  "dev_range d \<longleftrightarrow> int_range (buffersize d) \<and> int_range (nreaders d) \<and> int_range (nwriters d)"

lemma dec_int_length: "int_range x \<Longrightarrow> length (dec x) \<le> 11"
proof -
  assume x: "int_range x"
  have "length (dec_nat n) \<le> 10" if "n \<le> 2 ^ 31" for n
    using that by (intro dec_nat_length) auto
  from this [of "nat x"] this [of "nat (- x)"] x show ?thesis
    by (cases "x < 0") (auto simp: dec_def int_range_def nat_le_iff)
qed

lemma device_lines_length:
  assumes "\<And>a. length (pe_ptr e a) \<le> 8" "int_range (int i)" "dev_range d"
  shows "length (concat (device_lines e i d)) \<le> 156"
proof -
  note a = assms(1)
  have "length (dec (int i)) \<le> 11" "length (dec (buffersize d)) \<le> 11" "length (dec (nreaders d)) \<le> 11"
    "length (dec (nwriters d)) \<le> 11"
    using assms(2,3) dec_int_length by (auto simp: dev_range_def)
  with a [of "pe_dev e i"] a [of "if buffer d = None then 0 else pe_buf e i"] a [of "pe_buf e i + end_off d"]
    a [of "pe_buf e i + rp d"] a [of "pe_buf e i + wp d"]
  show ?thesis by (simp add: device_lines_def)
qed

definition window :: "(nat \<Rightarrow> char) \<Rightarrow> nat \<Rightarrow> nat \<Rightarrow> string" where
  "window page i j = map page [i..<j]"

lemma put_window:
  assumes "put tx l = Some l'"
  shows "l_len l' = l_len l + length tx" "window (l_page l') 0 (l_len l') = window (l_page l) 0 (l_len l) @ tx"
    "l_start l' = l_start l" "l_offset l' = l_offset l"
  using assms
  by (auto simp: put_def Let_def window_def nth_append intro!: nth_equalityI split: if_splits)

lemma put_fits: "l_len l + length tx < PAGE_SIZE \<Longrightarrow> \<exists>l'. put tx l = Some l'"
  by (simp add: put_def Let_def)

lemma put_all_window:
  assumes "put_all xs l = Some l'"
  shows "l_len l' = l_len l + length (concat xs) \<and>
    window (l_page l') 0 (l_len l') = window (l_page l) 0 (l_len l) @ concat xs \<and>
    l_start l' = l_start l \<and> l_offset l' = l_offset l"
  using assms
proof (induction xs arbitrary: l)
  case (Cons x xs)
  then obtain k where "put x l = Some k" "put_all xs k = Some l'" by (auto split: option.splits)
  with Cons.IH [of k] put_window [of x l k] show ?case by (metis append.assoc add.assoc concat.simps(2) length_append)
qed simp

lemma put_all_fits:
  "l_len l + length (concat xs) < PAGE_SIZE \<Longrightarrow> \<exists>l'. put_all xs l = Some l'"
proof (induction xs arbitrary: l)
  case (Cons x xs)
  then obtain l' where l': "put x l = Some l'" using put_fits [of l x] by auto
  with Cons put_window(1) [OF l'] show ?case by simp
qed simp

lemma proc_offset_len: "l_len (scullp_proc_offset l) \<le> l_len l"
  by (simp add: scullp_proc_offset_def)

lemma up_down: "down_interruptible k d = Acquired d' \<Longrightarrow> up d' = d"
  by (auto simp: down_interruptible_def up_def split: if_splits)

lemma down_range: "down_interruptible k d = Acquired d' \<Longrightarrow> dev_range d' = dev_range d"
  by (auto simp: down_interruptible_def dev_range_def split: if_splits)

definition listing_safe :: "scull_pipe list \<Rightarrow> plresult \<Rightarrow> bool" where
  "listing_safe ds r \<longleftrightarrow>
     (case r of
        PL_ret n ds' l eof \<Rightarrow> ds' = ds \<and> l_len l < PAGE_SIZE \<and> n \<le> int (l_len l)
      | PL_waits i \<Rightarrow> i < length ds
      | PL_oops \<Rightarrow> False)"

lemma list_devices_safe:
  assumes "\<And>a. length (pe_ptr e a) \<le> 8" "\<forall>d \<in> set ds. dev_range d"
    "int_range (int (length pre + length ds))" "l_len l \<le> PAGE_SIZE - 44"
  shows "listing_safe (pre @ ds) (list_devices e (length pre) pre ds l)"
  using assms(2-)
proof (induction ds arbitrary: pre l)
  case Nil
  then show ?case by (simp add: listing_safe_def PAGE_SIZE_def)
next
  case (Cons d ds)
  have len: "l_len l < PAGE_SIZE" using Cons.prems(3) by (simp add: PAGE_SIZE_def)
  show ?case
  proof (cases "LIMIT < l_len l")
    case False
    show ?thesis
    proof (cases "down_interruptible (pe_kenv e (length pre)) d")
      case (Acquired d')
      have "length (concat (device_lines e (length pre) d')) \<le> 156"
        using Cons.prems(1,2) down_range [OF Acquired]
        by (intro device_lines_length assms(1)) (auto simp: int_range_def)
      moreover from this obtain l' where l': "put_all (device_lines e (length pre) d') l = Some l'"
        using put_all_fits [of l "device_lines e (length pre) d'"] False by (auto simp: LIMIT_def PAGE_SIZE_def)
      ultimately have "l_len (scullp_proc_offset l') \<le> PAGE_SIZE - 44"
        using put_all_window [OF l'] False proc_offset_len [of l'] by (simp add: LIMIT_def PAGE_SIZE_def)
      with Cons.IH [of "pre @ [d]" "scullp_proc_offset l'"] Cons.prems False Acquired l' up_down [OF Acquired]
      show ?thesis by simp
    qed (use False len in \<open>auto simp: listing_safe_def ERESTARTSYS_def\<close>)
  qed (use len in \<open>simp add: listing_safe_def\<close>)
qed


text \<open>
  C21: The listing of \<open>pipe.c\<close> never writes past its page, whatever the offset and the number of devices: the
  limit of 200 bytes before the end of the page leaves room for one more entry, whose longest form has 156 characters
  on a machine with 32-bit pointers. A call that returns has given back every semaphore it took and left the devices as
  they were, and the number it returns is not larger than what it has written.
\<close>

theorem pipe_listing_bounded:
  assumes "\<And>a. length (pe_ptr e a) \<le> 8" "\<forall>d \<in> set ds. dev_range d" "int_range (int (length ds))" "int_range pbuf"
  shows "listing_safe ds (scull_read_p_mem e pbuf page off ds)"
proof -
  let ?l = "\<lparr>l_page = page, l_start = 0, l_offset = off, l_len = 0\<rparr>"
  have h: "length (header_text pbuf) \<le> 34" using dec_int_length [OF assms(4)] by (simp add: header_text_def)
  then obtain l where l: "put (header_text pbuf) ?l = Some l"
    using put_fits [of ?l "header_text pbuf"] by (auto simp: PAGE_SIZE_def)
  with put_window(1) [OF l] h have "l_len l \<le> PAGE_SIZE - 44" by (simp add: PAGE_SIZE_def)
  with list_devices_safe [of e ds "[]" l] assms l show ?thesis by (simp add: scull_read_p_mem_def)
qed

text \<open>A device nobody has opened, on a machine that prints every pointer as one digit.\<close>

definition idle_env :: plenv where
  "idle_env = \<lparr>pe_ptr = (\<lambda>a. ''0''), pe_dev = (\<lambda>i. 0), pe_buf = (\<lambda>i. 0),
     pe_kenv = (\<lambda>i. \<lparr>ke_signal = False, ke_uncopied = 0, ke_alloc = None\<rparr>)\<rparr>"

lemma idle_env_ptr: "length (pe_ptr idle_env a) \<le> 8"
  by (simp add: idle_env_def)

theorem pipe_listing_bounded_witness:
  "listing_safe [fresh_pipe, fresh_pipe] (scull_read_p_mem idle_env 4000 (\<lambda>j. CHR 0x00) 70 [fresh_pipe, fresh_pipe])"
  by (rule pipe_listing_bounded [OF idle_env_ptr]) (simp_all add: dev_range_def int_range_def fresh_pipe_def)

section \<open>The part a reader asked for\<close>

text \<open>The whole listing, and the relation between the page and the text printed so far when reading from \<open>off\<close>.\<close>

fun entries :: "plenv \<Rightarrow> nat \<Rightarrow> scull_pipe list \<Rightarrow> string" where
  "entries e i [] = []"
| "entries e i (d # ds) = concat (device_lines e i d) @ entries e (i + 1) ds"

definition page_shows :: "nat \<Rightarrow> string \<Rightarrow> listing \<Rightarrow> bool" where
  "page_shows off tx l \<longleftrightarrow>
     (\<exists>c \<le> length tx. c \<le> off \<and> l_len l = length tx - c \<and> window (l_page l) 0 (l_len l) = drop c tx \<and>
        (l_offset l = off - c \<and> l_start l = 0 \<or> l_offset l = 0 \<and> l_start l = off - c \<and> l_start l < l_len l))"

definition offset_done :: "listing \<Rightarrow> bool" where
  "offset_done l \<longleftrightarrow> l_offset l = 0 \<or> l_len l = 0"

lemma page_shows_put:
  assumes "page_shows off tx l" "put_all xs l = Some l'"
  shows "page_shows off (tx @ concat xs) l'"
proof -
  from assms(1) obtain c where c: "c \<le> length tx" "c \<le> off" "l_len l = length tx - c"
    "window (l_page l) 0 (l_len l) = drop c tx"
    "l_offset l = off - c \<and> l_start l = 0 \<or> l_offset l = 0 \<and> l_start l = off - c \<and> l_start l < l_len l"
    by (auto simp: page_shows_def)
  with put_all_window [OF assms(2)] show ?thesis
    unfolding page_shows_def by (intro exI [of _ c]) auto
qed

lemma page_shows_offset:
  assumes "page_shows off tx l"
  shows "page_shows off tx (scullp_proc_offset l) \<and> offset_done (scullp_proc_offset l)"
proof (cases "l_offset l = 0")
  case True
  with assms show ?thesis by (simp add: scullp_proc_offset_def offset_done_def)
next
  case False
  with assms obtain c where c: "c \<le> length tx" "c \<le> off" "l_len l = length tx - c"
    "window (l_page l) 0 (l_len l) = drop c tx" "l_offset l = off - c" "l_start l = 0"
    by (auto simp: page_shows_def)
  show ?thesis
  proof (cases "l_len l \<le> l_offset l")
    case True
    with c False show ?thesis
      by (auto simp: scullp_proc_offset_def offset_done_def page_shows_def window_def intro!: exI [of _ "length tx"])
  next
    case le: False
    with c False show ?thesis
      by (auto simp: scullp_proc_offset_def offset_done_def page_shows_def intro!: exI [of _ c])
  qed
qed

lemma drop_window: "drop k (window page 0 n) = window page k n"
  by (simp add: window_def drop_map)

lemma page_shows_final:
  assumes "page_shows off tx l" "offset_done l"
  shows "window (l_page l) (l_start l) (l_len l) = drop off tx"
proof -
  from assms(1) obtain c where c: "c \<le> length tx" "c \<le> off" "l_len l = length tx - c"
    "window (l_page l) 0 (l_len l) = drop c tx"
    "l_offset l = off - c \<and> l_start l = 0 \<or> l_offset l = 0 \<and> l_start l = off - c \<and> l_start l < l_len l"
    by (auto simp: page_shows_def)
  have "window (l_page l) (l_start l) (l_len l) = drop (l_start l + c) tx"
    using drop_window [of "l_start l" "l_page l" "l_len l"] c(4) by (metis drop_drop)
  with c assms(2) show ?thesis by (auto simp: offset_done_def)
qed

text \<open>With all semaphores free and the listing within the limit, the loop reaches every device.\<close>

lemma list_devices_shows:
  assumes "\<forall>d \<in> set ds. 0 < sem d" "length (tx @ entries e i ds) \<le> LIMIT" "page_shows off tx l"
    "ds = [] \<Longrightarrow> offset_done l"
  shows "\<exists>l'. list_devices e i pre ds l = PL_ret (int (l_len l')) (pre @ ds) l' True \<and>
    page_shows off (tx @ entries e i ds) l' \<and> offset_done l'"
  using assms
proof (induction ds arbitrary: i pre l tx)
  case Nil
  then show ?case by (auto simp: page_shows_def)
next
  case (Cons d ds)
  let ?d = "d\<lparr>sem := sem d - 1\<rparr>"
  have len: "l_len l \<le> length tx" using Cons.prems(3) by (auto simp: page_shows_def)
  have dl: "device_lines e i ?d = device_lines e i d" by (simp add: device_lines_def)
  obtain l' where l': "put_all (device_lines e i ?d) l = Some l'"
    using put_all_fits [of l "device_lines e i d"] len Cons.prems(2) dl by (auto simp: LIMIT_def PAGE_SIZE_def)
  have p: "page_shows off (tx @ concat (device_lines e i d)) (scullp_proc_offset l')"
    "offset_done (scullp_proc_offset l')"
    using page_shows_offset [OF page_shows_put [OF Cons.prems(3) l']] dl by auto
  have "up ?d = d" using Cons.prems(1) by (simp add: up_def)
  with Cons.IH [of "tx @ concat (device_lines e i d)" "i + 1" "scullp_proc_offset l'" "pre @ [d]"] p Cons.prems l' len
  show ?case by (simp add: down_interruptible_def)
qed

text \<open>
  When the semaphores are free and the whole listing fits below the limit, a read at any offset returns the listing
  from that offset on: the text between \<open>*start\<close> and \<open>len\<close>. The number returned is \<open>len\<close> itself and not the length of that
  part, so it is too large by \<open>*start\<close> and the caller copies what happens to be in the page behind the listing.
\<close>

theorem pipe_listing_window:
  assumes "ds \<noteq> []" "\<forall>d \<in> set ds. 0 < sem d" "length (header_text pbuf @ entries e 0 ds) \<le> LIMIT"
  shows "\<exists>l. scull_read_p_mem e pbuf page off ds =
      PL_ret (int (l_start l + length (drop off (header_text pbuf @ entries e 0 ds)))) ds l True \<and>
    window (l_page l) (l_start l) (l_len l) = drop off (header_text pbuf @ entries e 0 ds)"
proof -
  let ?l = "\<lparr>l_page = page, l_start = 0, l_offset = off, l_len = 0\<rparr>"
  obtain l where l: "put (header_text pbuf) ?l = Some l"
    using put_fits [of ?l "header_text pbuf"] assms(3) by (auto simp: PAGE_SIZE_def LIMIT_def)
  then have "put_all [header_text pbuf] ?l = Some l" by simp
  moreover have "page_shows off [] ?l" by (simp add: page_shows_def window_def)
  ultimately have "page_shows off (header_text pbuf) l" using page_shows_put by fastforce
  with list_devices_shows [of ds "header_text pbuf" e 0 off l "[]"] assms l obtain l' where
    l': "scull_read_p_mem e pbuf page off ds = PL_ret (int (l_len l')) ds l' True"
    "page_shows off (header_text pbuf @ entries e 0 ds) l'" "offset_done l'"
    by (auto simp: scull_read_p_mem_def)
  note w = page_shows_final [OF l'(2,3)]
  have "l_start l' \<le> l_len l'" using l'(2) by (auto simp: page_shows_def)
  moreover have "length (window (l_page l') (l_start l') (l_len l')) = l_len l' - l_start l'" by (simp add: window_def)
  ultimately have "l_len l' = l_start l' + length (drop off (header_text pbuf @ entries e 0 ds))" using w by simp
  with l'(1) w show ?thesis by auto
qed

lemma idle_listing_fits: "length (header_text 4000 @ entries idle_env 0 [fresh_pipe]) \<le> LIMIT"
  by code_simp

theorem pipe_listing_window_witness:
  "\<exists>l. scull_read_p_mem idle_env 4000 (\<lambda>j. CHR 0x00) 30 [fresh_pipe] =
      PL_ret (int (l_start l + length (drop 30 (header_text 4000 @ entries idle_env 0 [fresh_pipe])))) [fresh_pipe] l True \<and>
    window (l_page l) (l_start l) (l_len l) = drop 30 (header_text 4000 @ entries idle_env 0 [fresh_pipe])"
  by (rule pipe_listing_window [OF _ _ idle_listing_fits]) (simp_all add: fresh_pipe_def)

end
