(* ===== verification/Scull.thy ===== *)
theory Scull
  imports Prelude
begin

text \<open>
  The memory-backed character device (\<open>src/7/main.c\<close>, \<open>src/7/scull.h\<close>) on a 32-bit machine. The
  data of a device is a linked list of nodes \<open>struct scull_qset\<close> (a pointer to an array of
  quantum pointers at offset 0, the next node at offset 4), all of it in a byte-addressed kernel
  memory, because the code computes addresses by pointer arithmetic. What \<open>kmalloc\<close> returns is
  read from a supply of addresses (0 is \<open>NULL\<close>).
\<close>

section \<open>Kernel memory\<close>

record kmem =
  kbytes :: "nat \<Rightarrow> byte"
  blocks :: "(nat \<times> nat) list"
  pending :: "nat list"

definition load32 :: "(nat \<Rightarrow> byte) \<Rightarrow> nat \<Rightarrow> nat" where
  "load32 b a = unat (b a) + 2 ^ 8 * unat (b (a + 1)) + 2 ^ 16 * unat (b (a + 2)) + 2 ^ 24 * unat (b (a + 3))"

definition store_bytes :: "nat \<Rightarrow> byte list \<Rightarrow> (nat \<Rightarrow> byte) \<Rightarrow> nat \<Rightarrow> byte" where
  "store_bytes a bs b x = (if a \<le> x \<and> x < a + length bs then bs ! (x - a) else b x)"

definition load_bytes :: "nat \<Rightarrow> nat \<Rightarrow> (nat \<Rightarrow> byte) \<Rightarrow> byte list" where
  "load_bytes a n b = map (\<lambda>i. b (a + i)) [0..<n]"

definition word_bytes :: "nat \<Rightarrow> byte list" where
  "word_bytes v = [of_nat v, of_nat (v div 2 ^ 8), of_nat (v div 2 ^ 16), of_nat (v div 2 ^ 24)]"

definition store32 :: "nat \<Rightarrow> nat \<Rightarrow> kmem \<Rightarrow> kmem" where
  "store32 a v m = m\<lparr>kbytes := store_bytes a (word_bytes v) (kbytes m)\<rparr>"

text \<open>\<open>kmalloc\<close>: the next address of the supply; the block is recorded unless the address is 0.\<close>

definition kmalloc :: "nat \<Rightarrow> kmem \<Rightarrow> nat \<times> kmem" where
  "kmalloc n m =
     (case pending m of
        [] \<Rightarrow> (0, m)
      | a # as \<Rightarrow> (a, m\<lparr>pending := as, blocks := (if a = 0 then blocks m else (a, n) # blocks m)\<rparr>))"

text \<open>\<open>kmalloc\<close> followed by \<open>memset\<close> to zero.\<close>

definition kzalloc :: "nat \<Rightarrow> kmem \<Rightarrow> nat \<times> kmem" where
  "kzalloc n m =
     (let (a, m) = kmalloc n m
      in (a, if a = 0 then m else m\<lparr>kbytes := store_bytes a (replicate n 0) (kbytes m)\<rparr>))"

text \<open>\<open>kfree\<close> of an address that is not the start of a block has no defined result (\<open>None\<close>).\<close>

definition kfree :: "nat \<Rightarrow> kmem \<Rightarrow> kmem option" where
  "kfree a m =
     (if a = 0 then Some m
      else if a \<in> fst ` set (blocks m) then Some (m\<lparr>blocks := filter (\<lambda>b. fst b \<noteq> a) (blocks m)\<rparr>)
      else None)"

section \<open>The device\<close>

definition SCULL_MAJOR :: int where "SCULL_MAJOR = 0"
definition SCULL_NR_DEVS :: nat where "SCULL_NR_DEVS = 4"
definition SCULL_QUANTUM :: int where "SCULL_QUANTUM = 4000"
definition SCULL_QSET :: int where "SCULL_QSET = 1000"
definition SCULL_DATA_SIZE :: int where "SCULL_DATA_SIZE = 16"

definition sizeof_qset :: nat where "sizeof_qset = 8"

record scull_dev =
  d_data :: nat
  quantum :: int
  qset :: int
  size :: nat

text \<open>The load-time parameters \<open>scull_quantum\<close> and \<open>scull_qset\<close>.\<close>

record scull_params =
  scull_quantum :: int
  scull_qset :: int

section \<open>Emptying a device: \<open>scull_trim\<close>\<close>

fun free_quanta :: "nat list \<Rightarrow> nat \<Rightarrow> kmem \<Rightarrow> kmem option" where
  "free_quanta [] arr m = Some m"
| "free_quanta (i # is) arr m =
     (case kfree (load32 (kbytes m) (arr + 4 * i)) m of
        None \<Rightarrow> None
      | Some m \<Rightarrow> free_quanta is arr m)"

definition free_array :: "int \<Rightarrow> nat \<Rightarrow> kmem \<Rightarrow> kmem option" where
  "free_array nq dptr m =
     (let arr = load32 (kbytes m) dptr in
      if arr = 0 then Some m
      else (case free_quanta [0..<nat nq] arr m of
              None \<Rightarrow> None
            | Some m \<Rightarrow> (case kfree arr m of None \<Rightarrow> None | Some m \<Rightarrow> Some (store32 dptr 0 m))))"

partial_function (option) trim_loop :: "int \<Rightarrow> nat \<Rightarrow> kmem \<Rightarrow> kmem option" where
  "trim_loop nq dptr m =
     (if dptr = 0 then Some m
      else (case free_array nq dptr m of
              None \<Rightarrow> None
            | Some m \<Rightarrow>
                (case kfree dptr m of
                   None \<Rightarrow> None
                 | Some m' \<Rightarrow> trim_loop nq (load32 (kbytes m) (dptr + 4)) m')))"

declare trim_loop.simps [code]

definition scull_trim :: "scull_params \<Rightarrow> scull_dev \<Rightarrow> kmem \<Rightarrow> (scull_dev \<times> kmem) option" where
  "scull_trim P dev m =
     (case trim_loop (qset dev) (d_data dev) m of
        None \<Rightarrow> None
      | Some m \<Rightarrow> Some (dev\<lparr>size := 0, quantum := scull_quantum P, qset := scull_qset P, d_data := 0\<rparr>, m))"

section \<open>Opening and seeking\<close>

definition O_ACCMODE :: int where "O_ACCMODE = 3"
definition O_WRONLY :: int where "O_WRONLY = 1"

text \<open>\<open>intr\<close>: \<open>down_interruptible\<close> was interrupted.\<close>

definition scull_open ::
  "scull_params \<Rightarrow> bool \<Rightarrow> int \<Rightarrow> scull_dev \<Rightarrow> kmem \<Rightarrow> (scull_dev \<times> kmem \<times> int) option" where
  "scull_open P intr f_flags dev m =
     (if f_flags mod (O_ACCMODE + 1) = O_WRONLY then
        (if intr then Some (dev, m, - ERESTARTSYS)
         else (case scull_trim P dev m of None \<Rightarrow> None | Some (dev, m) \<Rightarrow> Some (dev, m, 0)))
      else Some (dev, m, 0))"

definition scull_release :: int where
  "scull_release = 0"

definition scull_llseek :: "scull_dev \<Rightarrow> int \<Rightarrow> int \<Rightarrow> int \<Rightarrow> int \<times> int" where
  "scull_llseek dev f_pos off whence =
     (let finish = (\<lambda>newpos. if newpos < 0 then (f_pos, - EINVAL) else (newpos, newpos)) in
      if whence = 0 then finish off
      else if whence = 1 then finish (f_pos + off)
      else if whence = 2 then finish (int (size dev) + off)
      else (f_pos, - EINVAL))"

section \<open>Walking the list: \<open>scull_follow\<close>\<close>

text \<open>The loop \<open>while (n--)\<close>, which runs as often as \<open>n\<close> says when read as an unsigned number.\<close>

fun follow_loop :: "nat \<Rightarrow> nat \<Rightarrow> kmem \<Rightarrow> nat \<times> kmem" where
  "follow_loop 0 qs m = (qs, m)"
| "follow_loop (Suc n) qs m =
     (let nxt = load32 (kbytes m) (qs + 4) in
      if nxt \<noteq> 0 then follow_loop n nxt m
      else
        (let (a, m) = kzalloc sizeof_qset m; m = store32 (qs + 4) a m
         in if a = 0 then (0, m) else follow_loop n a m))"

definition scull_follow :: "int \<Rightarrow> scull_dev \<Rightarrow> kmem \<Rightarrow> nat \<times> scull_dev \<times> kmem" where
  "scull_follow n dev m =
     (if d_data dev = 0 then
        (let (a, m) = kzalloc sizeof_qset m; dev = dev\<lparr>d_data := a\<rparr>
         in if a = 0 then (0, dev, m)
            else (let (qs, m) = follow_loop (size_t32 n) a m in (qs, dev, m)))
      else (let (qs, m) = follow_loop (size_t32 n) (d_data dev) m in (qs, dev, m)))"

section \<open>Reading and writing\<close>

text \<open>The position inside the list: node, quantum and byte; \<open>None\<close> is a division by zero.\<close>

definition scull_position :: "scull_dev \<Rightarrow> int \<Rightarrow> (int \<times> int \<times> int) option" where
  "scull_position dev f_pos =
     (let itemsize = int32 (quantum dev * qset dev); rest = cmod (int32 f_pos) itemsize in
      if itemsize = 0 \<or> quantum dev = 0 then None
      else Some (cdiv (int32 f_pos) itemsize, cdiv rest (quantum dev), cmod rest (quantum dev)))"

text \<open>The address \<open>dev->data + *f_pos\<close>: the pointer is to nodes, so it moves in steps of a node.\<close>

definition data_addr :: "scull_dev \<Rightarrow> int \<Rightarrow> nat" where
  "data_addr dev f_pos = size_t32 (int (d_data dev) + int sizeof_qset * f_pos)"

text \<open>\<open>se_intr\<close>: the wait for the semaphore is interrupted; \<open>se_uncopied\<close>: bytes left uncopied.\<close>

record senv =
  se_intr :: bool
  se_uncopied :: nat

definition entry_addr :: "nat \<Rightarrow> int \<Rightarrow> nat" where
  "entry_addr arr s_pos = size_t32 (int arr + 4 * s_pos)"

definition scull_read ::
  "senv \<Rightarrow> nat \<Rightarrow> int \<Rightarrow> scull_dev \<Rightarrow> kmem \<Rightarrow> (scull_dev \<times> kmem \<times> int \<times> byte list \<times> int) option" where
  "scull_read e count f_pos dev m =
     (if se_intr e then Some (dev, m, f_pos, [], - ERESTARTSYS)
      else if int (size dev) \<le> f_pos then Some (dev, m, f_pos, [], 0)
      else
        (let count = (if int (size dev) < f_pos + int count then size_t32 (int (size dev) - f_pos) else count) in
         case scull_position dev f_pos of
           None \<Rightarrow> None
         | Some (item, s_pos, q_pos) \<Rightarrow>
             (let (dptr, dev, m) = scull_follow item dev m; arr = load32 (kbytes m) dptr in
              if dptr = 0 \<or> arr = 0 \<or> load32 (kbytes m) (entry_addr arr s_pos) = 0
              then Some (dev, m, f_pos, [], 0)
              else
                (let count = min count (size_t32 (quantum dev - q_pos)) in
                 if se_uncopied e \<noteq> 0 then Some (dev, m, f_pos, [], - EFAULT)
                 else Some (dev, m, f_pos + int count,
                            load_bytes (data_addr dev f_pos) count (kbytes m), int32 (int count))))))"

text \<open>The part of \<open>scull_write\<close> before the copy: the node, its array and the quantum exist afterwards.\<close>

definition write_alloc :: "scull_dev \<Rightarrow> int \<Rightarrow> int \<Rightarrow> kmem \<Rightarrow> bool \<times> scull_dev \<times> kmem" where
  "write_alloc dev item s_pos m =
     (let (dptr, dev, m) = scull_follow item dev m in
      if dptr = 0 then (False, dev, m)
      else
        (let (arr, m) =
           (if load32 (kbytes m) dptr = 0 then
              (let (a, m) = kzalloc (size_t32 (4 * qset dev)) m in (a, store32 dptr a m))
            else (load32 (kbytes m) dptr, m)) in
         if arr = 0 then (False, dev, m)
         else if load32 (kbytes m) (entry_addr arr s_pos) = 0 then
           (let (q, m) = kmalloc (size_t32 (quantum dev)) m; m = store32 (entry_addr arr s_pos) q m
            in (q \<noteq> 0, dev, m))
         else (True, dev, m)))"

definition write_len :: "scull_dev \<Rightarrow> nat \<Rightarrow> int \<Rightarrow> int \<Rightarrow> nat" where
  "write_len dev count q_pos f_pos =
     (let count = min count (size_t32 (quantum dev - q_pos)) in
      if SCULL_DATA_SIZE < f_pos + int count then size_t32 (SCULL_DATA_SIZE - f_pos) else count)"

definition scull_write ::
  "senv \<Rightarrow> byte list \<Rightarrow> nat \<Rightarrow> int \<Rightarrow> scull_dev \<Rightarrow> kmem \<Rightarrow> (scull_dev \<times> kmem \<times> int \<times> int) option" where
  "scull_write e buf count f_pos dev m =
     (if se_intr e then Some (dev, m, f_pos, - ERESTARTSYS)
      else
        (case scull_position dev f_pos of
           None \<Rightarrow> None
         | Some (item, s_pos, q_pos) \<Rightarrow>
             (let (ok, dev, m) = write_alloc dev item s_pos m in
              if \<not> ok then Some (dev, m, f_pos, - ENOMEM)
              else
                (let n = write_len dev count q_pos f_pos;
                     m = m\<lparr>kbytes := store_bytes (data_addr dev f_pos) (user_bytes (se_uncopied e) n buf) (kbytes m)\<rparr> in
                 if se_uncopied e \<noteq> 0 then Some (dev, m, f_pos, - EFAULT)
                 else
                   (let f_pos = f_pos + int n in
                    Some (dev\<lparr>size := (if int (size dev) < f_pos then size_t32 f_pos else size dev)\<rparr>,
                          m, f_pos, int32 (int n)))))))"

section \<open>Laws of the memory\<close>

lemma store_bytes_other: "x < a \<or> a + length bs \<le> x \<Longrightarrow> store_bytes a bs b x = b x"
  by (auto simp: store_bytes_def)

lemma store_bytes_in: "i < length bs \<Longrightarrow> store_bytes a bs b (a + i) = bs ! i"
  by (simp add: store_bytes_def)

lemma length_word_bytes [simp]: "length (word_bytes v) = 4"
  by (simp add: word_bytes_def)

lemma load32_other:
  "x + 4 \<le> a \<or> a + length bs \<le> x \<Longrightarrow> load32 (store_bytes a bs b) x = load32 b x"
  by (auto simp: load32_def store_bytes_other)

lemma load32_zeros:
  assumes "a \<le> x" and "x + 4 \<le> a + n"
  shows "load32 (store_bytes a (replicate n 0) b) x = 0"
  using assms by (simp add: load32_def store_bytes_def)

lemma digits256:
  assumes "v < 2 ^ 32"
  shows "v mod 2 ^ 8 + 2 ^ 8 * (v div 2 ^ 8 mod 2 ^ 8) + 2 ^ 16 * (v div 2 ^ 16 mod 2 ^ 8) +
    2 ^ 24 * (v div 2 ^ 24 mod 2 ^ 8) = (v::nat)"
proof -
  define w where "w = v div 256"
  define x where "x = w div 256"
  define y where "y = x div 256"
  have "v = 256 * w + v mod 256" "w = 256 * x + w mod 256" "x = 256 * y + x mod 256"
    by (simp_all add: w_def x_def y_def)
  moreover have "v div 65536 = x" "v div 16777216 = y"
    by (simp_all add: w_def x_def y_def div_mult2_eq [symmetric])
  moreover have "y < 256" using assms \<open>v div 16777216 = y\<close> by auto
  then have "y mod 256 = y" by simp
  ultimately show ?thesis by (simp add: w_def [symmetric])
qed

lemma load32_store32: "v < 2 ^ 32 \<Longrightarrow> load32 (kbytes (store32 a v m)) a = v"
  using digits256 [of v]
  by (simp add: load32_def store32_def store_bytes_def word_bytes_def unat_of_nat nth_Cons')

lemma load32_store32_other:
  "x + 4 \<le> a \<or> a + 4 \<le> x \<Longrightarrow> load32 (kbytes (store32 a v m)) x = load32 (kbytes m) x"
  by (simp add: store32_def load32_other)

lemma size_t32_of_nat [simp]: "n < 2 ^ 32 \<Longrightarrow> size_t32 (int n) = n"
  by (simp add: size_t32_def)

section \<open>The first write to a device\<close>

text \<open>
  A device as \<open>scull_init_module\<close> leaves it, with sensible parameters, and three blocks that
  \<open>kmalloc\<close> will return: a node, an array of quantum pointers and a quantum, which do not overlap.
\<close>

definition fresh_dev :: "scull_dev \<Rightarrow> bool" where
  "fresh_dev dev \<longleftrightarrow> d_data dev = 0 \<and> size dev = 0 \<and> SCULL_DATA_SIZE \<le> quantum dev \<and> 0 < qset dev \<and>
     quantum dev * qset dev < 2 ^ 31 \<and> 4 * qset dev < 2 ^ 32"

definition good_supply :: "scull_dev \<Rightarrow> nat \<Rightarrow> nat \<Rightarrow> nat \<Rightarrow> kmem \<Rightarrow> bool" where
  "good_supply dev a arr q m \<longleftrightarrow> (\<exists>rest. pending m = a # arr # q # rest) \<and>
     0 < a \<and> a + 8 \<le> 2 ^ 32 \<and> 0 < arr \<and> arr + nat (4 * qset dev) \<le> 2 ^ 32 \<and> 0 < q \<and> q < 2 ^ 32 \<and>
     (a + 8 \<le> arr \<or> arr + nat (4 * qset dev) \<le> a)"

definition usable_dev :: "scull_dev \<Rightarrow> bool" where
  "usable_dev dev \<longleftrightarrow> SCULL_DATA_SIZE \<le> quantum dev \<and> 0 < qset dev \<and> quantum dev * qset dev < 2 ^ 31"

lemma position_0:
  assumes "usable_dev dev"
  shows "scull_position dev 0 = Some (0, 0, 0)"
proof -
  have "0 < quantum dev * qset dev" "int32 (quantum dev * qset dev) = quantum dev * qset dev"
    using assms by (auto simp: usable_dev_def SCULL_DATA_SIZE_def intro!: int32_id)
      (smt (verit) mult_pos_pos)
  moreover have "int32 0 = 0" by (simp add: int32_def)
  ultimately show ?thesis
    using assms by (simp add: scull_position_def Let_def cdiv_def cmod_def usable_dev_def SCULL_DATA_SIZE_def)
qed

lemma write_alloc_first:
  assumes "fresh_dev dev" and "good_supply dev a arr q m"
  obtains m' where "write_alloc dev 0 0 m = (True, dev\<lparr>d_data := a\<rparr>, m')"
    "load32 (kbytes m') a = arr" "load32 (kbytes m') arr = q"
proof -
  obtain rest where rest: "pending m = a # arr # q # rest" using assms(2) by (auto simp: good_supply_def)
  let ?z = "\<lambda>a n b. store_bytes a (replicate n (0::byte)) b"
  let ?n = "nat (4 * qset dev)"
  have pos: "0 < a" "0 < arr" "0 < q" "arr < 2 ^ 32" "q < 2 ^ 32" "4 \<le> ?n"
    and disj: "a + 8 \<le> arr \<or> arr + ?n \<le> a"
    using assms by (auto simp: good_supply_def fresh_dev_def)
  have sz: "size_t32 (4 * qset dev) = ?n" "entry_addr arr 0 = arr" "size_t32 0 = 0"
    using assms pos by (simp_all add: fresh_dev_def size_t32_id entry_addr_def)
  define m1 where "m1 = m\<lparr>pending := q # rest, blocks := (arr, ?n) # (a, 8) # blocks m,
    kbytes := ?z arr ?n (?z a 8 (kbytes m))\<rparr>"
  define m2 where "m2 = store32 a arr m1"
  have zero_a: "load32 (?z a 8 (kbytes m)) a = 0" by (simp add: load32_zeros)
  have "load32 (kbytes m1) arr = 0" using pos by (simp add: m1_def load32_zeros)
  then have zero_arr: "load32 (kbytes m2) arr = 0"
    unfolding m2_def using disj pos by (subst load32_store32_other) auto
  have run: "write_alloc dev 0 0 m = (True, dev\<lparr>d_data := a\<rparr>,
      store32 arr q (m2\<lparr>pending := rest, blocks := (q, size_t32 (quantum dev)) # blocks m2\<rparr>))"
    using assms(1) rest pos sz zero_a zero_arr
    by (simp add: write_alloc_def scull_follow_def kzalloc_def kmalloc_def fresh_dev_def sizeof_qset_def
        m1_def [symmetric] m2_def [symmetric])
      (simp add: m2_def m1_def store32_def)
  show ?thesis
  proof (rule that [OF run])
    have "load32 (kbytes m2) a = arr" unfolding m2_def using pos by (simp add: load32_store32)
    then show "load32 (kbytes (store32 arr q (m2\<lparr>pending := rest, blocks := (q, size_t32 (quantum dev)) # blocks m2\<rparr>))) a = arr"
      using disj pos by (subst load32_store32_other) auto
    show "load32 (kbytes (store32 arr q (m2\<lparr>pending := rest, blocks := (q, size_t32 (quantum dev)) # blocks m2\<rparr>))) arr = q"
      using pos by (simp add: load32_store32)
  qed
qed

lemma write_len_first:
  assumes "usable_dev dev" and "quantum dev < 2 ^ 31" and "count < 2 ^ 32"
  shows "write_len dev count 0 0 = min count 16"
proof -
  have "size_t32 (quantum dev - 0) = nat (quantum dev)" "16 \<le> nat (quantum dev)" "size_t32 16 = 16"
    using assms by (auto simp: usable_dev_def SCULL_DATA_SIZE_def size_t32_id)
  then show ?thesis by (auto simp: write_len_def Let_def SCULL_DATA_SIZE_def)
qed

lemma fresh_usable: "fresh_dev dev \<Longrightarrow> usable_dev dev \<and> quantum dev < 2 ^ 31"
proof -
  assume f: "fresh_dev dev"
  then have "quantum dev * 1 \<le> quantum dev * qset dev"
    by (intro mult_left_mono) (auto simp: fresh_dev_def SCULL_DATA_SIZE_def)
  with f show ?thesis by (auto simp: fresh_dev_def usable_dev_def)
qed

text \<open>
  The first write to an empty device stores the user's bytes over the first node of the
  list, because \<open>dev->data + *f_pos\<close> is the address of a node and not of a quantum: a write of
  at least four bytes returns with the node's pointer to its quantum array replaced by the
  user's bytes, and nothing is stored in the quantum that was allocated for them.
\<close>

theorem scull_write_clobbers_node:
  assumes "fresh_dev dev" and "good_supply dev a arr q m"
    and "\<not> se_intr e" and "se_uncopied e = 0" and "4 \<le> length buf" and "length buf < 2 ^ 31"
  shows "\<exists>m'. scull_write e buf (length buf) 0 dev m =
      Some (dev\<lparr>d_data := a, size := min (length buf) 16\<rparr>, m', int (min (length buf) 16), int (min (length buf) 16)) \<and>
    load32 (kbytes m') a = load32 (\<lambda>i. buf ! i) 0 \<and>
    load_bytes a (min (length buf) 16) (kbytes m') = take 16 buf"
proof -
  obtain m1 where m1: "write_alloc dev 0 0 m = (True, dev\<lparr>d_data := a\<rparr>, m1)"
    by (rule write_alloc_first [OF assms(1,2)])
  let ?n = "min (length buf) 16"
  have u: "usable_dev dev" "usable_dev (dev\<lparr>d_data := a\<rparr>)" "quantum dev < 2 ^ 31" "size dev = 0"
    using fresh_usable [OF assms(1)] assms(1) by (simp_all add: usable_dev_def fresh_dev_def)
  have len: "write_len (dev\<lparr>d_data := a\<rparr>) (length buf) 0 0 = ?n" 
    using write_len_first [OF u(2)] u(3) assms(6) by simp
  have addr: "data_addr (dev\<lparr>d_data := a\<rparr>) 0 = a"
    using assms(2) by (simp add: data_addr_def good_supply_def)
  have bytes: "user_bytes 0 ?n buf = take 16 buf" by (simp add: user_bytes_def min_def)
  let ?m = "m1\<lparr>kbytes := store_bytes a (take 16 buf) (kbytes m1)\<rparr>"
  have "scull_write e buf (length buf) 0 dev m =
      Some (dev\<lparr>d_data := a, size := ?n\<rparr>, ?m, int ?n, int ?n)"
    using assms(3-6) m1 u(4) len addr bytes
    by (auto simp: scull_write_def position_0 [OF u(1)] Let_def int32_id size_t32_id min_def)
  moreover have st: "kbytes ?m (a + i) = buf ! i" if "i < 4" for i
    using that assms(5) by (simp add: store_bytes_in)
  have "load32 (kbytes ?m) a = load32 (\<lambda>i. buf ! i) 0"
    using st [of 0] st [of 1] st [of 2] st [of 3] unfolding load32_def by (simp add: numeral_2_eq_2)
  moreover have "load_bytes a ?n (kbytes ?m) = take 16 buf"
    by (auto simp: load_bytes_def store_bytes_def intro!: nth_equalityI)
  ultimately show ?thesis by blast
qed

theorem scull_write_clobbers_node_witness:
  "\<exists>m'. scull_write \<lparr>se_intr = False, se_uncopied = 0\<rparr> [1, 2, 3, 4, 5] 5 0
      \<lparr>d_data = 0, quantum = 4000, qset = 1000, size = 0\<rparr>
      \<lparr>kbytes = (\<lambda>_. 0), blocks = [], pending = [4096, 8192, 16384]\<rparr> =
      Some (\<lparr>d_data = 4096, quantum = 4000, qset = 1000, size = 5\<rparr>, m', 5, 5) \<and>
    load32 (kbytes m') 4096 = 67305985"
proof -
  let ?dev = "\<lparr>d_data = 0, quantum = 4000, qset = 1000, size = 0\<rparr>"
  let ?m = "\<lparr>kbytes = (\<lambda>_. 0), blocks = [], pending = [4096, 8192, 16384]\<rparr>"
  have "fresh_dev ?dev" "good_supply ?dev 4096 8192 16384 ?m"
    by (simp_all add: fresh_dev_def good_supply_def SCULL_DATA_SIZE_def)
  moreover have len: "length [1, 2, 3, 4, 5 :: byte] = 5" by simp
  ultimately show ?thesis
    using scull_write_clobbers_node [of ?dev 4096 8192 16384 ?m "\<lparr>se_intr = False, se_uncopied = 0\<rparr>"
        "[1, 2, 3, 4, 5]", unfolded len]
    by (auto simp: load32_def)
qed

text \<open>
  Reading the device after such a write dereferences the pointer the user wrote: the read
  returns the bytes only if that pointer is not null and the word it points to is not zero.
\<close>

theorem scull_read_follows_user_pointer:
  assumes "usable_dev dev" and "quantum dev < 2 ^ 31" and "d_data dev = a" and "0 < a" and "a < 2 ^ 32"
    and "size dev = n" and "0 < n" and "n \<le> 16"
    and "load32 (kbytes m) a = u" and "u < 2 ^ 32"
    and "\<not> se_intr e" and "se_uncopied e = 0" and "n \<le> count" and "count < 2 ^ 32"
  shows "scull_read e count 0 dev m =
    (if u = 0 \<or> load32 (kbytes m) u = 0 then Some (dev, m, 0, [], 0)
     else Some (dev, m, int n, load_bytes a n (kbytes m), int n))"
proof -
  have c: "(if int (size dev) < 0 + int count then size_t32 (int (size dev) - 0) else count) = n"
    using assms by auto
  have f: "scull_follow 0 dev m = (a, dev, m)"
    using assms by (simp add: scull_follow_def size_t32_def)
  have q: "size_t32 (quantum dev - 0) = nat (quantum dev)" "n \<le> nat (quantum dev)"
    using assms by (auto simp: usable_dev_def SCULL_DATA_SIZE_def size_t32_id)
  have addr: "entry_addr u 0 = u" "data_addr dev 0 = a"
    using assms by (simp_all add: entry_addr_def data_addr_def)
  have "int32 (int n) = int n" using assms by (intro int32_id) auto
  then show ?thesis
    using assms c f q addr unfolding scull_read_def position_0 [OF assms(1)] Let_def
    by (simp add: min_def)
qed

theorem scull_read_follows_user_pointer_witness:
  "scull_read \<lparr>se_intr = False, se_uncopied = 0\<rparr> 5 0 \<lparr>d_data = 4096, quantum = 4000, qset = 1000, size = 5\<rparr>
      \<lparr>kbytes = (\<lambda>x. if x = 4096 then 1 else 0), blocks = [], pending = []\<rparr> =
   Some (\<lparr>d_data = 4096, quantum = 4000, qset = 1000, size = 5\<rparr>,
      \<lparr>kbytes = (\<lambda>x. if x = 4096 then 1 else 0), blocks = [], pending = []\<rparr>, 0, [], 0)"
  using scull_read_follows_user_pointer [of "\<lparr>d_data = 4096, quantum = 4000, qset = 1000, size = 5\<rparr>" 4096 5
      "\<lparr>kbytes = (\<lambda>x. if x = 4096 then 1 else 0), blocks = [], pending = []\<rparr>" 1
      "\<lparr>se_intr = False, se_uncopied = 0\<rparr>" 5]
  by (simp add: usable_dev_def SCULL_DATA_SIZE_def load32_def)

section \<open>Emptying a device gives all of it back\<close>

text \<open>
  \<open>qrep nq b ptr items\<close>: at \<open>ptr\<close> there is the list of nodes \<open>items\<close>, each with its address, the
  address of its array (or 0) and the \<open>nq\<close> entries of the array.
\<close>

type_synonym items = "(nat \<times> nat \<times> nat list) list"

fun qrep :: "nat \<Rightarrow> (nat \<Rightarrow> byte) \<Rightarrow> nat \<Rightarrow> items \<Rightarrow> bool" where
  "qrep nq b ptr [] \<longleftrightarrow> ptr = 0"
| "qrep nq b ptr ((n, arr, qs) # xs) \<longleftrightarrow>
     ptr = n \<and> n \<noteq> 0 \<and> load32 b n = arr \<and>
     qs = (if arr = 0 then [] else map (\<lambda>i. load32 b (arr + 4 * i)) [0..<nq]) \<and>
     qrep nq b (load32 b (n + 4)) xs"

fun owned :: "items \<Rightarrow> nat list" where
  "owned [] = []"
| "owned ((n, arr, qs) # xs) = filter (\<lambda>a. a \<noteq> 0) (qs @ [arr, n]) @ owned xs"

text \<open>No node overlaps a later node or its array.\<close>

fun sep_items :: "nat \<Rightarrow> items \<Rightarrow> bool" where
  "sep_items nq [] \<longleftrightarrow> True"
| "sep_items nq ((n, arr, qs) # xs) \<longleftrightarrow>
     (\<forall>(n', arr', _) \<in> set xs. (n + 4 \<le> n' \<or> n' + 8 \<le> n) \<and> (n + 4 \<le> arr' \<or> arr' + 4 * nq \<le> n)) \<and>
     sep_items nq xs"

definition without :: "nat set \<Rightarrow> kmem \<Rightarrow> kmem" where
  "without S m = m\<lparr>blocks := filter (\<lambda>b. fst b \<notin> S) (blocks m)\<rparr>"

lemma without_simps [simp]:
  "kbytes (without S m) = kbytes m" "pending (without S m) = pending m"
  "without S (without T m) = without (S \<union> T) m" "without {} m = m"
  by (simp_all add: without_def conj_ac)

lemma fst_blocks_without [simp]: "fst ` set (blocks (without S m)) = fst ` set (blocks m) - S"
  by (auto simp: without_def)

lemma kfree_without: "a \<noteq> 0 \<Longrightarrow> a \<in> fst ` set (blocks m) \<Longrightarrow> kfree a m = Some (without {a} m)"
  by (simp add: kfree_def without_def)

lemma kfree_0 [simp]: "kfree 0 m = Some m"
  by (simp add: kfree_def)

lemma store32_without: "store32 a v (without S m) = without S (store32 a v m)"
  by (simp add: store32_def without_def)

lemma free_quanta_all:
  assumes "distinct (filter (\<lambda>a. a \<noteq> 0) (map (\<lambda>i. load32 (kbytes m) (arr + 4 * i)) is))"
    and "set (map (\<lambda>i. load32 (kbytes m) (arr + 4 * i)) is) - {0} \<subseteq> fst ` set (blocks m)"
  shows "free_quanta is arr m =
    Some (without (set (map (\<lambda>i. load32 (kbytes m) (arr + 4 * i)) is) - {0}) m)"
  using assms
proof (induction "is" arbitrary: m)
  case (Cons i "is")
  let ?q = "load32 (kbytes m) (arr + 4 * i)"
  let ?rest = "set (map (\<lambda>i. load32 (kbytes m) (arr + 4 * i)) is) - {0}"
  show ?case
  proof (cases "?q = 0")
    case True
    with Cons show ?thesis by simp
  next
    case False
    then have "?q \<notin> ?rest" "kfree ?q m = Some (without {?q} m)"
      using Cons.prems by (auto intro!: kfree_without)
    moreover from this have "free_quanta is arr (without {?q} m) = Some (without ?rest (without {?q} m))"
      using Cons.IH [of "without {?q} m"] Cons.prems False by auto
    moreover have "?rest \<union> {?q} = set (map (\<lambda>i. load32 (kbytes m) (arr + 4 * i)) (i # is)) - {0}"
      using False by auto
    ultimately show ?thesis by simp
  qed
qed simp

lemma qrep_store:
  assumes "qrep nq b ptr xs" and "length ws = 4"
    and "\<forall>(n', arr', _) \<in> set xs. (d + 4 \<le> n' \<or> n' + 8 \<le> d) \<and> (d + 4 \<le> arr' \<or> arr' + 4 * nq \<le> d)"
  shows "qrep nq (store_bytes d ws b) ptr xs"
  using assms
proof (induction nq b ptr xs rule: qrep.induct)
  case (2 nq b ptr n arr qs xs)
  then have "load32 (store_bytes d ws b) n = load32 b n"
    "load32 (store_bytes d ws b) (n + 4) = load32 b (n + 4)"
    by (auto intro!: load32_other)
  moreover have "map (\<lambda>i. load32 (store_bytes d ws b) (arr + 4 * i)) [0..<nq] =
      map (\<lambda>i. load32 b (arr + 4 * i)) [0..<nq]"
    using 2 by (auto intro!: load32_other)
  ultimately show ?case using 2 by auto
qed simp

lemma free_array_all:
  assumes "n \<noteq> 0" and "load32 (kbytes m) n = arr"
    and "qs = (if arr = 0 then [] else map (\<lambda>i. load32 (kbytes m) (arr + 4 * i)) [0..<nat nq])"
    and "distinct (filter (\<lambda>a. a \<noteq> 0) (qs @ [arr]))"
    and "set (qs @ [arr]) - {0} \<subseteq> fst ` set (blocks m)"
  shows "\<exists>m'. free_array nq n m = Some (without (set (qs @ [arr]) - {0}) m') \<and>
    (m' = m \<or> m' = store32 n 0 m)"
proof (cases "arr = 0")
  case True
  then show ?thesis using assms by (auto simp: free_array_def)
next
  case False
  have "free_quanta [0..<nat nq] arr m = Some (without (set qs - {0}) m)"
    using free_quanta_all [of m arr "[0..<nat nq]"] assms False by auto
  moreover have "arr \<notin> set qs" using assms(4) False by auto
  then have "kfree arr (without (set qs - {0}) m) = Some (without {arr} (without (set qs - {0}) m))"
    using assms(5) False by (intro kfree_without) auto
  moreover have "insert arr (set qs - {0}) = set (qs @ [arr]) - {0}" using False by auto
  ultimately show ?thesis
    using False assms(2) by (auto simp: free_array_def store32_without)
qed

lemma trim_loop_all:
  assumes "qrep (nat nq) (kbytes m) ptr xs" and "distinct (owned xs)"
    and "set (owned xs) \<subseteq> fst ` set (blocks m)" and "sep_items (nat nq) xs"
  shows "\<exists>m'. trim_loop nq ptr m = Some m' \<and>
    blocks m' = filter (\<lambda>b. fst b \<notin> set (owned xs)) (blocks m)"
  using assms
proof (induction xs arbitrary: ptr m)
  case Nil
  then show ?case by (simp add: trim_loop.simps)
next
  case (Cons x xs)
  obtain n arr qs where x: "x = (n, arr, qs)" by (cases x)
  let ?S = "set (qs @ [arr]) - {0}"
  have rep: "ptr = n" "n \<noteq> 0" "load32 (kbytes m) n = arr"
    "qs = (if arr = 0 then [] else map (\<lambda>i. load32 (kbytes m) (arr + 4 * i)) [0..<nat nq])"
    "qrep (nat nq) (kbytes m) (load32 (kbytes m) (n + 4)) xs"
    using Cons.prems(1) x by auto
  obtain m1 where m1: "free_array nq n m = Some (without ?S m1)" "m1 = m \<or> m1 = store32 n 0 m"
  proof -
    have "distinct (filter (\<lambda>a. a \<noteq> 0) (qs @ [arr]))" using Cons.prems(2) x by auto
    moreover have "?S \<subseteq> fst ` set (blocks m)" using Cons.prems(3) x by auto
    ultimately show thesis using free_array_all [OF rep(2-4)] that by blast
  qed
  have b1: "blocks m1 = blocks m" "load32 (kbytes m1) (n + 4) = load32 (kbytes m) (n + 4)"
    using m1(2) by (auto simp: store32_def load32_other)
  have n: "n \<notin> ?S" "n \<in> fst ` set (blocks m)" "n \<notin> set (owned xs)" "?S \<inter> set (owned xs) = {}"
    using Cons.prems(2,3) x rep(2) by (auto split: if_splits)
  have k: "kfree n (without ?S m1) = Some (without {n} (without ?S m1))"
    using n(1,2) rep(2) b1(1) by (intro kfree_without) auto
  let ?m = "without {n} (without ?S m1)"
  have "qrep (nat nq) (kbytes ?m) (load32 (kbytes m) (n + 4)) xs"
    using m1(2) rep(5) Cons.prems(4) x qrep_store [OF rep(5), of "word_bytes 0" n]
    by (auto simp: store32_def)
  moreover have "set (owned xs) \<subseteq> fst ` set (blocks ?m)"
    using Cons.prems(3) x n(3,4) b1(1) by auto
  ultimately obtain m' where m': "trim_loop nq (load32 (kbytes m) (n + 4)) ?m = Some m'"
    "blocks m' = filter (\<lambda>b. fst b \<notin> set (owned xs)) (blocks ?m)"
  proof -
    assume a: "qrep (nat nq) (kbytes ?m) (load32 (kbytes m) (n + 4)) xs"
      "set (owned xs) \<subseteq> fst ` set (blocks ?m)"
    have "distinct (owned xs)" "sep_items (nat nq) xs" using Cons.prems(2,4) x by auto
    from Cons.IH [OF a(1) this(1) a(2) this(2)] that show thesis by blast
  qed
  have "trim_loop nq ptr m = Some m'"
    using m1(1) k m'(1) rep(1,2) b1(2) by (subst trim_loop.simps) simp
  moreover have "blocks m' = filter (\<lambda>b. fst b \<notin> set (owned (x # xs))) (blocks m)"
    using m'(2) b1(1) x rep(2) by (auto simp: without_def conj_ac intro!: filter_cong)
  ultimately show ?case by blast
qed

text \<open>
  C12: on a device whose list is intact, \<open>scull_trim\<close> ends, frees every quantum, every array and
  every node exactly once and nothing else, and leaves the device empty with the current
  parameters.
\<close>

theorem scull_trim_frees_all:
  assumes "qrep (nat (qset dev)) (kbytes m) (d_data dev) xs" and "distinct (owned xs)"
    and "set (owned xs) \<subseteq> fst ` set (blocks m)" and "sep_items (nat (qset dev)) xs"
  shows "\<exists>m'. scull_trim P dev m = Some (\<lparr>d_data = 0, quantum = scull_quantum P, qset = scull_qset P, size = 0,
      \<dots> = scull_dev.more dev\<rparr>, m') \<and>
    blocks m' = filter (\<lambda>b. fst b \<notin> set (owned xs)) (blocks m)"
  using trim_loop_all [OF assms] by (auto simp: scull_trim_def)

theorem scull_trim_frees_all_witness:
  "\<exists>m'. scull_trim \<lparr>scull_quantum = 4000, scull_qset = 1000\<rparr> \<lparr>d_data = 64, quantum = 8, qset = 1, size = 3\<rparr>
      \<lparr>kbytes = (\<lambda>x. if x = 64 then 128 else if x = 128 then 192 else 0),
        blocks = [(192, 8), (128, 4), (64, 8), (32, 16)], pending = []\<rparr> =
      Some (\<lparr>d_data = 0, quantum = 4000, qset = 1000, size = 0\<rparr>, m') \<and> blocks m' = [(32, 16)]"
proof -
  let ?m = "\<lparr>kbytes = (\<lambda>x. if x = 64 then 128 else if x = 128 then 192 else 0 :: byte),
    blocks = [(192::nat, 8::nat), (128, 4), (64, 8), (32, 16)], pending = []\<rparr>"
  have "qrep (nat 1) (kbytes ?m) 64 [(64, 128, [192])]" by (simp add: load32_def)
  then show ?thesis
    using scull_trim_frees_all [of "\<lparr>d_data = 64, quantum = 8, qset = 1, size = 3\<rparr>" ?m "[(64, 128, [192])]"
        "\<lparr>scull_quantum = 4000, scull_qset = 1000\<rparr>"] by simp
qed

end
