(* ===== verification/ScullModule.thy ===== *)
theory ScullModule
  imports Scull
begin

text \<open>
  Loading and unloading the memory device (\<open>scull_init_module\<close>, \<open>scull_setup_cdev\<close> and
  \<open>scull_cleanup_module\<close> of \<open>src/7/main.c\<close>). The kernel's tables of device-number regions and of
  character devices are part of the state; what the kernel answers is an input.
\<close>

definition MKDEV :: "int \<Rightarrow> int \<Rightarrow> int" where
  "MKDEV ma mi = ma * 2 ^ 20 + mi"

record s_module =
  scull_major :: int
  scull_minor :: int
  scull_nr_devs :: nat
  scull_devices :: "scull_dev list option"
  s_regions :: "(int \<times> nat) list"
  s_cdevs :: "int list"

text \<open>
  \<open>si_result\<close>: what \<open>register_chrdev_region\<close> or \<open>alloc_chrdev_region\<close> returns; \<open>si_major\<close>: the major
  number the latter chose; \<open>si_mem\<close>: whether \<open>kmalloc\<close> succeeds; \<open>si_cdev i\<close>: what \<open>cdev_add\<close>
  returns for device \<open>i\<close>.
\<close>

record s_inputs =
  si_result :: int
  si_major :: int
  si_mem :: bool
  si_cdev :: "nat \<Rightarrow> int"

definition devno :: "s_module \<Rightarrow> nat \<Rightarrow> int" where
  "devno s i = MKDEV (scull_major s) (scull_minor s + int i)"

definition scull_setup_cdev :: "s_inputs \<Rightarrow> nat \<Rightarrow> s_module \<Rightarrow> s_module" where
  "scull_setup_cdev l i s = (if si_cdev l i \<noteq> 0 then s else s\<lparr>s_cdevs := devno s i # s_cdevs s\<rparr>)"

text \<open>The loop of \<open>scull_cleanup_module\<close> over the devices.\<close>

fun cleanup_devices ::
  "scull_params \<Rightarrow> nat \<Rightarrow> scull_dev list \<Rightarrow> s_module \<Rightarrow> kmem \<Rightarrow> (s_module \<times> kmem) option" where
  "cleanup_devices P i [] s m = Some (s, m)"
| "cleanup_devices P i (d # ds) s m =
     (case scull_trim P d m of
        None \<Rightarrow> None
      | Some (_, m) \<Rightarrow> cleanup_devices P (Suc i) ds (s\<lparr>s_cdevs := removeAll (devno s i) (s_cdevs s)\<rparr>) m)"

definition scull_cleanup_module :: "scull_params \<Rightarrow> s_module \<Rightarrow> kmem \<Rightarrow> (s_module \<times> kmem) option" where
  "scull_cleanup_module P s m =
     (case (case scull_devices s of
              None \<Rightarrow> Some (s, m)
            | Some ds \<Rightarrow> cleanup_devices P 0 ds s m) of
        None \<Rightarrow> None
      | Some (s, m) \<Rightarrow> Some (s\<lparr>s_regions := remove1 (devno s 0, scull_nr_devs s) (s_regions s)\<rparr>, m))"

definition empty_dev :: "scull_params \<Rightarrow> scull_dev" where
  "empty_dev P = \<lparr>d_data = 0, quantum = scull_quantum P, qset = scull_qset P, size = 0\<rparr>"

definition scull_init_module ::
  "scull_params \<Rightarrow> s_inputs \<Rightarrow> s_module \<Rightarrow> kmem \<Rightarrow> (s_module \<times> kmem \<times> int) option" where
  "scull_init_module P l s m =
     (let s = (if scull_major s \<noteq> 0 then s else s\<lparr>scull_major := (if si_result l < 0 then 0 else si_major l)\<rparr>) in
      if si_result l < 0 then Some (s, m, si_result l)
      else
        (let s = s\<lparr>s_regions := (devno s 0, scull_nr_devs s) # s_regions s\<rparr> in
         if \<not> si_mem l then
           (case scull_cleanup_module P (s\<lparr>scull_devices := None\<rparr>) m of
              None \<Rightarrow> None
            | Some (s, m) \<Rightarrow> Some (s, m, - ENOMEM))
         else
           Some (fold (scull_setup_cdev l) [0..<scull_nr_devs s]
                   (s\<lparr>scull_devices := Some (replicate (scull_nr_devs s) (empty_dev P))\<rparr>), m, 0)))"

section \<open>Unloading undoes loading\<close>

lemma devno_upd [simp]:
  "devno (s\<lparr>s_regions := r\<rparr>) = devno s" "devno (s\<lparr>s_cdevs := c\<rparr>) = devno s"
  "devno (s\<lparr>scull_devices := d\<rparr>) = devno s"
  by (simp_all add: devno_def fun_eq_iff)

lemma setup_fold:
  "fold (scull_setup_cdev l) is s =
     s\<lparr>s_cdevs := rev (map (devno s) (filter (\<lambda>i. si_cdev l i = 0) is)) @ s_cdevs s\<rparr>"
  by (induction "is" arbitrary: s) (simp_all add: scull_setup_cdev_def)

lemma trim_empty: "scull_trim P (empty_dev P') m = Some (empty_dev P, m)"
  by (simp add: scull_trim_def empty_dev_def trim_loop.simps)

lemma cleanup_empty:
  "cleanup_devices P i (replicate k (empty_dev P')) s m =
     Some (s\<lparr>s_cdevs := filter (\<lambda>c. \<forall>j \<in> {i..<i + k}. c \<noteq> devno s j) (s_cdevs s)\<rparr>, m)"
proof (induction k arbitrary: i s)
  case (Suc k)
  have "{i..<i + Suc k} = insert i {Suc i..<Suc i + k}" by auto
  then show ?case
    by (auto simp: Suc trim_empty removeAll_filter_not_eq intro!: arg_cong2 [of _ _ _ _ s_cdevs_update] filter_cong)
qed simp

text \<open>
  A load of the driver that fails, because the device numbers or the memory could not be had,
  leaves the kernel's tables as they were; after a load that succeeds, unloading ends and gives back
  every device number and every character device, also when some could not be added.
\<close>

theorem scull_init_cleanup:
  assumes "\<forall>c \<in> set (s_cdevs s). \<forall>i < scull_nr_devs s.
      c \<noteq> MKDEV (if scull_major s \<noteq> 0 then scull_major s else si_major l) (scull_minor s + int i)"
    and "si_result l \<le> 0"
  shows "\<exists>s' m' r. scull_init_module P l s m = Some (s', m', r) \<and>
    (if r < 0 then s_regions s' = s_regions s \<and> s_cdevs s' = s_cdevs s \<and> m' = m
     else \<exists>s''. scull_cleanup_module P s' m' = Some (s'', m) \<and>
       s_regions s'' = s_regions s \<and> s_cdevs s'' = s_cdevs s)"
proof -
  let ?n = "scull_nr_devs s"
  let ?dn = "\<lambda>i. MKDEV (if scull_major s \<noteq> 0 then scull_major s else si_major l) (scull_minor s + int i)"
  have keep: "filter (\<lambda>c. \<forall>j \<in> {0..<0 + ?n}. c \<noteq> ?dn j) (s_cdevs s) = s_cdevs s"
    using assms(1) by (intro filter_True) auto
  have gone: "filter (\<lambda>c. \<forall>j \<in> {0..<0 + ?n}. c \<noteq> ?dn j) (rev (map ?dn (filter P' [0..<?n]))) = []" for P'
    by (auto simp: filter_empty_conv)
  consider "si_result l < 0" | "si_result l = 0" "\<not> si_mem l" | "si_result l = 0" "si_mem l"
    using assms(2) by linarith
  then show ?thesis
  proof cases
    case 1
    then show ?thesis by (simp add: scull_init_module_def)
  next
    case 2
    then show ?thesis
      by (simp add: scull_init_module_def scull_cleanup_module_def devno_def errno_defs Let_def)
  next
    case 3
    define s1 where "s1 = (if scull_major s \<noteq> 0 then s else s\<lparr>scull_major := si_major l\<rparr>)"
    have s1: "scull_nr_devs s1 = ?n" "s_cdevs s1 = s_cdevs s" "s_regions s1 = s_regions s"
      "devno s1 = ?dn" by (auto simp: s1_def devno_def)
    let ?s2 = "s1\<lparr>s_regions := (devno s1 0, ?n) # s_regions s1,
      scull_devices := Some (replicate ?n (empty_dev P)),
      s_cdevs := rev (map ?dn (filter (\<lambda>i. si_cdev l i = 0) [0..<?n])) @ s_cdevs s\<rparr>"
    have "scull_init_module P l s m = Some (?s2, m, 0)"
      using 3 s1 unfolding scull_init_module_def by (simp add: s1_def [symmetric] Let_def setup_fold cong: if_cong)
    moreover have "\<exists>s''. scull_cleanup_module P ?s2 m = Some (s'', m) \<and>
        s_regions s'' = s_regions s \<and> s_cdevs s'' = s_cdevs s"
      using keep gone s1 by (simp add: scull_cleanup_module_def cleanup_empty)
    ultimately show ?thesis by auto
  qed
qed

theorem scull_init_cleanup_witness:
  "\<exists>s' m' r. scull_init_module \<lparr>scull_quantum = 4000, scull_qset = 1000\<rparr>
      \<lparr>si_result = 0, si_major = 250, si_mem = True, si_cdev = (\<lambda>i. if i = 2 then - 12 else 0)\<rparr>
      \<lparr>scull_major = 0, scull_minor = 0, scull_nr_devs = 4, scull_devices = None, s_regions = [(1, 2)], s_cdevs = [7]\<rparr>
      \<lparr>kbytes = (\<lambda>_. 0), blocks = [], pending = []\<rparr> = Some (s', m', r) \<and>
    (if r < 0 then s_regions s' = [(1, 2)] \<and> s_cdevs s' = [7] \<and> m' = \<lparr>kbytes = (\<lambda>_. 0), blocks = [], pending = []\<rparr>
     else \<exists>s''. scull_cleanup_module \<lparr>scull_quantum = 4000, scull_qset = 1000\<rparr> s' m' =
        Some (s'', \<lparr>kbytes = (\<lambda>_. 0), blocks = [], pending = []\<rparr>) \<and> s_regions s'' = [(1, 2)] \<and> s_cdevs s'' = [7])"
proof -
  let ?P = "\<lparr>scull_quantum = 4000, scull_qset = 1000\<rparr>"
  let ?l = "\<lparr>si_result = 0, si_major = 250, si_mem = True, si_cdev = (\<lambda>i::nat. if i = 2 then - 12 else 0 :: int)\<rparr>"
  let ?s = "\<lparr>scull_major = 0, scull_minor = 0, scull_nr_devs = 4, scull_devices = None, s_regions = [(1, 2)], s_cdevs = [7]\<rparr>"
  let ?m = "\<lparr>kbytes = (\<lambda>_. 0), blocks = [], pending = []\<rparr>"
  show ?thesis
    using scull_init_cleanup [of ?s ?l ?P ?m] by (simp add: MKDEV_def cong: if_cong split del: if_split)
qed

end
