(* ===== verification/WaitQueue.thy ===== *)
theory WaitQueue
  imports Prelude
begin

text \<open>
  The kernel's wait queues, as far as \<open>src/6/kernel\<close> uses them; \<open>src/docs/wait_queue.src\<close> quotes
  the kernel code. A queue holds the entries that \<open>DEFINE_WAIT\<close> puts on the stacks of the waiting
  processes; an entry remembers its process and whether the wait is exclusive. Entries made by
  \<open>DEFINE_WAIT\<close> take themselves off the queue when they are woken (\<open>autoremove_wake_function\<close>).
\<close>

datatype tstate = TASK_RUNNING | TASK_INTERRUPTIBLE

record wentry =
  w_task :: pid
  w_excl :: bool

text \<open>
  \<open>wake_up_common nr q ts\<close> walks the queue from its head. Waking a process that does not sleep
  fails and leaves its entry in place; a process that sleeps becomes runnable and its entry goes.
  After \<open>nr\<close> exclusive entries were woken the walk stops; \<open>nr = 0\<close> never stops it.
\<close>

fun wake_up_common :: "nat \<Rightarrow> wentry list \<Rightarrow> (pid \<Rightarrow> tstate) \<Rightarrow> wentry list \<times> (pid \<Rightarrow> tstate)" where
  "wake_up_common nr [] ts = ([], ts)"
| "wake_up_common nr (w # q) ts =
     (if ts (w_task w) = TASK_RUNNING then
        (let (q', ts') = wake_up_common nr q ts in (w # q', ts'))
      else
        (let ts = ts(w_task w := TASK_RUNNING) in
         if w_excl w then (if nr = 1 then (q, ts) else wake_up_common (nr - 1) q ts)
         else wake_up_common nr q ts))"

definition wq_wake_up :: "wentry list \<Rightarrow> (pid \<Rightarrow> tstate) \<Rightarrow> wentry list \<times> (pid \<Rightarrow> tstate)" where
  "wq_wake_up = wake_up_common 1"

definition wq_wake_up_all :: "wentry list \<Rightarrow> (pid \<Rightarrow> tstate) \<Rightarrow> wentry list \<times> (pid \<Rightarrow> tstate)" where
  "wq_wake_up_all = wake_up_common 0"

text \<open>\<open>prepare_to_wait\<close> puts the entry at the head, \<open>add_wait_queue_exclusive\<close> at the tail.\<close>

definition wq_prepare_to_wait :: "pid \<Rightarrow> wentry list \<Rightarrow> wentry list" where
  "wq_prepare_to_wait t q = \<lparr>w_task = t, w_excl = False\<rparr> # q"

definition wq_add_exclusive :: "pid \<Rightarrow> wentry list \<Rightarrow> wentry list" where
  "wq_add_exclusive t q = q @ [\<lparr>w_task = t, w_excl = True\<rparr>]"

definition wq_remove :: "pid \<Rightarrow> wentry list \<Rightarrow> wentry list" where
  "wq_remove t q = filter (\<lambda>w. w_task w \<noteq> t) q"

definition wq_tasks :: "wentry list \<Rightarrow> pid list" where
  "wq_tasks q = map w_task q"

lemma wq_tasks_simps [simp]:
  "wq_tasks [] = []"
  "wq_tasks (w # q) = w_task w # wq_tasks q"
  "wq_tasks (q @ q') = wq_tasks q @ wq_tasks q'"
  "wq_tasks (wq_prepare_to_wait t q) = t # wq_tasks q"
  "wq_tasks (wq_add_exclusive t q) = wq_tasks q @ [t]"
  by (simp_all add: wq_tasks_def wq_prepare_to_wait_def wq_add_exclusive_def)

lemma wq_tasks_remove [simp]: "wq_tasks (wq_remove t q) = removeAll t (wq_tasks q)"
  by (induction q) (auto simp: wq_remove_def)

lemma wq_remove_Nil [simp]: "wq_remove t [] = []"
  by (simp add: wq_remove_def)

lemma set_wq_remove [simp]: "set (wq_remove t q) = {w \<in> set q. w_task w \<noteq> t}"
  by (auto simp: wq_remove_def)

section \<open>What a wake-up does\<close>

definition asleep :: "(pid \<Rightarrow> tstate) \<Rightarrow> wentry list \<Rightarrow> bool" where
  "asleep ts q \<longleftrightarrow> (\<forall>w \<in> set q. ts (w_task w) = TASK_INTERRUPTIBLE) \<and> distinct (wq_tasks q)"

lemma asleep_simps [simp]:
  "asleep ts []"
  "asleep ts (w # q) \<longleftrightarrow>
     ts (w_task w) = TASK_INTERRUPTIBLE \<and> w_task w \<notin> set (wq_tasks q) \<and> asleep ts q"
  by (auto simp: asleep_def)

lemma asleep_upd [simp]: "t \<notin> set (wq_tasks q) \<Longrightarrow> asleep (ts(t := x)) q = asleep ts q"
  by (induction q) auto

lemma wake_up_nonexclusive:
  assumes "asleep ts q" and "\<forall>w \<in> set q. \<not> w_excl w"
  shows "wake_up_common nr q ts = ([], \<lambda>t. if t \<in> set (wq_tasks q) then TASK_RUNNING else ts t)"
  using assms by (induction q arbitrary: ts) (auto simp: fun_eq_iff)

lemma wake_up_all_sleeping:
  assumes "asleep ts q"
  shows "wake_up_common 0 q ts = ([], \<lambda>t. if t \<in> set (wq_tasks q) then TASK_RUNNING else ts t)"
  using assms by (induction q arbitrary: ts) (auto simp: fun_eq_iff Let_def)

lemma wake_up_one_exclusive:
  assumes "asleep ts (w # q)" and "w_excl w"
  shows "wq_wake_up (w # q) ts = (q, ts(w_task w := TASK_RUNNING))"
  using assms by (simp add: wq_wake_up_def)

lemma wake_up_untouched:
  assumes "wake_up_common nr q ts = (q', ts')" and "t \<notin> set (wq_tasks q)"
  shows "ts' t = ts t"
  using assms
  by (induction nr q ts arbitrary: q' ts' rule: wake_up_common.induct)
    (auto simp: Let_def split: if_splits prod.splits)

lemma wake_up_subset:
  assumes "wake_up_common nr q ts = (q', ts')"
  shows "set q' \<subseteq> set q"
  using assms
  by (induction nr q ts arbitrary: q' ts' rule: wake_up_common.induct)
    (auto simp: Let_def split: if_splits prod.splits)

text \<open>On a queue of exclusive entries \<open>wake_up\<close> wakes the first process that sleeps, and no other.\<close>

lemma wake_up_exclusive_cases:
  assumes "\<forall>w \<in> set q. w_excl w"
  shows "(\<forall>w \<in> set q. ts (w_task w) = TASK_RUNNING) \<and> wq_wake_up q ts = (q, ts) \<or>
    (\<exists>xs w ys. q = xs @ w # ys \<and> (\<forall>x \<in> set xs. ts (w_task x) = TASK_RUNNING) \<and>
       ts (w_task w) = TASK_INTERRUPTIBLE \<and> wq_wake_up q ts = (xs @ ys, ts(w_task w := TASK_RUNNING)))"
  using assms unfolding wq_wake_up_def
proof (induction q)
  case (Cons u q)
  show ?case
  proof (cases "ts (w_task u) = TASK_RUNNING")
    case True
    have tail: "\<forall>w \<in> set q. w_excl w" using Cons.prems by simp
    from Cons.IH [OF this] show ?thesis
    proof (elim disjE exE conjE)
      fix xs w ys
      assume "q = xs @ w # ys" "\<forall>x \<in> set xs. ts (w_task x) = TASK_RUNNING"
        "ts (w_task w) = TASK_INTERRUPTIBLE"
        "wake_up_common 1 q ts = (xs @ ys, ts(w_task w := TASK_RUNNING))"
      then show ?thesis
        using True
        by (intro disjI2, rule_tac exI [of _ "u # xs"], rule_tac exI [of _ w], rule_tac exI [of _ ys])
          (simp add: fun_eq_iff)
    qed (use True in simp)
  next
    case False
    then have "ts (w_task u) = TASK_INTERRUPTIBLE" by (cases "ts (w_task u)") auto
    with Cons.prems show ?thesis
      by (intro disjI2, rule_tac exI [of _ "[]"], rule_tac exI [of _ u], rule_tac exI [of _ q])
        (simp add: fun_eq_iff)
  qed
qed simp

end
