(* ===== verification/MyEvent.thy ===== *)
theory MyEvent
  imports WaitQueue
begin

text \<open>
  The event system calls of \<open>src/6/kernel/myevent.c\<close>: a singly linked list of events in the
  kernel heap, each with a wait queue. The heap is an explicit store, so that a pointer to a
  freed node is distinguishable from a pointer to a live one: using it is the outcome \<open>Oops\<close>. The
  search loop is a \<open>partial_function\<close>; its value \<open>None\<close> means that the loop never ends.

  System calls interleave where a process can lose the processor, which in these functions is
  \<open>schedule\<close>; so \<open>sys_myevent_wait\<close> is two steps, before and after it.
\<close>

section \<open>The store\<close>

type_synonym addr = nat

record myevent_t =
  eventNum :: int
  wait_q :: "wentry list"
  next_ev :: "addr option"

text \<open>
  The list pointer inside a process's wait entry: on no queue, on a live queue, or still
  pointing into a queue whose memory was freed.
\<close>

datatype wlink = Unlinked | Linked | Dangling

record 'n evstate =
  heap :: "addr \<rightharpoonup> 'n"
  lpmyevent_head :: "addr option"
  lpmyevent_end :: "addr option"
  tasks :: "pid \<Rightarrow> tstate"
  wlinks :: "pid \<Rightarrow> wlink"

datatype 'a outcome = Ret 'a | Oops

type_synonym 'a result = "'a outcome option"

definition rbind :: "'a result \<Rightarrow> ('a \<Rightarrow> 'b result) \<Rightarrow> 'b result" where
  "rbind r f = (case r of None \<Rightarrow> None | Some Oops \<Rightarrow> Some Oops | Some (Ret x) \<Rightarrow> f x)"

lemma rbind_simps [simp]:
  "rbind None f = None" "rbind (Some Oops) f = Some Oops" "rbind (Some (Ret x)) f = f x"
  by (simp_all add: rbind_def)

definition deref :: "(addr \<rightharpoonup> 'n) \<Rightarrow> addr option \<Rightarrow> 'n result" where
  "deref h ptr = (case ptr of None \<Rightarrow> Some Oops
     | Some a \<Rightarrow> (case h a of None \<Rightarrow> Some Oops | Some nd \<Rightarrow> Some (Ret nd)))"

lemma deref_simps [simp]:
  "deref h None = Some Oops"
  "h a = None \<Longrightarrow> deref h (Some a) = Some Oops"
  "h a = Some nd \<Longrightarrow> deref h (Some a) = Some (Ret nd)"
  by (simp_all add: deref_def)

section \<open>Finding an event\<close>

text \<open>The loop of \<open>scheventNum\<close>: \<open>tmp\<close> and \<open>*prev\<close> on entry, the returned pointer and \<open>*prev\<close>.\<close>

partial_function (option) sched_loop ::
  "(addr \<rightharpoonup> 'a myevent_t_scheme) \<Rightarrow> int \<Rightarrow> addr option \<Rightarrow> addr option \<Rightarrow>
   (addr option \<times> addr option) result" where
  "sched_loop h n prev tmp =
     (case tmp of
        None \<Rightarrow> Some (Ret (None, prev))
      | Some a \<Rightarrow>
          (case h a of
             None \<Rightarrow> Some Oops
           | Some nd \<Rightarrow>
               if eventNum nd = n then Some (Ret (Some a, prev))
               else sched_loop h n (Some a) (next_ev nd)))"

declare sched_loop.simps [code]

definition scheventNum ::
  "int \<Rightarrow> 'a myevent_t_scheme evstate \<Rightarrow> (addr option \<times> addr option) result" where
  "scheventNum n s = sched_loop (heap s) n None (lpmyevent_head s)"

section \<open>Creating and finding: \<open>sys_myevent_open\<close>\<close>

text \<open>
  Linking a new node at address \<open>a\<close> behind the last one. \<open>mk num\<close> is the node with event number
  \<open>num\<close>; numbers are 32-bit, so adding 2 may wrap around.
\<close>

definition append_event ::
  "(int \<Rightarrow> 'a myevent_t_scheme) \<Rightarrow> addr \<Rightarrow> 'a myevent_t_scheme evstate \<Rightarrow>
   ('a myevent_t_scheme evstate \<times> int) result" where
  "append_event mk a s =
     (if lpmyevent_head s = None then
        Some (Ret (s\<lparr>heap := (heap s)(a \<mapsto> mk 2), lpmyevent_head := Some a, lpmyevent_end := Some a\<rparr>, 2))
      else
        rbind (deref (heap s) (lpmyevent_end s)) (\<lambda>nd.
          (let num = int32 (eventNum nd + 2) in
           Some (Ret (s\<lparr>heap := (heap s)(the (lpmyevent_end s) \<mapsto> nd\<lparr>next_ev := Some a\<rparr>, a \<mapsto> mk num),
                       lpmyevent_end := Some a\<rparr>, num)))))"

text \<open>
  \<open>km\<close> is what \<open>kmalloc\<close> returns; the code does not check it, so that \<open>NULL\<close> is written to.
\<close>

definition open_event ::
  "(int \<Rightarrow> 'a myevent_t_scheme) \<Rightarrow> addr option \<Rightarrow> int \<Rightarrow> 'a myevent_t_scheme evstate \<Rightarrow>
   ('a myevent_t_scheme evstate \<times> int) result" where
  "open_event mk km n s =
     (if n \<noteq> 0 then
        rbind (scheventNum n s) (\<lambda>(found, _). Some (Ret (s, if found = None then 0 else n)))
      else (case km of None \<Rightarrow> Some Oops | Some a \<Rightarrow> append_event mk a s))"

definition sys_myevent_open ::
  "addr option \<Rightarrow> int \<Rightarrow> myevent_t evstate \<Rightarrow> (myevent_t evstate \<times> int) result" where
  "sys_myevent_open = open_event (\<lambda>num. \<lparr>eventNum = num, wait_q = [], next_ev = None\<rparr>)"

section \<open>Blocking: \<open>sys_myevent_wait\<close>\<close>

datatype wait_pc = W_ret int | W_sleep int addr

text \<open>
  Up to \<open>schedule\<close>: either the call returns 0, or the process is on the queue of the event at
  the address it keeps in \<open>tmp\<close>, and sleeps.
\<close>

definition wait_begin ::
  "pid \<Rightarrow> int \<Rightarrow> 'a myevent_t_scheme evstate \<Rightarrow> ('a myevent_t_scheme evstate \<times> wait_pc) result" where
  "wait_begin t n s =
     rbind (scheventNum n s) (\<lambda>(found, _).
       case found of
         None \<Rightarrow> Some (Ret (s, W_ret 0))
       | Some a \<Rightarrow> rbind (deref (heap s) (Some a)) (\<lambda>nd.
           Some (Ret (s\<lparr>heap := (heap s)(a \<mapsto> nd\<lparr>wait_q := wq_prepare_to_wait t (wait_q nd)\<rparr>),
                       tasks := (tasks s)(t := TASK_INTERRUPTIBLE),
                       wlinks := (wlinks s)(t := Linked)\<rparr>, W_sleep n a))))"

text \<open>
  After \<open>schedule\<close> returned: \<open>finish_wait\<close>. It touches the queue only if the entry is still
  linked.
\<close>

definition wait_end ::
  "pid \<Rightarrow> int \<Rightarrow> addr \<Rightarrow> 'a myevent_t_scheme evstate \<Rightarrow> ('a myevent_t_scheme evstate \<times> int) result" where
  "wait_end t n a s =
     (let s = s\<lparr>tasks := (tasks s)(t := TASK_RUNNING)\<rparr> in
      case wlinks s t of
        Unlinked \<Rightarrow> Some (Ret (s, n))
      | Dangling \<Rightarrow> Some Oops
      | Linked \<Rightarrow> rbind (deref (heap s) (Some a)) (\<lambda>nd.
          Some (Ret (s\<lparr>heap := (heap s)(a \<mapsto> nd\<lparr>wait_q := wq_remove t (wait_q nd)\<rparr>),
                      wlinks := (wlinks s)(t := Unlinked)\<rparr>, n))))"

section \<open>Waking: \<open>sys_myevent_signal\<close>\<close>

text \<open>
  Waking the queue of the node at \<open>a\<close> with one of the wake-up functions; an entry that left the
  queue is unlinked.
\<close>

definition wake_node ::
  "(wentry list \<Rightarrow> (pid \<Rightarrow> tstate) \<Rightarrow> wentry list \<times> (pid \<Rightarrow> tstate)) \<Rightarrow> addr \<Rightarrow>
   'a myevent_t_scheme evstate \<Rightarrow> ('a myevent_t_scheme evstate) result" where
  "wake_node wake a s =
     rbind (deref (heap s) (Some a)) (\<lambda>nd.
       (let (q, ts) = wake (wait_q nd) (tasks s) in
        Some (Ret (s\<lparr>heap := (heap s)(a \<mapsto> nd\<lparr>wait_q := q\<rparr>), tasks := ts,
          wlinks := (\<lambda>t. if t \<in> set (wq_tasks (wait_q nd)) \<and> t \<notin> set (wq_tasks q)
                         then Unlinked else wlinks s t)\<rparr>))))"

definition sys_myevent_signal ::
  "int \<Rightarrow> 'a myevent_t_scheme evstate \<Rightarrow> ('a myevent_t_scheme evstate \<times> int) result" where
  "sys_myevent_signal n s =
     rbind (scheventNum n s) (\<lambda>(found, _).
       case found of
         None \<Rightarrow> Some (Ret (s, 0))
       | Some a \<Rightarrow> rbind (wake_node wq_wake_up a s) (\<lambda>s. Some (Ret (s, n))))"

section \<open>Removing: \<open>sys_myevent_close\<close>\<close>

definition unlink_event ::
  "addr \<Rightarrow> addr option \<Rightarrow> 'a myevent_t_scheme evstate \<Rightarrow> ('a myevent_t_scheme evstate) result" where
  "unlink_event a prev s =
     (if Some a = lpmyevent_end s then Some (Ret (s\<lparr>lpmyevent_end := prev\<rparr>))
      else if Some a = lpmyevent_head s then
        rbind (deref (heap s) (lpmyevent_head s)) (\<lambda>nd. Some (Ret (s\<lparr>lpmyevent_head := next_ev nd\<rparr>)))
      else
        rbind (deref (heap s) (Some a)) (\<lambda>nd.
          rbind (deref (heap s) prev) (\<lambda>pn.
            Some (Ret (s\<lparr>heap := (heap s)(the prev \<mapsto> pn\<lparr>next_ev := next_ev nd\<rparr>)\<rparr>)))))"

text \<open>\<open>kfree\<close>: the node is gone; wait entries still linked to its queue dangle.\<close>

definition kfree_event ::
  "addr \<Rightarrow> 'a myevent_t_scheme evstate \<Rightarrow> ('a myevent_t_scheme evstate) result" where
  "kfree_event a s =
     rbind (deref (heap s) (Some a)) (\<lambda>nd.
       Some (Ret (s\<lparr>heap := (heap s)(a := None),
         wlinks := (\<lambda>t. if t \<in> set (wq_tasks (wait_q nd)) then Dangling else wlinks s t)\<rparr>)))"

definition sys_myevent_close ::
  "int \<Rightarrow> 'a myevent_t_scheme evstate \<Rightarrow> ('a myevent_t_scheme evstate \<times> int) result" where
  "sys_myevent_close n s =
     rbind (scheventNum n s) (\<lambda>(found, prev).
       case found of
         None \<Rightarrow> Some (Ret (s, 0))
       | Some a \<Rightarrow>
           rbind (unlink_event a prev s) (\<lambda>s.
           rbind (sys_myevent_signal n s) (\<lambda>(s, _).
           rbind (kfree_event a s) (\<lambda>s. Some (Ret (s, n))))))"


section \<open>The list in the heap\<close>

fun chain :: "(addr \<rightharpoonup> 'a myevent_t_scheme) \<Rightarrow> addr option \<Rightarrow> addr list \<Rightarrow> bool" where
  "chain h ptr [] \<longleftrightarrow> ptr = None"
| "chain h ptr (a # as) \<longleftrightarrow>
     ptr = Some a \<and> (case h a of None \<Rightarrow> False | Some nd \<Rightarrow> chain h (next_ev nd) as)"

lemma chain_Cons [simp]:
  "chain h ptr (a # as) \<longleftrightarrow> ptr = Some a \<and> (\<exists>nd. h a = Some nd \<and> chain h (next_ev nd) as)"
  by (auto split: option.splits)

declare chain.simps(2) [simp del]

definition num_at :: "(addr \<rightharpoonup> 'a myevent_t_scheme) \<Rightarrow> addr \<Rightarrow> int" where
  "num_at h a = (case h a of None \<Rightarrow> 0 | Some nd \<Rightarrow> eventNum nd)"

definition queue_at :: "(addr \<rightharpoonup> 'a myevent_t_scheme) \<Rightarrow> addr \<Rightarrow> wentry list" where
  "queue_at h a = (case h a of None \<Rightarrow> [] | Some nd \<Rightarrow> wait_q nd)"

lemma num_queue_upd [simp]:
  "num_at (h(a \<mapsto> nd)) b = (if b = a then eventNum nd else num_at h b)"
  "queue_at (h(a \<mapsto> nd)) b = (if b = a then wait_q nd else queue_at h b)"
  by (simp_all add: num_at_def queue_at_def)

lemma num_queue_del [simp]:
  "b \<noteq> a \<Longrightarrow> num_at (h(a := None)) b = num_at h b"
  "b \<noteq> a \<Longrightarrow> queue_at (h(a := None)) b = queue_at h b"
  by (simp_all add: num_at_def queue_at_def)

lemma num_queue_Some:
  "h a = Some nd \<Longrightarrow> num_at h a = eventNum nd" "h a = Some nd \<Longrightarrow> queue_at h a = wait_q nd"
  by (simp_all add: num_at_def queue_at_def)

lemma chain_live: "chain h ptr as \<Longrightarrow> a \<in> set as \<Longrightarrow> \<exists>nd. h a = Some nd"
  by (induction h ptr as rule: chain.induct) (auto split: option.splits)

lemma chain_cong:
  "(\<And>b. b \<in> set as \<Longrightarrow> \<exists>nd nd'. h b = Some nd \<and> h' b = Some nd' \<and> next_ev nd' = next_ev nd) \<Longrightarrow>
   chain h' ptr as = chain h ptr as"
proof (induction as arbitrary: ptr)
  case (Cons b as)
  from Cons.prems [of b] obtain nd nd' where "h b = Some nd" "h' b = Some nd'" "next_ev nd' = next_ev nd"
    by auto
  then show ?case using Cons by simp
qed simp

lemma chain_free: "chain h ptr as \<Longrightarrow> a \<notin> set as \<Longrightarrow> chain (h(a := None)) ptr as"
proof (induction as arbitrary: ptr)
  case (Cons b as)
  then obtain nd where "h b = Some nd" "chain (h(a := None)) (next_ev nd) as" "ptr = Some b" "b \<noteq> a"
    by (auto simp del: fun_upd_apply)
  then show ?case by (simp del: fun_upd_apply add: fun_upd_other)
qed simp

lemma chain_append:
  assumes "chain h ptr as" and "as \<noteq> []" and "distinct as" and "a \<notin> set as"
    and "h (last as) = Some nd" and "next_ev x = None"
    and "h' (last as) = Some (nd\<lparr>next_ev := Some a\<rparr>)" and "h' a = Some x"
    and "\<forall>b \<in> set as. b \<noteq> last as \<longrightarrow> h' b = h b"
  shows "chain h' ptr (as @ [a])"
  using assms
proof (induction as arbitrary: ptr)
  case (Cons b as)
  then obtain bn where b: "h b = Some bn" and ch: "chain h (next_ev bn) as" and [simp]: "ptr = Some b"
    by auto
  show ?case
  proof (cases "as = []")
    case False
    then have "chain h' (next_ev bn) (as @ [a])"
      using Cons.IH [OF ch] Cons.prems by simp
    moreover have "b \<noteq> last as" using False Cons.prems by auto
    ultimately show ?thesis using False Cons.prems b by simp
  qed (use Cons in auto)
qed simp

lemma chain_drop_after:
  assumes "chain h ptr (xs @ c # a # ys)" and "distinct (xs @ c # a # ys)"
    and "h c = Some cn" and "h a = Some nd" and "h' c = Some (cn\<lparr>next_ev := next_ev nd\<rparr>)"
    and "\<forall>b \<in> set (xs @ ys). h' b = h b"
  shows "chain h' ptr (xs @ c # ys)"
  using assms
proof (induction xs arbitrary: ptr)
  case Nil
  have "chain h' (next_ev nd) ys = chain h (next_ev nd) ys"
    using Nil by (intro chain_cong) (auto dest: chain_live)
  with Nil show ?case by auto
next
  case (Cons b xs)
  then obtain bn where "h b = Some bn" "chain h (next_ev bn) (xs @ c # a # ys)" "ptr = Some b"
    by auto
  then show ?case using Cons by auto
qed

section \<open>The search loop ends on a list\<close>

fun locate :: "(addr \<rightharpoonup> 'a myevent_t_scheme) \<Rightarrow> int \<Rightarrow> addr option \<Rightarrow> addr list \<Rightarrow> addr option \<times> addr option" where
  "locate h n prev [] = (None, prev)"
| "locate h n prev (a # as) = (if num_at h a = n then (Some a, prev) else locate h n (Some a) as)"

lemma sched_loop_chain:
  "chain h ptr as \<Longrightarrow> sched_loop h n prev ptr = Some (Ret (locate h n prev as))"
proof (induction as arbitrary: ptr prev)
  case Nil
  then show ?case by (simp add: sched_loop.simps)
next
  case (Cons a as)
  then show ?case
    by (subst sched_loop.simps) (auto simp: num_queue_Some split: option.splits)
qed

lemma locate_None: "fst (locate h n prev as) = None \<longleftrightarrow> n \<notin> num_at h ` set as"
  by (induction as arbitrary: prev) auto

lemma locate_found:
  assumes "\<forall>x \<in> set xs. num_at h x \<noteq> n" and "num_at h a = n"
  shows "locate h n prev (xs @ a # ys) = (Some a, if xs = [] then prev else Some (last xs))"
  using assms by (induction xs arbitrary: prev) auto

lemma locate_Some:
  assumes "locate h n prev as = (Some a, prev')"
  shows "a \<in> set as \<and> num_at h a = n"
  using assms by (induction as arbitrary: prev) (auto split: if_splits)

definition wf_events :: "'a myevent_t_scheme evstate \<Rightarrow> addr list \<Rightarrow> bool" where
  "wf_events s as \<longleftrightarrow> chain (heap s) (lpmyevent_head s) as \<and> distinct as \<and>
     lpmyevent_end s = (if as = [] then None else Some (last as))"

lemma scheventNum_wf:
  "wf_events s as \<Longrightarrow> scheventNum n s = Some (Ret (locate (heap s) n None as))"
  by (simp add: scheventNum_def wf_events_def sched_loop_chain)

lemma wf_live: "wf_events s as \<Longrightarrow> a \<in> set as \<Longrightarrow> \<exists>nd. heap s a = Some nd"
  using chain_live wf_events_def by metis

lemma wf_head: "wf_events s as \<Longrightarrow> lpmyevent_head s = None \<longleftrightarrow> as = []"
  by (cases as) (auto simp: wf_events_def)

text \<open>Appending keeps the list and everything in it.\<close>

definition next_num :: "'a myevent_t_scheme evstate \<Rightarrow> addr list \<Rightarrow> int" where
  "next_num s as = (if as = [] then 2 else int32 (num_at (heap s) (last as) + 2))"

lemma append_event_wf:
  assumes wf: "wf_events s as" and fresh: "heap s a = None"
    and mk: "\<And>i. next_ev (mk i) = None \<and> eventNum (mk i) = i"
  obtains s' where
    "append_event mk a s = Some (Ret (s', next_num s as))"
    "wf_events s' (as @ [a])"
    "num_at (heap s') = (num_at (heap s))(a := next_num s as)"
    "queue_at (heap s') = (queue_at (heap s))(a := wait_q (mk (next_num s as)))"
    "tasks s' = tasks s" "wlinks s' = wlinks s"
proof (cases "as = []")
  case True
  let ?s = "s\<lparr>heap := (heap s)(a \<mapsto> mk 2), lpmyevent_head := Some a, lpmyevent_end := Some a\<rparr>"
  have run: "append_event mk a s = Some (Ret (?s, next_num s as))"
    using True wf by (simp add: append_event_def next_num_def wf_head)
  have "wf_events ?s (as @ [a])" using True mk by (simp add: wf_events_def)
  from that [OF run this] show ?thesis
    using True mk by (simp add: fun_eq_iff next_num_def)
next
  case False
  have notin: "a \<notin> set as" using wf_live [OF wf] fresh by force
  obtain nd where nd: "heap s (last as) = Some nd"
    using wf_live [OF wf, of "last as"] False by auto
  have head: "lpmyevent_head s \<noteq> None" and tail: "lpmyevent_end s = Some (last as)"
    using wf False wf_head [OF wf] by (simp_all add: wf_events_def)
  have ne: "last as \<noteq> a" using notin False last_in_set by metis
  let ?h = "(heap s)(last as \<mapsto> nd\<lparr>next_ev := Some a\<rparr>, a \<mapsto> mk (next_num s as))"
  let ?s = "s\<lparr>heap := ?h, lpmyevent_end := Some a\<rparr>"
  have run: "append_event mk a s = Some (Ret (?s, next_num s as))"
    using False head tail nd by (auto simp: append_event_def Let_def num_queue_Some next_num_def)
  have "chain ?h (lpmyevent_head s) (as @ [a])"
    by (rule chain_append [where h = "heap s" and nd = nd and x = "mk (next_num s as)"])
      (use wf False notin nd mk ne in \<open>auto simp: wf_events_def\<close>)
  then have "wf_events ?s (as @ [a])"
    using wf notin by (simp add: wf_events_def)
  from that [OF run this] show ?thesis
    using mk nd ne by (simp add: fun_eq_iff num_queue_Some)
qed

lemma wf_upd:
  assumes "wf_events s as" and "heap s a = Some nd" and "next_ev nd' = next_ev nd"
  shows "wf_events (s\<lparr>heap := (heap s)(a \<mapsto> nd')\<rparr>) as"
proof -
  have "chain ((heap s)(a \<mapsto> nd')) (lpmyevent_head s) as = chain (heap s) (lpmyevent_head s) as"
    by (rule chain_cong) (use assms wf_live [OF assms(1)] in fastforce)
  with assms show ?thesis by (simp add: wf_events_def)
qed

lemma wf_other [simp]:
  "wf_events (s\<lparr>tasks := t\<rparr>) as = wf_events s as" "wf_events (s\<lparr>wlinks := l\<rparr>) as = wf_events s as"
  "wf_events (s\<lparr>tasks := t, heap := h\<rparr>) as = wf_events (s\<lparr>heap := h\<rparr>) as"
  by (simp_all add: wf_events_def)

section \<open>Taking an event out that is not the last\<close>

definition prev_of :: "addr list \<Rightarrow> addr option" where
  "prev_of xs = (if xs = [] then None else Some (last xs))"

lemma find_split:
  assumes "wf_events s (xs @ a # ys)" and "distinct (map (num_at (heap s)) (xs @ a # ys))"
  shows "scheventNum (num_at (heap s) a) s = Some (Ret (Some a, prev_of xs))"
proof -
  have "\<forall>x \<in> set xs. num_at (heap s) x \<noteq> num_at (heap s) a"
    using assms(2) by (simp add: image_iff) metis
  then have "locate (heap s) (num_at (heap s) a) None (xs @ a # ys) = (Some a, prev_of xs)"
    by (simp add: locate_found prev_of_def)
  then show ?thesis by (simp add: scheventNum_wf [OF assms(1)])
qed

lemma unlink_inner:
  assumes wf: "wf_events s (xs @ a # ys)" and ys: "ys \<noteq> []"
  obtains s' where
    "unlink_event a (prev_of xs) s = Some (Ret s')" "wf_events s' (xs @ ys)"
    "num_at (heap s') = num_at (heap s)" "queue_at (heap s') = queue_at (heap s)"
    "tasks s' = tasks s" "wlinks s' = wlinks s" "heap s' a = heap s a"
proof -
  have dist: "distinct (xs @ a # ys)" and tail: "lpmyevent_end s = Some (last ys)"
    using wf ys by (simp_all add: wf_events_def)
  have not_end: "Some a \<noteq> lpmyevent_end s" using dist ys tail by auto
  obtain nd where nd: "heap s a = Some nd" using wf_live [OF wf, of a] by auto
  show ?thesis
  proof (cases xs rule: rev_cases)
    case Nil
    then have "lpmyevent_head s = Some a" "chain (heap s) (next_ev nd) ys"
      using wf nd by (auto simp: wf_events_def)
    then show ?thesis
      using Nil not_end nd dist tail ys
      by (intro that [of "s\<lparr>lpmyevent_head := next_ev nd\<rparr>"]) (auto simp: unlink_event_def wf_events_def)
  next
    case (snoc zs c)
    obtain cn where cn: "heap s c = Some cn" using wf_live [OF wf, of c] snoc by auto
    have not_head: "Some a \<noteq> lpmyevent_head s"
      using wf snoc by (cases zs) (auto simp: wf_events_def)
    let ?h = "(heap s)(c \<mapsto> cn\<lparr>next_ev := next_ev nd\<rparr>)"
    have "unlink_event a (prev_of xs) s = Some (Ret (s\<lparr>heap := ?h\<rparr>))"
      using not_end not_head snoc cn nd by (simp add: unlink_event_def prev_of_def)
    moreover have "chain ?h (lpmyevent_head s) (zs @ c # ys)"
      by (rule chain_drop_after [where h = "heap s" and a = a and cn = cn and nd = nd])
        (use wf snoc dist cn nd in \<open>auto simp: wf_events_def\<close>)
    then have "wf_events (s\<lparr>heap := ?h\<rparr>) (xs @ ys)"
      using dist snoc tail ys by (simp add: wf_events_def)
    ultimately show ?thesis
      using snoc dist cn by (intro that [of "s\<lparr>heap := ?h\<rparr>"]) (auto simp: fun_eq_iff num_queue_Some)
  qed
qed

section \<open>The dangling pointer after the last event was closed\<close>

lemma sched_loop_dangling:
  assumes "chain h ptr (xs @ [a])" and "h' a = None" and "m \<notin> num_at h ` set xs"
    and "\<And>x. x \<in> set xs \<Longrightarrow> h' x = h x"
  shows "sched_loop h' m prev ptr = Some Oops"
  using assms
proof (induction xs arbitrary: ptr prev)
  case Nil
  then show ?case by (auto simp: sched_loop.simps)
next
  case (Cons x xs)
  then obtain nd where nd: "ptr = Some x" "h x = Some nd" "chain h (next_ev nd) (xs @ [a])" by auto
  have "sched_loop h' m (Some x) (next_ev nd) = Some Oops"
    using Cons nd by simp
  moreover have "eventNum nd \<noteq> m" "h' x = Some nd"
    using Cons.prems nd by (auto simp: num_queue_Some)
  ultimately show ?case using nd by (simp add: sched_loop.simps [of h' m prev])
qed

lemma chain_replace_last:
  assumes "chain h ptr (xs @ [c, a])" and "distinct (xs @ [c, a])"
    and "h' c = Some cn" and "next_ev cn = Some b" and "h' b = Some x" and "next_ev x = None"
    and "\<And>y. y \<in> set xs \<Longrightarrow> h' y = h y"
  shows "chain h' ptr (xs @ [c, b])"
  using assms by (induction xs arbitrary: ptr) auto

lemma wake_node_live:
  assumes "heap s a = Some nd" and "wake (wait_q nd) (tasks s) = (q, ts)"
  shows "wake_node wake a s = Some (Ret (s\<lparr>heap := (heap s)(a \<mapsto> nd\<lparr>wait_q := q\<rparr>), tasks := ts,
     wlinks := (\<lambda>t. if t \<in> set (wq_tasks (wait_q nd)) \<and> t \<notin> set (wq_tasks q)
                    then Unlinked else wlinks s t)\<rparr>))"
  using assms by (simp add: wake_node_def)

end
