(* ===== verification/MyEventSystem.thy ===== *)
theory MyEventSystem
  imports MyEvent
begin

text \<open>
  Processes issuing the event system calls of \<open>src/6/kernel/myevent.c\<close> in any order: the step
  function \<open>ev_call\<close>, the runs \<open>ev_run\<close> in which nobody closes the last event of the list or an
  event somebody waits for, the invariant of these runs, and what happens outside them.
\<close>

section \<open>Runs of system calls\<close>

text \<open>
  A process is in user mode, or inside \<open>sys_myevent_wait\<close> behind \<open>schedule\<close> with the event number
  and the node address it holds in \<open>tmp\<close>. \<open>A_interrupt\<close> is a Unix signal reaching a sleeper.
\<close>

datatype ev_action =
    A_open pid "addr option" int | A_wait pid int | A_resume pid | A_interrupt pid
  | A_signal pid int | A_close pid int

type_synonym ev_sys = "myevent_t evstate \<times> (pid \<rightharpoonup> int \<times> addr)"

fun ev_call :: "ev_action \<Rightarrow> ev_sys \<Rightarrow> ev_sys result" where
  "ev_call (A_open t km n) (s, pcs) = rbind (sys_myevent_open km n s) (\<lambda>(s, _). Some (Ret (s, pcs)))"
| "ev_call (A_wait t n) (s, pcs) = rbind (wait_begin t n s) (\<lambda>(s, pc).
     Some (Ret (s, case pc of W_ret _ \<Rightarrow> pcs | W_sleep n a \<Rightarrow> pcs(t \<mapsto> (n, a)))))"
| "ev_call (A_resume t) (s, pcs) =
     (case pcs t of
        None \<Rightarrow> Some (Ret (s, pcs))
      | Some (n, a) \<Rightarrow> rbind (wait_end t n a s) (\<lambda>(s, _). Some (Ret (s, pcs(t := None)))))"
| "ev_call (A_interrupt t) (s, pcs) = Some (Ret (s\<lparr>tasks := (tasks s)(t := TASK_RUNNING)\<rparr>, pcs))"
| "ev_call (A_signal t n) (s, pcs) = rbind (sys_myevent_signal n s) (\<lambda>(s, _). Some (Ret (s, pcs)))"
| "ev_call (A_close t n) (s, pcs) = rbind (sys_myevent_close n s) (\<lambda>(s, _). Some (Ret (s, pcs)))"

text \<open>
  Who can act: system calls come from processes in user mode, a process resumes once it is
  runnable, and \<open>kmalloc\<close> fails or returns memory that is not in use (the second argument of
  \<open>A_open\<close>).
\<close>

fun ev_enabled :: "ev_action \<Rightarrow> ev_sys \<Rightarrow> bool" where
  "ev_enabled (A_open t km n) (s, pcs) \<longleftrightarrow>
     pcs t = None \<and> (case km of None \<Rightarrow> True | Some a \<Rightarrow> heap s a = None)"
| "ev_enabled (A_wait t n) (s, pcs) \<longleftrightarrow> pcs t = None"
| "ev_enabled (A_resume t) (s, pcs) \<longleftrightarrow> pcs t \<noteq> None \<and> tasks s t = TASK_RUNNING"
| "ev_enabled (A_interrupt t) (s, pcs) \<longleftrightarrow> pcs t \<noteq> None"
| "ev_enabled (A_signal t n) (s, pcs) \<longleftrightarrow> pcs t = None"
| "ev_enabled (A_close t n) (s, pcs) \<longleftrightarrow> pcs t = None"

text \<open>
  What keeps a run out of the code's known faults: an event is closed only when it is not the last of
  the list and nobody waits for it, and \<open>kmalloc\<close> does not fail for an opening that creates an event.
\<close>

fun ev_careful :: "ev_action \<Rightarrow> ev_sys \<Rightarrow> bool" where
  "ev_careful (A_close t n) (s, pcs) \<longleftrightarrow>
     (case scheventNum n s of
        Some (Ret (Some a, _)) \<Rightarrow> lpmyevent_end s \<noteq> Some a \<and> queue_at (heap s) a = []
      | _ \<Rightarrow> True)"
| "ev_careful (A_open t km n) (s, pcs) \<longleftrightarrow> n = 0 \<longrightarrow> km \<noteq> None"
| "ev_careful _ _ \<longleftrightarrow> True"

definition init_events :: "myevent_t evstate" where
  "init_events = \<lparr>heap = Map.empty, lpmyevent_head = None, lpmyevent_end = None,
     tasks = (\<lambda>_. TASK_RUNNING), wlinks = (\<lambda>_. Unlinked)\<rparr>"

fun opens :: "ev_action \<Rightarrow> nat" where
  "opens (A_open _ _ _) = 1"
| "opens _ = 0"

text \<open>\<open>ev_run k sys\<close>: the system is in state \<open>sys\<close> after a careful run with \<open>k\<close> calls of open.\<close>

inductive ev_run :: "nat \<Rightarrow> ev_sys \<Rightarrow> bool" where
  ev_start: "ev_run 0 (init_events, Map.empty)"
| ev_next: "ev_run k sys \<Longrightarrow> ev_enabled act sys \<Longrightarrow> ev_careful act sys \<Longrightarrow>
    ev_call act sys = Some (Ret sys') \<Longrightarrow> ev_run (k + opens act) sys'"

inductive_cases ev_runE: "ev_run k sys"

section \<open>The invariant\<close>

definition nums_ok :: "nat \<Rightarrow> (addr \<Rightarrow> int) \<Rightarrow> addr list \<Rightarrow> bool" where
  "nums_ok k N as \<longleftrightarrow> sorted_wrt (<) (map N as) \<and>
     (\<forall>a \<in> set as. even (N a) \<and> 2 \<le> N a \<and> N a \<le> 2 * int k)"

definition links_ok ::
  "addr list \<Rightarrow> (addr \<Rightarrow> wentry list) \<Rightarrow> (pid \<Rightarrow> wlink) \<Rightarrow> (pid \<rightharpoonup> int \<times> addr) \<Rightarrow> bool" where
  "links_ok as Q L pcs \<longleftrightarrow> (\<forall>t. L t \<noteq> Dangling) \<and>
     (\<forall>a \<in> set as. \<forall>t. t \<in> set (wq_tasks (Q a)) \<longleftrightarrow> L t = Linked \<and> (\<exists>n. pcs t = Some (n, a))) \<and>
     (\<forall>t. L t = Linked \<longrightarrow> (\<exists>n. \<exists>a \<in> set as. pcs t = Some (n, a)))"

definition ev_inv :: "nat \<Rightarrow> addr list \<Rightarrow> ev_sys \<Rightarrow> bool" where
  "ev_inv k as sys \<longleftrightarrow> (case sys of (s, pcs) \<Rightarrow>
     wf_events s as \<and> nums_ok k (num_at (heap s)) as \<and> links_ok as (queue_at (heap s)) (wlinks s) pcs)"

lemma nums_ok_mono: "nums_ok k N as \<Longrightarrow> k \<le> k' \<Longrightarrow> nums_ok k' N as"
  by (force simp: nums_ok_def)

lemma nums_ok_cong: "(\<And>a. a \<in> set as \<Longrightarrow> N a = N' a) \<Longrightarrow> nums_ok k N as = nums_ok k N' as"
  by (simp add: nums_ok_def cong: map_cong)

lemma nums_ok_distinct: "nums_ok k N as \<Longrightarrow> distinct (map N as)"
  by (simp add: nums_ok_def strict_sorted_iff)

lemma nums_ok_remove: "nums_ok k N (xs @ a # ys) \<Longrightarrow> nums_ok k N (xs @ ys)"
  by (auto simp: nums_ok_def sorted_wrt_append)

lemma nums_ok_append:
  assumes "nums_ok k N as" and "a \<notin> set as" and "k < 2 ^ 30 - 1"
  shows "nums_ok (k + 1) (N(a := (if as = [] then 2 else int32 (N (last as) + 2)))) (as @ [a])"
proof (cases "as = []")
  case True
  then show ?thesis by (simp add: nums_ok_def)
next
  case False
  then have l: "even (N (last as))" "2 \<le> N (last as)" "N (last as) \<le> 2 * int k"
    using assms(1) last_in_set unfolding nums_ok_def by blast+
  have "int k < 2 ^ 30 - 1" using assms(3) by simp
  then have i: "int32 (N (last as) + 2) = N (last as) + 2"
    using l by (intro int32_id) simp_all
  have le: "N x \<le> N (last as)" if "x \<in> set as" for x
  proof -
    have "sorted_wrt (<) (map N (butlast as @ [last as]))"
      using assms(1) False by (simp add: nums_ok_def)
    then have "\<forall>y \<in> set (butlast as). N y < N (last as)"
      by (simp add: sorted_wrt_append)
    moreover have "x \<in> set (butlast as) \<or> x = last as"
      using that False by (metis append_butlast_last_id rotate1.simps(2) set_ConsD set_rotate1)
    ultimately show ?thesis by auto
  qed
  have "N x < N (last as) + 2" if "x \<in> set as" for x using le [OF that] by simp
  moreover have "map (N(a := N (last as) + 2)) (as @ [a]) = map N as @ [N (last as) + 2]"
    using assms(2) by simp
  ultimately have "sorted_wrt (<) (map (N(a := N (last as) + 2)) (as @ [a]))"
    using assms(1) unfolding nums_ok_def by (simp only: sorted_wrt_append) auto
  moreover have "even ((N(a := N (last as) + 2)) x) \<and> 2 \<le> (N(a := N (last as) + 2)) x \<and>
      (N(a := N (last as) + 2)) x \<le> 2 * int (k + 1)" if "x \<in> set (as @ [a])" for x
    using that assms(1) l by (auto simp: nums_ok_def)
  ultimately show ?thesis using False i by (auto simp: nums_ok_def simp del: map_append fun_upd_apply)
qed

text \<open>How the wait entries change when an event is added, a process queues up, one leaves.\<close>

lemma links_ok_append:
  assumes "links_ok as Q L pcs" and "a \<notin> set as"
  shows "links_ok (as @ [a]) (Q(a := [])) L pcs"
  using assms unfolding links_ok_def by (auto; blast)

lemma links_ok_enqueue:
  assumes "links_ok as Q L pcs" and "a \<in> set as" and "pcs t = None"
    and "set (wq_tasks q) = insert t (set (wq_tasks (Q a)))"
  shows "links_ok as (Q(a := q)) (L(t := Linked)) (pcs(t \<mapsto> (n, a)))"
  using assms unfolding links_ok_def by auto

lemma links_ok_leave:
  assumes "links_ok as Q L pcs" and "a \<in> set as" and "T \<subseteq> set (wq_tasks (Q a))"
    and "set (wq_tasks q) = set (wq_tasks (Q a)) - T"
    and "\<And>t. L' t = (if t \<in> T then Unlinked else L t)"
  shows "links_ok as (Q(a := q)) L' pcs"
  using assms unfolding links_ok_def by auto

lemma links_ok_return:
  assumes "links_ok as Q L pcs" and "L t = Unlinked"
  shows "links_ok as Q L (pcs(t := None))"
  using assms unfolding links_ok_def by auto

lemma links_ok_remove:
  assumes "links_ok (xs @ a # ys) Q L pcs" and "Q a = []"
  shows "links_ok (xs @ ys) Q L pcs"
  using assms unfolding links_ok_def by auto

section \<open>Every call keeps the invariant\<close>

lemma ev_inv_open:
  assumes inv: "ev_inv k as (s, pcs)" and en: "ev_enabled (A_open t km n) (s, pcs)"
    and ca: "ev_careful (A_open t km n) (s, pcs)" and k: "k < 2 ^ 30 - 1"
  shows "\<exists>sys' as'. ev_call (A_open t km n) (s, pcs) = Some (Ret sys') \<and> ev_inv (k + 1) as' sys'"
proof -
  have wf: "wf_events s as" and no: "nums_ok k (num_at (heap s)) as"
    and li: "links_ok as (queue_at (heap s)) (wlinks s) pcs"
    using inv by (simp_all add: ev_inv_def)
  show ?thesis
  proof (cases "n = 0")
    case False
    have "ev_inv (k + 1) as (s, pcs)"
      using wf nums_ok_mono [OF no] li by (simp add: ev_inv_def)
    with False show ?thesis
      by (cases "locate (heap s) n None as")
        (auto simp: sys_myevent_open_def open_event_def scheventNum_wf [OF wf])
  next
    case True
    then obtain a where a: "km = Some a" "heap s a = None" using ca en by auto
    note fresh = a(2)
    let ?mk = "\<lambda>num. \<lparr>eventNum = num, wait_q = [], next_ev = None\<rparr>"
    obtain s' where s': "append_event ?mk a s = Some (Ret (s', next_num s as))" "wf_events s' (as @ [a])"
      "num_at (heap s') = (num_at (heap s))(a := next_num s as)"
      "queue_at (heap s') = (queue_at (heap s))(a := wait_q (?mk (next_num s as)))"
      "tasks s' = tasks s" "wlinks s' = wlinks s"
      by (rule append_event_wf [OF wf fresh, of ?mk]) auto
    have notin: "a \<notin> set as" using wf_live [OF wf] fresh by force
    have "nums_ok (k + 1) (num_at (heap s')) (as @ [a])"
      using nums_ok_append [OF no notin k] s'(3) by (simp add: next_num_def)
    moreover have "links_ok (as @ [a]) (queue_at (heap s')) (wlinks s') pcs"
      using links_ok_append [OF li notin] unfolding s'(4,6) by simp
    ultimately show ?thesis
      using True s' a(1) by (auto simp: sys_myevent_open_def open_event_def ev_inv_def)
  qed
qed

lemma ev_inv_wait:
  assumes inv: "ev_inv k as (s, pcs)" and en: "ev_enabled (A_wait t n) (s, pcs)"
  shows "\<exists>sys' as'. ev_call (A_wait t n) (s, pcs) = Some (Ret sys') \<and> ev_inv k as' sys'"
proof -
  have wf: "wf_events s as" and no: "nums_ok k (num_at (heap s)) as"
    and li: "links_ok as (queue_at (heap s)) (wlinks s) pcs" and idle: "pcs t = None"
    using inv en by (simp_all add: ev_inv_def)
  obtain f p where loc: "locate (heap s) n None as = (f, p)" by fastforce
  show ?thesis
  proof (cases f)
    case None
    with inv show ?thesis by (auto simp: wait_begin_def scheventNum_wf [OF wf] loc)
  next
    case (Some a)
    then have a: "a \<in> set as" using locate_Some loc by metis
    then obtain nd where nd: "heap s a = Some nd" using wf_live [OF wf] by auto
    let ?nd = "nd\<lparr>wait_q := wq_prepare_to_wait t (wait_q nd)\<rparr>"
    have "wf_events (s\<lparr>heap := (heap s)(a \<mapsto> ?nd)\<rparr>) as" using wf_upd [OF wf nd] by simp
    moreover have "num_at ((heap s)(a \<mapsto> ?nd)) = num_at (heap s)"
      using nd by (simp add: fun_eq_iff num_queue_Some)
    moreover have "queue_at ((heap s)(a \<mapsto> ?nd)) = (queue_at (heap s))(a := wq_prepare_to_wait t (wait_q nd))"
      by (simp add: fun_eq_iff)
    moreover have "links_ok as \<dots> ((wlinks s)(t := Linked)) (pcs(t \<mapsto> (n, a)))"
      using nd by (intro links_ok_enqueue [OF li a idle]) (simp add: num_queue_Some)
    ultimately show ?thesis
      using nd no Some by (auto simp: wait_begin_def scheventNum_wf [OF wf] loc ev_inv_def)
  qed
qed

lemma ev_inv_resume:
  assumes inv: "ev_inv k as (s, pcs)" and en: "ev_enabled (A_resume t) (s, pcs)"
  shows "\<exists>sys' as'. ev_call (A_resume t) (s, pcs) = Some (Ret sys') \<and> ev_inv k as' sys'"
proof -
  have wf: "wf_events s as" and no: "nums_ok k (num_at (heap s)) as"
    and li: "links_ok as (queue_at (heap s)) (wlinks s) pcs"
    using inv by (simp_all add: ev_inv_def)
  obtain n a where pc: "pcs t = Some (n, a)" using en by auto
  show ?thesis
  proof (cases "wlinks s t")
    case Unlinked
    then show ?thesis
      using pc wf no links_ok_return [OF li Unlinked] by (simp add: wait_end_def ev_inv_def) blast
  next
    case Linked
    then have a: "a \<in> set as" and tq: "t \<in> set (wq_tasks (queue_at (heap s) a))"
      using li pc unfolding links_ok_def by auto
    obtain nd where nd: "heap s a = Some nd" using wf_live [OF wf a] by auto
    let ?nd = "nd\<lparr>wait_q := wq_remove t (wait_q nd)\<rparr>"
    have "wf_events (s\<lparr>heap := (heap s)(a \<mapsto> ?nd)\<rparr>) as" using wf_upd [OF wf nd] by simp
    moreover have "num_at ((heap s)(a \<mapsto> ?nd)) = num_at (heap s)"
      using nd by (simp add: fun_eq_iff num_queue_Some)
    moreover have "queue_at ((heap s)(a \<mapsto> ?nd)) = (queue_at (heap s))(a := wq_remove t (wait_q nd))"
      by (simp add: fun_eq_iff)
    moreover have "links_ok as \<dots> ((wlinks s)(t := Unlinked)) pcs"
      using nd tq by (intro links_ok_leave [OF li a, where T = "{t}"]) (auto simp: num_queue_Some)
    then have "links_ok as ((queue_at (heap s))(a := wq_remove t (wait_q nd)))
        ((wlinks s)(t := Unlinked)) (pcs(t := None))"
      by (rule links_ok_return) simp
    ultimately show ?thesis
      using nd no pc Linked by (auto simp: wait_end_def ev_inv_def)
  next
    case Dangling
    with li show ?thesis by (simp add: links_ok_def)
  qed
qed

lemma ev_inv_signal:
  assumes inv: "ev_inv k as (s, pcs)"
  shows "\<exists>sys' as'. ev_call (A_signal t n) (s, pcs) = Some (Ret sys') \<and> ev_inv k as' sys'"
proof -
  have wf: "wf_events s as" and no: "nums_ok k (num_at (heap s)) as"
    and li: "links_ok as (queue_at (heap s)) (wlinks s) pcs"
    using inv by (simp_all add: ev_inv_def)
  obtain f p where loc: "locate (heap s) n None as = (f, p)" by fastforce
  show ?thesis
  proof (cases f)
    case None
    with inv show ?thesis by (auto simp: sys_myevent_signal_def scheventNum_wf [OF wf] loc)
  next
    case (Some a)
    then have a: "a \<in> set as" using locate_Some loc by metis
    then obtain nd where nd: "heap s a = Some nd" using wf_live [OF wf] by auto
    obtain q ts where w: "wq_wake_up (wait_q nd) (tasks s) = (q, ts)" by fastforce
    let ?nd = "nd\<lparr>wait_q := q\<rparr>"
    let ?T = "set (wq_tasks (wait_q nd)) - set (wq_tasks q)"
    let ?L = "\<lambda>t. if t \<in> set (wq_tasks (wait_q nd)) \<and> t \<notin> set (wq_tasks q) then Unlinked else wlinks s t"
    have "wf_events (s\<lparr>heap := (heap s)(a \<mapsto> ?nd)\<rparr>) as" using wf_upd [OF wf nd] by simp
    moreover have "num_at ((heap s)(a \<mapsto> ?nd)) = num_at (heap s)"
      using nd by (simp add: fun_eq_iff num_queue_Some)
    moreover have "queue_at ((heap s)(a \<mapsto> ?nd)) = (queue_at (heap s))(a := q)"
      by (simp add: fun_eq_iff)
    moreover have "set (wq_tasks q) \<subseteq> set (wq_tasks (wait_q nd))"
      using wake_up_subset w unfolding wq_wake_up_def wq_tasks_def by fastforce
    then have "links_ok as ((queue_at (heap s))(a := q)) ?L pcs"
      using nd by (intro links_ok_leave [OF li a, where T = ?T]) (auto simp: num_queue_Some)
    ultimately show ?thesis
      using no Some
      by (auto simp: sys_myevent_signal_def scheventNum_wf [OF wf] loc wake_node_live [where wake = wq_wake_up, OF nd w] ev_inv_def)
  qed
qed

lemma signal_missing:
  "wf_events s as \<Longrightarrow> n \<notin> num_at (heap s) ` set as \<Longrightarrow> sys_myevent_signal n s = Some (Ret (s, 0))"
  using locate_None [of "heap s" n None as]
  by (cases "locate (heap s) n None as") (simp add: sys_myevent_signal_def scheventNum_wf)

text \<open>Closing an event that is not the last of the list.\<close>

lemma close_inner:
  assumes wf: "wf_events s (xs @ a # ys)" and ys: "ys \<noteq> []"
    and dist: "distinct (map (num_at (heap s)) (xs @ a # ys))"
  obtains s' where
    "sys_myevent_close (num_at (heap s) a) s = Some (Ret (s', num_at (heap s) a))"
    "wf_events s' (xs @ ys)"
    "\<And>b. b \<noteq> a \<Longrightarrow> num_at (heap s') b = num_at (heap s) b \<and> queue_at (heap s') b = queue_at (heap s) b"
    "tasks s' = tasks s"
    "wlinks s' = (\<lambda>t. if t \<in> set (wq_tasks (queue_at (heap s) a)) then Dangling else wlinks s t)"
    "heap s' a = None"
proof -
  let ?n = "num_at (heap s) a"
  obtain s1 where s1: "unlink_event a (prev_of xs) s = Some (Ret s1)" "wf_events s1 (xs @ ys)"
    "num_at (heap s1) = num_at (heap s)" "queue_at (heap s1) = queue_at (heap s)"
    "tasks s1 = tasks s" "wlinks s1 = wlinks s" "heap s1 a = heap s a"
    by (rule unlink_inner [OF wf ys])
  obtain nd where nd: "heap s a = Some nd" using wf_live [OF wf, of a] by auto
  have "?n \<notin> num_at (heap s1) ` set (xs @ ys)" using dist s1(3) by auto
  then have sig: "sys_myevent_signal ?n s1 = Some (Ret (s1, 0))" by (rule signal_missing [OF s1(2)])
  let ?s2 = "s1\<lparr>heap := (heap s1)(a := None),
    wlinks := (\<lambda>t. if t \<in> set (wq_tasks (wait_q nd)) then Dangling else wlinks s1 t)\<rparr>"
  have "kfree_event a s1 = Some (Ret ?s2)" using nd s1(7) by (simp add: kfree_event_def)
  then have run: "sys_myevent_close ?n s = Some (Ret (?s2, ?n))"
    using s1(1) sig by (simp add: sys_myevent_close_def find_split [OF wf dist])
  have "a \<notin> set (xs @ ys)" using wf by (simp add: wf_events_def)
  then have "chain ((heap s1)(a := None)) (lpmyevent_head s1) (xs @ ys)"
    using s1(2) chain_free unfolding wf_events_def by blast
  then have "wf_events ?s2 (xs @ ys)" using s1(2) by (simp add: wf_events_def)
  from that [OF run this] show ?thesis
    using s1 nd by (simp add: num_queue_Some cong: if_cong)
qed

lemma ev_inv_close:
  assumes inv: "ev_inv k as (s, pcs)" and c: "ev_careful (A_close t n) (s, pcs)"
  shows "\<exists>sys' as'. ev_call (A_close t n) (s, pcs) = Some (Ret sys') \<and> ev_inv k as' sys'"
proof -
  have wf: "wf_events s as" and no: "nums_ok k (num_at (heap s)) as"
    and li: "links_ok as (queue_at (heap s)) (wlinks s) pcs"
    using inv by (simp_all add: ev_inv_def)
  obtain f p where loc: "locate (heap s) n None as = (f, p)" by fastforce
  show ?thesis
  proof (cases f)
    case None
    with inv show ?thesis by (auto simp: sys_myevent_close_def scheventNum_wf [OF wf] loc)
  next
    case (Some a)
    then have a: "a \<in> set as" and n: "num_at (heap s) a = n" using locate_Some loc by metis+
    have not_last: "lpmyevent_end s \<noteq> Some a" and idle: "queue_at (heap s) a = []"
      using c Some by (simp_all add: scheventNum_wf [OF wf] loc)
    obtain xs ys where as: "as = xs @ a # ys" using split_list [OF a] by auto
    have ys: "ys \<noteq> []" using not_last wf as by (auto simp: wf_events_def)
    obtain s' where s': "sys_myevent_close n s = Some (Ret (s', n))" "wf_events s' (xs @ ys)"
      "\<And>b. b \<noteq> a \<Longrightarrow> num_at (heap s') b = num_at (heap s) b \<and> queue_at (heap s') b = queue_at (heap s) b"
      "wlinks s' = wlinks s" "heap s' a = None"
      by (rule close_inner [OF wf [unfolded as] ys]) (use nums_ok_distinct [OF no] as n idle in auto)
    have anot: "a \<notin> set (xs @ ys)" using wf as by (simp add: wf_events_def)
    have "nums_ok k (num_at (heap s')) (xs @ ys)"
    proof (subst nums_ok_cong)
      show "num_at (heap s') b = num_at (heap s) b" if "b \<in> set (xs @ ys)" for b
        using s'(3) anot that by metis
      show "nums_ok k (num_at (heap s)) (xs @ ys)" using nums_ok_remove no as by blast
    qed
    moreover have "queue_at (heap s') = queue_at (heap s)"
      using s'(3,5) idle by (metis (no_types, lifting) ext option.case(1) queue_at_def)
    then have "links_ok (xs @ ys) (queue_at (heap s')) (wlinks s') pcs"
      using links_ok_remove [OF li [unfolded as] idle] s'(4) by simp
    ultimately show ?thesis using s' by (auto simp: ev_inv_def)
  qed
qed

lemma ev_inv_step:
  assumes "ev_inv k as sys" and "ev_enabled act sys" and "ev_careful act sys"
    and "k + opens act < 2 ^ 30"
  shows "\<exists>sys' as'. ev_call act sys = Some (Ret sys') \<and> ev_inv (k + opens act) as' sys'"
proof -
  obtain s pcs where sys: "sys = (s, pcs)" by fastforce
  show ?thesis
  proof (cases act)
    case (A_open t km n)
    with assms(4) have "k < 2 ^ 30 - 1" by simp
    with A_open assms sys ev_inv_open [of k as s pcs t km n] show ?thesis by simp
  next
    case (A_interrupt t)
    with assms sys show ?thesis by (auto simp: ev_inv_def)
  qed (use assms sys ev_inv_wait ev_inv_resume ev_inv_signal ev_inv_close in \<open>fastforce+\<close>)
qed

lemma ev_run_inv: "ev_run k sys \<Longrightarrow> k < 2 ^ 30 \<Longrightarrow> \<exists>as. ev_inv k as sys"
proof (induction rule: ev_run.induct)
  case ev_start
  have "ev_inv 0 [] (init_events, Map.empty)"
    by (simp add: ev_inv_def init_events_def wf_events_def nums_ok_def links_ok_def)
  then show ?case by blast
next
  case (ev_next k sys act sys')
  then obtain as where "ev_inv k as sys" by auto
  then show ?case using ev_inv_step ev_next by fastforce
qed

section \<open>Properties\<close>

text \<open>
  C4: in every run in which only events are closed that are neither the last of the list nor waited
  for, and in which \<open>kmalloc\<close> does not fail for an opening that creates an event, every system call
  comes back (the search loop ends and no freed or null pointer is used), and the event list stays
  a list whose numbers are even and strictly increasing; this holds for the first \<open>2 ^ 30 - 1\<close> calls of
  open, after which the 32-bit event number would wrap around. System calls run one at a time up
  to \<open>schedule\<close>. The condition on \<open>kmalloc\<close> is needed: in every state a creating open whose \<open>kmalloc\<close>
  returns \<open>NULL\<close> writes through the null pointer, because the result is not checked.
\<close>

theorem event_calls_safe:
  assumes "ev_run k sys" and "ev_enabled act sys" and "ev_careful act sys" and "k + opens act < 2 ^ 30"
  shows "\<exists>s' pcs' as. ev_call act sys = Some (Ret (s', pcs')) \<and> wf_events s' as \<and>
    sorted_wrt (<) (map (num_at (heap s')) as) \<and> (\<forall>a \<in> set as. even (num_at (heap s') a)) \<and>
    ev_call (A_open t None 0) sys = Some Oops"
proof -
  obtain as where "ev_inv k as sys" using ev_run_inv assms by fastforce
  from ev_inv_step [OF this assms(2-4)] obtain s' pcs' as' where
    "ev_call act sys = Some (Ret (s', pcs'))" "ev_inv (k + opens act) as' (s', pcs')" by auto
  moreover have "ev_call (A_open t None 0) sys = Some Oops"
    by (cases sys) (simp add: sys_myevent_open_def open_event_def)
  ultimately show ?thesis by (auto simp: ev_inv_def nums_ok_def)
qed

theorem event_calls_safe_witness:
  "\<exists>s' pcs' as. ev_call (A_open 1 (Some 16) 0) (init_events, Map.empty) = Some (Ret (s', pcs')) \<and>
     wf_events s' as \<and> sorted_wrt (<) (map (num_at (heap s')) as) \<and>
     (\<forall>a \<in> set as. even (num_at (heap s') a)) \<and>
     ev_call (A_open 2 None 0) (init_events, Map.empty) = Some Oops"
  by (rule event_calls_safe [OF ev_start]) (simp_all add: init_events_def)

text \<open>
  C22: signalling an event whose queued processes are all still asleep makes each of them runnable and
  empties the event's wait queue;
  each of them then returns the event number from its wait call. Processes that wait for other
  events, and the other events, are left alone.
\<close>

theorem event_signal_wakes:
  assumes "wf_events s (xs @ a # ys)" and "distinct (map (num_at (heap s)) (xs @ a # ys))"
    and "asleep (tasks s) (queue_at (heap s) a)" and "\<forall>w \<in> set (queue_at (heap s) a). \<not> w_excl w"
  shows "\<exists>s'. sys_myevent_signal (num_at (heap s) a) s = Some (Ret (s', num_at (heap s) a)) \<and>
    wf_events s' (xs @ a # ys) \<and> queue_at (heap s') a = [] \<and>
    (\<forall>t \<in> set (wq_tasks (queue_at (heap s) a)). tasks s' t = TASK_RUNNING \<and>
       (\<exists>s''. wait_end t (num_at (heap s) a) a s' = Some (Ret (s'', num_at (heap s) a)))) \<and>
    (\<forall>t. t \<notin> set (wq_tasks (queue_at (heap s) a)) \<longrightarrow> tasks s' t = tasks s t) \<and>
    (\<forall>b. b \<noteq> a \<longrightarrow> heap s' b = heap s b)"
proof -
  obtain nd where nd: "heap s a = Some nd" using wf_live [OF assms(1), of a] by auto
  let ?ts = "\<lambda>t. if t \<in> set (wq_tasks (wait_q nd)) then TASK_RUNNING else tasks s t"
  have w: "wq_wake_up (wait_q nd) (tasks s) = ([], ?ts)"
    using wake_up_nonexclusive assms(3,4) nd unfolding wq_wake_up_def by (simp add: num_queue_Some)
  let ?s = "s\<lparr>heap := (heap s)(a \<mapsto> nd\<lparr>wait_q := []\<rparr>), tasks := ?ts,
    wlinks := (\<lambda>t. if t \<in> set (wq_tasks (wait_q nd)) \<and> t \<notin> set (wq_tasks []) then Unlinked else wlinks s t)\<rparr>"
  have run: "sys_myevent_signal (num_at (heap s) a) s = Some (Ret (?s, num_at (heap s) a))"
    by (simp add: sys_myevent_signal_def find_split [OF assms(1,2)]
        wake_node_live [where wake = wq_wake_up, OF nd w])
  have "wf_events ?s (xs @ a # ys)"
    using wf_upd [OF assms(1) nd, of "nd\<lparr>wait_q := []\<rparr>"] by (simp add: wf_events_def)
  then show ?thesis
    using nd by (intro exI [of _ ?s] conjI run) (auto simp: num_queue_Some wait_end_def)
qed

text \<open>Two events; processes 7 and 8 sleep on the first, process 9 on the second.\<close>

definition two_events :: "myevent_t evstate" where
  "two_events = \<lparr>heap = [16 \<mapsto> \<lparr>eventNum = 2, wait_q = wq_prepare_to_wait 7 (wq_prepare_to_wait 8 []),
       next_ev = Some 32\<rparr>, 32 \<mapsto> \<lparr>eventNum = 4, wait_q = wq_prepare_to_wait 9 [], next_ev = None\<rparr>],
     lpmyevent_head = Some 16, lpmyevent_end = Some 32,
     tasks = (\<lambda>t. if t \<in> {7, 8, 9} then TASK_INTERRUPTIBLE else TASK_RUNNING),
     wlinks = (\<lambda>t. if t \<in> {7, 8, 9} then Linked else Unlinked)\<rparr>"

lemma two_events_facts:
  "wf_events two_events [16, 32]" "map (num_at (heap two_events)) [16, 32] = [2, 4]"
  "queue_at (heap two_events) 16 = wq_prepare_to_wait 7 (wq_prepare_to_wait 8 [])"
  "asleep (tasks two_events) (queue_at (heap two_events) 16)"
  by (simp_all add: two_events_def wf_events_def num_at_def queue_at_def wq_prepare_to_wait_def)

theorem event_signal_wakes_witness:
  "\<exists>s'. sys_myevent_signal 2 two_events = Some (Ret (s', 2)) \<and> tasks s' 7 = TASK_RUNNING \<and>
     tasks s' 8 = TASK_RUNNING \<and> tasks s' 9 = TASK_INTERRUPTIBLE"
proof -
  have "tasks two_events 9 = TASK_INTERRUPTIBLE" by (simp add: two_events_def)
  then show ?thesis
    using event_signal_wakes [of two_events "[]" 16 "[32]"] two_events_facts
    by (auto simp: wq_prepare_to_wait_def)
qed

text \<open>
  C40: in a well-formed list with distinct event numbers, closing an event that is not the last
  of the list takes exactly that event out and returns its number, but it wakes nobody: the event is unlinked before \<open>sys_myevent_signal\<close>
  looks for it, so that the signal finds nothing. The processes waiting for it stay asleep, their
  wait entries point into freed memory, and a process that wakes up later for another reason uses
  that memory.
\<close>

theorem event_close_strands_waiters:
  assumes "wf_events s (xs @ a # ys)" and "ys \<noteq> []" and "distinct (map (num_at (heap s)) (xs @ a # ys))"
  shows "\<exists>s'. sys_myevent_close (num_at (heap s) a) s = Some (Ret (s', num_at (heap s) a)) \<and>
    wf_events s' (xs @ ys) \<and> tasks s' = tasks s \<and>
    (\<forall>b \<in> set (xs @ ys). num_at (heap s') b = num_at (heap s) b \<and>
       queue_at (heap s') b = queue_at (heap s) b) \<and>
    (\<forall>t \<in> set (wq_tasks (queue_at (heap s) a)). wait_end t (num_at (heap s) a) a s' = Some Oops)"
proof -
  obtain s' where s': "sys_myevent_close (num_at (heap s) a) s = Some (Ret (s', num_at (heap s) a))"
    "wf_events s' (xs @ ys)"
    "\<And>b. b \<noteq> a \<Longrightarrow> num_at (heap s') b = num_at (heap s) b \<and> queue_at (heap s') b = queue_at (heap s) b"
    "tasks s' = tasks s"
    "wlinks s' = (\<lambda>t. if t \<in> set (wq_tasks (queue_at (heap s) a)) then Dangling else wlinks s t)"
    by (rule close_inner [OF assms]) blast
  have "a \<notin> set (xs @ ys)" using assms(1) by (simp add: wf_events_def)
  then have "\<forall>b \<in> set (xs @ ys). num_at (heap s') b = num_at (heap s) b \<and>
      queue_at (heap s') b = queue_at (heap s) b"
    using s'(3) by metis
  moreover have "\<forall>t \<in> set (wq_tasks (queue_at (heap s) a)).
      wait_end t (num_at (heap s) a) a s' = Some Oops"
    by (simp add: wait_end_def s'(5))
  ultimately show ?thesis using s'(1,2,4) by blast
qed

theorem event_close_strands_waiters_witness:
  "\<exists>s'. sys_myevent_close 2 two_events = Some (Ret (s', 2)) \<and> tasks s' 7 = TASK_INTERRUPTIBLE \<and>
     wait_end 7 2 16 s' = Some Oops"
proof -
  have "tasks two_events 7 = TASK_INTERRUPTIBLE" by (simp add: two_events_def)
  then show ?thesis
    using event_close_strands_waiters [of two_events "[]" 16 "[32]"] two_events_facts by auto
qed

text \<open>The state after the last event of the list was closed.\<close>

lemma close_last:
  assumes wf: "wf_events s (xs @ [a])" and dist: "distinct (map (num_at (heap s)) (xs @ [a]))"
  obtains s' where
    "sys_myevent_close (num_at (heap s) a) s = Some (Ret (s', num_at (heap s) a))"
    "heap s' = (heap s)(a := None)" "lpmyevent_head s' = lpmyevent_head s"
    "lpmyevent_end s' = prev_of xs"
    "tasks s' = snd (wq_wake_up (queue_at (heap s) a) (tasks s))"
proof -
  obtain nd where nd: "heap s a = Some nd" using wf_live [OF wf, of a] by auto
  obtain q ts where w: "wq_wake_up (wait_q nd) (tasks s) = (q, ts)" by fastforce
  let ?s1 = "s\<lparr>lpmyevent_end := prev_of xs\<rparr>"
  have u: "unlink_event a (prev_of xs) s = Some (Ret ?s1)"
    using wf by (simp add: unlink_event_def wf_events_def)
  have f: "scheventNum (num_at (heap s) a) ?s1 = Some (Ret (Some a, prev_of xs))"
    using find_split [of s xs a "[]"] wf dist by (simp add: scheventNum_def)
  let ?L = "\<lambda>t. if t \<in> set (wq_tasks (wait_q nd)) \<and> t \<notin> set (wq_tasks q) then Unlinked else wlinks s t"
  let ?s2 = "?s1\<lparr>heap := (heap s)(a \<mapsto> nd\<lparr>wait_q := q\<rparr>), tasks := ts, wlinks := ?L\<rparr>"
  have sig: "sys_myevent_signal (num_at (heap s) a) ?s1 = Some (Ret (?s2, num_at (heap s) a))"
    using wake_node_live [of ?s1 a nd wq_wake_up q ts] nd w
    by (simp add: sys_myevent_signal_def f cong: if_cong)
  obtain s3 where s3: "kfree_event a ?s2 = Some (Ret s3)" "heap s3 = (heap s)(a := None)"
    "lpmyevent_head s3 = lpmyevent_head s" "lpmyevent_end s3 = prev_of xs" "tasks s3 = ts"
    by (simp add: kfree_event_def)
  have "sys_myevent_close (num_at (heap s) a) s = Some (Ret (s3, num_at (heap s) a))"
    using find_split [of s xs a "[]"] wf dist u sig s3(1) by (simp add: sys_myevent_close_def)
  then show ?thesis using s3 nd w by (intro that) (simp_all add: num_queue_Some)
qed

text \<open>
  Closing the last event of the list leaves a pointer to its freed node behind, in its
  predecessor or in the list head: from then on every search for an event that is not in the
  list uses freed memory, and so do the system calls made with such a number. If the event was
  the only one, every call does, and even creating a new event dereferences a null pointer.
\<close>

theorem event_close_last_dangles:
  assumes "wf_events s (xs @ [a])" and "distinct (map (num_at (heap s)) (xs @ [a]))"
    and "m \<notin> num_at (heap s) ` set xs" and "m \<noteq> 0"
  shows "\<exists>s'. sys_myevent_close (num_at (heap s) a) s = Some (Ret (s', num_at (heap s) a)) \<and>
    sys_myevent_open km m s' = Some Oops \<and> wait_begin t m s' = Some Oops \<and>
    sys_myevent_signal m s' = Some Oops \<and> sys_myevent_close m s' = Some Oops \<and>
    (xs = [] \<longrightarrow> sys_myevent_open km 0 s' = Some Oops)"
proof -
  obtain s' where s': "sys_myevent_close (num_at (heap s) a) s = Some (Ret (s', num_at (heap s) a))"
    "heap s' = (heap s)(a := None)" "lpmyevent_head s' = lpmyevent_head s" "lpmyevent_end s' = prev_of xs"
    by (rule close_last [OF assms(1,2)]) blast
  have "a \<notin> set xs" using assms(1) by (simp add: wf_events_def)
  then have find: "scheventNum m s' = Some Oops"
    unfolding scheventNum_def s'(2,3)
    by (intro sched_loop_dangling [where h = "heap s" and xs = xs and a = a])
      (use assms(1,3) in \<open>auto simp: wf_events_def\<close>)
  have "append_event mk b s' = Some Oops" if "xs = []" for mk b
    using that assms(1) s'(3,4) by (auto simp: append_event_def prev_of_def wf_events_def)
  then have "xs = [] \<longrightarrow> sys_myevent_open km 0 s' = Some Oops"
    by (auto simp: sys_myevent_open_def open_event_def split: option.splits)
  then show ?thesis
    using s'(1) find assms(4)
    by (simp add: sys_myevent_open_def open_event_def wait_begin_def sys_myevent_signal_def
        sys_myevent_close_def)
qed

theorem event_close_last_dangles_witness:
  "\<exists>s'. sys_myevent_close 4 two_events = Some (Ret (s', 4)) \<and> sys_myevent_signal 4 s' = Some Oops"
  using event_close_last_dangles [of two_events "[16]" 32 4] two_events_facts by auto

text \<open>
  If another event precedes the closed last one, the next creation of an event repairs the
  list: the dangling pointer is overwritten, and the new event gets the number after the one of
  the event that is last now, so that the number of the closed event is handed out again.
\<close>

theorem event_close_last_reopen:
  assumes "wf_events s (xs @ [c, a])" and "distinct (map (num_at (heap s)) (xs @ [c, a]))"
    and "heap s b = None"
  shows "\<exists>s' s''. sys_myevent_close (num_at (heap s) a) s = Some (Ret (s', num_at (heap s) a)) \<and>
    sys_myevent_open (Some b) 0 s' = Some (Ret (s'', int32 (num_at (heap s) c + 2))) \<and>
    wf_events s'' (xs @ [c, b]) \<and> (\<forall>x \<in> set (xs @ [c]). num_at (heap s'') x = num_at (heap s) x)"
proof -
  obtain s' where s': "sys_myevent_close (num_at (heap s) a) s = Some (Ret (s', num_at (heap s) a))"
    "heap s' = (heap s)(a := None)" "lpmyevent_head s' = lpmyevent_head s"
    "lpmyevent_end s' = prev_of (xs @ [c])"
    by (rule close_last [of s "xs @ [c]" a]) (use assms in auto)
  obtain cn where cn: "heap s c = Some cn" using wf_live [OF assms(1), of c] by auto
  have dist: "distinct (xs @ [c, a])" using assms(1) by (simp add: wf_events_def)
  have bn: "b \<notin> set (xs @ [c, a])" using wf_live [OF assms(1)] assms(3) by force
  have head: "\<exists>h. lpmyevent_head s = Some h"
    using assms(1) by (cases xs) (auto simp: wf_events_def)
  let ?num = "int32 (num_at (heap s) c + 2)"
  let ?nd = "\<lparr>eventNum = ?num, wait_q = [], next_ev = None\<rparr>"
  let ?h = "(heap s')(c \<mapsto> cn\<lparr>next_ev := Some b\<rparr>, b \<mapsto> ?nd)"
  have run: "sys_myevent_open (Some b) 0 s' = Some (Ret (s'\<lparr>heap := ?h, lpmyevent_end := Some b\<rparr>, ?num))"
    using head s'(2-4) cn dist
    by (auto simp: sys_myevent_open_def open_event_def append_event_def prev_of_def Let_def num_queue_Some)
  have "chain ?h (lpmyevent_head s) (xs @ [c, b])"
    by (rule chain_replace_last [where h = "heap s" and a = a and cn = "cn\<lparr>next_ev := Some b\<rparr>" and x = ?nd])
      (use assms(1) dist bn s'(2) in \<open>auto simp: wf_events_def\<close>)
  then have "wf_events (s'\<lparr>heap := ?h, lpmyevent_end := Some b\<rparr>) (xs @ [c, b])"
    using dist bn s'(3) by (simp add: wf_events_def)
  moreover have "\<forall>x \<in> set (xs @ [c]). num_at ?h x = num_at (heap s) x"
    using dist bn cn s'(2) by (auto simp: num_at_def)
  ultimately show ?thesis using s'(1) run by fastforce
qed

theorem event_close_last_reopen_witness:
  "\<exists>s' s''. sys_myevent_close 4 two_events = Some (Ret (s', 4)) \<and>
     sys_myevent_open (Some 48) 0 s' = Some (Ret (s'', 4)) \<and> wf_events s'' [16, 48]"
proof -
  have "heap two_events 48 = None" by (simp add: two_events_def)
  moreover have "int32 4 = 4" by (simp add: int32_def)
  ultimately show ?thesis
    using event_close_last_reopen [of two_events "[]" 16 32 48] two_events_facts by auto
qed

end
