(* ===== verification/MySemaphore.thy ===== *)
theory MySemaphore
  imports MyEvent
begin

text \<open>
  The semaphore version of the event system calls (\<open>src/6/kernel/modified/myevent.c\<close>): events carry
  a resource count. The list operations are those of \<open>MyEvent\<close>, over nodes with one more field.
  \<open>sys_myevent_wait\<close> reads the count and acts on it in separate steps, so that both the
  interleavings of one processor (which switches processes in \<open>schedule\<close> only) and those of
  several processors can be expressed. The earlier drafts \<open>src/6/kernel/snippt2.c\<close> and
  \<open>src/6/kernel/snippt.c\<close> of the same calls are at the end.
\<close>

section \<open>The system calls\<close>

record mysem_t = myevent_t +
  sem_value :: int

definition sem_node :: "int \<Rightarrow> int \<Rightarrow> mysem_t" where
  "sem_node v num = \<lparr>eventNum = num, wait_q = [], next_ev = None, sem_value = v\<rparr>"

definition sys_sem_open ::
  "addr option \<Rightarrow> int \<Rightarrow> int \<Rightarrow> mysem_t evstate \<Rightarrow> (mysem_t evstate \<times> int) result" where
  "sys_sem_open km n v = open_event (sem_node v) km n"

datatype sem_pc = S_dec int addr | S_enqueue int addr | S_sleep int addr | S_ret int

text \<open>The search and the test of the count: \<open>if (atomic_read(&tmp->value) > 0)\<close>.\<close>

definition sem_wait_check :: "int \<Rightarrow> mysem_t evstate \<Rightarrow> sem_pc result" where
  "sem_wait_check n s =
     rbind (scheventNum n s) (\<lambda>(found, _).
       case found of
         None \<Rightarrow> Some (Ret (S_ret 0))
       | Some a \<Rightarrow> rbind (deref (heap s) (Some a)) (\<lambda>nd.
           Some (Ret (if 0 < sem_value nd then S_dec n a else S_enqueue n a))))"

fun sem_wait_step ::
  "pid \<Rightarrow> sem_pc \<Rightarrow> mysem_t evstate \<Rightarrow> (mysem_t evstate \<times> sem_pc) result" where
  "sem_wait_step t (S_dec n a) s =
     rbind (deref (heap s) (Some a)) (\<lambda>nd.
       Some (Ret (s\<lparr>heap := (heap s)(a \<mapsto> nd\<lparr>sem_value := int32 (sem_value nd - 1)\<rparr>)\<rparr>, S_ret n)))"
| "sem_wait_step t (S_enqueue n a) s =
     rbind (deref (heap s) (Some a)) (\<lambda>nd.
       Some (Ret (s\<lparr>heap := (heap s)(a \<mapsto> nd\<lparr>wait_q := wq_add_exclusive t (wait_q nd)\<rparr>),
                   tasks := (tasks s)(t := TASK_INTERRUPTIBLE),
                   wlinks := (wlinks s)(t := Linked)\<rparr>, S_sleep n a)))"
| "sem_wait_step t (S_sleep n a) s = rbind (wait_end t n a s) (\<lambda>(s, r). Some (Ret (s, S_ret r)))"
| "sem_wait_step t (S_ret r) s = Some (Ret (s, S_ret r))"

text \<open>On one processor the call runs up to \<open>schedule\<close> without interruption.\<close>

definition sem_wait_begin ::
  "pid \<Rightarrow> int \<Rightarrow> mysem_t evstate \<Rightarrow> (mysem_t evstate \<times> sem_pc) result" where
  "sem_wait_begin t n s = rbind (sem_wait_check n s) (\<lambda>pc. sem_wait_step t pc s)"

definition sys_sem_signal :: "int \<Rightarrow> mysem_t evstate \<Rightarrow> (mysem_t evstate \<times> int) result" where
  "sys_sem_signal n s =
     rbind (scheventNum n s) (\<lambda>(found, _).
       case found of
         None \<Rightarrow> Some (Ret (s, 0))
       | Some a \<Rightarrow> rbind (deref (heap s) (Some a)) (\<lambda>nd.
           if wait_q nd = [] then
             Some (Ret (s\<lparr>heap := (heap s)(a \<mapsto> nd\<lparr>sem_value := int32 (sem_value nd + 1)\<rparr>)\<rparr>, n))
           else rbind (wake_node wq_wake_up a s) (\<lambda>s. Some (Ret (s, n)))))"

definition sys_sem_close :: "int \<Rightarrow> mysem_t evstate \<Rightarrow> (mysem_t evstate \<times> int) result" where
  "sys_sem_close n s =
     rbind (scheventNum n s) (\<lambda>(found, prev).
       case found of
         None \<Rightarrow> Some (Ret (s, 0))
       | Some a \<Rightarrow>
           rbind (unlink_event a prev s) (\<lambda>s.
           rbind (wake_node wq_wake_up_all a s) (\<lambda>s.
           rbind (kfree_event a s) (\<lambda>s. Some (Ret (s, n))))))"

section \<open>Runs on one processor\<close>

text \<open>
  \<open>sem_run n a s0 s W ret sig intr\<close>: starting from \<open>s0\<close>, processes called wait and signal on the
  semaphore with number \<open>n\<close>, whose node is at \<open>a\<close>. \<open>W\<close> are the processes inside the wait call,
  \<open>ret\<close> counts the wait calls that returned, \<open>sig\<close> the signal calls and \<open>intr\<close> the Unix signals
  that reached waiting processes.
\<close>

inductive sem_run ::
  "int \<Rightarrow> addr \<Rightarrow> mysem_t evstate \<Rightarrow> mysem_t evstate \<Rightarrow> pid set \<Rightarrow> nat \<Rightarrow> nat \<Rightarrow> nat \<Rightarrow> bool"
  for n a s0 where
  sem_start: "sem_run n a s0 s0 {} 0 0 0"
| sem_pass: "sem_run n a s0 s W ret sig intr \<Longrightarrow> t \<notin> W \<Longrightarrow>
    sem_wait_begin t n s = Some (Ret (s', S_ret n)) \<Longrightarrow> sem_run n a s0 s' W (ret + 1) sig intr"
| sem_block: "sem_run n a s0 s W ret sig intr \<Longrightarrow> t \<notin> W \<Longrightarrow>
    sem_wait_begin t n s = Some (Ret (s', S_sleep n a)) \<Longrightarrow> sem_run n a s0 s' (insert t W) ret sig intr"
| sem_signal: "sem_run n a s0 s W ret sig intr \<Longrightarrow> t \<notin> W \<Longrightarrow>
    sys_sem_signal n s = Some (Ret (s', n)) \<Longrightarrow> sem_run n a s0 s' W ret (sig + 1) intr"
| sem_interrupt: "sem_run n a s0 s W ret sig intr \<Longrightarrow> t \<in> W \<Longrightarrow>
    sem_run n a s0 (s\<lparr>tasks := (tasks s)(t := TASK_RUNNING)\<rparr>) W ret sig (intr + 1)"
| sem_resume: "sem_run n a s0 s W ret sig intr \<Longrightarrow> t \<in> W \<Longrightarrow> tasks s t = TASK_RUNNING \<Longrightarrow>
    sem_wait_step t (S_sleep n a) s = Some (Ret (s', S_ret n)) \<Longrightarrow>
    sem_run n a s0 s' (W - {t}) (ret + 1) sig intr"

inductive_cases sem_runE: "sem_run n a s0 s W ret sig intr"

text \<open>The processes that were woken and have not returned yet.\<close>

definition woken :: "mysem_t evstate \<Rightarrow> pid set \<Rightarrow> pid set" where
  "woken s W = {t \<in> W. tasks s t = TASK_RUNNING}"

section \<open>The invariant\<close>

definition sem_queue_ok :: "addr \<Rightarrow> mysem_t \<Rightarrow> mysem_t evstate \<Rightarrow> pid set \<Rightarrow> bool" where
  "sem_queue_ok a nd s W \<longleftrightarrow> finite W \<and> heap s a = Some nd \<and> distinct (wq_tasks (wait_q nd)) \<and>
     (\<forall>w \<in> set (wait_q nd). w_excl w \<and> w_task w \<in> W \<and> wlinks s (w_task w) = Linked) \<and>
     (\<forall>t \<in> W. tasks s t = TASK_INTERRUPTIBLE \<longrightarrow> t \<in> set (wq_tasks (wait_q nd))) \<and>
     (\<forall>t \<in> W. wlinks s t = Linked \<longrightarrow> t \<in> set (wq_tasks (wait_q nd))) \<and>
     (\<forall>t \<in> W. wlinks s t \<noteq> Dangling) \<and>
     0 \<le> sem_value nd \<and> (0 < sem_value nd \<longrightarrow> wait_q nd = [])"

definition sem_inv ::
  "addr \<Rightarrow> int \<Rightarrow> addr list \<Rightarrow> mysem_t evstate \<Rightarrow> mysem_t evstate \<Rightarrow> pid set \<Rightarrow> nat \<Rightarrow> nat \<Rightarrow> nat \<Rightarrow> bool" where
  "sem_inv a v as s0 s W ret sig intr \<longleftrightarrow>
     wf_events s as \<and> num_at (heap s) = num_at (heap s0) \<and>
     (\<exists>nd. sem_queue_ok a nd s W \<and>
        sem_value nd + int ret + int (card (woken s W)) \<le> v + int sig + int intr \<and>
        (intr = 0 \<longrightarrow> (\<forall>w \<in> set (wait_q nd). tasks s (w_task w) = TASK_INTERRUPTIBLE) \<and>
           sem_value nd + int ret + int (card (woken s W)) = v + int sig))"

lemma locate_cong: "num_at h = num_at h' \<Longrightarrow> locate h n prev as = locate h' n prev as"
  by (induction as arbitrary: prev) simp_all

lemma sem_find:
  assumes "wf_events s as" and "num_at (heap s) = num_at (heap s0)" and "wf_events s0 as"
    and "scheventNum n s0 = Some (Ret (Some a, p))"
  shows "scheventNum n s = Some (Ret (Some a, p))"
  using assms locate_cong [OF assms(2)] by (simp add: scheventNum_wf)

lemma num_at_same:
  "h a = Some nd \<Longrightarrow> eventNum nd' = eventNum nd \<Longrightarrow> num_at (h(a \<mapsto> nd')) = num_at h"
  by (simp add: fun_eq_iff num_queue_Some)

lemma wf_upd_more:
  assumes "wf_events s as" and "heap s a = Some nd" and "next_ev nd' = next_ev nd"
    and "heap s' = (heap s)(a \<mapsto> nd')" and "lpmyevent_head s' = lpmyevent_head s"
    and "lpmyevent_end s' = lpmyevent_end s"
  shows "wf_events s' as"
  using wf_upd [OF assms(1-3)] assms(4-6) by (simp add: wf_events_def)

lemma sem_inv_pass:
  assumes inv: "sem_inv a v as s0 s W ret sig intr"
    and find: "scheventNum n s = Some (Ret (Some a, p))"
    and run: "sem_wait_begin t n s = Some (Ret (s', S_ret n))" and small: "v + int sig + int intr < 2 ^ 31"
  shows "sem_inv a v as s0 s' W (ret + 1) sig intr"
proof -
  from inv obtain nd where nd: "sem_queue_ok a nd s W"
    "sem_value nd + int ret + int (card (woken s W)) \<le> v + int sig + int intr"
    "intr = 0 \<longrightarrow> (\<forall>w \<in> set (wait_q nd). tasks s (w_task w) = TASK_INTERRUPTIBLE) \<and>
       sem_value nd + int ret + int (card (woken s W)) = v + int sig"
    and wf: "wf_events s as" and num: "num_at (heap s) = num_at (heap s0)"
    by (auto simp: sem_inv_def)
  have h: "heap s a = Some nd" using nd(1) by (simp add: sem_queue_ok_def)
  have pos: "0 < sem_value nd" and
    s': "s' = s\<lparr>heap := (heap s)(a \<mapsto> nd\<lparr>sem_value := int32 (sem_value nd - 1)\<rparr>)\<rparr>"
    using run h by (auto simp: sem_wait_begin_def sem_wait_check_def find split: if_splits)
  have dec: "int32 (sem_value nd - 1) = sem_value nd - 1"
    using pos nd(2) small by (intro int32_id) auto
  have "sem_queue_ok a (nd\<lparr>sem_value := sem_value nd - 1\<rparr>) s' W"
    using nd(1) pos by (auto simp: s' dec sem_queue_ok_def)
  moreover have "woken s' W = woken s W" by (simp add: s' woken_def)
  moreover have "wf_events s' as" by (rule wf_upd_more [OF wf h]) (simp_all add: s')
  moreover have "num_at (heap s') = num_at (heap s0)"
    using num_at_same [where h = "heap s" and a = a and nd = nd] h num by (simp add: s')
  ultimately show ?thesis
    using nd(2,3) unfolding sem_inv_def
    by (intro conjI exI [of _ "nd\<lparr>sem_value := sem_value nd - 1\<rparr>"]) (auto simp: s')
qed

lemma sem_inv_block:
  assumes inv: "sem_inv a v as s0 s W ret sig intr" and t: "t \<notin> W"
    and find: "scheventNum n s = Some (Ret (Some a, p))"
    and run: "sem_wait_begin t n s = Some (Ret (s', S_sleep n a))"
  shows "sem_inv a v as s0 s' (insert t W) ret sig intr"
proof -
  from inv obtain nd where nd: "sem_queue_ok a nd s W"
    "sem_value nd + int ret + int (card (woken s W)) \<le> v + int sig + int intr"
    "intr = 0 \<longrightarrow> (\<forall>w \<in> set (wait_q nd). tasks s (w_task w) = TASK_INTERRUPTIBLE) \<and>
       sem_value nd + int ret + int (card (woken s W)) = v + int sig"
    and wf: "wf_events s as" and num: "num_at (heap s) = num_at (heap s0)"
    by (auto simp: sem_inv_def)
  have h: "heap s a = Some nd" using nd(1) by (simp add: sem_queue_ok_def)
  let ?nd = "nd\<lparr>wait_q := wq_add_exclusive t (wait_q nd)\<rparr>"
  have zero: "sem_value nd \<le> 0" and
    s': "s' = s\<lparr>heap := (heap s)(a \<mapsto> ?nd), tasks := (tasks s)(t := TASK_INTERRUPTIBLE),
      wlinks := (wlinks s)(t := Linked)\<rparr>"
    using run h by (auto simp: sem_wait_begin_def sem_wait_check_def find split: if_splits)
  have tq: "t \<notin> set (wq_tasks (wait_q nd))"
    using nd(1) t by (auto simp: sem_queue_ok_def wq_tasks_def)
  have "sem_queue_ok a ?nd s' (insert t W)"
    using nd(1) t tq zero by (auto simp: s' sem_queue_ok_def wq_add_exclusive_def)
  moreover have "woken s' (insert t W) = woken s W" using t by (auto simp: s' woken_def)
  moreover have "wf_events s' as" by (rule wf_upd_more [OF wf h]) (simp_all add: s')
  moreover have "num_at (heap s') = num_at (heap s0)"
    using num_at_same [where h = "heap s" and a = a and nd = nd] h num by (simp add: s')
  ultimately show ?thesis
    using nd(2,3) unfolding sem_inv_def
    by (intro conjI exI [of _ ?nd]) (auto simp: s' wq_add_exclusive_def)
qed

lemma woken_wake:
  assumes "finite W" and "t \<in> W" and "tasks s t = TASK_INTERRUPTIBLE"
    and "tasks s' = (tasks s)(t := TASK_RUNNING)"
  shows "card (woken s' W) = card (woken s W) + 1"
proof -
  have "woken s' W = insert t (woken s W)" "t \<notin> woken s W" "finite (woken s W)"
    using assms by (auto simp: woken_def)
  then show ?thesis by simp
qed

lemma sem_inv_signal:
  assumes inv: "sem_inv a v as s0 s W ret sig intr"
    and find: "scheventNum n s = Some (Ret (Some a, p))"
    and run: "sys_sem_signal n s = Some (Ret (s', n))"
    and small: "v + int (sig + 1) + int intr < 2 ^ 31"
  shows "sem_inv a v as s0 s' W ret (sig + 1) intr"
proof -
  from inv obtain nd where nd: "sem_queue_ok a nd s W"
    "sem_value nd + int ret + int (card (woken s W)) \<le> v + int sig + int intr"
    "intr = 0 \<longrightarrow> (\<forall>w \<in> set (wait_q nd). tasks s (w_task w) = TASK_INTERRUPTIBLE) \<and>
       sem_value nd + int ret + int (card (woken s W)) = v + int sig"
    and wf: "wf_events s as" and num: "num_at (heap s) = num_at (heap s0)"
    by (auto simp: sem_inv_def)
  have h: "heap s a = Some nd" and fin: "finite W" and pos: "0 \<le> sem_value nd"
    using nd(1) by (simp_all add: sem_queue_ok_def)
  show ?thesis
  proof (cases "wait_q nd = []")
    case True
    let ?nd = "nd\<lparr>sem_value := sem_value nd + 1\<rparr>"
    have inc: "int32 (sem_value nd + 1) = sem_value nd + 1"
      using pos nd(2) small by (intro int32_id) auto
    have s': "s' = s\<lparr>heap := (heap s)(a \<mapsto> ?nd)\<rparr>"
      using run h True inc by (simp add: sys_sem_signal_def find)
    have "sem_queue_ok a ?nd s' W" using nd(1) True pos by (auto simp: s' sem_queue_ok_def)
    moreover have "woken s' W = woken s W" by (simp add: s' woken_def)
    moreover have "wf_events s' as" by (rule wf_upd_more [OF wf h]) (simp_all add: s')
    moreover have "num_at (heap s') = num_at (heap s0)"
      using num_at_same [where h = "heap s" and a = a and nd = nd] h num by (simp add: s')
    ultimately show ?thesis
      using nd(2,3) unfolding sem_inv_def by (intro conjI exI [of _ ?nd]) (auto simp: s')
  next
    case False
    obtain q ts where w: "wq_wake_up (wait_q nd) (tasks s) = (q, ts)" by fastforce
    let ?nd = "nd\<lparr>wait_q := q\<rparr>"
    have s': "s' = s\<lparr>heap := (heap s)(a \<mapsto> ?nd), tasks := ts,
      wlinks := (\<lambda>t. if t \<in> set (wq_tasks (wait_q nd)) \<and> t \<notin> set (wq_tasks q) then Unlinked else wlinks s t)\<rparr>"
      using run h False wake_node_live [where wake = wq_wake_up, OF h w]
      by (simp add: sys_sem_signal_def find)
    have wf': "wf_events s' as" by (rule wf_upd_more [OF wf h]) (simp_all add: s')
    have num': "num_at (heap s') = num_at (heap s0)"
      using num_at_same [where h = "heap s" and a = a and nd = nd] h num by (simp add: s')
    have zero: "sem_value nd = 0" using nd(1) False pos by (auto simp: sem_queue_ok_def)
    have excl: "\<forall>w \<in> set (wait_q nd). w_excl w" using nd(1) by (simp add: sem_queue_ok_def)
    from wake_up_exclusive_cases [OF excl, of "tasks s"] show ?thesis
    proof (elim disjE exE conjE)
      assume all: "\<forall>w \<in> set (wait_q nd). tasks s (w_task w) = TASK_RUNNING"
        and e: "wq_wake_up (wait_q nd) (tasks s) = (wait_q nd, tasks s)"
      have intr: "intr \<noteq> 0" using nd(3) all False by (cases "wait_q nd") auto
      have q: "q = wait_q nd" "ts = tasks s" using e w by auto
      have "sem_queue_ok a ?nd s' W" using nd(1) by (auto simp: s' q sem_queue_ok_def)
      moreover have "woken s' W = woken s W" by (simp add: s' q woken_def)
      ultimately show ?thesis
        using wf' num' nd(2) intr unfolding sem_inv_def by (intro conjI exI [of _ ?nd]) auto
    next
      fix xs u ys
      assume split: "wait_q nd = xs @ u # ys" and u: "tasks s (w_task u) = TASK_INTERRUPTIBLE"
        and e: "wq_wake_up (wait_q nd) (tasks s) = (xs @ ys, (tasks s)(w_task u := TASK_RUNNING))"
      have q: "q = xs @ ys" "ts = (tasks s)(w_task u := TASK_RUNNING)" using e w by auto
      have uW: "w_task u \<in> W" using nd(1) split by (simp add: sem_queue_ok_def)
      have "sem_queue_ok a ?nd s' W"
        using nd(1) zero by (auto simp: s' q split sem_queue_ok_def wq_tasks_def)
      moreover have "card (woken s' W) = card (woken s W) + 1"
        by (rule woken_wake [OF fin uW u]) (simp add: s' q)
      moreover have "w_task u \<notin> w_task ` set (xs @ ys)"
        using nd(1) by (auto simp: sem_queue_ok_def split wq_tasks_def)
      then have "\<forall>w \<in> set q. w_task w \<noteq> w_task u" using q(1) by (metis imageI)
      then have "intr = 0 \<longrightarrow> (\<forall>w \<in> set q. tasks s' (w_task w) = TASK_INTERRUPTIBLE)"
        using nd(3) by (simp add: s' q split)
      ultimately show ?thesis
        using wf' num' nd(2,3) unfolding sem_inv_def by (intro conjI exI [of _ ?nd]) auto
    qed
  qed
qed

lemma sem_inv_interrupt:
  assumes inv: "sem_inv a v as s0 s W ret sig intr" and t: "t \<in> W"
  shows "sem_inv a v as s0 (s\<lparr>tasks := (tasks s)(t := TASK_RUNNING)\<rparr>) W ret sig (intr + 1)"
proof -
  let ?s = "s\<lparr>tasks := (tasks s)(t := TASK_RUNNING)\<rparr>"
  from inv obtain nd where nd: "sem_queue_ok a nd s W"
    "sem_value nd + int ret + int (card (woken s W)) \<le> v + int sig + int intr"
    and wf: "wf_events s as" "num_at (heap s) = num_at (heap s0)"
    by (auto simp: sem_inv_def)
  have "sem_queue_ok a nd ?s W" using nd(1) by (auto simp: sem_queue_ok_def)
  moreover have "woken ?s W \<subseteq> insert t (woken s W)" by (auto simp: woken_def)
  then have "card (woken ?s W) \<le> card (insert t (woken s W))"
    using nd(1) by (intro card_mono) (simp_all add: woken_def sem_queue_ok_def)
  then have "card (woken ?s W) \<le> card (woken s W) + 1"
    using card_insert_le_m1 by (metis (no_types, lifting) Suc_eq_plus1 card_insert_if card.infinite
        finite_insert le_SucI le_trans order_refl)
  ultimately show ?thesis
    using wf nd(2) unfolding sem_inv_def by (intro conjI exI [of _ nd]) auto
qed

lemma sem_inv_resume:
  assumes inv: "sem_inv a v as s0 s W ret sig intr" and t: "t \<in> W" "tasks s t = TASK_RUNNING"
    and run: "sem_wait_step t (S_sleep n a) s = Some (Ret (s', S_ret n))"
  shows "sem_inv a v as s0 s' (W - {t}) (ret + 1) sig intr"
proof -
  from inv obtain nd where nd: "sem_queue_ok a nd s W"
    "sem_value nd + int ret + int (card (woken s W)) \<le> v + int sig + int intr"
    "intr = 0 \<longrightarrow> (\<forall>w \<in> set (wait_q nd). tasks s (w_task w) = TASK_INTERRUPTIBLE) \<and>
       sem_value nd + int ret + int (card (woken s W)) = v + int sig"
    and wf: "wf_events s as" and num: "num_at (heap s) = num_at (heap s0)"
    by (auto simp: sem_inv_def)
  have h: "heap s a = Some nd" and fin: "finite W" using nd(1) by (simp_all add: sem_queue_ok_def)
  have "t \<in> woken s W" "finite (woken s W)" using t fin by (simp_all add: woken_def)
  then have less: "card (woken s W - {t}) + 1 = card (woken s W)"
    by (metis Suc_eq_plus1 card_Suc_Diff1)
  let ?nd = "nd\<lparr>wait_q := wq_remove t (wait_q nd)\<rparr>"
  have tasks': "tasks s' = tasks s"
    using run h t(2) by (cases "wlinks s t") (auto simp: wait_end_def Let_def)
  have w': "woken s' (W - {t}) = woken s W - {t}" by (auto simp: woken_def tasks')
  show ?thesis
  proof (cases "wlinks s t")
    case Linked
    have s': "s' = s\<lparr>tasks := (tasks s)(t := TASK_RUNNING), heap := (heap s)(a \<mapsto> ?nd),
        wlinks := (wlinks s)(t := Unlinked)\<rparr>"
      using run h Linked by (simp add: wait_end_def)
    have q: "set (wq_tasks (wait_q ?nd)) = set (wq_tasks (wait_q nd)) - {t}"
      "distinct (wq_tasks (wait_q nd)) \<Longrightarrow> distinct (wq_tasks (wait_q ?nd))"
      by (simp_all add: distinct_removeAll)
    have "sem_queue_ok a ?nd s' (W - {t})"
      using nd(1) t by (auto simp: s' sem_queue_ok_def distinct_removeAll)
    moreover have "wf_events s' as" by (rule wf_upd_more [OF wf h]) (simp_all add: s')
    moreover have "num_at (heap s') = num_at (heap s0)"
      using num_at_same [where h = "heap s" and a = a and nd = nd] h num by (simp add: s')
    ultimately show ?thesis
      using nd(2,3) less w' tasks' unfolding sem_inv_def by (intro conjI exI [of _ ?nd]) auto
  next
    case Unlinked
    have s': "s' = s\<lparr>tasks := (tasks s)(t := TASK_RUNNING)\<rparr>"
      using run Unlinked by (simp add: wait_end_def)
    have "\<forall>w \<in> set (wait_q nd). w_task w \<noteq> t"
      using nd(1) Unlinked by (auto simp: sem_queue_ok_def)
    then have "sem_queue_ok a nd s' (W - {t})"
      using nd(1) t by (auto simp: s' sem_queue_ok_def)
    then show ?thesis
      using nd(2,3) less w' tasks' wf num unfolding sem_inv_def
      by (intro conjI exI [of _ nd]) (auto simp: s')
  next
    case Dangling
    with nd(1) t show ?thesis by (simp add: sem_queue_ok_def)
  qed
qed

lemma sem_run_inv:
  assumes "sem_run n a s0 s W ret sig intr" and "wf_events s0 as"
    and "scheventNum n s0 = Some (Ret (Some a, p))" and "sem_queue_ok a nd s0 {}"
    and "sem_value nd + int sig + int intr < 2 ^ 31"
  shows "sem_inv a (sem_value nd) as s0 s W ret sig intr"
  using assms(1,5)
proof (induction rule: sem_run.induct)
  case sem_start
  have "wait_q nd = []" using assms(4) by (cases "wait_q nd") (auto simp: sem_queue_ok_def)
  then show ?case
    using assms(2,4) by (auto simp: sem_inv_def woken_def intro!: exI [of _ nd])
next
  case (sem_pass s W ret sig intr t s')
  then have inv: "sem_inv a (sem_value nd) as s0 s W ret sig intr" by simp
  then have "scheventNum n s = Some (Ret (Some a, p))"
    using sem_find assms(2,3) by (metis sem_inv_def)
  with inv sem_pass show ?case using sem_inv_pass by blast
next
  case (sem_block s W ret sig intr t s')
  then have inv: "sem_inv a (sem_value nd) as s0 s W ret sig intr" by simp
  then have "scheventNum n s = Some (Ret (Some a, p))"
    using sem_find assms(2,3) by (metis sem_inv_def)
  with inv sem_block show ?case using sem_inv_block by blast
next
  case (sem_signal s W ret sig intr t s')
  then have inv: "sem_inv a (sem_value nd) as s0 s W ret sig intr" by simp
  then have "scheventNum n s = Some (Ret (Some a, p))"
    using sem_find assms(2,3) by (metis sem_inv_def)
  with inv sem_signal show ?case using sem_inv_signal by blast
next
  case (sem_interrupt s W ret sig intr t)
  then show ?case using sem_inv_interrupt by simp
next
  case (sem_resume s W ret sig intr t s')
  then show ?case using sem_inv_resume by simp
qed

section \<open>Properties\<close>

text \<open>
  C3: on one processor, however waits, signals and Unix signals interleave, as long as the resources at
  the start, the signals and the Unix signals together stay below \<open>2 ^ 31\<close>, the resource count never
  goes below zero, no more wait calls return than there were resources at the start, signals
  and Unix signals together, and whenever a resource is free no process sleeps. As long as no
  Unix signal arrives, every resource is accounted for: it is free, was obtained by a wait call that
  returned, or is held by a process that was woken.
\<close>

theorem sem_counts:
  assumes "sem_run n a s0 s W ret sig intr" and "wf_events s0 as"
    and "scheventNum n s0 = Some (Ret (Some a, p))" and "sem_queue_ok a nd0 s0 {}"
    and "sem_value nd0 + int sig + int intr < 2 ^ 31"
  shows "\<exists>nd. heap s a = Some nd \<and> 0 \<le> sem_value nd \<and>
    int ret \<le> sem_value nd0 + int sig + int intr \<and>
    (0 < sem_value nd \<longrightarrow> (\<forall>t \<in> W. tasks s t = TASK_RUNNING)) \<and>
    (intr = 0 \<longrightarrow> sem_value nd + int ret + int (card (woken s W)) = sem_value nd0 + int sig)"
proof -
  from sem_run_inv [OF assms] obtain nd where nd: "sem_queue_ok a nd s W"
    "sem_value nd + int ret + int (card (woken s W)) \<le> sem_value nd0 + int sig + int intr"
    "intr = 0 \<longrightarrow> sem_value nd + int ret + int (card (woken s W)) = sem_value nd0 + int sig"
    by (auto simp: sem_inv_def)
  have "tasks s t = TASK_RUNNING" if "0 < sem_value nd" "t \<in> W" for t
    using nd(1) that by (cases "tasks s t") (auto simp: sem_queue_ok_def)
  then show ?thesis using nd by (auto simp: sem_queue_ok_def)
qed

text \<open>One semaphore with number 2 and \<open>v\<close> resources, nobody waiting.\<close>

definition one_sem :: "int \<Rightarrow> mysem_t evstate" where
  "one_sem v = \<lparr>heap = [16 \<mapsto> sem_node v 2], lpmyevent_head = Some 16, lpmyevent_end = Some 16,
     tasks = (\<lambda>_. TASK_RUNNING), wlinks = (\<lambda>_. Unlinked)\<rparr>"

lemma one_sem_facts:
  "wf_events (one_sem v) [16]" "scheventNum 2 (one_sem v) = Some (Ret (Some 16, None))"
  "0 \<le> v \<Longrightarrow> sem_queue_ok 16 (sem_node v 2) (one_sem v) {}"
  by (simp_all add: one_sem_def wf_events_def sem_node_def scheventNum_def sched_loop.simps sem_queue_ok_def)

lemma one_sem_run:
  "sem_run 2 16 (one_sem 1)
     ((one_sem 1)\<lparr>heap := [16 \<mapsto> sem_node 0 2]\<rparr>) {} 1 0 0"
proof -
  have "sem_wait_begin 7 2 (one_sem 1) = Some (Ret ((one_sem 1)\<lparr>heap := [16 \<mapsto> sem_node 0 2]\<rparr>, S_ret 2))"
    by (simp add: sem_wait_begin_def sem_wait_check_def one_sem_facts)
      (simp add: one_sem_def sem_node_def int32_def)
  from sem_pass [OF sem_start _ this, of 16] show ?thesis by simp
qed

theorem sem_counts_witness:
  "\<exists>nd. heap ((one_sem 1)\<lparr>heap := [16 \<mapsto> sem_node 0 2]\<rparr>) 16 = Some nd \<and> 0 \<le> sem_value nd"
  using sem_counts [OF one_sem_run one_sem_facts(1,2) one_sem_facts(3)] by (auto simp: sem_node_def)

text \<open>
  C23: a signal wakes the process that has waited longest, and only that one: entries are added at
  the tail of the queue and woken at its head.
\<close>

theorem sem_signal_fifo:
  assumes "scheventNum n s = Some (Ret (Some a, p))" and "heap s a = Some nd"
    and "wait_q nd = w # q" and "asleep (tasks s) (w # q)" and "w_excl w"
  shows "\<exists>s'. sys_sem_signal n s = Some (Ret (s', n)) \<and> queue_at (heap s') a = q \<and>
    tasks s' = (tasks s)(w_task w := TASK_RUNNING) \<and>
    (\<forall>t s1. sem_wait_step t (S_enqueue n a) s = Some (Ret (s1, S_sleep n a)) \<longrightarrow>
       queue_at (heap s1) a = (w # q) @ [\<lparr>w_task = t, w_excl = True\<rparr>])"
proof -
  have w: "wq_wake_up (wait_q nd) (tasks s) = (q, (tasks s)(w_task w := TASK_RUNNING))"
    using wake_up_one_exclusive [OF assms(4,5)] assms(3) by simp
  show ?thesis
    using assms(1-3) wake_node_live [where wake = wq_wake_up, OF assms(2) w]
    by (auto simp: sys_sem_signal_def num_queue_Some wq_add_exclusive_def)
qed

definition two_waiters :: "mysem_t evstate" where
  "two_waiters = (one_sem 0)\<lparr>heap := [16 \<mapsto> (sem_node 0 2)\<lparr>wait_q := wq_add_exclusive 8 (wq_add_exclusive 7 [])\<rparr>],
     tasks := (\<lambda>t. if t \<in> {7, 8} then TASK_INTERRUPTIBLE else TASK_RUNNING)\<rparr>"

theorem sem_signal_fifo_witness:
  "\<exists>s'. sys_sem_signal 2 two_waiters = Some (Ret (s', 2)) \<and> tasks s' 7 = TASK_RUNNING \<and>
     tasks s' 8 = TASK_INTERRUPTIBLE"
proof -
  let ?nd = "(sem_node 0 2)\<lparr>wait_q := wq_add_exclusive 8 (wq_add_exclusive 7 [])\<rparr>"
  have "scheventNum 2 two_waiters = Some (Ret (Some 16, None))" "heap two_waiters 16 = Some ?nd"
    "tasks two_waiters 8 = TASK_INTERRUPTIBLE"
    by (simp_all add: two_waiters_def one_sem_def scheventNum_def sched_loop.simps sem_node_def)
  then show ?thesis
    using sem_signal_fifo [of 2 two_waiters 16 None ?nd "\<lparr>w_task = 7, w_excl = True\<rparr>"
        "[\<lparr>w_task = 8, w_excl = True\<rparr>]"]
    by (auto simp: wq_add_exclusive_def two_waiters_def)
qed

text \<open>
  Closing a semaphore that is not the last of the list takes exactly that one out and wakes all
  processes sleeping on it; each of them returns the event number from its wait call without
  touching the freed node.
\<close>

theorem sem_close_wakes:
  assumes wf: "wf_events s (xs @ a # ys)" and ys: "ys \<noteq> []"
    and dist: "distinct (map (num_at (heap s)) (xs @ a # ys))"
    and sl: "asleep (tasks s) (queue_at (heap s) a)"
  shows "\<exists>s'. sys_sem_close (num_at (heap s) a) s = Some (Ret (s', num_at (heap s) a)) \<and>
    wf_events s' (xs @ ys) \<and> heap s' a = None \<and>
    (\<forall>t \<in> set (wq_tasks (queue_at (heap s) a)). tasks s' t = TASK_RUNNING \<and>
       (\<exists>s''. wait_end t (num_at (heap s) a) a s' = Some (Ret (s'', num_at (heap s) a))))"
proof -
  let ?n = "num_at (heap s) a"
  obtain s1 where s1: "unlink_event a (prev_of xs) s = Some (Ret s1)" "wf_events s1 (xs @ ys)"
    "queue_at (heap s1) = queue_at (heap s)" "tasks s1 = tasks s" "heap s1 a = heap s a"
    by (rule unlink_inner [OF wf ys]) blast
  obtain nd where nd: "heap s1 a = Some nd" using wf_live [OF wf, of a] s1(5) by auto
  let ?Q = "set (wq_tasks (wait_q nd))"
  let ?ts = "\<lambda>t. if t \<in> ?Q then TASK_RUNNING else tasks s1 t"
  have q: "wait_q nd = queue_at (heap s) a" using nd s1(3) by (metis num_queue_Some(2))
  have w: "wq_wake_up_all (wait_q nd) (tasks s1) = ([], ?ts)"
    using wake_up_all_sleeping sl q s1(4) by (simp add: wq_wake_up_all_def cong: if_cong)
  let ?L = "\<lambda>t. if t \<in> ?Q \<and> t \<notin> set (wq_tasks []) then Unlinked else wlinks s1 t"
  obtain s3 where s3: "kfree_event a (s1\<lparr>heap := (heap s1)(a \<mapsto> nd\<lparr>wait_q := []\<rparr>), tasks := ?ts, wlinks := ?L\<rparr>) =
      Some (Ret s3)" "heap s3 = (heap s1)(a := None)" "lpmyevent_head s3 = lpmyevent_head s1"
    "lpmyevent_end s3 = lpmyevent_end s1" "tasks s3 = ?ts" "\<forall>t \<in> ?Q. wlinks s3 t = Unlinked"
    by (simp add: kfree_event_def)
  have run: "sys_sem_close ?n s = Some (Ret (s3, ?n))"
    using s1(1) s3(1) wake_node_live [where wake = wq_wake_up_all, OF nd w]
    by (simp add: sys_sem_close_def find_split [OF wf dist])
  have "a \<notin> set (xs @ ys)" using wf by (simp add: wf_events_def)
  then have "wf_events s3 (xs @ ys)"
    using s1(2) s3(2-4) chain_free unfolding wf_events_def by metis
  then show ?thesis
    using run s3 q by (intro exI [of _ s3]) (auto simp: wait_end_def)
qed

text \<open>Two semaphores, the first with two sleeping processes.\<close>

definition two_sems :: "mysem_t evstate" where
  "two_sems = two_waiters\<lparr>heap := (heap two_waiters)(16 \<mapsto> (the (heap two_waiters 16))\<lparr>next_ev := Some 32\<rparr>,
     32 \<mapsto> sem_node 3 4), lpmyevent_end := Some 32\<rparr>"

theorem sem_close_wakes_witness:
  "\<exists>s'. sys_sem_close 2 two_sems = Some (Ret (s', 2)) \<and> wf_events s' [32] \<and>
     tasks s' 7 = TASK_RUNNING \<and> tasks s' 8 = TASK_RUNNING"
proof -
  have "wf_events two_sems [16, 32]" "map (num_at (heap two_sems)) [16, 32] = [2, 4]"
    "asleep (tasks two_sems) (queue_at (heap two_sems) 16)"
    "wq_tasks (queue_at (heap two_sems) 16) = [7, 8]"
    by (simp_all add: two_sems_def two_waiters_def one_sem_def sem_node_def wf_events_def num_at_def
        queue_at_def) (simp add: wq_add_exclusive_def)
  then show ?thesis using sem_close_wakes [of two_sems "[]" 16 "[32]"] by auto
qed

text \<open>
  On several processors the test of the count and its decrement can be separated by another
  process's: with a single resource two wait calls both return at once, and the count becomes
  minus one.
\<close>

theorem sem_smp_overdraw:
  "sem_wait_check 2 (one_sem 1) = Some (Ret (S_dec 2 16)) \<and>
   (\<exists>s1 s2. sem_wait_step 7 (S_dec 2 16) (one_sem 1) = Some (Ret (s1, S_ret 2)) \<and>
      sem_wait_step 8 (S_dec 2 16) s1 = Some (Ret (s2, S_ret 2)) \<and>
      map_option sem_value (heap s2 16) = Some (- 1))"
  by (simp add: sem_wait_check_def one_sem_facts) (simp add: one_sem_def sem_node_def int32_def)

text \<open>
  On several processors a signal can come between the test of the count and the queueing of
  the waiting process: it finds the queue empty and only raises the count, and the process goes
  to sleep although a resource is free.
\<close>

theorem sem_smp_lost_wakeup:
  "sem_wait_check 2 (one_sem 0) = Some (Ret (S_enqueue 2 16)) \<and>
   (\<exists>s1 s2. sys_sem_signal 2 (one_sem 0) = Some (Ret (s1, 2)) \<and>
      sem_wait_step 7 (S_enqueue 2 16) s1 = Some (Ret (s2, S_sleep 2 16)) \<and>
      tasks s2 7 = TASK_INTERRUPTIBLE \<and> map_option sem_value (heap s2 16) = Some 1)"
  by (simp add: sem_wait_check_def sys_sem_signal_def one_sem_facts)
    (simp add: one_sem_def sem_node_def int32_def)

section \<open>The drafts \<open>snippt2.c\<close> and \<open>snippt.c\<close>\<close>

text \<open>
  In the drafts a wait that finds a resource returns 0 instead of the event number, waiting is
  not exclusive, a signal raises the count and wakes the queue in any case, and close signals.
\<close>

definition draft_open ::
  "addr option \<Rightarrow> int \<Rightarrow> int \<Rightarrow> mysem_t evstate \<Rightarrow> (mysem_t evstate \<times> int) result" where
  "draft_open km n v = open_event (sem_node v) km n"

definition draft_wait_begin ::
  "pid \<Rightarrow> int \<Rightarrow> mysem_t evstate \<Rightarrow> (mysem_t evstate \<times> wait_pc) result" where
  "draft_wait_begin t n s =
     rbind (scheventNum n s) (\<lambda>(found, _).
       case found of
         None \<Rightarrow> Some (Ret (s, W_ret 0))
       | Some a \<Rightarrow> rbind (deref (heap s) (Some a)) (\<lambda>nd.
           if 0 < sem_value nd then
             Some (Ret (s\<lparr>heap := (heap s)(a \<mapsto> nd\<lparr>sem_value := int32 (sem_value nd - 1)\<rparr>)\<rparr>, W_ret 0))
           else
             Some (Ret (s\<lparr>heap := (heap s)(a \<mapsto> nd\<lparr>wait_q := wq_prepare_to_wait t (wait_q nd)\<rparr>),
                         tasks := (tasks s)(t := TASK_INTERRUPTIBLE),
                         wlinks := (wlinks s)(t := Linked)\<rparr>, W_sleep n a))))"

definition draft_signal :: "int \<Rightarrow> mysem_t evstate \<Rightarrow> (mysem_t evstate \<times> int) result" where
  "draft_signal n s =
     rbind (scheventNum n s) (\<lambda>(found, _).
       case found of
         None \<Rightarrow> Some (Ret (s, 0))
       | Some a \<Rightarrow> rbind (deref (heap s) (Some a)) (\<lambda>nd.
           rbind (wake_node wq_wake_up a
               (s\<lparr>heap := (heap s)(a \<mapsto> nd\<lparr>sem_value := int32 (sem_value nd + 1)\<rparr>)\<rparr>)) (\<lambda>s.
             Some (Ret (s, n)))))"

definition draft_close :: "int \<Rightarrow> mysem_t evstate \<Rightarrow> (mysem_t evstate \<times> int) result" where
  "draft_close n s =
     rbind (scheventNum n s) (\<lambda>(found, prev).
       case found of
         None \<Rightarrow> Some (Ret (s, 0))
       | Some a \<Rightarrow>
           rbind (unlink_event a prev s) (\<lambda>s.
           rbind (draft_signal n s) (\<lambda>(s, _).
           rbind (kfree_event a s) (\<lambda>s. Some (Ret (s, n))))))"

text \<open>
  \<open>snippt.c\<close> prints fields of \<open>*new\<close> on entry, when the pointer \<open>new\<close> has no value yet (\<open>wild\<close> is
  whatever the stack held), and again before it returns.
\<close>

definition draft1_open ::
  "addr option \<Rightarrow> addr option \<Rightarrow> int \<Rightarrow> int \<Rightarrow> mysem_t evstate \<Rightarrow> (mysem_t evstate \<times> int) result" where
  "draft1_open wild km n v s =
     rbind (deref (heap s) wild) (\<lambda>_.
     rbind (draft_open km n v s) (\<lambda>(s, r).
     rbind (deref (heap s) (if n \<noteq> 0 then wild else km)) (\<lambda>_. Some (Ret (s, r)))))"

text \<open>
  The draft's signal hands out one resource to every sleeping process and to the next caller
  as well: it wakes all of them, each of whom returns from its wait call, and raises the count too.
\<close>

theorem draft_signal_overgrants:
  assumes "scheventNum n s = Some (Ret (Some a, p))" and "heap s a = Some nd"
    and "asleep (tasks s) (wait_q nd)" and "\<forall>w \<in> set (wait_q nd). \<not> w_excl w"
    and "0 \<le> sem_value nd" and "sem_value nd < 2 ^ 31 - 1"
  shows "\<exists>s'. draft_signal n s = Some (Ret (s', n)) \<and>
    (\<forall>t \<in> set (wq_tasks (wait_q nd)). tasks s' t = TASK_RUNNING \<and>
       (\<exists>s''. wait_end t n a s' = Some (Ret (s'', n)))) \<and>
    map_option sem_value (heap s' a) = Some (sem_value nd + 1)"
proof -
  have inc: "int32 (sem_value nd + 1) = sem_value nd + 1"
    using assms(5,6) by (intro int32_id) auto
  let ?nd = "nd\<lparr>sem_value := sem_value nd + 1\<rparr>"
  let ?s = "s\<lparr>heap := (heap s)(a \<mapsto> ?nd)\<rparr>"
  let ?ts = "\<lambda>t. if t \<in> set (wq_tasks (wait_q nd)) then TASK_RUNNING else tasks s t"
  have "heap ?s a = Some ?nd" "wq_wake_up (wait_q ?nd) (tasks ?s) = ([], ?ts)"
    using wake_up_nonexclusive [OF assms(3,4)] by (simp_all add: wq_wake_up_def)
  from wake_node_live [where wake = wq_wake_up, OF this] show ?thesis
    using assms(1,2) inc by (simp add: draft_signal_def wait_end_def)
qed

theorem draft_signal_overgrants_witness:
  "\<exists>s'. draft_signal 2 ((one_sem 0)\<lparr>heap := [16 \<mapsto> (sem_node 0 2)\<lparr>wait_q :=
       wq_prepare_to_wait 7 (wq_prepare_to_wait 8 [])\<rparr>], tasks := (\<lambda>_. TASK_INTERRUPTIBLE)\<rparr>) = Some (Ret (s', 2)) \<and>
     tasks s' 7 = TASK_RUNNING \<and> tasks s' 8 = TASK_RUNNING \<and> map_option sem_value (heap s' 16) = Some 1"
proof -
  let ?nd = "(sem_node 0 2)\<lparr>wait_q := wq_prepare_to_wait 7 (wq_prepare_to_wait 8 [])\<rparr>"
  let ?s = "(one_sem 0)\<lparr>heap := [16 \<mapsto> ?nd], tasks := (\<lambda>_. TASK_INTERRUPTIBLE)\<rparr>"
  have "scheventNum 2 ?s = Some (Ret (Some 16, None))"
    by (simp add: one_sem_def scheventNum_def sched_loop.simps sem_node_def)
  from draft_signal_overgrants [OF this, of ?nd] show ?thesis
    by (simp add: sem_node_def wq_prepare_to_wait_def) blast
qed

end
