(* ===== verification/Creds.thy ===== *)
theory Creds
  imports Prelude
begin

text \<open>
  The system calls of the patched kernel file \<open>src/5/kernel/sys.c\<close> that change the user and group
  ids of a process: \<open>setregid\<close>, \<open>setgid\<close>, \<open>setreuid\<close>, \<open>setuid\<close>, \<open>setresuid\<close>, \<open>setresgid\<close>,
  \<open>setfsuid\<close>, \<open>setfsgid\<close> and the two calls that read ids. Each prepares a copy of the credentials,
  changes it, and commits or aborts it. What the rest of the kernel decides (capabilities,
  memory, the process limit of a user, the security module) is an input.
\<close>

section \<open>Credentials\<close>

type_synonym id = u32

record cred =
  uid :: id
  gid :: id
  suid :: id
  sgid :: id
  euid :: id
  egid :: id
  fsuid :: id
  fsgid :: id
  cuser :: id

text \<open>The argument \<open>-1\<close>, which leaves an id unchanged.\<close>

definition no_id :: id where "no_id = - 1"

text \<open>
  \<open>prepare_ok\<close>: \<open>prepare_creds\<close> found memory; \<open>cap_setuid\<close>, \<open>cap_setgid\<close>: the caller has the
  capability; \<open>alloc_uid_ok\<close>, \<open>nproc\<close>, \<open>nproc_limit\<close>, \<open>init_user\<close>: what \<open>set_user\<close> learns about the
  new user; \<open>fix_setuid\<close>: the answer of \<open>security_task_fix_setuid\<close> for new and old credentials.
\<close>

record cenv =
  prepare_ok :: bool
  cap_setuid :: bool
  cap_setgid :: bool
  alloc_uid_ok :: "id \<Rightarrow> bool"
  nproc :: "id \<Rightarrow> nat"
  nproc_limit :: nat
  init_user :: id
  fix_setuid :: "cred \<Rightarrow> cred \<Rightarrow> int"

section \<open>Group ids\<close>

definition setregid :: "cenv \<Rightarrow> id \<Rightarrow> id \<Rightarrow> cred \<Rightarrow> cred \<times> int" where
  "setregid e rgid eg old =
     (if \<not> prepare_ok e then (old, - ENOMEM)
      else if rgid \<noteq> no_id \<and> \<not> (gid old = rgid \<or> egid old = rgid \<or> cap_setgid e) then (old, - EPERM)
      else if eg \<noteq> no_id \<and> \<not> (gid old = eg \<or> egid old = eg \<or> sgid old = eg \<or> cap_setgid e)
      then (old, - EPERM)
      else
        (let new = (if rgid \<noteq> no_id then old\<lparr>gid := rgid\<rparr> else old);
             new = (if eg \<noteq> no_id then new\<lparr>egid := eg\<rparr> else new);
             new = (if rgid \<noteq> no_id \<or> (eg \<noteq> no_id \<and> eg \<noteq> gid old) then new\<lparr>sgid := egid new\<rparr> else new)
         in (new\<lparr>fsgid := egid new\<rparr>, 0)))"

definition setgid :: "cenv \<Rightarrow> id \<Rightarrow> cred \<Rightarrow> cred \<times> int" where
  "setgid e g old =
     (if \<not> prepare_ok e then (old, - ENOMEM)
      else if cap_setgid e then (old\<lparr>gid := g, egid := g, sgid := g, fsgid := g\<rparr>, 0)
      else if g = gid old \<or> g = sgid old then (old\<lparr>egid := g, fsgid := g\<rparr>, 0)
      else (old, - EPERM))"

text \<open>An unprivileged caller may set an id to one of its three ids, or leave it unchanged.\<close>

definition own_gid :: "cred \<Rightarrow> id \<Rightarrow> bool" where
  "own_gid old g \<longleftrightarrow> g = no_id \<or> g = gid old \<or> g = egid old \<or> g = sgid old"

definition setresgid :: "cenv \<Rightarrow> id \<Rightarrow> id \<Rightarrow> id \<Rightarrow> cred \<Rightarrow> cred \<times> int" where
  "setresgid e rgid eg sg old =
     (if \<not> prepare_ok e then (old, - ENOMEM)
      else if \<not> cap_setgid e \<and> (\<not> own_gid old rgid \<or> \<not> own_gid old eg \<or> \<not> own_gid old sg) then (old, - EPERM)
      else
        (let new = (if rgid \<noteq> no_id then old\<lparr>gid := rgid\<rparr> else old);
             new = (if eg \<noteq> no_id then new\<lparr>egid := eg\<rparr> else new);
             new = (if sg \<noteq> no_id then new\<lparr>sgid := sg\<rparr> else new)
         in (new\<lparr>fsgid := egid new\<rparr>, 0)))"

definition setfsgid :: "cenv \<Rightarrow> id \<Rightarrow> cred \<Rightarrow> cred \<times> int" where
  "setfsgid e g old =
     (if prepare_ok e \<and> (g = gid old \<or> g = egid old \<or> g = sgid old \<or> g = fsgid old \<or> cap_setgid e) \<and>
         g \<noteq> fsgid old
      then (old\<lparr>fsgid := g\<rparr>, uint (fsgid old))
      else (old, uint (fsgid old)))"

section \<open>User ids\<close>

text \<open>\<open>set_user\<close>: the user structure of the new uid, unless the user has too many processes.\<close>

definition set_user :: "cenv \<Rightarrow> cred \<Rightarrow> int + cred" where
  "set_user e new =
     (if \<not> alloc_uid_ok e (uid new) then Inl (- EAGAIN)
      else if nproc_limit e \<le> nproc e (uid new) \<and> uid new \<noteq> init_user e then Inl (- EAGAIN)
      else Inr (new\<lparr>cuser := uid new\<rparr>))"

text \<open>\<open>set_user\<close> is called only if the real uid changes.\<close>

definition change_user :: "cenv \<Rightarrow> cred \<Rightarrow> cred \<Rightarrow> int + cred" where
  "change_user e new old = (if uid new \<noteq> uid old then set_user e new else Inr new)"

text \<open>The end of the calls: the security module is asked, then the credentials are committed.\<close>

definition commit_setuid :: "cenv \<Rightarrow> cred \<Rightarrow> cred \<Rightarrow> cred \<times> int" where
  "commit_setuid e new old = (if fix_setuid e new old < 0 then (old, fix_setuid e new old) else (new, 0))"

definition setreuid :: "cenv \<Rightarrow> id \<Rightarrow> id \<Rightarrow> cred \<Rightarrow> cred \<times> int" where
  "setreuid e ruid eu old =
     (if \<not> prepare_ok e then (old, - ENOMEM)
      else if ruid \<noteq> no_id \<and> uid old \<noteq> ruid \<and> euid old \<noteq> ruid \<and> \<not> cap_setuid e then (old, - EPERM)
      else if eu \<noteq> no_id \<and> uid old \<noteq> eu \<and> euid old \<noteq> eu \<and> suid old \<noteq> eu \<and> \<not> cap_setuid e
      then (old, - EPERM)
      else
        (let new = (if ruid \<noteq> no_id then old\<lparr>uid := ruid\<rparr> else old);
             new = (if eu \<noteq> no_id then new\<lparr>euid := eu\<rparr> else new)
         in case change_user e new old of
              Inl err \<Rightarrow> (old, err)
            | Inr new \<Rightarrow>
                (let new = (if ruid \<noteq> no_id \<or> (eu \<noteq> no_id \<and> eu \<noteq> uid old) then new\<lparr>suid := euid new\<rparr> else new)
                 in commit_setuid e (new\<lparr>fsuid := euid new\<rparr>) old)))"

definition setuid :: "cenv \<Rightarrow> id \<Rightarrow> cred \<Rightarrow> cred \<times> int" where
  "setuid e u old =
     (if \<not> prepare_ok e then (old, - ENOMEM)
      else if cap_setuid e then
        (case change_user e (old\<lparr>suid := u, uid := u\<rparr>) old of
           Inl err \<Rightarrow> (old, err)
         | Inr new \<Rightarrow> commit_setuid e (new\<lparr>fsuid := u, euid := u\<rparr>) old)
      else if u \<noteq> uid old \<and> u \<noteq> suid old then (old, - EPERM)
      else commit_setuid e (old\<lparr>fsuid := u, euid := u\<rparr>) old)"

definition own_uid :: "cred \<Rightarrow> id \<Rightarrow> bool" where
  "own_uid old u \<longleftrightarrow> u = no_id \<or> u = uid old \<or> u = euid old \<or> u = suid old"

definition setresuid :: "cenv \<Rightarrow> id \<Rightarrow> id \<Rightarrow> id \<Rightarrow> cred \<Rightarrow> cred \<times> int" where
  "setresuid e ruid eu su old =
     (if \<not> prepare_ok e then (old, - ENOMEM)
      else if \<not> cap_setuid e \<and> (\<not> own_uid old ruid \<or> \<not> own_uid old eu \<or> \<not> own_uid old su) then (old, - EPERM)
      else
        (case change_user e (if ruid \<noteq> no_id then old\<lparr>uid := ruid\<rparr> else old) old of
           Inl err \<Rightarrow> (old, err)
         | Inr new \<Rightarrow>
             (let new = (if eu \<noteq> no_id then new\<lparr>euid := eu\<rparr> else new);
                  new = (if su \<noteq> no_id then new\<lparr>suid := su\<rparr> else new)
              in commit_setuid e (new\<lparr>fsuid := euid new\<rparr>) old)))"

definition setfsuid :: "cenv \<Rightarrow> id \<Rightarrow> cred \<Rightarrow> cred \<times> int" where
  "setfsuid e u old =
     (if prepare_ok e \<and> (u = uid old \<or> u = euid old \<or> u = suid old \<or> u = fsuid old \<or> cap_setuid e) \<and>
         u \<noteq> fsuid old \<and> fix_setuid e (old\<lparr>fsuid := u\<rparr>) old = 0
      then (old\<lparr>fsuid := u\<rparr>, uint (fsuid old))
      else (old, uint (fsuid old)))"

text \<open>
  \<open>getresuid\<close> and \<open>getresgid\<close> store three ids one after the other and stop at the first address
  that cannot be written; \<open>wr i\<close> is what \<open>put_user\<close> returns for the \<open>i\<close>-th.
\<close>

fun put_ids :: "(nat \<Rightarrow> int) \<Rightarrow> nat \<Rightarrow> id list \<Rightarrow> id list \<times> int" where
  "put_ids wr i [] = ([], 0)"
| "put_ids wr i (x # xs) =
     (if wr i \<noteq> 0 then ([], wr i) else (let (ys, r) = put_ids wr (i + 1) xs in (x # ys, r)))"

definition getresuid :: "(nat \<Rightarrow> int) \<Rightarrow> cred \<Rightarrow> id list \<times> int" where
  "getresuid wr c = put_ids wr 0 [uid c, euid c, suid c]"

definition getresgid :: "(nat \<Rightarrow> int) \<Rightarrow> cred \<Rightarrow> id list \<times> int" where
  "getresgid wr c = put_ids wr 0 [gid c, egid c, sgid c]"

section \<open>Sequences of calls\<close>

datatype id_call =
    Setregid id id | Setgid id | Setreuid id id | Setuid id | Setresuid id id id
  | Setresgid id id id | Setfsuid id | Setfsgid id

fun do_id_call :: "cenv \<Rightarrow> id_call \<Rightarrow> cred \<Rightarrow> cred \<times> int" where
  "do_id_call e (Setregid r g) = setregid e r g"
| "do_id_call e (Setgid g) = setgid e g"
| "do_id_call e (Setreuid r u) = setreuid e r u"
| "do_id_call e (Setuid u) = setuid e u"
| "do_id_call e (Setresuid r u s) = setresuid e r u s"
| "do_id_call e (Setresgid r g s) = setresgid e r g s"
| "do_id_call e (Setfsuid u) = setfsuid e u"
| "do_id_call e (Setfsgid g) = setfsgid e g"

text \<open>
  \<open>id_run priv c c'\<close>: a process got from credentials \<open>c\<close> to \<open>c'\<close> by such calls; with \<open>priv\<close>
  false, none of them was made with a capability.
\<close>

inductive id_run :: "bool \<Rightarrow> cred \<Rightarrow> cred \<Rightarrow> bool" where
  id_refl: "id_run priv c c"
| id_step: "id_run priv c c' \<Longrightarrow> priv \<or> \<not> cap_setuid e \<and> \<not> cap_setgid e \<Longrightarrow>
    id_run priv c (fst (do_id_call e k c'))"

definition uids :: "cred \<Rightarrow> id set" where "uids c = {uid c, euid c, suid c, fsuid c}"
definition gids :: "cred \<Rightarrow> id set" where "gids c = {gid c, egid c, sgid c, fsgid c}"

lemma change_user_Inr:
  "change_user e new old = Inr n \<Longrightarrow> uids n = uids new \<and> gids n = gids new \<and>
     uid n = uid new \<and> euid n = euid new \<and> suid n = suid new \<and> fsuid n = fsuid new"
  by (auto simp: change_user_def set_user_def uids_def gids_def split: if_splits)

lemma change_user_Inl: "change_user e new old = Inl r \<Longrightarrow> r < 0"
  by (auto simp: change_user_def set_user_def errno_defs split: if_splits)

lemma commit_setuid_cases:
  "commit_setuid e new old = (c, r) \<Longrightarrow> c = old \<and> r < 0 \<or> c = new \<and> r = 0"
  by (auto simp: commit_setuid_def split: if_splits)

text \<open>What each call can return: an error with the old credentials, or new ids.\<close>

lemma setreuid_result:
  assumes "setreuid e r u c = (c', x)"
  shows "c' = c \<and> x < 0 \<or> x = 0 \<and> gids c' = gids c \<and>
    uid c' = (if r = no_id then uid c else r) \<and> euid c' = (if u = no_id then euid c else u) \<and>
    fsuid c' = euid c' \<and> suid c' \<in> {suid c, euid c'} \<and>
    (cap_setuid e \<or> r \<in> {no_id, uid c, euid c} \<and> u \<in> {no_id, uid c, euid c, suid c})"
proof (cases "x < 0")
  case True
  then show ?thesis
    using assms by (auto simp: setreuid_def Let_def split: if_splits sum.splits dest!: commit_setuid_cases)
next
  case False
  then have perm: "prepare_ok e" "r \<noteq> no_id \<longrightarrow> r \<in> {uid c, euid c} \<or> cap_setuid e"
    "u \<noteq> no_id \<longrightarrow> u \<in> {uid c, euid c, suid c} \<or> cap_setuid e"
    using assms by (auto simp: setreuid_def errno_defs split: if_splits)
  define new where "new = (let n = (if r \<noteq> no_id then c\<lparr>uid := r\<rparr> else c) in if u \<noteq> no_id then n\<lparr>euid := u\<rparr> else n)"
  have new: "uid new = (if r = no_id then uid c else r)" "euid new = (if u = no_id then euid c else u)"
    "suid new = suid c" "gids new = gids c"
    by (auto simp: new_def gids_def Let_def)
  obtain n where n: "change_user e new c = Inr n"
    and com: "commit_setuid e ((if r \<noteq> no_id \<or> u \<noteq> no_id \<and> u \<noteq> uid c then n\<lparr>suid := euid n\<rparr> else n)\<lparr>fsuid := euid n\<rparr>) c = (c', x)"
    using assms perm False
    by (auto simp: setreuid_def new_def Let_def errno_defs split: if_splits sum.splits dest: change_user_Inl)
  then show ?thesis
    using commit_setuid_cases [OF com] False change_user_Inr [OF n] new perm
    by (auto simp: gids_def split: if_splits)
qed

lemma setuid_result:
  assumes "setuid e u c = (c', x)"
  shows "c' = c \<and> x < 0 \<or> x = 0 \<and> gids c' = gids c \<and> euid c' = u \<and> fsuid c' = u \<and>
    (if cap_setuid e then uid c' = u \<and> suid c' = u
     else uid c' = uid c \<and> suid c' = suid c \<and> u \<in> {uid c, suid c})"
proof (cases "prepare_ok e \<and> cap_setuid e")
  case True
  show ?thesis
  proof (cases "change_user e (c\<lparr>suid := u, uid := u\<rparr>) c")
    case (Inl r)
    then show ?thesis using assms True change_user_Inl [OF Inl] by (simp add: setuid_def)
  next
    case (Inr n)
    then have "commit_setuid e (n\<lparr>fsuid := u, euid := u\<rparr>) c = (c', x)"
      using assms True by (simp add: setuid_def)
    from commit_setuid_cases [OF this] change_user_Inr [OF Inr] show ?thesis
      using True by (auto simp: gids_def)
  qed
next
  case False
  then show ?thesis
    using assms by (auto simp: setuid_def gids_def errno_defs split: if_splits dest!: commit_setuid_cases)
qed

lemma setresuid_result:
  assumes "setresuid e r u s c = (c', x)"
  shows "c' = c \<and> x < 0 \<or> x = 0 \<and> gids c' = gids c \<and>
    uid c' = (if r = no_id then uid c else r) \<and> euid c' = (if u = no_id then euid c else u) \<and>
    suid c' = (if s = no_id then suid c else s) \<and> fsuid c' = euid c' \<and>
    (cap_setuid e \<or> own_uid c r \<and> own_uid c u \<and> own_uid c s)"
proof (cases "prepare_ok e \<and> (cap_setuid e \<or> own_uid c r \<and> own_uid c u \<and> own_uid c s)")
  case True
  let ?new = "if r \<noteq> no_id then c\<lparr>uid := r\<rparr> else c"
  show ?thesis
  proof (cases "change_user e ?new c")
    case (Inl err)
    then have "setresuid e r u s c = (c, err)" using True by (auto simp: setresuid_def)
    then show ?thesis using assms change_user_Inl [OF Inl] by simp
  next
    case (Inr n)
    let ?n1 = "if u \<noteq> no_id then n\<lparr>euid := u\<rparr> else n"
    let ?n = "if s \<noteq> no_id then ?n1\<lparr>suid := s\<rparr> else ?n1"
    have n: "uid ?n = uid n" "euid ?n = (if u = no_id then euid n else u)"
      "suid ?n = (if s = no_id then suid n else s)" "gids ?n = gids n"
      by (cases "u = no_id"; cases "s = no_id"; simp add: gids_def)+
    have "setresuid e r u s c = commit_setuid e (?n\<lparr>fsuid := euid ?n\<rparr>) c"
      using True Inr unfolding setresuid_def Let_def by auto
    with assms have "commit_setuid e (?n\<lparr>fsuid := euid ?n\<rparr>) c = (c', x)" by simp
    from commit_setuid_cases [OF this] show ?thesis
    proof
      assume "c' = ?n\<lparr>fsuid := euid ?n\<rparr> \<and> x = 0"
      then show ?thesis using n change_user_Inr [OF Inr] True by (cases "r = no_id") (simp_all add: gids_def)
    qed simp
  qed
next
  case False
  then show ?thesis using assms by (auto simp: setresuid_def errno_defs split: if_splits)
qed

lemma setregid_result:
  assumes "setregid e r g c = (c', x)"
  shows "c' = c \<and> x < 0 \<or> x = 0 \<and> uids c' = uids c \<and>
    gid c' = (if r = no_id then gid c else r) \<and> egid c' = (if g = no_id then egid c else g) \<and>
    fsgid c' = egid c' \<and> sgid c' \<in> {sgid c, egid c'} \<and>
    (cap_setgid e \<or> r \<in> {no_id, gid c, egid c} \<and> g \<in> {no_id, gid c, egid c, sgid c})"
proof -
  let ?A = "r \<noteq> no_id \<and> \<not> (gid c = r \<or> egid c = r \<or> cap_setgid e)"
  let ?B = "g \<noteq> no_id \<and> \<not> (gid c = g \<or> egid c = g \<or> sgid c = g \<or> cap_setgid e)"
  let ?n1 = "if r \<noteq> no_id then c\<lparr>gid := r\<rparr> else c"
  let ?n2 = "if g \<noteq> no_id then ?n1\<lparr>egid := g\<rparr> else ?n1"
  let ?n3 = "if r \<noteq> no_id \<or> (g \<noteq> no_id \<and> g \<noteq> gid c) then ?n2\<lparr>sgid := egid ?n2\<rparr> else ?n2"
  have n2: "gid ?n2 = (if r = no_id then gid c else r)" "egid ?n2 = (if g = no_id then egid c else g)"
    "sgid ?n2 = sgid c" "uids ?n2 = uids c"
    by (cases "r = no_id"; cases "g = no_id"; simp add: uids_def)+
  have n3: "gid ?n3 = gid ?n2" "egid ?n3 = egid ?n2" "sgid ?n3 = sgid ?n2 \<or> sgid ?n3 = egid ?n2"
    "uids (?n3\<lparr>fsgid := egid ?n3\<rparr>) = uids ?n2"
    by (cases "r \<noteq> no_id \<or> (g \<noteq> no_id \<and> g \<noteq> gid c)"; simp add: uids_def)+
  have run: "setregid e r g c = (if \<not> prepare_ok e then (c, - ENOMEM) else if ?A then (c, - EPERM)
      else if ?B then (c, - EPERM) else (?n3\<lparr>fsgid := egid ?n3\<rparr>, 0))"
    unfolding setregid_def Let_def by (rule refl)
  show ?thesis
  proof (cases "prepare_ok e \<and> \<not> ?A \<and> \<not> ?B")
    case True
    then have "(c', x) = (?n3\<lparr>fsgid := egid ?n3\<rparr>, 0)" using run assms by auto
    then have c': "c' = ?n3\<lparr>fsgid := egid ?n3\<rparr>" "x = 0" by blast+
    have "gid c' = gid ?n3" "egid c' = egid ?n3" "sgid c' = sgid ?n3" "fsgid c' = egid ?n3"
      unfolding c'(1) by simp_all
    then show ?thesis using True c'(2) n2 n3 unfolding c'(1) [symmetric] by auto
  next
    case False
    then have "c' = c \<and> x < 0" using run assms by (auto simp: errno_defs split: if_splits)
    then show ?thesis by blast
  qed
qed

lemma setresgid_result:
  assumes "setresgid e r g s c = (c', x)"
  shows "c' = c \<and> x < 0 \<or> x = 0 \<and> uids c' = uids c \<and>
    gid c' = (if r = no_id then gid c else r) \<and> egid c' = (if g = no_id then egid c else g) \<and>
    sgid c' = (if s = no_id then sgid c else s) \<and> fsgid c' = egid c' \<and>
    (cap_setgid e \<or> own_gid c r \<and> own_gid c g \<and> own_gid c s)"
proof (cases "prepare_ok e \<and> (cap_setgid e \<or> own_gid c r \<and> own_gid c g \<and> own_gid c s)")
  case True
  then have "setresgid e r g s c = (let new = (if r \<noteq> no_id then c\<lparr>gid := r\<rparr> else c);
      new = (if g \<noteq> no_id then new\<lparr>egid := g\<rparr> else new); new = (if s \<noteq> no_id then new\<lparr>sgid := s\<rparr> else new)
    in (new\<lparr>fsgid := egid new\<rparr>, 0))"
    by (auto simp: setresgid_def)
  then show ?thesis
    using assms True
    by (cases "r = no_id"; cases "g = no_id"; cases "s = no_id"; auto simp: Let_def uids_def)
next
  case False
  then show ?thesis using assms by (auto simp: setresgid_def errno_defs split: if_splits)
qed

lemma setgid_result:
  assumes "setgid e g c = (c', x)"
  shows "c' = c \<and> x < 0 \<or> x = 0 \<and> uids c' = uids c \<and> egid c' = g \<and> fsgid c' = g \<and>
    (if cap_setgid e then gid c' = g \<and> sgid c' = g
     else gid c' = gid c \<and> sgid c' = sgid c \<and> g \<in> {gid c, sgid c})"
  using assms by (auto simp: setgid_def uids_def errno_defs split: if_splits)

lemma setfs_result:
  "setfsuid e u c = (c', x) \<Longrightarrow> 0 \<le> x \<and> (c' = c \<or> c' = c\<lparr>fsuid := u\<rparr> \<and> (u \<in> uids c \<or> cap_setuid e))"
  "setfsgid e g c = (c', x) \<Longrightarrow> 0 \<le> x \<and> (c' = c \<or> c' = c\<lparr>fsgid := g\<rparr> \<and> (g \<in> gids c \<or> cap_setgid e))"
  by (auto simp: setfsuid_def setfsgid_def uids_def gids_def split: if_splits)

lemmas id_call_results =
  setreuid_result setuid_result setresuid_result setregid_result setresgid_result setgid_result setfs_result

lemma subset4: "{a, b, c, d} \<subseteq> S \<longleftrightarrow> a \<in> S \<and> b \<in> S \<and> c \<in> S \<and> d \<in> S"
  by simp

lemma uid_calls_confined:
  assumes "\<not> cap_setuid e"
  shows "setreuid e r u c = (c', x) \<Longrightarrow> uids c' \<subseteq> uids c \<and> gids c' = gids c"
    and "setuid e u c = (c', x) \<Longrightarrow> uids c' \<subseteq> uids c \<and> gids c' = gids c"
    and "setresuid e r u s c = (c', x) \<Longrightarrow> uids c' \<subseteq> uids c \<and> gids c' = gids c"
    and "setfsuid e u c = (c', x) \<Longrightarrow> uids c' \<subseteq> uids c \<and> gids c' = gids c"
proof -
  have mem: "uid c \<in> uids c" "euid c \<in> uids c" "suid c \<in> uids c" "fsuid c \<in> uids c" for c
    by (simp_all add: uids_def)
  have sub: "uids c' \<subseteq> uids c \<longleftrightarrow> uid c' \<in> uids c \<and> euid c' \<in> uids c \<and> suid c' \<in> uids c \<and> fsuid c' \<in> uids c"
    for c c' unfolding uids_def [of c'] by (rule subset4)
  show "uids c' \<subseteq> uids c \<and> gids c' = gids c" if "setreuid e r u c = (c', x)"
    using setreuid_result [OF that] assms unfolding sub by (auto simp: mem split: if_splits)
  show "uids c' \<subseteq> uids c \<and> gids c' = gids c" if "setuid e u c = (c', x)"
    using setuid_result [OF that] assms unfolding sub by (auto simp: mem)
  show "uids c' \<subseteq> uids c \<and> gids c' = gids c" if "setresuid e r u s c = (c', x)"
    using setresuid_result [OF that] assms unfolding sub own_uid_def by (auto simp: mem split: if_splits)
  show "uids c' \<subseteq> uids c \<and> gids c' = gids c" if "setfsuid e u c = (c', x)"
    using setfs_result(1) [OF that] assms unfolding sub by (auto simp: mem gids_def)
qed

lemma gid_calls_confined:
  assumes "\<not> cap_setgid e"
  shows "setregid e r g c = (c', x) \<Longrightarrow> gids c' \<subseteq> gids c \<and> uids c' = uids c"
    and "setgid e g c = (c', x) \<Longrightarrow> gids c' \<subseteq> gids c \<and> uids c' = uids c"
    and "setresgid e r g s c = (c', x) \<Longrightarrow> gids c' \<subseteq> gids c \<and> uids c' = uids c"
    and "setfsgid e g c = (c', x) \<Longrightarrow> gids c' \<subseteq> gids c \<and> uids c' = uids c"
proof -
  have mem: "gid c \<in> gids c" "egid c \<in> gids c" "sgid c \<in> gids c" "fsgid c \<in> gids c" for c
    by (simp_all add: gids_def)
  have sub: "gids c' \<subseteq> gids c \<longleftrightarrow> gid c' \<in> gids c \<and> egid c' \<in> gids c \<and> sgid c' \<in> gids c \<and> fsgid c' \<in> gids c"
    for c c' unfolding gids_def [of c'] by (rule subset4)
  show "gids c' \<subseteq> gids c \<and> uids c' = uids c" if "setregid e r g c = (c', x)"
    using setregid_result [OF that] assms unfolding sub by (auto simp: mem split: if_splits)
  show "gids c' \<subseteq> gids c \<and> uids c' = uids c" if "setgid e g c = (c', x)"
    using setgid_result [OF that] assms unfolding sub by (auto simp: mem)
  show "gids c' \<subseteq> gids c \<and> uids c' = uids c" if "setresgid e r g s c = (c', x)"
    using setresgid_result [OF that] assms unfolding sub own_gid_def by (auto simp: mem split: if_splits)
  show "gids c' \<subseteq> gids c \<and> uids c' = uids c" if "setfsgid e g c = (c', x)"
    using setfs_result(2) [OF that] assms unfolding sub by (auto simp: mem uids_def)
qed

lemma id_call_confined:
  assumes "\<not> cap_setuid e" and "\<not> cap_setgid e"
  shows "uids (fst (do_id_call e k c)) \<subseteq> uids c \<and> gids (fst (do_id_call e k c)) \<subseteq> gids c"
proof -
  obtain c' x where run: "do_id_call e k c = (c', x)" by fastforce
  note confined = uid_calls_confined [OF assms(1)] gid_calls_confined [OF assms(2)]
  from run have "uids c' \<subseteq> uids c \<and> gids c' \<subseteq> gids c"
    by (cases k) (use confined in \<open>(metis do_id_call.simps order_refl)+\<close>)
  with run show ?thesis by simp
qed

lemma id_run_confined:
  "id_run priv c c' \<Longrightarrow> \<not> priv \<Longrightarrow> uids c' \<subseteq> uids c \<and> gids c' \<subseteq> gids c"
  by (induction rule: id_run.induct) (use id_call_confined in blast)+

section \<open>Properties\<close>

text \<open>
  C8: a process without the capabilities to set ids can only shuffle the ids it has: after any
  sequence of these calls each of its four user ids is one of the four it started with, and the
  same holds for the group ids.
\<close>

theorem unprivileged_ids_confined:
  assumes "id_run False c c'"
  shows "{uid c', euid c', suid c', fsuid c'} \<subseteq> {uid c, euid c, suid c, fsuid c} \<and>
    {gid c', egid c', sgid c', fsgid c'} \<subseteq> {gid c, egid c, sgid c, fsgid c}"
  using id_run_confined [OF assms] by (simp add: uids_def gids_def)

definition plain_env :: "bool \<Rightarrow> cenv" where
  "plain_env cap = \<lparr>prepare_ok = True, cap_setuid = cap, cap_setgid = cap, alloc_uid_ok = (\<lambda>_. True),
     nproc = (\<lambda>_. 0), nproc_limit = 1, init_user = 0, fix_setuid = (\<lambda>_ _. 0)\<rparr>"

text \<open>The credentials of a program of user 1000 that is set-uid root.\<close>

definition setuid_root :: cred where
  "setuid_root = \<lparr>uid = 1000, gid = 100, suid = 0, sgid = 100, euid = 0, egid = 100, fsuid = 0, fsgid = 100,
     cuser = 1000\<rparr>"

theorem unprivileged_ids_confined_witness:
  "uid (fst (do_id_call (plain_env False) (Setreuid 0 1000) setuid_root)) \<in> {1000, 0}"
  using unprivileged_ids_confined [OF id_step [OF id_refl, of False "plain_env False" setuid_root "Setreuid 0 1000"]]
  by (simp add: plain_env_def setuid_root_def)

text \<open>
  A privileged \<open>setuid\<close> sets all four user ids, and a process that makes it with an ordinary
  uid and then has no capabilities keeps exactly that uid, whatever further calls it makes.
\<close>

theorem setuid_drops_for_good:
  assumes "cap_setuid e" and "setuid e u c = (c', 0)" and "id_run False c' c''"
  shows "uid c'' = u \<and> euid c'' = u \<and> suid c'' = u \<and> fsuid c'' = u"
proof -
  have "uids c' = {u}"
    using assms(1,2)
    by (auto simp: setuid_def change_user_def set_user_def commit_setuid_def uids_def errno_defs
        split: if_splits sum.splits)
  then show ?thesis using id_run_confined [OF assms(3)] by (auto simp: uids_def)
qed

theorem setuid_drops_for_good_witness:
  "\<exists>c'. setuid (plain_env True) 1000 setuid_root = (c', 0) \<and>
     euid (fst (do_id_call (plain_env False) (Setresuid 0 0 0) c')) = 1000"
proof -
  obtain c' where c': "setuid (plain_env True) 1000 setuid_root = (c', 0)"
    by (simp add: setuid_def plain_env_def setuid_root_def change_user_def commit_setuid_def)
  moreover have "id_run False c' (fst (do_id_call (plain_env False) (Setresuid 0 0 0) c'))"
    by (rule id_step [OF id_refl]) (simp add: plain_env_def)
  ultimately show ?thesis
    using setuid_drops_for_good [of "plain_env True" 1000 setuid_root c'] by (auto simp: plain_env_def)
qed

text \<open>
  \<open>setreuid\<close> lets a process swap its real and effective uid and swap them back, with no
  capability at all, so that a set-uid program can give up its privileges for a while: the second
  swap restores both ids, and the ids used for file access follow the effective uid.
\<close>

theorem setreuid_swap_restores:
  assumes "uid c \<noteq> no_id" and "euid c \<noteq> no_id"
    and "setreuid e (euid c) (uid c) c = (c1, 0)" and "setreuid e' (euid c1) (uid c1) c1 = (c2, 0)"
  shows "uid c1 = euid c \<and> euid c1 = uid c \<and> fsuid c1 = uid c \<and>
    uid c2 = uid c \<and> euid c2 = euid c \<and> fsuid c2 = euid c"
proof -
  have swap: "uid y = euid x \<and> euid y = uid x \<and> fsuid y = uid x"
    if "uid x \<noteq> no_id" "euid x \<noteq> no_id" "setreuid e (euid x) (uid x) x = (y, 0)" for e x y
    using that
    by (auto simp: setreuid_def change_user_def set_user_def commit_setuid_def Let_def errno_defs
        split: if_splits sum.splits)
  show ?thesis using swap [OF assms(1-3)] swap [of c1 e' c2] assms by simp
qed

theorem setreuid_swap_restores_witness:
  "\<exists>c1 c2. setreuid (plain_env False) 0 1000 setuid_root = (c1, 0) \<and>
     setreuid (plain_env False) (euid c1) (uid c1) c1 = (c2, 0) \<and> euid c1 = 1000 \<and> euid c2 = 0"
proof -
  obtain c1 where c1: "setreuid (plain_env False) 0 1000 setuid_root = (c1, 0)" "euid c1 = 1000" "uid c1 = 0"
    by (simp add: setreuid_def plain_env_def setuid_root_def change_user_def set_user_def commit_setuid_def
        no_id_def Let_def)
  moreover have ids: "uid setuid_root = 1000" "euid setuid_root = 0" by (simp_all add: setuid_root_def)
  moreover obtain c2 where c2: "setreuid (plain_env False) (euid c1) (uid c1) c1 = (c2, 0)"
    using c1(2,3) by (simp add: setreuid_def plain_env_def change_user_def set_user_def commit_setuid_def
        no_id_def Let_def)
  ultimately show ?thesis
    using setreuid_swap_restores [of setuid_root "plain_env False" c1 "plain_env False" c2]
    by (auto simp: no_id_def)
qed

text \<open>
  A call that reports an error leaves the credentials exactly as they were; the security
  module's refusals are errors.
\<close>

theorem failed_id_call_changes_nothing:
  assumes "do_id_call e k c = (c', r)" and "r < 0"
  shows "c' = c"
  using assms
  by (cases k) (simp_all, (force dest!: id_call_results)+)

theorem failed_id_call_changes_nothing_witness:
  "do_id_call (plain_env False) (Setuid 33) setuid_root = (setuid_root, - 1)"
proof -
  have "do_id_call (plain_env False) (Setuid 33) setuid_root =
      (fst (do_id_call (plain_env False) (Setuid 33) setuid_root), - 1)"
    by (simp add: setuid_def plain_env_def setuid_root_def errno_defs)
  from failed_id_call_changes_nothing [OF this] this show ?thesis by simp
qed

end
