(* ===== verification/Priority.thy ===== *)
theory Priority
  imports Prelude
begin

text \<open>
  \<open>setpriority\<close> and \<open>getpriority\<close> of \<open>src/5/kernel/sys.c\<close>. The task list is a list of threads in the
  order in which the kernel's loops visit them. Capabilities, \<open>can_nice\<close> and the security module
  are inputs.
\<close>

record task =
  t_pid :: int
  t_uid :: u32
  t_euid :: u32
  t_nice :: int
  t_pgrp :: int

record penv =
  cur_pid :: int
  cur_uid :: u32
  cur_euid :: u32
  cur_pgrp :: int
  cap_sys_nice :: bool
  can_nice :: "task \<Rightarrow> int \<Rightarrow> bool"
  sec_setnice :: "task \<Rightarrow> int \<Rightarrow> int"
  find_user :: "u32 \<Rightarrow> bool"

definition PRIO_PROCESS :: int where "PRIO_PROCESS = 0"
definition PRIO_PGRP :: int where "PRIO_PGRP = 1"
definition PRIO_USER :: int where "PRIO_USER = 2"

definition set_one_prio :: "penv \<Rightarrow> int \<Rightarrow> task \<Rightarrow> int \<Rightarrow> task \<times> int" where
  "set_one_prio e niceval p err =
     (if t_uid p \<noteq> cur_euid e \<and> t_euid p \<noteq> cur_euid e \<and> \<not> cap_sys_nice e then (p, - EPERM)
      else if niceval < t_nice p \<and> \<not> can_nice e p niceval then (p, - EACCES)
      else if sec_setnice e p niceval \<noteq> 0 then (p, sec_setnice e p niceval)
      else (p\<lparr>t_nice := niceval\<rparr>, if err = - ESRCH then 0 else err))"

text \<open>One of the loops: every task that satisfies \<open>sel\<close> is tried, the error is carried along.\<close>

fun set_prios :: "penv \<Rightarrow> int \<Rightarrow> (task \<Rightarrow> bool) \<Rightarrow> task list \<Rightarrow> int \<Rightarrow> task list \<times> int" where
  "set_prios e n sel [] err = ([], err)"
| "set_prios e n sel (p # ps) err =
     (let (p', err) = (if sel p then set_one_prio e n p err else (p, err));
          (ps', err) = set_prios e n sel ps err
      in (p' # ps', err))"

text \<open>
  The tasks a pair \<open>which\<close>, \<open>who\<close> stands for; \<open>None\<close> when the user does not exist. The process
  that \<open>find_task_by_vpid\<close> returns is the task with that pid.
\<close>

definition prio_target :: "penv \<Rightarrow> int \<Rightarrow> int \<Rightarrow> (task \<Rightarrow> bool) option" where
  "prio_target e which who =
     (if which = PRIO_PROCESS then Some (\<lambda>p. t_pid p = (if who \<noteq> 0 then who else cur_pid e))
      else if which = PRIO_PGRP then Some (\<lambda>p. t_pgrp p = (if who \<noteq> 0 then who else cur_pgrp e))
      else if who = 0 then Some (\<lambda>p. t_uid p = cur_uid e)
      else if word_of_int who \<noteq> cur_uid e \<and> \<not> find_user e (word_of_int who) then None
      else Some (\<lambda>p. t_uid p = word_of_int who))"

definition clamp_nice :: "int \<Rightarrow> int" where
  "clamp_nice n = (if n < - 20 then - 20 else if 19 < n then 19 else n)"

definition setpriority :: "penv \<Rightarrow> int \<Rightarrow> int \<Rightarrow> int \<Rightarrow> task list \<Rightarrow> task list \<times> int" where
  "setpriority e which who niceval ts =
     (if PRIO_USER < which \<or> which < PRIO_PROCESS then (ts, - EINVAL)
      else (case prio_target e which who of
              None \<Rightarrow> (ts, - ESRCH)
            | Some sel \<Rightarrow> set_prios e (clamp_nice niceval) sel ts (- ESRCH)))"

fun max_prio :: "(task \<Rightarrow> bool) \<Rightarrow> task list \<Rightarrow> int \<Rightarrow> int" where
  "max_prio sel [] r = r"
| "max_prio sel (p # ps) r = max_prio sel ps (if sel p \<and> r < 20 - t_nice p then 20 - t_nice p else r)"

definition getpriority :: "penv \<Rightarrow> int \<Rightarrow> int \<Rightarrow> task list \<Rightarrow> int" where
  "getpriority e which who ts =
     (if PRIO_USER < which \<or> which < PRIO_PROCESS then - EINVAL
      else (case prio_target e which who of None \<Rightarrow> - ESRCH | Some sel \<Rightarrow> max_prio sel ts (- ESRCH)))"

section \<open>What the loops do\<close>

text \<open>A task may be reniced by the caller: it is the caller's, and the change is allowed.\<close>

definition may_renice :: "penv \<Rightarrow> int \<Rightarrow> task \<Rightarrow> bool" where
  "may_renice e n p \<longleftrightarrow> (t_uid p = cur_euid e \<or> t_euid p = cur_euid e \<or> cap_sys_nice e) \<and>
     (t_nice p \<le> n \<or> can_nice e p n) \<and> sec_setnice e p n = 0"

definition reniced :: "penv \<Rightarrow> int \<Rightarrow> (task \<Rightarrow> bool) \<Rightarrow> task \<Rightarrow> task" where
  "reniced e n sel p = (if sel p \<and> may_renice e n p then p\<lparr>t_nice := n\<rparr> else p)"

lemma set_one_prio_fst: "fst (set_one_prio e n p err) = (if may_renice e n p then p\<lparr>t_nice := n\<rparr> else p)"
  by (auto simp: set_one_prio_def may_renice_def)

lemma set_prios_fst: "fst (set_prios e n sel ps err) = map (reniced e n sel) ps"
  by (induction ps arbitrary: err)
    (auto simp: Let_def reniced_def set_one_prio_fst split: prod.splits
      intro: set_one_prio_fst [THEN trans, rotated] dest: arg_cong [where f = fst])

lemma set_prios_snd:
  assumes "\<forall>p \<in> set ps. sel p \<longrightarrow> may_renice e n p"
  shows "snd (set_prios e n sel ps err) = (if (\<exists>p \<in> set ps. sel p) \<and> err = - ESRCH then 0 else err)"
  using assms
proof (induction ps arbitrary: err)
  case (Cons p ps)
  have one: "snd (set_one_prio e n p err) = (if err = - ESRCH then 0 else err)" if "may_renice e n p"
    using that by (auto simp: set_one_prio_def may_renice_def)
  have "snd (set_prios e n sel (p # ps) err) =
      snd (set_prios e n sel ps (if sel p then snd (set_one_prio e n p err) else err))"
    by (simp add: Let_def split: prod.split)
  also have "\<dots> = snd (set_prios e n sel ps (if sel p \<and> err = - ESRCH then 0 else err))"
    using Cons.prems one by auto
  finally show ?case using Cons by (auto simp: errno_defs)
qed simp

lemma max_prio_ge: "r \<le> max_prio sel ps r"
  by (induction ps arbitrary: r) (auto, (meson less_le order.trans)+)

lemma max_prio_ge_sel: "p \<in> set ps \<Longrightarrow> sel p \<Longrightarrow> 20 - t_nice p \<le> max_prio sel ps r"
proof (induction ps arbitrary: r)
  case (Cons q ps)
  show ?case
  proof (cases "p = q")
    case True
    have "20 - t_nice q \<le> (if sel q \<and> r < 20 - t_nice q then 20 - t_nice q else r)"
      using True Cons.prems by simp
    also have "\<dots> \<le> max_prio sel (q # ps) r" by (simp add: max_prio_ge)
    finally show ?thesis using True by simp
  qed (use Cons in simp)
qed simp

lemma max_prio_in: "max_prio sel ps r \<in> insert r {20 - t_nice p | p. p \<in> set ps \<and> sel p}"
  by (induction ps arbitrary: r) (fastforce split: if_splits)+

lemma prio_target_nice: "prio_target e which who = Some sel \<Longrightarrow> sel (p\<lparr>t_nice := n\<rparr>) = sel p"
  by (auto simp: prio_target_def split: if_splits)

lemma sel_reniced: "prio_target e which who = Some sel \<Longrightarrow> sel (reniced e' n sel p) = sel p"
  using prio_target_nice [of e which who sel] by (simp add: reniced_def)

lemma clamp_nice_range: "- 20 \<le> clamp_nice n \<and> clamp_nice n \<le> 19"
  by (simp add: clamp_nice_def)

section \<open>Property\<close>

text \<open>
  C24: \<open>setpriority\<close> gives the nice value, clamped to -20..19, to exactly the selected tasks that
  belong to the caller or that a privileged caller may touch, lowers it only where that is
  permitted, and changes no other task; if it could change all selected tasks and there is one, it
  returns 0 and \<open>getpriority\<close> then reports that value, as a number between 1 and 40.
\<close>

theorem setpriority_exact:
  assumes "PRIO_PROCESS \<le> which" and "which \<le> PRIO_USER" and "prio_target e which who = Some sel"
  shows "fst (setpriority e which who niceval ts) =
      map (\<lambda>p. if sel p \<and> (t_uid p = cur_euid e \<or> t_euid p = cur_euid e \<or> cap_sys_nice e) \<and>
          (t_nice p \<le> clamp_nice niceval \<or> can_nice e p (clamp_nice niceval)) \<and>
          sec_setnice e p (clamp_nice niceval) = 0
        then p\<lparr>t_nice := clamp_nice niceval\<rparr> else p) ts \<and>
    ((\<exists>p \<in> set ts. sel p) \<and> (\<forall>p \<in> set ts. sel p \<longrightarrow> may_renice e (clamp_nice niceval) p) \<longrightarrow>
      snd (setpriority e which who niceval ts) = 0 \<and>
      getpriority e which who (fst (setpriority e which who niceval ts)) = 20 - clamp_nice niceval \<and>
      20 - clamp_nice niceval \<in> {1..40})"
proof -
  let ?n = "clamp_nice niceval"
  let ?ts = "map (reniced e ?n sel) ts"
  have run: "setpriority e which who niceval ts = set_prios e ?n sel ts (- ESRCH)"
    using assms by (simp add: setpriority_def)
  have "getpriority e which who ?ts = 20 - ?n"
    if sel: "\<exists>p \<in> set ts. sel p" and may: "\<forall>p \<in> set ts. sel p \<longrightarrow> may_renice e ?n p"
  proof -
    have get: "getpriority e which who ?ts = max_prio sel ?ts (- ESRCH)"
      using assms by (simp add: getpriority_def)
    have all: "t_nice q = ?n" if "q \<in> set ?ts" "sel q" for q
      using that may prio_target_nice [OF assms(3)] by (auto simp: reniced_def split: if_splits)
    obtain p where p: "p \<in> set ts" "sel p" using sel by blast
    define q where "q = reniced e ?n sel p"
    have q: "q \<in> set ?ts" "sel q" using p sel_reniced [OF assms(3)] by (auto simp: q_def)
    then have "20 - ?n \<le> max_prio sel ?ts (- ESRCH)"
      using max_prio_ge_sel [of q ?ts sel] q all by simp
    moreover have "max_prio sel ?ts (- ESRCH) = - ESRCH \<or> max_prio sel ?ts (- ESRCH) = 20 - ?n"
      using max_prio_in [of sel ?ts "- ESRCH"] all by auto
    ultimately show ?thesis using get clamp_nice_range [of niceval] by (auto simp: errno_defs)
  qed
  then show ?thesis
    using clamp_nice_range [of niceval] set_prios_snd [of ts sel e ?n "- ESRCH"]
    by (auto simp: run set_prios_fst reniced_def may_renice_def)
qed

theorem setpriority_exact_witness:
  "getpriority \<lparr>cur_pid = 7, cur_uid = 1000, cur_euid = 1000, cur_pgrp = 7, cap_sys_nice = False,
       can_nice = (\<lambda>_ _. False), sec_setnice = (\<lambda>_ _. 0), find_user = (\<lambda>_. True)\<rparr> 0 0
     (fst (setpriority \<lparr>cur_pid = 7, cur_uid = 1000, cur_euid = 1000, cur_pgrp = 7, cap_sys_nice = False,
       can_nice = (\<lambda>_ _. False), sec_setnice = (\<lambda>_ _. 0), find_user = (\<lambda>_. True)\<rparr> 0 0 10
       [\<lparr>t_pid = 7, t_uid = 1000, t_euid = 1000, t_nice = 0, t_pgrp = 7\<rparr>,
        \<lparr>t_pid = 8, t_uid = 0, t_euid = 0, t_nice = 0, t_pgrp = 8\<rparr>])) = 10"
proof -
  let ?e = "\<lparr>cur_pid = 7, cur_uid = 1000, cur_euid = 1000, cur_pgrp = 7, cap_sys_nice = False,
       can_nice = (\<lambda>_ _. False), sec_setnice = (\<lambda>_ _. 0), find_user = (\<lambda>_. True)\<rparr>"
  have "prio_target ?e 0 0 = Some (\<lambda>p. t_pid p = 7)" by (simp add: prio_target_def PRIO_PROCESS_def)
  then have t: "prio_target ?e 0 0 = Some (\<lambda>p. t_pid p = 7)" .
  let ?ts = "[\<lparr>t_pid = 7, t_uid = 1000, t_euid = 1000, t_nice = 0, t_pgrp = 7\<rparr>,
      \<lparr>t_pid = 8, t_uid = 0, t_euid = 0, t_nice = 0, t_pgrp = 8\<rparr>]"
  have "(\<exists>p \<in> set ?ts. t_pid p = 7) \<and> (\<forall>p \<in> set ?ts. t_pid p = 7 \<longrightarrow> may_renice ?e (clamp_nice 10) p)"
    by (simp add: may_renice_def clamp_nice_def)
  moreover have "PRIO_PROCESS \<le> 0" "0 \<le> PRIO_USER" by (simp_all add: PRIO_PROCESS_def PRIO_USER_def)
  note setpriority_exact [OF this t, of 10 ?ts, THEN conjunct2, THEN mp, THEN conjunct2, THEN conjunct1]
  ultimately have "getpriority ?e 0 0 (fst (setpriority ?e 0 0 10 ?ts)) = 20 - clamp_nice 10" by blast
  then show ?thesis by (simp only: clamp_nice_def) simp
qed

end
