(* ===== verification/ProcGroups.thy ===== *)
theory ProcGroups
  imports Prelude
begin

text \<open>
  Process groups and sessions (\<open>setpgid\<close>, \<open>getpgid\<close>, \<open>getpgrp\<close>, \<open>getsid\<close>, \<open>setsid\<close> of
  \<open>src/5/kernel/sys.c\<close>). A process is the thread group named by the pid of its leader; \<open>threads\<close> maps
  every thread to its process. \<open>pid_task\<close> of a process group is the first process of the list that
  is in it.
\<close>

record process =
  p_pid :: int
  p_parent :: int
  p_pgrp :: int
  p_session :: int
  p_leader :: bool
  p_did_exec :: bool

record gstate =
  threads :: "int \<rightharpoonup> int"
  procs :: "process list"

definition find_proc :: "int \<Rightarrow> gstate \<Rightarrow> process option" where
  "find_proc n s = find (\<lambda>p. p_pid p = n) (procs s)"

definition pgrp_task :: "int \<Rightarrow> gstate \<Rightarrow> process option" where
  "pgrp_task g s = find (\<lambda>p. p_pgrp p = g) (procs s)"

definition update_proc :: "int \<Rightarrow> (process \<Rightarrow> process) \<Rightarrow> gstate \<Rightarrow> gstate" where
  "update_proc n f s = s\<lparr>procs := map (\<lambda>p. if p_pid p = n then f p else p) (procs s)\<rparr>"

text \<open>
  \<open>lead\<close> is the process of the caller; \<open>sec\<close> is the answer of the security module. The checks of
  \<open>setpgid\<close> for the process \<open>n\<close> and the group \<open>g\<close>, in the order of the code; 0 means that the
  change is made.
\<close>

definition joinable :: "process \<Rightarrow> int \<Rightarrow> gstate \<Rightarrow> bool" where
  "joinable lead g s = (case pgrp_task g s of None \<Rightarrow> False | Some q \<Rightarrow> p_session q = p_session lead)"

definition setpgid_check :: "int \<Rightarrow> process \<Rightarrow> int \<Rightarrow> int \<Rightarrow> gstate \<Rightarrow> int" where
  "setpgid_check sec lead n g s =
     (if g < 0 then - EINVAL
      else (case threads s n of
        None \<Rightarrow> - ESRCH
      | Some tg \<Rightarrow>
          if tg \<noteq> n then - EINVAL
          else (case find_proc n s of
            None \<Rightarrow> - ESRCH
          | Some p \<Rightarrow>
              if p_parent p = p_pid lead \<and> p_session p \<noteq> p_session lead then - EPERM
              else if p_parent p = p_pid lead \<and> p_did_exec p then - EACCES
              else if p_parent p \<noteq> p_pid lead \<and> p_pid p \<noteq> p_pid lead then - ESRCH
              else if p_leader p then - EPERM
              else if g \<noteq> n \<and> \<not> joinable lead g s then - EPERM
              else sec)))"

definition setpgid :: "int \<Rightarrow> process \<Rightarrow> int \<Rightarrow> int \<Rightarrow> gstate \<Rightarrow> gstate \<times> int" where
  "setpgid sec lead pid0 pgid0 s =
     (let n = (if pid0 = 0 then p_pid lead else pid0); g = (if pgid0 = 0 then n else pgid0);
          err = setpgid_check sec lead n g s
      in if err \<noteq> 0 then (s, err) else (update_proc n (\<lambda>p. p\<lparr>p_pgrp := g\<rparr>) s, 0))"

definition getpgid :: "int \<Rightarrow> process \<Rightarrow> int \<Rightarrow> gstate \<Rightarrow> int" where
  "getpgid sec lead n s =
     (if n = 0 then p_pgrp lead
      else (case Option.bind (threads s n) (\<lambda>tg. find_proc tg s) of
              None \<Rightarrow> - ESRCH
            | Some p \<Rightarrow> if sec \<noteq> 0 then sec else p_pgrp p))"

definition getpgrp :: "process \<Rightarrow> gstate \<Rightarrow> int" where
  "getpgrp lead s = getpgid 0 lead 0 s"

definition getsid :: "int \<Rightarrow> process \<Rightarrow> int \<Rightarrow> gstate \<Rightarrow> int" where
  "getsid sec lead n s =
     (if n = 0 then p_session lead
      else (case Option.bind (threads s n) (\<lambda>tg. find_proc tg s) of
              None \<Rightarrow> - ESRCH
            | Some p \<Rightarrow> if sec \<noteq> 0 then sec else p_session p))"

definition setsid :: "process \<Rightarrow> gstate \<Rightarrow> gstate \<times> int" where
  "setsid lead s =
     (if p_leader lead then (s, - EPERM)
      else if pgrp_task (p_pid lead) s \<noteq> None then (s, - EPERM)
      else (update_proc (p_pid lead) (\<lambda>p. p\<lparr>p_leader := True, p_session := p_pid lead, p_pgrp := p_pid lead\<rparr>) s,
            p_pid lead))"

section \<open>The invariant\<close>

text \<open>
  A process group lies within one session, a process and the group with its number are in the
  same session, and a session leader leads its session and its group.
\<close>

definition groups_ok :: "gstate \<Rightarrow> bool" where
  "groups_ok s \<longleftrightarrow> distinct (map p_pid (procs s)) \<and>
     (\<forall>p \<in> set (procs s). \<forall>q \<in> set (procs s). p_pgrp p = p_pgrp q \<longrightarrow> p_session p = p_session q) \<and>
     (\<forall>p \<in> set (procs s). \<forall>q \<in> set (procs s). p_pgrp q = p_pid p \<longrightarrow> p_session q = p_session p) \<and>
     (\<forall>p \<in> set (procs s). p_leader p \<longrightarrow> p_session p = p_pid p \<and> p_pgrp p = p_pid p)"

lemma find_procD: "find_proc n s = Some p \<Longrightarrow> p \<in> set (procs s) \<and> p_pid p = n"
  by (auto simp: find_proc_def find_Some_iff)

lemma pgrp_taskD: "pgrp_task g s = Some p \<Longrightarrow> p \<in> set (procs s) \<and> p_pgrp p = g"
  by (auto simp: pgrp_task_def find_Some_iff)

lemma pgrp_task_None: "pgrp_task g s = None \<longleftrightarrow> (\<forall>p \<in> set (procs s). p_pgrp p \<noteq> g)"
  by (auto simp: pgrp_task_def find_None_iff)

lemma map_update_pid:
  "(\<And>p. p_pid (f p) = p_pid p) \<Longrightarrow> map p_pid (procs (update_proc n f s)) = map p_pid (procs s)"
  by (simp add: update_proc_def)

lemma set_update_proc:
  "set (procs (update_proc n f s)) = f ` {p \<in> set (procs s). p_pid p = n} \<union> {p \<in> set (procs s). p_pid p \<noteq> n}"
  by (auto simp: update_proc_def)

text \<open>
  The invariant as facts about a set of processes, and how it survives the replacement of one
  process by a version of it with other group data.
\<close>

definition sessions_ok :: "process set \<Rightarrow> bool" where
  "sessions_ok S \<longleftrightarrow>
     (\<forall>p \<in> S. \<forall>q \<in> S. p_pgrp p = p_pgrp q \<longrightarrow> p_session p = p_session q) \<and>
     (\<forall>p \<in> S. \<forall>q \<in> S. p_pgrp q = p_pid p \<longrightarrow> p_session q = p_session p) \<and>
     (\<forall>p \<in> S. p_leader p \<longrightarrow> p_session p = p_pid p \<and> p_pgrp p = p_pid p)"

lemma groups_ok_iff: "groups_ok s \<longleftrightarrow> distinct (map p_pid (procs s)) \<and> sessions_ok (set (procs s))"
  by (simp add: groups_ok_def sessions_ok_def)

lemma sessions_ok_insert:
  assumes S: "sessions_ok S"
    and p: "\<And>q. q \<in> S \<Longrightarrow> p_pgrp q = p_pgrp p \<or> p_pid q = p_pgrp p \<or> p_pgrp q = p_pid p \<Longrightarrow> p_session q = p_session p"
    and l: "p_leader p \<Longrightarrow> p_session p = p_pid p \<and> p_pgrp p = p_pid p"
  shows "sessions_ok (insert p S)"
  unfolding sessions_ok_def
proof (intro conjI ballI impI)
  fix x y assume x: "x \<in> insert p S" and y: "y \<in> insert p S"
  show "p_session x = p_session y" if "p_pgrp x = p_pgrp y"
    using x y that S p [of x] p [of y] unfolding sessions_ok_def insert_iff by metis
  show "p_session y = p_session x" if "p_pgrp y = p_pid x"
    using x y that S p [of x] p [of y] unfolding sessions_ok_def insert_iff by metis
next
  fix x assume "x \<in> insert p S" "p_leader x"
  then show "p_session x = p_pid x" "p_pgrp x = p_pid x"
    using S l unfolding sessions_ok_def insert_iff by metis+
qed

lemma sessions_ok_subset: "sessions_ok S \<Longrightarrow> T \<subseteq> S \<Longrightarrow> sessions_ok T"
  unfolding sessions_ok_def by blast

lemma groups_ok_replace:
  assumes ok: "groups_ok s" and p: "p \<in> set (procs s)" and f: "\<And>x. p_pid (f x) = p_pid x"
    and g: "\<And>q. q \<in> set (procs s) \<Longrightarrow> q \<noteq> p \<Longrightarrow>
      p_pgrp q = p_pgrp (f p) \<or> p_pid q = p_pgrp (f p) \<or> p_pgrp q = p_pid p \<Longrightarrow> p_session q = p_session (f p)"
    and l: "p_leader (f p) \<Longrightarrow> p_session (f p) = p_pid p \<and> p_pgrp (f p) = p_pid p"
  shows "groups_ok (update_proc (p_pid p) f s)"
proof -
  let ?S = "{q \<in> set (procs s). p_pid q \<noteq> p_pid p}"
  have "inj_on p_pid (set (procs s))" using ok by (simp add: groups_ok_def distinct_map)
  then have only: "{q \<in> set (procs s). p_pid q = p_pid p} = {p}"
    using p unfolding inj_on_def by blast
  have S: "set (procs (update_proc (p_pid p) f s)) = insert (f p) ?S"
    unfolding set_update_proc only by simp
  have "sessions_ok (set (procs s))" using ok by (simp add: groups_ok_iff)
  then have "sessions_ok ?S" by (rule sessions_ok_subset) simp
  then have "sessions_ok (insert (f p) ?S)"
  proof (rule sessions_ok_insert)
    fix q assume q: "q \<in> ?S"
    then have "q \<noteq> p" by auto
    then show "p_pgrp q = p_pgrp (f p) \<or> p_pid q = p_pgrp (f p) \<or> p_pgrp q = p_pid (f p) \<Longrightarrow>
        p_session q = p_session (f p)" using g [of q] q f [of p] by simp
  qed (simp add: f l)
  then show ?thesis using ok by (simp add: groups_ok_iff S map_update_pid [OF f])
qed

lemma setpgid_check_0:
  assumes "setpgid_check sec lead n g s = 0"
  obtains p where "find_proc n s = Some p" "\<not> p_leader p"
    "p_parent p = p_pid lead \<longrightarrow> p_session p = p_session lead"
    "p_parent p \<noteq> p_pid lead \<longrightarrow> p_pid p = p_pid lead"
    "g \<noteq> n \<longrightarrow> joinable lead g s"
proof -
  have err: "- EINVAL \<noteq> 0" "- ESRCH \<noteq> 0" "- EPERM \<noteq> 0" "- EACCES \<noteq> 0" by (simp_all add: errno_defs)
  obtain p where p: "find_proc n s = Some p"
    using assms err by (cases "find_proc n s") (simp_all add: setpgid_check_def split: option.splits if_splits)
  then have c: "(if p_parent p = p_pid lead \<and> p_session p \<noteq> p_session lead then - EPERM
              else if p_parent p = p_pid lead \<and> p_did_exec p then - EACCES
              else if p_parent p \<noteq> p_pid lead \<and> p_pid p \<noteq> p_pid lead then - ESRCH
              else if p_leader p then - EPERM
              else if g \<noteq> n \<and> \<not> joinable lead g s then - EPERM
              else sec) = 0"
    using assms err by (auto simp: setpgid_check_def split: option.splits if_splits)
  show ?thesis by (rule that [OF p]) (use c err in \<open>auto split: if_splits\<close>)
qed

lemma setpgid_keeps_groups:
  assumes "groups_ok s" "lead \<in> set (procs s)" "setpgid_check sec lead m h s = 0"
  shows "groups_ok (update_proc m (\<lambda>p. p\<lparr>p_pgrp := h\<rparr>) s)"
proof -
  have S: "sessions_ok (set (procs s))" using assms(1) by (simp add: groups_ok_iff)
  have inj: "inj_on p_pid (set (procs s))" using assms(1) by (simp add: groups_ok_def distinct_map)
  obtain p where p: "find_proc m s = Some p" "\<not> p_leader p" "p_parent p = p_pid lead \<longrightarrow> p_session p = p_session lead"
    "p_parent p \<noteq> p_pid lead \<longrightarrow> p_pid p = p_pid lead" "h \<noteq> m \<longrightarrow> joinable lead h s"
    using assms(3) by (rule setpgid_check_0)
  have pS: "p \<in> set (procs s)" "p_pid p = m" using find_procD [OF p(1)] by auto
  have ses: "p_session p = p_session lead"
    using p(3,4) pS assms(2) inj unfolding inj_on_def by metis
  have "p_session q = p_session p" if q: "q \<in> set (procs s)" "p_pgrp q = h \<or> p_pid q = h \<or> p_pgrp q = m" for q
  proof (cases "p_pgrp q = m \<or> h = m")
    case True
    then show ?thesis using q S pS inj unfolding sessions_ok_def inj_on_def by metis
  next
    case False
    with p(5) obtain r where "r \<in> set (procs s)" "p_pgrp r = h" "p_session r = p_session lead"
      using pgrp_taskD unfolding joinable_def by (force split: option.splits)
    then show ?thesis using q S ses False unfolding sessions_ok_def by metis
  qed
  then have "groups_ok (update_proc (p_pid p) (\<lambda>p. p\<lparr>p_pgrp := h\<rparr>) s)"
    using pS p(2) by (intro groups_ok_replace [OF assms(1) pS(1)]) auto
  then show ?thesis using pS(2) by simp
qed

lemma setsid_keeps_groups:
  assumes "groups_ok s" "lead \<in> set (procs s)"
  shows "groups_ok (fst (setsid lead s))"
proof (cases "p_leader lead \<or> pgrp_task (p_pid lead) s \<noteq> None")
  case False
  have inj: "inj_on p_pid (set (procs s))" using assms(1) by (simp add: groups_ok_def distinct_map)
  from False have "\<forall>q \<in> set (procs s). p_pgrp q \<noteq> p_pid lead" by (simp add: pgrp_task_None)
  moreover have "q = lead" if "q \<in> set (procs s)" "p_pid q = p_pid lead" for q
    using that assms(2) inj unfolding inj_on_def by metis
  ultimately show ?thesis
    using False by (auto simp: setsid_def intro!: groups_ok_replace [OF assms])
qed (use assms in \<open>auto simp: setsid_def\<close>)

section \<open>Property\<close>

text \<open>
  C11: \<open>setpgid\<close> and \<open>setsid\<close> keep the structure of process groups and sessions: no process group
  is ever spread over two sessions, the group named after a process is in that process's
  session, and session leaders lead their own group; \<open>setsid\<close> never takes over a group that
  has members. A \<open>setpgid\<close> that does not return 0, and a \<open>setsid\<close> that does not return the number of
  the caller's process (it returns \<open>-EPERM\<close> then), change nothing.
\<close>

theorem pgrp_session_invariant:
  assumes "groups_ok s" and "lead \<in> set (procs s)"
  shows "groups_ok (fst (setpgid sec lead n g s)) \<and> groups_ok (fst (setsid lead s)) \<and>
    (snd (setpgid sec lead n g s) \<noteq> 0 \<longrightarrow> fst (setpgid sec lead n g s) = s) \<and>
    (snd (setsid lead s) \<noteq> p_pid lead \<longrightarrow> snd (setsid lead s) = - EPERM \<and> fst (setsid lead s) = s) \<and>
    (0 < snd (setsid lead s) \<longrightarrow> (\<forall>q \<in> set (procs s). p_pgrp q \<noteq> snd (setsid lead s)))"
proof -
  define m where "m = (if n = 0 then p_pid lead else n)"
  define h where "h = (if g = 0 then m else g)"
  have "setpgid sec lead n g s = (if setpgid_check sec lead m h s \<noteq> 0 then (s, setpgid_check sec lead m h s)
      else (update_proc m (\<lambda>p. p\<lparr>p_pgrp := h\<rparr>) s, 0))"
    by (simp add: setpgid_def m_def h_def Let_def)
  then have "groups_ok (fst (setpgid sec lead n g s)) \<and> (snd (setpgid sec lead n g s) \<noteq> 0 \<longrightarrow> fst (setpgid sec lead n g s) = s)"
    using setpgid_keeps_groups [OF assms] assms(1) by simp
  moreover have "0 < snd (setsid lead s) \<longrightarrow> (\<forall>q \<in> set (procs s). p_pgrp q \<noteq> snd (setsid lead s))"
    by (auto simp: setsid_def errno_defs pgrp_task_None split: if_splits)
  moreover have "snd (setsid lead s) \<noteq> p_pid lead \<longrightarrow> snd (setsid lead s) = - EPERM \<and> fst (setsid lead s) = s"
    by (simp add: setsid_def)
  ultimately show ?thesis using setsid_keeps_groups [OF assms] by blast
qed

definition shell_session :: gstate where
  "shell_session = \<lparr>threads = (\<lambda>n. if n \<in> {10, 11, 12} then Some n else None),
     procs = [\<lparr>p_pid = 10, p_parent = 1, p_pgrp = 10, p_session = 10, p_leader = True, p_did_exec = True\<rparr>,
       \<lparr>p_pid = 11, p_parent = 10, p_pgrp = 11, p_session = 10, p_leader = False, p_did_exec = False\<rparr>,
       \<lparr>p_pid = 12, p_parent = 10, p_pgrp = 11, p_session = 10, p_leader = False, p_did_exec = False\<rparr>]\<rparr>"

theorem pgrp_session_invariant_witness:
  "groups_ok (fst (setpgid 0 (procs shell_session ! 0) 12 12 shell_session)) \<and>
   snd (setpgid 0 (procs shell_session ! 0) 12 12 shell_session) = 0 \<and>
   groups_ok (fst (setsid (procs shell_session ! 2) shell_session))"
proof -
  have ok: "groups_ok shell_session" by (simp add: groups_ok_def shell_session_def)
  have "snd (setpgid 0 (procs shell_session ! 0) 12 12 shell_session) = 0"
    by (simp add: setpgid_def setpgid_check_def shell_session_def find_proc_def Let_def)
  moreover have "procs shell_session ! 0 \<in> set (procs shell_session)"
    "procs shell_session ! 2 \<in> set (procs shell_session)" by (simp_all add: shell_session_def)
  ultimately show ?thesis
    using pgrp_session_invariant [OF ok, of "procs shell_session ! 0" 0 12 12]
      pgrp_session_invariant [OF ok, of "procs shell_session ! 2" 0 12 12] by blast
qed

end
