(* ===== verification/Uts.thy ===== *)
theory Uts
  imports Prelude
begin

text \<open>
  The system calls of \<open>src/5/kernel/sys.c\<close> on the names of the system: \<open>newuname\<close>, \<open>uname\<close>, \<open>olduname\<close>,
  \<open>sethostname\<close>, \<open>gethostname\<close>, \<open>setdomainname\<close>. A name is a fixed array of 65 bytes. Whether a copy
  to or from user space succeeds is an input; \<open>override_architecture\<close> is 0 on this machine.
\<close>

definition NEW_UTS_LEN :: nat where "NEW_UTS_LEN = 64"
definition OLD_UTS_LEN :: nat where "OLD_UTS_LEN = 8"

record new_utsname =
  sysname :: "byte list"
  nodename :: "byte list"
  release :: "byte list"
  version :: "byte list"
  machine :: "byte list"
  domainname :: "byte list"

definition wf_name :: "byte list \<Rightarrow> bool" where
  "wf_name bs \<longleftrightarrow> length bs = NEW_UTS_LEN + 1 \<and> last bs = 0"

text \<open>\<open>memcpy\<close> of \<open>len\<close> bytes and \<open>memset\<close> of the rest of the array to zero.\<close>

definition store_name :: "byte list \<Rightarrow> nat \<Rightarrow> byte list" where
  "store_name tmp len = take len tmp @ replicate (NEW_UTS_LEN + 1 - len) 0"

definition sethostname :: "bool \<Rightarrow> bool \<Rightarrow> byte list \<Rightarrow> int \<Rightarrow> new_utsname \<Rightarrow> new_utsname \<times> int" where
  "sethostname cap copied name len u =
     (if \<not> cap then (u, - EPERM)
      else if len < 0 \<or> int NEW_UTS_LEN < len then (u, - EINVAL)
      else if \<not> copied then (u, - EFAULT)
      else (u\<lparr>nodename := store_name name (nat len)\<rparr>, 0))"

definition setdomainname :: "bool \<Rightarrow> bool \<Rightarrow> byte list \<Rightarrow> int \<Rightarrow> new_utsname \<Rightarrow> new_utsname \<times> int" where
  "setdomainname cap copied name len u =
     (if \<not> cap then (u, - EPERM)
      else if len < 0 \<or> int NEW_UTS_LEN < len then (u, - EINVAL)
      else if \<not> copied then (u, - EFAULT)
      else (u\<lparr>domainname := store_name name (nat len)\<rparr>, 0))"

definition c_strlen :: "byte list \<Rightarrow> nat" where
  "c_strlen bs = length (takeWhile (\<lambda>b. b \<noteq> 0) bs)"

text \<open>\<open>gethostname\<close> gives the bytes stored at the user's address and the result.\<close>

definition gethostname :: "bool \<Rightarrow> int \<Rightarrow> new_utsname \<Rightarrow> byte list \<times> int" where
  "gethostname copied len u =
     (if len < 0 then ([], - EINVAL)
      else if \<not> copied then ([], - EFAULT)
      else (take (min (1 + c_strlen (nodename u)) (nat len)) (nodename u), 0))"

definition newuname :: "bool \<Rightarrow> new_utsname \<Rightarrow> byte list \<times> int" where
  "newuname copied u =
     (if \<not> copied then ([], - EFAULT)
      else (sysname u @ nodename u @ release u @ version u @ machine u @ domainname u, 0))"

text \<open>The older structures: five names without the domain, and five names cut to eight bytes.\<close>

definition uname :: "bool \<Rightarrow> bool \<Rightarrow> new_utsname \<Rightarrow> byte list \<times> int" where
  "uname null copied u =
     (if null \<or> \<not> copied then ([], - EFAULT)
      else (sysname u @ nodename u @ release u @ version u @ machine u, 0))"

definition olduname :: "bool \<Rightarrow> bool \<Rightarrow> bool \<Rightarrow> new_utsname \<Rightarrow> byte list \<times> int" where
  "olduname null access copied u =
     (if null \<or> \<not> access \<or> \<not> copied then ([], - EFAULT)
      else (concat (map (\<lambda>n. take OLD_UTS_LEN n @ [0]) [sysname u, nodename u, release u, version u, machine u]), 0))"

section \<open>Properties\<close>

lemma wf_store_name: "len \<le> NEW_UTS_LEN \<Longrightarrow> len \<le> length tmp \<Longrightarrow> wf_name (store_name tmp len)"
  by (auto simp: wf_name_def store_name_def)

lemma takeWhile_store_name:
  assumes "len \<le> NEW_UTS_LEN" and "0 \<notin> set (take len tmp)"
  shows "takeWhile (\<lambda>b. b \<noteq> 0) (store_name tmp len) = take len tmp"
proof -
  have "replicate (NEW_UTS_LEN + 1 - len) (0::byte) = 0 # replicate (NEW_UTS_LEN - len) 0"
    using assms(1) by (simp add: Suc_diff_le)
  moreover have "\<forall>b \<in> set (take len tmp). b \<noteq> 0" using assms(2) by auto
  ultimately show ?thesis by (simp add: store_name_def takeWhile_append2)
qed

text \<open>
  What \<open>sethostname\<close> stored, \<open>gethostname\<close> returns, with the terminating zero, to every caller
  whose buffer is long enough; the stored array always ends in a zero byte, so that the length
  is found inside it. A caller with a shorter buffer gets the leading bytes and no terminator.
\<close>

theorem hostname_roundtrip:
  assumes "0 \<le> len" and "len \<le> int NEW_UTS_LEN" and "nat len \<le> length name" and "0 \<notin> set (take (nat len) name)"
  shows "\<exists>u'. sethostname True True name len u = (u', 0) \<and> wf_name (nodename u') \<and>
    (\<forall>n. len < n \<longrightarrow> gethostname True n u' = (take (nat len) name @ [0], 0)) \<and>
    (\<forall>n. 0 \<le> n \<and> n \<le> len \<longrightarrow> gethostname True n u' = (take (nat n) name, 0))"
proof -
  let ?u = "u\<lparr>nodename := store_name name (nat len)\<rparr>"
  have len: "nat len \<le> NEW_UTS_LEN" using assms(2) by simp
  have s: "c_strlen (nodename ?u) = nat len"
    using takeWhile_store_name [OF len assms(4)] assms(3) by (simp add: c_strlen_def)
  have "sethostname True True name len u = (?u, 0)" using assms(1,2) by (simp add: sethostname_def)
  moreover have "wf_name (nodename ?u)" using wf_store_name [OF len assms(3)] by simp
  moreover have "gethostname True n ?u = (take (nat len) name @ [0], 0)" if "len < n" for n
    using that assms(1,3) s len by (simp add: gethostname_def store_name_def Suc_diff_le min_def)
  moreover have "gethostname True n ?u = (take (nat n) name, 0)" if "0 \<le> n \<and> n \<le> len" for n
    using that assms(1,3) s by (auto simp: gethostname_def store_name_def min_def nat_le_eq_zle)
  ultimately show ?thesis by blast
qed

theorem hostname_roundtrip_witness:
  "\<exists>u'. sethostname True True [104, 105, 33] 2
      \<lparr>sysname = [], nodename = [], release = [], version = [], machine = [], domainname = []\<rparr> = (u', 0) \<and>
     gethostname True 10 u' = ([104, 105, 0], 0) \<and> gethostname True 1 u' = ([104], 0)"
proof -
  let ?u = "\<lparr>sysname = [], nodename = [], release = [], version = [], machine = [], domainname = []\<rparr>"
  obtain u' where "sethostname True True [104, 105, 33] 2 ?u = (u', 0)"
    and get: "\<forall>n. 2 < n \<longrightarrow> gethostname True n u' = (take (nat 2) [104, 105, 33] @ [0], 0)"
      "\<forall>n. 0 \<le> n \<and> n \<le> 2 \<longrightarrow> gethostname True n u' = (take (nat n) [104, 105, 33], 0)"
    using hostname_roundtrip [of 2 "[104, 105, 33]" ?u] by (auto simp: NEW_UTS_LEN_def)
  then show ?thesis using get(1) [rule_format, of 10] get(2) [rule_format, of 1] by simp
qed

end
