(* ===== verification/Limits.thy ===== *)
theory Limits
  imports Prelude
begin

text \<open>
  Resource limits and usage in \<open>src/5/kernel/sys.c\<close>: \<open>getrlimit\<close>, \<open>old_getrlimit\<close>, \<open>setrlimit\<close>,
  \<open>getrusage\<close>, \<open>umask\<close>, \<open>times\<close>. Limits and counters are 32-bit unsigned numbers and wrap around.
\<close>

section \<open>Limits\<close>

record rlimit =
  rlim_cur :: u32
  rlim_max :: u32

definition RLIM_NLIMITS :: nat where "RLIM_NLIMITS = 16"
definition RLIMIT_CPU :: nat where "RLIMIT_CPU = 0"
definition RLIMIT_NOFILE :: nat where "RLIMIT_NOFILE = 7"
definition RLIM_INFINITY :: u32 where "RLIM_INFINITY = - 1"

definition getrlimit :: "bool \<Rightarrow> nat \<Rightarrow> (nat \<Rightarrow> rlimit) \<Rightarrow> rlimit option \<times> int" where
  "getrlimit copied res rl =
     (if RLIM_NLIMITS \<le> res then (None, - EINVAL)
      else if copied then (Some (rl res), 0) else (None, - EFAULT))"

definition cap31 :: "u32 \<Rightarrow> u32" where
  "cap31 x = (if 0x7FFFFFFF < x then 0x7FFFFFFF else x)"

definition old_getrlimit :: "bool \<Rightarrow> nat \<Rightarrow> (nat \<Rightarrow> rlimit) \<Rightarrow> rlimit option \<times> int" where
  "old_getrlimit copied res rl =
     (if RLIM_NLIMITS \<le> res then (None, - EINVAL)
      else if copied
      then (Some \<lparr>rlim_cur = cap31 (rlim_cur (rl res)), rlim_max = cap31 (rlim_max (rl res))\<rparr>, 0)
      else (None, - EFAULT))"

text \<open>
  The inputs of \<open>setrlimit\<close>: whether the structure could be read, the capability
  \<open>CAP_SYS_RESOURCE\<close>, \<open>sysctl_nr_open\<close> and the security module's answer. The third result is the
  argument of \<open>update_rlimit_cpu\<close>, if it is called.
\<close>

record renv =
  re_copied :: bool
  re_cap :: bool
  re_nr_open :: u32
  re_sec :: int

definition setrlimit ::
  "renv \<Rightarrow> nat \<Rightarrow> rlimit \<Rightarrow> (nat \<Rightarrow> rlimit) \<Rightarrow> (nat \<Rightarrow> rlimit) \<times> int \<times> u32 option" where
  "setrlimit e res new rl =
     (if RLIM_NLIMITS \<le> res then (rl, - EINVAL, None)
      else if \<not> re_copied e then (rl, - EFAULT, None)
      else if rlim_max new < rlim_cur new then (rl, - EINVAL, None)
      else if rlim_max (rl res) < rlim_max new \<and> \<not> re_cap e then (rl, - EPERM, None)
      else if res = RLIMIT_NOFILE \<and> re_nr_open e < rlim_max new then (rl, - EPERM, None)
      else if re_sec e \<noteq> 0 then (rl, re_sec e, None)
      else
        (let new = (if res = RLIMIT_CPU \<and> rlim_cur new = 0 then new\<lparr>rlim_cur := 1\<rparr> else new);
             rl = rl(res := new)
         in if res \<noteq> RLIMIT_CPU \<or> rlim_cur new = RLIM_INFINITY then (rl, 0, None)
            else (rl, 0, Some (rlim_cur new))))"

text \<open>A sequence of calls, successful or not.\<close>

inductive rlimit_run :: "bool \<Rightarrow> (nat \<Rightarrow> rlimit) \<Rightarrow> (nat \<Rightarrow> rlimit) \<Rightarrow> bool" for cap where
  rl_refl: "rlimit_run cap rl rl"
| rl_step: "rlimit_run cap rl rl' \<Longrightarrow> re_cap e \<longrightarrow> cap \<Longrightarrow>
    rlimit_run cap rl (fst (setrlimit e res new rl'))"

definition limit_ok :: "nat \<Rightarrow> rlimit \<Rightarrow> bool" where
  "limit_ok res l \<longleftrightarrow> rlim_cur l \<le> rlim_max l \<or> res = RLIMIT_CPU \<and> rlim_cur l = 1 \<and> rlim_max l = 0"

lemma setrlimit_limit_ok:
  assumes "\<forall>r. limit_ok r (rl r)"
  shows "\<forall>r. limit_ok r (fst (setrlimit e res new rl) r)"
proof -
  have "limit_ok RLIMIT_CPU (n\<lparr>rlim_cur := 1\<rparr>)" if "rlim_cur n = 0" for n
    using that by (cases "rlim_max n = 0") (auto simp: limit_ok_def word_le_nat_alt Suc_le_eq unat_gt_0)
  then show ?thesis
    using assms by (auto simp: setrlimit_def Let_def limit_ok_def not_less split: if_splits)
qed

lemma setrlimit_max:
  "\<not> re_cap e \<Longrightarrow> rlim_max (fst (setrlimit e res new rl) r) \<le> rlim_max (rl r)"
  by (auto simp: setrlimit_def Let_def not_less)

text \<open>
  C27: without the capability no sequence of \<open>setrlimit\<close> calls raises a hard limit, and soft limits
  stay below their hard limits for every resource except one: the processor time limit, whose
  soft limit is 1 where the hard limit is 0.
\<close>

theorem rlimit_never_raised:
  assumes "rlimit_run False rl rl'" and "\<forall>r. rlim_cur (rl r) \<le> rlim_max (rl r)"
  shows "(\<forall>r. rlim_max (rl' r) \<le> rlim_max (rl r)) \<and>
    (\<forall>r. rlim_cur (rl' r) \<le> rlim_max (rl' r) \<or> r = RLIMIT_CPU \<and> rlim_cur (rl' r) = 1 \<and> rlim_max (rl' r) = 0)"
proof -
  have "(\<forall>r. rlim_max (rl' r) \<le> rlim_max (rl r)) \<and> (\<forall>r. limit_ok r (rl' r))"
    using assms
  proof (induction rule: rlimit_run.induct)
    case (rl_refl rl)
    then show ?case by (simp add: limit_ok_def)
  next
    case (rl_step rl rl' e res new)
    then have "\<not> re_cap e" by simp
    then have "rlim_max (fst (setrlimit e res new rl') r) \<le> rlim_max (rl' r)" for r
      by (rule setrlimit_max)
    then show ?case using rl_step setrlimit_limit_ok by (meson order_trans)
  qed
  then show ?thesis by (simp add: limit_ok_def)
qed

theorem rlimit_never_raised_witness:
  "rlim_max (fst (setrlimit \<lparr>re_copied = True, re_cap = False, re_nr_open = 1024, re_sec = 0\<rparr> 7
      \<lparr>rlim_cur = 10, rlim_max = 2048\<rparr> (\<lambda>_. \<lparr>rlim_cur = 5, rlim_max = 512\<rparr>)) 7) \<le> 512"
  using rlimit_never_raised [OF rl_step [OF rl_refl, of "\<lparr>re_copied = True, re_cap = False, re_nr_open = 1024, re_sec = 0\<rparr>"
      False "\<lambda>_. \<lparr>rlim_cur = 5, rlim_max = 512\<rparr>" 7 "\<lparr>rlim_cur = 10, rlim_max = 2048\<rparr>"]]
  by simp

text \<open>
  A request for a processor time limit of 0, soft and hard, passes the check that the soft limit
  is not above the hard one, and is then stored with a soft limit of 1 above a hard limit of 0.
\<close>

theorem rlimit_cpu_zero:
  "setrlimit \<lparr>re_copied = True, re_cap = False, re_nr_open = 1024, re_sec = 0\<rparr> RLIMIT_CPU
     \<lparr>rlim_cur = 0, rlim_max = 0\<rparr> rl =
   (rl(RLIMIT_CPU := \<lparr>rlim_cur = 1, rlim_max = 0\<rparr>), 0, Some 1)"
  by (simp add: setrlimit_def RLIMIT_CPU_def RLIM_NLIMITS_def RLIMIT_NOFILE_def RLIM_INFINITY_def Let_def)

section \<open>Usage\<close>

record rusage =
  ru_utime :: u32
  ru_stime :: u32
  ru_maxrss :: u32
  ru_nvcsw :: u32
  ru_nivcsw :: u32
  ru_minflt :: u32
  ru_majflt :: u32
  ru_inblock :: u32
  ru_oublock :: u32

text \<open>
  The counters of one thread, of the threads that have exited, or of the children that were
  waited for; times are in units of \<open>cputime_t\<close>.
\<close>

record counters =
  c_nvcsw :: u32
  c_nivcsw :: u32
  c_minflt :: u32
  c_majflt :: u32
  c_inblock :: u32
  c_oublock :: u32

record proc_usage =
  pu_threads :: "counters list"
  pu_exited :: counters
  pu_children :: counters
  pu_tg_times :: "u32 \<times> u32"
  pu_thread_times :: "u32 \<times> u32"
  pu_child_times :: "u32 \<times> u32"
  pu_maxrss :: u32
  pu_cmaxrss :: u32
  pu_hiwater :: "u32 option"

definition RUSAGE_SELF :: int where "RUSAGE_SELF = 0"
definition RUSAGE_CHILDREN :: int where "RUSAGE_CHILDREN = - 1"
definition RUSAGE_BOTH :: int where "RUSAGE_BOTH = - 2"
definition RUSAGE_THREAD :: int where "RUSAGE_THREAD = 1"

definition zero_usage :: rusage where
  "zero_usage = \<lparr>ru_utime = 0, ru_stime = 0, ru_maxrss = 0, ru_nvcsw = 0, ru_nivcsw = 0, ru_minflt = 0,
     ru_majflt = 0, ru_inblock = 0, ru_oublock = 0\<rparr>"

definition accumulate_thread_rusage :: "counters \<Rightarrow> rusage \<Rightarrow> rusage" where
  "accumulate_thread_rusage t r =
     r\<lparr>ru_nvcsw := ru_nvcsw r + c_nvcsw t, ru_nivcsw := ru_nivcsw r + c_nivcsw t,
       ru_minflt := ru_minflt r + c_minflt t, ru_majflt := ru_majflt r + c_majflt t,
       ru_inblock := ru_inblock r + c_inblock t, ru_oublock := ru_oublock r + c_oublock t\<rparr>"

text \<open>
  The cases of the switch: the children, and the process itself. \<open>RUSAGE_BOTH\<close> falls through from
  the one into the other. The first thread of the list is the process's own.
\<close>

definition usage_children :: "proc_usage \<Rightarrow> rusage \<times> u32 \<times> u32 \<times> u32" where
  "usage_children p =
     (accumulate_thread_rusage (pu_children p) zero_usage, fst (pu_child_times p), snd (pu_child_times p),
      pu_cmaxrss p)"

definition usage_self :: "proc_usage \<Rightarrow> rusage \<times> u32 \<times> u32 \<times> u32 \<Rightarrow> rusage \<times> u32 \<times> u32 \<times> u32" where
  "usage_self p = (\<lambda>(r, ut, st, maxrss).
     (fold accumulate_thread_rusage (pu_threads p) (accumulate_thread_rusage (pu_exited p) r),
      ut + fst (pu_tg_times p), st + snd (pu_tg_times p), max maxrss (pu_maxrss p)))"

text \<open>\<open>locked\<close>: \<open>lock_task_sighand\<close> succeeded. \<open>None\<close> is the call of \<open>BUG\<close>.\<close>

definition k_getrusage :: "bool \<Rightarrow> proc_usage \<Rightarrow> int \<Rightarrow> rusage option" where
  "k_getrusage locked p who =
     (let finish = (\<lambda>(r, ut, st, maxrss).
        (let maxrss = (if who \<noteq> RUSAGE_CHILDREN then (case pu_hiwater p of None \<Rightarrow> maxrss | Some h \<Rightarrow> max maxrss h)
                       else maxrss)
         in Some (r\<lparr>ru_utime := ut, ru_stime := st, ru_maxrss := maxrss * 4\<rparr>)))
      in if who = RUSAGE_THREAD then
           (case pu_threads p of
              [] \<Rightarrow> None
            | t # _ \<Rightarrow> finish (accumulate_thread_rusage t zero_usage, fst (pu_thread_times p),
                              snd (pu_thread_times p), pu_maxrss p))
         else if \<not> locked then Some zero_usage
         else if who = RUSAGE_CHILDREN then finish (usage_children p)
         else if who = RUSAGE_BOTH then finish (usage_self p (usage_children p))
         else if who = RUSAGE_SELF then finish (usage_self p (zero_usage, 0, 0, 0))
         else None)"

definition getrusage :: "bool \<Rightarrow> bool \<Rightarrow> proc_usage \<Rightarrow> int \<Rightarrow> rusage option \<times> int" where
  "getrusage copied locked p who =
     (if who \<noteq> RUSAGE_SELF \<and> who \<noteq> RUSAGE_CHILDREN \<and> who \<noteq> RUSAGE_THREAD then (None, - EINVAL)
      else if copied then (k_getrusage locked p who, 0) else (None, - EFAULT))"

definition add_usage :: "rusage \<Rightarrow> rusage \<Rightarrow> rusage" where
  "add_usage a b = \<lparr>ru_utime = ru_utime a + ru_utime b, ru_stime = ru_stime a + ru_stime b,
     ru_maxrss = ru_maxrss a + ru_maxrss b, ru_nvcsw = ru_nvcsw a + ru_nvcsw b,
     ru_nivcsw = ru_nivcsw a + ru_nivcsw b, ru_minflt = ru_minflt a + ru_minflt b,
     ru_majflt = ru_majflt a + ru_majflt b, ru_inblock = ru_inblock a + ru_inblock b,
     ru_oublock = ru_oublock a + ru_oublock b\<rparr>"

lemma accumulate_add:
  "accumulate_thread_rusage t (add_usage a b) = add_usage a (accumulate_thread_rusage t b)"
  by (simp add: accumulate_thread_rusage_def add_usage_def ac_simps)

lemma fold_accumulate_add:
  "fold accumulate_thread_rusage ts (add_usage a b) = add_usage a (fold accumulate_thread_rusage ts b)"
  by (induction ts arbitrary: b) (simp_all add: accumulate_add)

lemma add_zero_usage: "add_usage a zero_usage = a"
  by (simp add: add_usage_def zero_usage_def)

text \<open>
  The usage reported for a process together with its children is, counter by counter, the sum of
  what is reported for the process and for its children, although one case of the switch falls
  through into the other; the resident set size alone is not a sum.
\<close>

theorem rusage_both_is_sum:
  "\<exists>b s c. k_getrusage True p RUSAGE_BOTH = Some b \<and> k_getrusage True p RUSAGE_SELF = Some s \<and>
     k_getrusage True p RUSAGE_CHILDREN = Some c \<and>
     b\<lparr>ru_maxrss := 0\<rparr> = add_usage (c\<lparr>ru_maxrss := 0\<rparr>) (s\<lparr>ru_maxrss := 0\<rparr>)"
proof -
  let ?ch = "accumulate_thread_rusage (pu_children p) zero_usage"
  let ?self = "\<lambda>r. fold accumulate_thread_rusage (pu_threads p) (accumulate_thread_rusage (pu_exited p) r)"
  have both: "?self ?ch = add_usage ?ch (?self zero_usage)"
    using fold_accumulate_add [of "pu_threads p" ?ch "accumulate_thread_rusage (pu_exited p) zero_usage"]
      accumulate_add [of "pu_exited p" ?ch zero_usage] by (simp add: add_zero_usage)
  show ?thesis
    by (simp add: k_getrusage_def usage_self_def usage_children_def RUSAGE_BOTH_def RUSAGE_SELF_def
        RUSAGE_CHILDREN_def RUSAGE_THREAD_def both Let_def)
      (simp add: add_usage_def)
qed

section \<open>The file mode mask and the times\<close>

definition umask :: "u32 \<Rightarrow> u32 \<Rightarrow> u32 \<times> u32" where
  "umask m cur = (and m 511, cur)"

text \<open>The user and system times of the process and its children, converted to clock ticks.\<close>

definition do_sys_times :: "(u32 \<Rightarrow> u32) \<Rightarrow> proc_usage \<Rightarrow> u32 list" where
  "do_sys_times ticks p =
     [ticks (fst (pu_tg_times p)), ticks (snd (pu_tg_times p)), ticks (fst (pu_child_times p)),
      ticks (snd (pu_child_times p))]"

definition times :: "(u32 \<Rightarrow> u32) \<Rightarrow> bool \<Rightarrow> bool \<Rightarrow> u32 \<Rightarrow> proc_usage \<Rightarrow> u32 list option \<times> int" where
  "times ticks null copied jiffies p =
     (if null then (None, sint jiffies)
      else if copied then (Some (do_sys_times ticks p), sint jiffies)
      else (None, - EFAULT))"

definition getcpu :: "bool \<Rightarrow> bool \<Rightarrow> int \<Rightarrow> int \<Rightarrow> int" where
  "getcpu cpup nodep wr_cpu wr_node =
     (if cpup \<and> wr_cpu \<noteq> 0 \<or> nodep \<and> wr_node \<noteq> 0 then - EFAULT else 0)"

end
