(* ===== verification/Prctl.thy ===== *)
theory Prctl
  imports Prelude
begin

text \<open>
  \<open>prctl\<close> of \<open>src/5/kernel/sys.c\<close> on a 32-bit x86 machine, where the calls for alignment, floating
  point emulation, exceptions and endianness are the \<open>-EINVAL\<close> of the file's own macros. The
  answers of the rest of the kernel (security module, seccomp, time stamp counter, performance
  events, access to user memory) are inputs, and so are the functions of other files that work on the
  task: \<open>valid_signal\<close>, \<open>get_dumpable\<close>, \<open>set_dumpable\<close>, \<open>set_task_comm\<close>, \<open>get_task_comm\<close>.
\<close>

definition PR_SET_PDEATHSIG :: int where "PR_SET_PDEATHSIG = 1"
definition PR_GET_PDEATHSIG :: int where "PR_GET_PDEATHSIG = 2"
definition PR_GET_DUMPABLE :: int where "PR_GET_DUMPABLE = 3"
definition PR_SET_DUMPABLE :: int where "PR_SET_DUMPABLE = 4"
definition PR_GET_TIMING :: int where "PR_GET_TIMING = 13"
definition PR_SET_TIMING :: int where "PR_SET_TIMING = 14"
definition PR_SET_NAME :: int where "PR_SET_NAME = 15"
definition PR_GET_NAME :: int where "PR_GET_NAME = 16"
definition PR_GET_SECCOMP :: int where "PR_GET_SECCOMP = 21"
definition PR_SET_SECCOMP :: int where "PR_SET_SECCOMP = 22"
definition PR_GET_TSC :: int where "PR_GET_TSC = 25"
definition PR_SET_TSC :: int where "PR_SET_TSC = 26"
definition PR_SET_TIMERSLACK :: int where "PR_SET_TIMERSLACK = 29"
definition PR_GET_TIMERSLACK :: int where "PR_GET_TIMERSLACK = 30"
definition PR_TASK_PERF_EVENTS_DISABLE :: int where "PR_TASK_PERF_EVENTS_DISABLE = 31"
definition PR_TASK_PERF_EVENTS_ENABLE :: int where "PR_TASK_PERF_EVENTS_ENABLE = 32"
definition PR_MCE_KILL :: int where "PR_MCE_KILL = 33"
definition PR_MCE_KILL_GET :: int where "PR_MCE_KILL_GET = 34"
definition PR_TIMING_STATISTICAL :: u32 where "PR_TIMING_STATISTICAL = 0"
definition PR_MCE_KILL_CLEAR :: u32 where "PR_MCE_KILL_CLEAR = 0"
definition PR_MCE_KILL_SET :: u32 where "PR_MCE_KILL_SET = 1"
definition PR_MCE_KILL_LATE :: u32 where "PR_MCE_KILL_LATE = 0"
definition PR_MCE_KILL_EARLY :: u32 where "PR_MCE_KILL_EARLY = 1"
definition PR_MCE_KILL_DEFAULT :: u32 where "PR_MCE_KILL_DEFAULT = 2"

text \<open>The bits \<open>PF_MCE_PROCESS\<close> and \<open>PF_MCE_EARLY\<close> of the task's flags, and the other fields.\<close>

record ptask =
  pdeath_signal :: u32
  dumpable :: u32
  comm :: "byte list"
  timer_slack_ns :: u32
  default_timer_slack_ns :: u32
  pf_mce_process :: bool
  pf_mce_early :: bool

record prenv =
  pe_sec :: int
  pe_put :: int
  pe_name :: "byte list option"
  pe_copied :: bool
  pe_seccomp_get :: int
  pe_seccomp_set :: int
  pe_tsc_get :: int
  pe_tsc_set :: int
  pe_perf :: "bool \<Rightarrow> int"
  pe_valid_signal :: "u32 \<Rightarrow> bool"
  pe_get_dumpable :: "u32 \<Rightarrow> int"
  pe_set_dumpable :: "u32 \<Rightarrow> u32 \<Rightarrow> u32"
  pe_set_task_comm :: "byte list \<Rightarrow> byte list \<Rightarrow> byte list"
  pe_get_task_comm :: "byte list \<Rightarrow> byte list"

text \<open>
  The string in an array of characters. \<open>name_array bs\<close> is the local array \<open>comm\<close> after
  \<open>strncpy_from_user\<close> has stored at most 15 bytes \<open>bs\<close> and with its last byte set to zero.
\<close>

definition c_string :: "byte list \<Rightarrow> byte list" where
  "c_string bs = takeWhile (\<lambda>b. b \<noteq> 0) bs"

definition name_array :: "byte list \<Rightarrow> byte list" where
  "name_array bs = take 15 bs @ [0]"

text \<open>The two machine-check options; on an error the flags may have been changed already.\<close>

definition prctl_mce_kill :: "u32 \<Rightarrow> u32 \<Rightarrow> u32 \<Rightarrow> u32 \<Rightarrow> ptask \<Rightarrow> ptask \<times> int" where
  "prctl_mce_kill arg2 arg3 arg4 arg5 me =
     (if or arg4 arg5 \<noteq> 0 then (me, - EINVAL)
      else if arg2 = PR_MCE_KILL_CLEAR then
        (if arg3 \<noteq> 0 then (me, - EINVAL) else (me\<lparr>pf_mce_process := False\<rparr>, 0))
      else if arg2 = PR_MCE_KILL_SET then
        (let me = me\<lparr>pf_mce_process := True\<rparr> in
         if arg3 = PR_MCE_KILL_EARLY then (me\<lparr>pf_mce_early := True\<rparr>, 0)
         else if arg3 = PR_MCE_KILL_LATE then (me\<lparr>pf_mce_early := False\<rparr>, 0)
         else if arg3 = PR_MCE_KILL_DEFAULT then (me\<lparr>pf_mce_early := False, pf_mce_process := False\<rparr>, 0)
         else (me, - EINVAL))
      else (me, - EINVAL))"

definition prctl_mce_get :: "u32 \<Rightarrow> u32 \<Rightarrow> u32 \<Rightarrow> u32 \<Rightarrow> ptask \<Rightarrow> int" where
  "prctl_mce_get arg2 arg3 arg4 arg5 me =
     (if or (or arg2 arg3) (or arg4 arg5) \<noteq> 0 then - EINVAL
      else if pf_mce_process me then uint (if pf_mce_early me then PR_MCE_KILL_EARLY else PR_MCE_KILL_LATE)
      else uint PR_MCE_KILL_DEFAULT)"

text \<open>
  The third result is what was stored at the user's address \<open>arg2\<close>. The result is a signed \<open>long\<close>, so a
  timer slack from \<open>2 ^ 31\<close> on is returned as a negative number.
\<close>

definition prctl :: "prenv \<Rightarrow> int \<Rightarrow> u32 \<Rightarrow> u32 \<Rightarrow> u32 \<Rightarrow> u32 \<Rightarrow> ptask \<Rightarrow> ptask \<times> int \<times> byte list" where
  "prctl e option arg2 arg3 arg4 arg5 me =
     (if pe_sec e \<noteq> - ENOSYS then (me, pe_sec e, [])
      else if option = PR_SET_PDEATHSIG then
        (if \<not> pe_valid_signal e arg2 then (me, - EINVAL, []) else (me\<lparr>pdeath_signal := arg2\<rparr>, 0, []))
      else if option = PR_GET_PDEATHSIG then
        (me, pe_put e, if pe_put e = 0 then [ucast (pdeath_signal me)] else [])
      else if option = PR_GET_DUMPABLE then (me, pe_get_dumpable e (dumpable me), [])
      else if option = PR_SET_DUMPABLE then
        (if 1 < arg2 then (me, - EINVAL, []) else (me\<lparr>dumpable := pe_set_dumpable e arg2 (dumpable me)\<rparr>, 0, []))
      else if option = PR_GET_TIMING then (me, uint PR_TIMING_STATISTICAL, [])
      else if option = PR_SET_TIMING then (me, if arg2 \<noteq> PR_TIMING_STATISTICAL then - EINVAL else 0, [])
      else if option = PR_SET_NAME then
        (case pe_name e of None \<Rightarrow> (me, - EFAULT, []) | Some bs \<Rightarrow>
           (me\<lparr>comm := pe_set_task_comm e (c_string (name_array bs)) (comm me)\<rparr>, 0, []))
      else if option = PR_GET_NAME then
        (if pe_copied e then (me, 0, pe_get_task_comm e (comm me)) else (me, - EFAULT, []))
      else if option = PR_GET_SECCOMP then (me, pe_seccomp_get e, [])
      else if option = PR_SET_SECCOMP then (me, pe_seccomp_set e, [])
      else if option = PR_GET_TSC then (me, pe_tsc_get e, [])
      else if option = PR_SET_TSC then (me, pe_tsc_set e, [])
      else if option = PR_TASK_PERF_EVENTS_DISABLE then (me, pe_perf e False, [])
      else if option = PR_TASK_PERF_EVENTS_ENABLE then (me, pe_perf e True, [])
      else if option = PR_GET_TIMERSLACK then (me, sint (timer_slack_ns me), [])
      else if option = PR_SET_TIMERSLACK then
        (me\<lparr>timer_slack_ns := (if arg2 = 0 then default_timer_slack_ns me else arg2)\<rparr>, 0, [])
      else if option = PR_MCE_KILL then (let (me, r) = prctl_mce_kill arg2 arg3 arg4 arg5 me in (me, r, []))
      else if option = PR_MCE_KILL_GET then (me, prctl_mce_get arg2 arg3 arg4 arg5 me, [])
      else (me, - EINVAL, []))"

lemmas prctl_options =
  PR_SET_PDEATHSIG_def PR_GET_PDEATHSIG_def PR_GET_DUMPABLE_def PR_SET_DUMPABLE_def PR_GET_TIMING_def
  PR_SET_TIMING_def PR_SET_NAME_def PR_GET_NAME_def PR_GET_SECCOMP_def PR_SET_SECCOMP_def PR_GET_TSC_def
  PR_SET_TSC_def PR_SET_TIMERSLACK_def PR_GET_TIMERSLACK_def PR_TASK_PERF_EVENTS_DISABLE_def
  PR_TASK_PERF_EVENTS_ENABLE_def PR_MCE_KILL_def PR_MCE_KILL_GET_def

lemmas prctl_mce_consts =
  PR_MCE_KILL_CLEAR_def PR_MCE_KILL_SET_def PR_MCE_KILL_LATE_def PR_MCE_KILL_EARLY_def PR_MCE_KILL_DEFAULT_def

section \<open>Properties\<close>

text \<open>
  What \<open>set_task_comm\<close> and \<open>get_task_comm\<close> promise: the task's array holds the string afterwards (of at
  most 15 characters), and the string in the caller's array is the one in the task's.
\<close>

definition keeps_names :: "prenv \<Rightarrow> bool" where
  "keeps_names e \<longleftrightarrow>
     (\<forall>s c. length s \<le> 15 \<and> 0 \<notin> set s \<longrightarrow> c_string (pe_set_task_comm e s c) = s) \<and>
     (\<forall>c. c_string (pe_get_task_comm e c) = c_string c)"

lemma c_string_append: "0 \<notin> set bs \<Longrightarrow> c_string (bs @ replicate (Suc n) 0) = bs"
  by (induction bs) (auto simp: c_string_def)

lemma c_string_name: "length bs \<le> 15 \<Longrightarrow> 0 \<notin> set bs \<Longrightarrow> c_string (name_array bs) = bs"
  using c_string_append [of bs 0] by (simp add: name_array_def)

lemma sint_small: "(w :: u32) < 0x80000000 \<Longrightarrow> sint w = uint w"
proof -
  assume "w < 0x80000000"
  then have "uint w < 2 ^ 31" by (simp add: word_less_def)
  moreover have "- (2 ^ 31) \<le> (0 :: int)" by simp
  then have "- (2 ^ 31) \<le> uint w" using uint_ge_0 [of w] by (rule order_trans)
  ultimately show ?thesis by (simp add: sint_uint signed_take_bit_int_eq_self)
qed

lemma sint_large: "\<not> (w :: u32) < 0x80000000 \<Longrightarrow> sint w = uint w - 2 ^ 32 \<and> sint w < 0"
proof -
  assume "\<not> w < 0x80000000"
  then have "2 ^ 31 \<le> uint w" by (simp add: word_less_def)
  moreover have "uint w < 2 ^ 32" using uint_lt2p [of w] by simp
  moreover from calculation have "uint w div 2 ^ 31 = 1" by (intro div_pos_geq [THEN trans]) simp_all
  ultimately show ?thesis
    by (simp add: sint_uint signed_take_bit_eq_take_bit_minus take_bit_int_eq_self bit_iff_odd_drop_bit drop_bit_eq_div)
qed

text \<open>
  C28: what was set can be read back, where the security module leaves the call to the kernel: a task
  name of up to 15 bytes comes back as the same string, provided \<open>set_task_comm\<close> and \<open>get_task_comm\<close>
  keep strings of that length; a machine-check policy comes back as the same policy; and a timer
  slack, where 0 stands for the default, comes back as the same value below \<open>2 ^ 31\<close>, but from \<open>2 ^ 31\<close>
  on as a negative number, because it is returned as a signed \<open>long\<close>.
\<close>

theorem prctl_set_get:
  fixes n :: u32 and me :: ptask
  assumes "pe_sec e = - ENOSYS" and "pe_copied e" and "pe_name e = Some bs" and "length bs \<le> 15" and "0 \<notin> set bs"
    and "keeps_names e" and "policy \<in> {PR_MCE_KILL_LATE, PR_MCE_KILL_EARLY, PR_MCE_KILL_DEFAULT}"
  defines "slack \<equiv> (if n = 0 then default_timer_slack_ns me else n)"
  shows "(case snd (prctl e PR_GET_NAME a 0 0 0 (fst (prctl e PR_SET_NAME a 0 0 0 me))) of
      (r, out) \<Rightarrow> r = 0 \<and> c_string out = bs) \<and>
    fst (snd (prctl e PR_MCE_KILL_GET 0 0 0 0 (fst (prctl e PR_MCE_KILL PR_MCE_KILL_SET policy 0 0 me)))) =
      uint policy \<and>
    (let r = fst (snd (prctl e PR_GET_TIMERSLACK 0 0 0 0 (fst (prctl e PR_SET_TIMERSLACK n 0 0 0 me)))) in
      (slack < 0x80000000 \<longrightarrow> r = uint slack) \<and> (\<not> slack < 0x80000000 \<longrightarrow> r = uint slack - 2 ^ 32 \<and> r < 0))"
proof (intro conjI)
  show "case snd (prctl e PR_GET_NAME a 0 0 0 (fst (prctl e PR_SET_NAME a 0 0 0 me))) of
      (r, out) \<Rightarrow> r = 0 \<and> c_string out = bs"
    using assms(1-6) by (simp add: prctl_def prctl_options c_string_name keeps_names_def)
  show "fst (snd (prctl e PR_MCE_KILL_GET 0 0 0 0 (fst (prctl e PR_MCE_KILL PR_MCE_KILL_SET policy 0 0 me)))) =
      uint policy"
    using assms(1,7)
    by (auto simp: prctl_def prctl_options prctl_mce_kill_def prctl_mce_get_def prctl_mce_consts)
  have r: "fst (snd (prctl e PR_GET_TIMERSLACK 0 0 0 0 (fst (prctl e PR_SET_TIMERSLACK n 0 0 0 me)))) = sint slack"
    using assms(1) by (simp add: prctl_def prctl_options slack_def)
  show "let r = fst (snd (prctl e PR_GET_TIMERSLACK 0 0 0 0 (fst (prctl e PR_SET_TIMERSLACK n 0 0 0 me)))) in
      (slack < 0x80000000 \<longrightarrow> r = uint slack) \<and> (\<not> slack < 0x80000000 \<longrightarrow> r = uint slack - 2 ^ 32 \<and> r < 0)"
    unfolding r Let_def using sint_small [of slack] sint_large [of slack] by auto
qed

definition example_env :: prenv where
  "example_env = \<lparr>pe_sec = - 38, pe_put = 0, pe_name = Some [115, 104], pe_copied = True, pe_seccomp_get = 0,
     pe_seccomp_set = 0, pe_tsc_get = 0, pe_tsc_set = 0, pe_perf = (\<lambda>_. 0), pe_valid_signal = (\<lambda>n. n \<le> 64),
     pe_get_dumpable = uint, pe_set_dumpable = (\<lambda>n _. n),
     pe_set_task_comm = (\<lambda>s _. take 15 s @ replicate (16 - length (take 15 s)) 0), pe_get_task_comm = (\<lambda>c. c)\<rparr>"

lemma example_keeps_names: "keeps_names example_env"
proof -
  have "c_string (s @ replicate (16 - length s) 0) = s" if "length s \<le> 15" "0 \<notin> set s" for s
  proof -
    have "16 - length s = Suc (15 - length s)" using that(1) by simp
    then show ?thesis using c_string_append [OF that(2), of "15 - length s"] by simp
  qed
  then show ?thesis by (simp add: keeps_names_def example_env_def)
qed

definition example_task :: ptask where
  "example_task = \<lparr>pdeath_signal = 0, dumpable = 1, comm = replicate 16 0, timer_slack_ns = 50,
     default_timer_slack_ns = 50, pf_mce_process = False, pf_mce_early = False\<rparr>"

theorem prctl_set_get_witness:
  "(case snd (prctl example_env PR_GET_NAME 4096 0 0 0 (fst (prctl example_env PR_SET_NAME 4096 0 0 0 example_task))) of
      (r, out) \<Rightarrow> r = 0 \<and> c_string out = [115, 104]) \<and>
   fst (snd (prctl example_env PR_GET_TIMERSLACK 0 0 0 0
     (fst (prctl example_env PR_SET_TIMERSLACK 0xFFFFFFFF 0 0 0 example_task)))) = - 1"
proof -
  have e: "pe_sec example_env = - ENOSYS" "pe_copied example_env" "pe_name example_env = Some [115, 104]"
    by (simp_all add: example_env_def errno_defs)
  have p: "PR_MCE_KILL_LATE \<in> {PR_MCE_KILL_LATE, PR_MCE_KILL_EARLY, PR_MCE_KILL_DEFAULT}" by simp
  have l: "length [115, 104 :: byte] \<le> 15" "0 \<notin> set [115, 104 :: byte]" by simp_all
  show ?thesis
    using prctl_set_get [OF e l example_keeps_names p, of 4096 example_task "0xFFFFFFFF"] by (simp add: Let_def)
qed

text \<open>
  A request for a machine-check policy with an unknown policy number is refused with an
  error, but the task has been marked as having a policy of its own by then.
\<close>

theorem prctl_failed_mce_kill_sets_flag:
  assumes "pe_sec e = - ENOSYS" and "policy \<notin> {PR_MCE_KILL_LATE, PR_MCE_KILL_EARLY, PR_MCE_KILL_DEFAULT}"
  shows "prctl e PR_MCE_KILL PR_MCE_KILL_SET policy 0 0 me = (me\<lparr>pf_mce_process := True\<rparr>, - EINVAL, [])"
  using assms by (auto simp: prctl_def prctl_options prctl_mce_kill_def prctl_mce_consts)

theorem prctl_failed_mce_kill_sets_flag_witness:
  "prctl example_env PR_MCE_KILL PR_MCE_KILL_SET 9 0 0 example_task =
     (example_task\<lparr>pf_mce_process := True\<rparr>, - EINVAL, [])"
  by (rule prctl_failed_mce_kill_sets_flag) (simp_all add: example_env_def errno_defs prctl_mce_consts)

end
