(* ===== verification/Reboot.thy ===== *)
theory Reboot
  imports Prelude
begin

text \<open>
  Restarting and stopping the system in \<open>src/5/kernel/sys.c\<close>: \<open>kernel_restart\<close>, \<open>kernel_halt\<close>,
  \<open>kernel_power_off\<close>, \<open>reboot\<close>, \<open>ctrl_alt_del\<close>, \<open>orderly_poweroff\<close>. What these do to devices and to the
  machine is a sequence of events in the state. A call that ends in \<open>do_exit\<close> does not return.
\<close>

datatype sys_notify = SYS_RESTART | SYS_HALT | SYS_POWER_OFF

datatype sys_state = SYSTEM_RUNNING | SYSTEM_HALT | SYSTEM_POWER_OFF | SYSTEM_RESTART

datatype kevent =
    Notify sys_notify | Device_shutdown | Sysdev_shutdown | Disable_nonboot_cpus | Power_off_prepare
  | Machine_restart "byte list option" | Machine_halt | Machine_power_off | Machine_emergency_restart
  | Schedule_restart | Kill_cad_pid | Emergency_sync

record kstate =
  C_A_D :: bool
  system_state :: sys_state
  events :: "kevent list"

definition happen :: "kevent list \<Rightarrow> kstate \<Rightarrow> kstate" where
  "happen es k = k\<lparr>events := events k @ es\<rparr>"

definition emergency_restart :: "kstate \<Rightarrow> kstate" where
  "emergency_restart = happen [Machine_emergency_restart]"

definition kernel_restart_prepare :: "kstate \<Rightarrow> kstate" where
  "kernel_restart_prepare k =
     happen [Device_shutdown, Sysdev_shutdown] ((happen [Notify SYS_RESTART] k)\<lparr>system_state := SYSTEM_RESTART\<rparr>)"

definition kernel_restart :: "byte list option \<Rightarrow> kstate \<Rightarrow> kstate" where
  "kernel_restart cmd k = happen [Machine_restart cmd] (kernel_restart_prepare k)"

definition kernel_shutdown_prepare :: "sys_state \<Rightarrow> kstate \<Rightarrow> kstate" where
  "kernel_shutdown_prepare st k =
     happen [Device_shutdown]
       ((happen [Notify (if st = SYSTEM_HALT then SYS_HALT else SYS_POWER_OFF)] k)\<lparr>system_state := st\<rparr>)"

definition kernel_halt :: "kstate \<Rightarrow> kstate" where
  "kernel_halt k = happen [Sysdev_shutdown, Machine_halt] (kernel_shutdown_prepare SYSTEM_HALT k)"

text \<open>\<open>prep\<close>: the hook \<open>pm_power_off_prepare\<close> is set.\<close>

definition kernel_power_off :: "bool \<Rightarrow> kstate \<Rightarrow> kstate" where
  "kernel_power_off prep k =
     happen ((if prep then [Power_off_prepare] else []) @ [Disable_nonboot_cpus, Sysdev_shutdown, Machine_power_off])
       (kernel_shutdown_prepare SYSTEM_POWER_OFF k)"

section \<open>The system call\<close>

definition LINUX_REBOOT_MAGIC1 :: u32 where "LINUX_REBOOT_MAGIC1 = 0xfee1dead"

definition reboot_magic2 :: "u32 list" where
  "reboot_magic2 = [672274793, 85072278, 369367448, 537993216]"

definition CMD_RESTART :: u32 where "CMD_RESTART = 0x01234567"
definition CMD_HALT :: u32 where "CMD_HALT = 0xCDEF0123"
definition CMD_CAD_ON :: u32 where "CMD_CAD_ON = 0x89ABCDEF"
definition CMD_CAD_OFF :: u32 where "CMD_CAD_OFF = 0"
definition CMD_POWER_OFF :: u32 where "CMD_POWER_OFF = 0x4321FEDC"
definition CMD_RESTART2 :: u32 where "CMD_RESTART2 = 0xA1B2C3D4"
definition CMD_KEXEC :: u32 where "CMD_KEXEC = 0x45584543"
definition CMD_SW_SUSPEND :: u32 where "CMD_SW_SUSPEND = 0xD000FCE2"

lemmas reboot_cmds =
  CMD_RESTART_def CMD_HALT_def CMD_CAD_ON_def CMD_CAD_OFF_def CMD_POWER_OFF_def CMD_RESTART2_def
  CMD_KEXEC_def CMD_SW_SUSPEND_def

text \<open>
  \<open>rb_arg\<close>: the string \<open>strncpy_from_user\<close> reads (at most 255 bytes), or \<open>None\<close> when it fails;
  \<open>rb_kexec\<close>, \<open>rb_hibernate\<close>: the functions \<open>kernel_kexec\<close> and \<open>hibernate\<close> of other files, if they are
  configured; what they do to the machine, and whether they return, is theirs to say.
\<close>

datatype rb_result = Returns int | Exits

record rbenv =
  rb_cap :: bool
  rb_pm_power_off :: bool
  rb_prepare :: bool
  rb_arg :: "byte list option"
  rb_kexec :: "(kstate \<Rightarrow> kstate \<times> rb_result) option"
  rb_hibernate :: "(kstate \<Rightarrow> kstate \<times> rb_result) option"

definition reboot :: "rbenv \<Rightarrow> u32 \<Rightarrow> u32 \<Rightarrow> u32 \<Rightarrow> kstate \<Rightarrow> kstate \<times> rb_result" where
  "reboot e magic1 magic2 cmd0 k =
     (if \<not> rb_cap e then (k, Returns (- EPERM))
      else if magic1 \<noteq> LINUX_REBOOT_MAGIC1 \<or> magic2 \<notin> set reboot_magic2 then (k, Returns (- EINVAL))
      else
        (let cmd = (if cmd0 = CMD_POWER_OFF \<and> \<not> rb_pm_power_off e then CMD_HALT else cmd0) in
         if cmd = CMD_RESTART then (kernel_restart None k, Returns 0)
         else if cmd = CMD_CAD_ON then (k\<lparr>C_A_D := True\<rparr>, Returns 0)
         else if cmd = CMD_CAD_OFF then (k\<lparr>C_A_D := False\<rparr>, Returns 0)
         else if cmd = CMD_HALT then (kernel_halt k, Exits)
         else if cmd = CMD_POWER_OFF then (kernel_power_off (rb_prepare e) k, Exits)
         else if cmd = CMD_RESTART2 then
           (case rb_arg e of
              None \<Rightarrow> (k, Returns (- EFAULT))
            | Some s \<Rightarrow> (kernel_restart (Some (take 255 s)) k, Returns 0))
         else if cmd = CMD_KEXEC \<and> rb_kexec e \<noteq> None then the (rb_kexec e) k
         else if cmd = CMD_SW_SUSPEND \<and> rb_hibernate e \<noteq> None then the (rb_hibernate e) k
         else (k, Returns (- EINVAL))))"

definition ctrl_alt_del :: "kstate \<Rightarrow> kstate" where
  "ctrl_alt_del k = (if C_A_D k then happen [Schedule_restart] k else happen [Kill_cad_pid] k)"

text \<open>The work that \<open>ctrl_alt_del\<close> schedules.\<close>

definition deferred_cad :: "kstate \<Rightarrow> kstate" where
  "deferred_cad = kernel_restart None"

text \<open>
  \<open>argv\<close>, \<open>info\<close>: \<open>argv_split\<close> and \<open>call_usermodehelper_setup\<close> succeeded; \<open>exec\<close>: the result of starting
  the helper.
\<close>

definition orderly_poweroff :: "bool \<Rightarrow> bool \<Rightarrow> int \<Rightarrow> bool \<Rightarrow> bool \<Rightarrow> kstate \<Rightarrow> kstate \<times> int" where
  "orderly_poweroff argv info exec prep force k =
     (let ret = (if \<not> argv \<or> \<not> info then - ENOMEM else exec) in
      if ret \<noteq> 0 \<and> force then (kernel_power_off prep (happen [Emergency_sync] k), ret) else (k, ret))"

section \<open>Property\<close>

text \<open>What is done before the machine is touched, by the kind of the final event.\<close>

fun final_event :: "kevent \<Rightarrow> bool" where
  "final_event (Machine_restart _) \<longleftrightarrow> True"
| "final_event Machine_halt \<longleftrightarrow> True"
| "final_event Machine_power_off \<longleftrightarrow> True"
| "final_event _ \<longleftrightarrow> False"

text \<open>The events of a permitted call, by command.\<close>

definition restart_events :: "byte list option \<Rightarrow> kevent list" where
  "restart_events c = [Notify SYS_RESTART, Device_shutdown, Sysdev_shutdown, Machine_restart c]"

definition halt_events :: "kevent list" where
  "halt_events = [Notify SYS_HALT, Device_shutdown, Sysdev_shutdown, Machine_halt]"

definition off_events :: "bool \<Rightarrow> kevent list" where
  "off_events p = Notify SYS_POWER_OFF # Device_shutdown #
     ((if p then [Power_off_prepare] else []) @ [Disable_nonboot_cpus]) @ [Sysdev_shutdown, Machine_power_off]"

definition reboot_events :: "rbenv \<Rightarrow> u32 \<Rightarrow> u32 \<Rightarrow> u32 \<Rightarrow> kevent list" where
  "reboot_events e m1 m2 cmd =
     (if \<not> rb_cap e \<or> m1 \<noteq> LINUX_REBOOT_MAGIC1 \<or> m2 \<notin> set reboot_magic2 then []
      else if cmd = CMD_RESTART then restart_events None
      else if cmd = CMD_HALT \<or> cmd = CMD_POWER_OFF \<and> \<not> rb_pm_power_off e then halt_events
      else if cmd = CMD_POWER_OFF then off_events (rb_prepare e)
      else if cmd = CMD_RESTART2 then
        (case rb_arg e of None \<Rightarrow> [] | Some s \<Rightarrow> restart_events (Some (take 255 s)))
      else [])"

text \<open>Notifiers, devices, system devices, and one final event at the end.\<close>

definition orderly :: "kevent list \<Rightarrow> bool" where
  "orderly es \<longleftrightarrow> (\<exists>n mid ev. es = Notify n # Device_shutdown # mid @ [Sysdev_shutdown, ev] \<and>
     final_event ev \<and> (\<forall>x \<in> set mid. \<not> final_event x))"

lemma orderly_events: "orderly (restart_events c)" "orderly halt_events" "orderly (off_events p)"
proof -
  show "orderly (restart_events c)" unfolding orderly_def restart_events_def
    by (rule exI [of _ SYS_RESTART], rule exI [of _ "[]"]) simp
  show "orderly halt_events" unfolding orderly_def halt_events_def
    by (rule exI [of _ SYS_HALT], rule exI [of _ "[]"]) simp
  show "orderly (off_events p)" unfolding orderly_def off_events_def
    by (rule exI [of _ SYS_POWER_OFF], rule exI [of _ "(if p then [Power_off_prepare] else []) @ [Disable_nonboot_cpus]"])
      simp
qed

lemma stop_events:
  "events (kernel_restart c k) = events k @ restart_events c"
  "events (kernel_halt k) = events k @ halt_events"
  "events (kernel_power_off p k) = events k @ off_events p"
  by (simp_all add: kernel_restart_def kernel_restart_prepare_def kernel_halt_def kernel_power_off_def
      kernel_shutdown_prepare_def happen_def restart_events_def halt_events_def off_events_def)

lemma reboot_events_ok:
  assumes "cmd \<notin> {CMD_KEXEC, CMD_SW_SUSPEND}"
  shows "events (fst (reboot e m1 m2 cmd k)) = events k @ reboot_events e m1 m2 cmd"
    and "reboot_events e m1 m2 cmd \<noteq> [] \<Longrightarrow> orderly (reboot_events e m1 m2 cmd)"
    and "rb_cap e \<Longrightarrow> m1 = LINUX_REBOOT_MAGIC1 \<Longrightarrow> m2 \<in> set reboot_magic2 \<Longrightarrow>
      reboot_events e m1 m2 cmd \<noteq> [] \<longleftrightarrow>
        cmd \<in> {CMD_RESTART, CMD_HALT, CMD_POWER_OFF} \<or> cmd = CMD_RESTART2 \<and> rb_arg e \<noteq> None"
proof -
  have d: "CMD_POWER_OFF \<noteq> CMD_RESTART" "CMD_POWER_OFF \<noteq> CMD_CAD_ON" "CMD_POWER_OFF \<noteq> CMD_CAD_OFF"
    "CMD_POWER_OFF \<noteq> CMD_HALT" "CMD_HALT \<noteq> CMD_RESTART" "CMD_HALT \<noteq> CMD_CAD_ON" "CMD_HALT \<noteq> CMD_CAD_OFF"
    "CMD_RESTART2 \<noteq> CMD_RESTART" "CMD_RESTART2 \<noteq> CMD_CAD_ON" "CMD_RESTART2 \<noteq> CMD_CAD_OFF"
    "CMD_RESTART2 \<noteq> CMD_HALT" "CMD_RESTART2 \<noteq> CMD_POWER_OFF"
    "CMD_CAD_ON \<noteq> CMD_RESTART" "CMD_CAD_OFF \<noteq> CMD_RESTART"
    by (simp_all add: reboot_cmds)
  note ne = d d [symmetric]
  show "events (fst (reboot e m1 m2 cmd k)) = events k @ reboot_events e m1 m2 cmd"
    using assms ne by (auto simp: reboot_def reboot_events_def stop_events Let_def split: option.split)
  show "reboot_events e m1 m2 cmd \<noteq> [] \<Longrightarrow> orderly (reboot_events e m1 m2 cmd)"
    by (auto simp: reboot_events_def orderly_events split: option.splits if_splits)
  have "restart_events c \<noteq> []" "halt_events \<noteq> []" "off_events p \<noteq> []" for c p
    by (simp_all add: restart_events_def halt_events_def off_events_def)
  then show "rb_cap e \<Longrightarrow> m1 = LINUX_REBOOT_MAGIC1 \<Longrightarrow> m2 \<in> set reboot_magic2 \<Longrightarrow>
      reboot_events e m1 m2 cmd \<noteq> [] \<longleftrightarrow>
        cmd \<in> {CMD_RESTART, CMD_HALT, CMD_POWER_OFF} \<or> cmd = CMD_RESTART2 \<and> rb_arg e \<noteq> None"
    using ne by (auto simp: reboot_events_def split: option.splits)
qed

text \<open>
  C29: \<open>reboot\<close> acts only for a caller with the capability who passes both magic numbers, otherwise
  it changes nothing and reports an error. For every command but \<open>CMD_KEXEC\<close> and \<open>CMD_SW_SUSPEND\<close>,
  which are left to functions of other files (\<open>kernel_kexec\<close>, \<open>hibernate\<close>) where these are configured:
  when the call stops or restarts the machine, the reboot notifiers have run and devices and
  system devices have been shut down, in this order, before the machine itself is touched,
  exactly once and as the last event. The call does so for exactly the commands restart, halt,
  power-off and (with a readable argument) restart with a command string; a power-off request on
  a machine that cannot be powered off halts it.
\<close>

theorem reboot_guarded:
  "(\<not> rb_cap e \<or> m1 \<noteq> LINUX_REBOOT_MAGIC1 \<or> m2 \<notin> set reboot_magic2 \<longrightarrow>
      (\<exists>err < 0. reboot e m1 m2 cmd k = (k, Returns err))) \<and>
   (cmd \<notin> {CMD_KEXEC, CMD_SW_SUSPEND} \<longrightarrow>
     (\<exists>es. events (fst (reboot e m1 m2 cmd k)) = events k @ es \<and>
      (es \<noteq> [] \<longrightarrow> (\<exists>n mid ev. es = Notify n # Device_shutdown # mid @ [Sysdev_shutdown, ev] \<and>
         final_event ev \<and> (\<forall>x \<in> set mid. \<not> final_event x))) \<and>
      (rb_cap e \<and> m1 = LINUX_REBOOT_MAGIC1 \<and> m2 \<in> set reboot_magic2 \<longrightarrow>
         (es \<noteq> [] \<longleftrightarrow> cmd \<in> {CMD_RESTART, CMD_HALT, CMD_POWER_OFF} \<or> cmd = CMD_RESTART2 \<and> rb_arg e \<noteq> None)))) \<and>
   (rb_cap e \<and> m1 = LINUX_REBOOT_MAGIC1 \<and> m2 \<in> set reboot_magic2 \<and> cmd = CMD_POWER_OFF \<and> \<not> rb_pm_power_off e \<longrightarrow>
      reboot e m1 m2 cmd k = (kernel_halt k, Exits))"
proof (intro conjI)
  show "\<not> rb_cap e \<or> m1 \<noteq> LINUX_REBOOT_MAGIC1 \<or> m2 \<notin> set reboot_magic2 \<longrightarrow>
      (\<exists>err < 0. reboot e m1 m2 cmd k = (k, Returns err))"
    by (auto simp: reboot_def errno_defs)
  show "rb_cap e \<and> m1 = LINUX_REBOOT_MAGIC1 \<and> m2 \<in> set reboot_magic2 \<and> cmd = CMD_POWER_OFF \<and>
      \<not> rb_pm_power_off e \<longrightarrow> reboot e m1 m2 cmd k = (kernel_halt k, Exits)"
    by (simp add: reboot_def reboot_cmds)
  show "cmd \<notin> {CMD_KEXEC, CMD_SW_SUSPEND} \<longrightarrow>
     (\<exists>es. events (fst (reboot e m1 m2 cmd k)) = events k @ es \<and>
      (es \<noteq> [] \<longrightarrow> (\<exists>n mid ev. es = Notify n # Device_shutdown # mid @ [Sysdev_shutdown, ev] \<and>
         final_event ev \<and> (\<forall>x \<in> set mid. \<not> final_event x))) \<and>
      (rb_cap e \<and> m1 = LINUX_REBOOT_MAGIC1 \<and> m2 \<in> set reboot_magic2 \<longrightarrow>
         (es \<noteq> [] \<longleftrightarrow> cmd \<in> {CMD_RESTART, CMD_HALT, CMD_POWER_OFF} \<or> cmd = CMD_RESTART2 \<and> rb_arg e \<noteq> None)))"
  proof
    assume c: "cmd \<notin> {CMD_KEXEC, CMD_SW_SUSPEND}"
    show "\<exists>es. events (fst (reboot e m1 m2 cmd k)) = events k @ es \<and>
      (es \<noteq> [] \<longrightarrow> (\<exists>n mid ev. es = Notify n # Device_shutdown # mid @ [Sysdev_shutdown, ev] \<and>
         final_event ev \<and> (\<forall>x \<in> set mid. \<not> final_event x))) \<and>
      (rb_cap e \<and> m1 = LINUX_REBOOT_MAGIC1 \<and> m2 \<in> set reboot_magic2 \<longrightarrow>
         (es \<noteq> [] \<longleftrightarrow> cmd \<in> {CMD_RESTART, CMD_HALT, CMD_POWER_OFF} \<or> cmd = CMD_RESTART2 \<and> rb_arg e \<noteq> None))"
      by (rule exI [of _ "reboot_events e m1 m2 cmd"]) (use reboot_events_ok [OF c, of e m1 m2] in \<open>auto simp: orderly_def\<close>)
  qed
qed

theorem reboot_guarded_witness:
  "\<exists>err < 0. reboot \<lparr>rb_cap = False, rb_pm_power_off = True, rb_prepare = False, rb_arg = None, rb_kexec = None,
       rb_hibernate = None\<rparr> LINUX_REBOOT_MAGIC1 672274793 CMD_HALT
     \<lparr>C_A_D = True, system_state = SYSTEM_RUNNING, events = []\<rparr> =
   (\<lparr>C_A_D = True, system_state = SYSTEM_RUNNING, events = []\<rparr>, Returns err)"
  using reboot_guarded [of "\<lparr>rb_cap = False, rb_pm_power_off = True, rb_prepare = False, rb_arg = None,
      rb_kexec = None, rb_hibernate = None\<rparr>" LINUX_REBOOT_MAGIC1 672274793 CMD_HALT
      "\<lparr>C_A_D = True, system_state = SYSTEM_RUNNING, events = []\<rparr>"] by simp

end
