(* ===== verification/PageFault.thy ===== *)
theory PageFault
  imports Prelude
begin

text \<open>
  The page fault handler of the patched kernel (\<open>src/5/kernel/fault.c\<close>, 32-bit without PAE), which counts
  faults in \<open>pfcount\<close>, and the system call \<open>sys_do_pfcount\<close> that reports the count
  (\<open>src/5/kernel/sys.c\<close>). Everything the handler asks the rest of the kernel and the processor is an
  input (record \<open>pfenv\<close>); what it does is a change of the state \<open>pfstate\<close>: counters, the read locks it
  holds on the memory map, the signals it sends, and whether the kernel died.
\<close>

section \<open>Error codes\<close>

definition PF_PROT :: nat where "PF_PROT = 0"
definition PF_WRITE :: nat where "PF_WRITE = 1"
definition PF_USER :: nat where "PF_USER = 2"
definition PF_RSVD :: nat where "PF_RSVD = 3"
definition PF_INSTR :: nat where "PF_INSTR = 4"

definition TASK_SIZE :: u32 where "TASK_SIZE = 0xC0000000"
definition PAGE_SHIFT :: nat where "PAGE_SHIFT = 12"

definition SIGBUS :: int where "SIGBUS = 7"
definition SIGKILL :: int where "SIGKILL = 9"
definition SIGSEGV :: int where "SIGSEGV = 11"
definition SEGV_MAPERR :: int where "SEGV_MAPERR = 1"
definition SEGV_ACCERR :: int where "SEGV_ACCERR = 2"
definition BUS_ADRERR :: int where "BUS_ADRERR = 2"
definition BUS_MCEERR_AR :: int where "BUS_MCEERR_AR = 4"

section \<open>Recognising prefetch instructions\<close>

text \<open>
  \<open>probe a\<close> is the byte at \<open>a\<close>, or \<open>None\<close> if \<open>probe_kernel_address\<close> fails. The result of
  \<open>check_prefetch_opcode\<close> is whether the scan goes on, and the new value of \<open>*prefetch\<close>.
\<close>

definition check_prefetch_opcode :: "(u32 \<Rightarrow> byte option) \<Rightarrow> u32 \<Rightarrow> byte \<Rightarrow> bool \<Rightarrow> bool \<times> bool" where
  "check_prefetch_opcode probe instr opcode prefetch =
     (let hi = and opcode 0xf0; lo = and opcode 0x0f in
      if hi = 0x20 \<or> hi = 0x30 then (and lo 7 = 6, prefetch)
      else if hi = 0x60 then (and lo 0xC = 4, prefetch)
      else if hi = 0xF0 then (lo = 0 \<or> drop_bit 1 lo = 1, prefetch)
      else if hi = 0 then
        (case probe instr of
           None \<Rightarrow> (False, prefetch)
         | Some op2 \<Rightarrow> (False, lo = 0xF \<and> (op2 = 0x0D \<or> op2 = 0x18)))
      else (False, prefetch))"

text \<open>The loop over at most \<open>n\<close> instruction bytes.\<close>

fun prefetch_loop :: "(u32 \<Rightarrow> byte option) \<Rightarrow> nat \<Rightarrow> u32 \<Rightarrow> bool \<Rightarrow> bool" where
  "prefetch_loop probe 0 instr prefetch = prefetch"
| "prefetch_loop probe (Suc n) instr prefetch =
     (case probe instr of
        None \<Rightarrow> prefetch
      | Some opcode \<Rightarrow>
          (case check_prefetch_opcode probe (instr + 1) opcode prefetch of
             (False, p) \<Rightarrow> p
           | (True, p) \<Rightarrow> prefetch_loop probe n (instr + 1) p))"

text \<open>
  \<open>ip\<close> is the linear address of the instruction. The bound is \<open>instr < max_instr\<close>, so that no
  byte is read when the 15 bytes would run past the end of the address space.
\<close>

definition is_prefetch :: "(u32 \<Rightarrow> byte option) \<Rightarrow> bool \<Rightarrow> u32 \<Rightarrow> u32 \<Rightarrow> bool" where
  "is_prefetch probe user ip error_code =
     (if bit error_code PF_INSTR then False
      else if user \<and> TASK_SIZE \<le> ip then False
      else if ip < ip + 15 then prefetch_loop probe 15 ip False
      else False)"

section \<open>The kernel's page tables\<close>

text \<open>
  Without PAE a page directory maps the upper ten bits of an address to a page table; \<open>None\<close>
  is an entry that is not present. \<open>vmalloc_sync_one\<close> copies an entry of the reference directory
  and fails (\<open>BUG_ON\<close>) if the entries differ.
\<close>

type_synonym pgdir = "u32 \<rightharpoonup> u32"

datatype sync = Sync_none | Sync_ok pgdir u32 | Sync_bug

definition pgd_index :: "u32 \<Rightarrow> u32" where
  "pgd_index a = drop_bit 22 a"

definition vmalloc_sync_one :: "pgdir \<Rightarrow> pgdir \<Rightarrow> u32 \<Rightarrow> sync" where
  "vmalloc_sync_one ref pgd address =
     (case ref (pgd_index address) of
        None \<Rightarrow> Sync_none
      | Some pmd_k \<Rightarrow>
          (case pgd (pgd_index address) of
             None \<Rightarrow> Sync_ok (pgd(pgd_index address \<mapsto> pmd_k)) pmd_k
           | Some pmd \<Rightarrow> if pmd = pmd_k then Sync_ok pgd pmd_k else Sync_bug))"

section \<open>Inputs and state\<close>

text \<open>An area of the memory map: where it begins, and its protection and stack flags.\<close>

record vma =
  vm_start :: u32
  vm_read :: bool
  vm_write :: bool
  vm_exec :: bool
  vm_growsdown :: bool

datatype mm_fault = Fault_minor | Fault_major | Fault_oom | Fault_sigbus | Fault_hwpoison

record pfenv =
  e_cr2 :: u32
  e_user :: bool
  e_ip :: u32
  e_sp :: u32
  e_probe :: "u32 \<Rightarrow> byte option"
  e_v8086 :: bool
  e_kmmio :: bool
  e_kmemcheck :: bool
  e_kprobe :: bool
  e_ref_pgd :: pgdir
  e_vmalloc :: "u32 \<times> u32"
  e_pte_present :: "u32 \<Rightarrow> bool"
  e_pmd_large :: "u32 \<Rightarrow> bool"
  e_pte_write :: "u32 \<Rightarrow> bool"
  e_pte_exec :: "u32 \<Rightarrow> bool"
  e_atomic :: bool
  e_mm :: bool
  e_trylock :: bool
  e_exception_table :: bool
  e_find_vma :: "vma option"
  e_expand_fails :: bool
  e_handle :: mm_fault
  e_f00f :: bool
  e_die :: bool

record pfstate =
  pfcount :: u32
  maj_flt :: u32
  min_flt :: u32
  mmap_readers :: nat
  cur_pgd :: pgdir
  th_cr2 :: u32
  th_error :: u32
  th_trap :: int
  screen_bitmap :: u32
  signals :: "(int \<times> int \<times> u32) list"
  died :: "int list"
  oom_killed :: bool

section \<open>Bad accesses\<close>

definition force_sig_info_fault :: "int \<Rightarrow> int \<Rightarrow> u32 \<Rightarrow> pfstate \<Rightarrow> pfstate" where
  "force_sig_info_fault sig code address s = s\<lparr>signals := signals s @ [(sig, code, address)]\<rparr>"

definition note_fault :: "u32 \<Rightarrow> u32 \<Rightarrow> pfstate \<Rightarrow> pfstate" where
  "note_fault address ec s = s\<lparr>th_cr2 := address, th_trap := 14, th_error := ec\<rparr>"

text \<open>The end of a kernel that cannot go on: the signal is \<open>SIGKILL\<close>, or 0 when \<open>__die\<close> says so.\<close>

definition die :: "pfenv \<Rightarrow> u32 \<Rightarrow> u32 \<Rightarrow> pfstate \<Rightarrow> pfstate" where
  "die e address ec s =
     (let s = note_fault address ec s in s\<lparr>died := died s @ [if e_die e then 0 else SIGKILL]\<rparr>)"

definition pgtable_bad :: "pfenv \<Rightarrow> u32 \<Rightarrow> u32 \<Rightarrow> pfstate \<Rightarrow> pfstate" where
  "pgtable_bad e ec address s = die e address ec s"

definition no_context :: "pfenv \<Rightarrow> u32 \<Rightarrow> u32 \<Rightarrow> pfstate \<Rightarrow> pfstate" where
  "no_context e ec address s =
     (if e_exception_table e then s
      else if is_prefetch (e_probe e) (e_user e) (e_ip e) ec then s
      else die e address ec s)"

definition bad_area_nosemaphore_code :: "pfenv \<Rightarrow> u32 \<Rightarrow> u32 \<Rightarrow> int \<Rightarrow> pfstate \<Rightarrow> pfstate" where
  "bad_area_nosemaphore_code e ec address si_code s =
     (if bit ec PF_USER then
        (if is_prefetch (e_probe e) (e_user e) (e_ip e) ec then s
         else force_sig_info_fault SIGSEGV si_code address
                (note_fault address (if TASK_SIZE \<le> address then or ec 1 else ec) s))
      else if e_f00f e then s
      else no_context e ec address s)"

definition bad_area_nosemaphore :: "pfenv \<Rightarrow> u32 \<Rightarrow> u32 \<Rightarrow> pfstate \<Rightarrow> pfstate" where
  "bad_area_nosemaphore e ec address = bad_area_nosemaphore_code e ec address SEGV_MAPERR"

definition up_read :: "pfstate \<Rightarrow> pfstate" where
  "up_read s = s\<lparr>mmap_readers := mmap_readers s - 1\<rparr>"

definition bad_area_code :: "pfenv \<Rightarrow> u32 \<Rightarrow> u32 \<Rightarrow> int \<Rightarrow> pfstate \<Rightarrow> pfstate" where
  "bad_area_code e ec address si_code s = bad_area_nosemaphore_code e ec address si_code (up_read s)"

definition bad_area :: "pfenv \<Rightarrow> u32 \<Rightarrow> u32 \<Rightarrow> pfstate \<Rightarrow> pfstate" where
  "bad_area e ec address = bad_area_code e ec address SEGV_MAPERR"

definition bad_area_access_error :: "pfenv \<Rightarrow> u32 \<Rightarrow> u32 \<Rightarrow> pfstate \<Rightarrow> pfstate" where
  "bad_area_access_error e ec address = bad_area_code e ec address SEGV_ACCERR"

definition out_of_memory :: "pfstate \<Rightarrow> pfstate" where
  "out_of_memory s = (up_read s)\<lparr>oom_killed := True\<rparr>"

definition do_sigbus :: "pfenv \<Rightarrow> u32 \<Rightarrow> u32 \<Rightarrow> pfstate \<Rightarrow> pfstate" where
  "do_sigbus e ec address s =
     (let s = up_read s in
      if \<not> bit ec PF_USER then no_context e ec address s
      else if is_prefetch (e_probe e) (e_user e) (e_ip e) ec then s
      else force_sig_info_fault SIGBUS (if e_handle e = Fault_hwpoison then BUS_MCEERR_AR else BUS_ADRERR)
             address (note_fault address ec s))"

definition mm_fault_error :: "pfenv \<Rightarrow> u32 \<Rightarrow> u32 \<Rightarrow> pfstate \<Rightarrow> pfstate" where
  "mm_fault_error e ec address s =
     (if e_handle e = Fault_oom then
        (if \<not> bit ec PF_USER then no_context e ec address (up_read s) else out_of_memory s)
      else do_sigbus e ec address s)"

section \<open>Faults in kernel space\<close>

text \<open>The result is the state and whether the fault was dealt with; \<open>None\<close> is the \<open>BUG_ON\<close>.\<close>

definition vmalloc_fault :: "pfenv \<Rightarrow> u32 \<Rightarrow> pfstate \<Rightarrow> (pfstate \<times> bool) option" where
  "vmalloc_fault e address s =
     (if \<not> (fst (e_vmalloc e) \<le> address \<and> address < snd (e_vmalloc e)) then Some (s, False)
      else (case vmalloc_sync_one (e_ref_pgd e) (cur_pgd s) address of
              Sync_none \<Rightarrow> Some (s, False)
            | Sync_bug \<Rightarrow> None
            | Sync_ok pgd pmd \<Rightarrow> Some (s\<lparr>cur_pgd := pgd\<rparr>, e_pte_present e address)))"

definition spurious_fault_check :: "u32 \<Rightarrow> bool \<Rightarrow> bool \<Rightarrow> bool" where
  "spurious_fault_check ec wr ex = (\<not> (bit ec PF_WRITE \<and> \<not> wr) \<and> \<not> (bit ec PF_INSTR \<and> \<not> ex))"

text \<open>
  Entries of the directory are writable and executable in the kernel's part of the address
  space; a large entry carries the permissions of the page.
\<close>

definition spurious_fault :: "pfenv \<Rightarrow> u32 \<Rightarrow> u32 \<Rightarrow> bool" where
  "spurious_fault e ec address =
     (if bit ec PF_USER \<or> bit ec PF_RSVD then False
      else if e_ref_pgd e (pgd_index address) = None then False
      else if e_pmd_large e address then spurious_fault_check ec (e_pte_write e address) (e_pte_exec e address)
      else if \<not> e_pte_present e address then False
      else spurious_fault_check ec (e_pte_write e address) (e_pte_exec e address))"

definition notify_page_fault :: "pfenv \<Rightarrow> bool" where
  "notify_page_fault e = (\<not> e_user e \<and> e_kprobe e)"

definition fault_in_kernel_space :: "u32 \<Rightarrow> bool" where
  "fault_in_kernel_space address = (TASK_SIZE \<le> address)"

definition kernel_space_fault :: "pfenv \<Rightarrow> u32 \<Rightarrow> u32 \<Rightarrow> pfstate \<Rightarrow> pfstate option" where
  "kernel_space_fault e ec address s =
     (let rest = (\<lambda>s. if spurious_fault e ec address \<or> notify_page_fault e then Some s
                      else Some (bad_area_nosemaphore e ec address s)) in
      if bit ec PF_RSVD \<or> bit ec PF_USER \<or> bit ec PF_PROT then rest s
      else (case vmalloc_fault e address s of
              None \<Rightarrow> None
            | Some (s, True) \<Rightarrow> Some s
            | Some (s, False) \<Rightarrow> if e_kmemcheck e then Some s else rest s))"

section \<open>Faults in user space\<close>

definition access_error :: "u32 \<Rightarrow> bool \<Rightarrow> vma \<Rightarrow> bool" where
  "access_error ec wr v =
     (if wr then \<not> vm_write v
      else bit ec PF_PROT \<or> \<not> (vm_read v \<or> vm_exec v \<or> vm_write v))"

definition check_v8086_mode :: "pfenv \<Rightarrow> u32 \<Rightarrow> pfstate \<Rightarrow> pfstate" where
  "check_v8086_mode e address s =
     (let b = drop_bit PAGE_SHIFT (address - 0xA0000) in
      if e_v8086 e \<and> b < 32 then s\<lparr>screen_bitmap := or (screen_bitmap s) (push_bit (unat b) 1)\<rparr> else s)"

definition good_area :: "pfenv \<Rightarrow> u32 \<Rightarrow> u32 \<Rightarrow> vma \<Rightarrow> pfstate \<Rightarrow> pfstate" where
  "good_area e ec address v s =
     (if access_error ec (bit ec PF_WRITE) v then bad_area_access_error e ec address s
      else if e_handle e \<in> {Fault_oom, Fault_sigbus, Fault_hwpoison} then mm_fault_error e ec address s
      else
        (let s = (if e_handle e = Fault_major then s\<lparr>maj_flt := maj_flt s + 1\<rparr> else s\<lparr>min_flt := min_flt s + 1\<rparr>)
         in up_read (check_v8086_mode e address s)))"

text \<open>The part of \<open>do_page_fault\<close> that holds the lock on the memory map.\<close>

definition locked_fault :: "pfenv \<Rightarrow> u32 \<Rightarrow> u32 \<Rightarrow> pfstate \<Rightarrow> pfstate" where
  "locked_fault e ec address s =
     (case e_find_vma e of
        None \<Rightarrow> bad_area e ec address s
      | Some v \<Rightarrow>
          if vm_start v \<le> address then good_area e ec address v s
          else if \<not> vm_growsdown v then bad_area e ec address s
          else if bit ec PF_USER \<and> address + 65536 + 32 * 4 < e_sp e then bad_area e ec address s
          else if e_expand_fails e then bad_area e ec address s
          else good_area e ec address v s)"

definition user_space_fault :: "pfenv \<Rightarrow> u32 \<Rightarrow> u32 \<Rightarrow> pfstate \<Rightarrow> pfstate" where
  "user_space_fault e error_code address s =
     (if notify_page_fault e then s
      else
        (let ec = (if e_user e then or error_code 4 else error_code);
             s = (if bit ec PF_RSVD then pgtable_bad e ec address s else s) in
         if e_atomic e \<or> \<not> e_mm e then bad_area_nosemaphore e ec address s
         else if \<not> e_trylock e \<and> \<not> bit ec PF_USER \<and> \<not> e_exception_table e
         then bad_area_nosemaphore e ec address s
         else locked_fault e ec address (s\<lparr>mmap_readers := mmap_readers s + 1\<rparr>)))"

definition do_page_fault :: "pfenv \<Rightarrow> u32 \<Rightarrow> pfstate \<Rightarrow> pfstate option" where
  "do_page_fault e error_code s =
     (let s = s\<lparr>pfcount := pfcount s + 1\<rparr>; address = e_cr2 e in
      if e_kmmio e then Some s
      else if fault_in_kernel_space address then kernel_space_fault e error_code address s
      else Some (user_space_fault e error_code address s))"

text \<open>\<open>sys_do_pfcount\<close>: the time of day goes to the caller's structure, the count is returned.\<close>

definition sys_do_pfcount :: "int \<times> int \<Rightarrow> pfstate \<Rightarrow> (int \<times> int) \<times> u32" where
  "sys_do_pfcount now s = (now, pfcount s)"

section \<open>Prefetch instructions, specified\<close>

definition prefixes :: "byte list" where
  "prefixes = [0x26, 0x2E, 0x36, 0x3E, 0x64, 0x65, 0x66, 0x67, 0xF0, 0xF2, 0xF3]"

text \<open>
  \<open>prefetch_at probe n a\<close>: at \<open>a\<close> there are fewer than \<open>n\<close> legal prefix bytes and then one of the two
  prefetch opcodes.
\<close>

definition prefetch_at :: "(u32 \<Rightarrow> byte option) \<Rightarrow> nat \<Rightarrow> u32 \<Rightarrow> bool" where
  "prefetch_at probe n a \<longleftrightarrow> (\<exists>k < n. (\<forall>i < k. probe (a + of_nat i) \<in> Some ` set prefixes) \<and>
     probe (a + of_nat k) = Some 0x0F \<and> probe (a + of_nat k + 1) \<in> {Some 0x0D, Some 0x18})"

lemma byte_all:
  assumes "\<forall>n \<in> set [0..<256]. P (of_nat n :: byte)"
  shows "P b"
proof -
  have "unat b \<in> set [0..<256]" using unsigned_less [of b, where ?'a = nat] by simp
  with assms have "P (of_nat (unat b))" by blast
  then show ?thesis by simp
qed

text \<open>The high and low halves of an opcode sort all bytes into prefixes, two-byte opcodes and others.\<close>

definition opcode_class :: "byte \<Rightarrow> nat" where
  "opcode_class b =
     (let hi = and b 0xf0; lo = and b 0x0f in
      if hi = 0x20 \<or> hi = 0x30 then (if and lo 7 = 6 then 1 else 0)
      else if hi = 0x60 then (if and lo 0xC = 4 then 1 else 0)
      else if hi = 0xF0 then (if lo = 0 \<or> drop_bit 1 lo = 1 then 1 else 0)
      else if hi = 0 then (if lo = 0xF then 2 else 3)
      else 0)"

lemma opcode_class_eq:
  "opcode_class b = (if b \<in> set prefixes then 1 else if b = 0x0F then 2 else if b < 16 then 3 else 0)"
  by (rule byte_all [where b = b]) code_simp

lemma check_opcode_class:
  "check_prefetch_opcode probe instr b p =
     (if opcode_class b = 1 then (True, p)
      else if opcode_class b = 2 then
        (False, case probe instr of None \<Rightarrow> p | Some op2 \<Rightarrow> op2 = 0x0D \<or> op2 = 0x18)
      else if opcode_class b = 3 then (False, case probe instr of None \<Rightarrow> p | Some _ \<Rightarrow> False)
      else (False, p))"
  by (auto simp: check_prefetch_opcode_def opcode_class_def Let_def split: option.splits)

lemma prefetch_at_Suc:
  "prefetch_at probe (Suc n) a \<longleftrightarrow>
     probe a = Some 0x0F \<and> probe (a + 1) \<in> {Some 0x0D, Some 0x18} \<or>
     probe a \<in> Some ` set prefixes \<and> prefetch_at probe n (a + 1)"
proof
  assume "prefetch_at probe (Suc n) a"
  then obtain k where k: "k < Suc n" "\<forall>i < k. probe (a + of_nat i) \<in> Some ` set prefixes"
    "probe (a + of_nat k) = Some 0x0F" "probe (a + of_nat k + 1) \<in> {Some 0x0D, Some 0x18}"
    by (auto simp: prefetch_at_def)
  show "probe a = Some 0x0F \<and> probe (a + 1) \<in> {Some 0x0D, Some 0x18} \<or>
     probe a \<in> Some ` set prefixes \<and> prefetch_at probe n (a + 1)"
  proof (cases k)
    case 0
    with k(3,4) show ?thesis by simp
  next
    case (Suc j)
    have "probe (a + 1 + of_nat i) \<in> Some ` set prefixes" if "i < j" for i
      using k(2) [rule_format, of "Suc i"] that Suc by (simp add: ac_simps)
    moreover have "probe a \<in> Some ` set prefixes" using k(2) [rule_format, of 0] Suc by simp
    ultimately show ?thesis
      using k Suc unfolding prefetch_at_def by (intro disjI2 conjI exI [of _ j]) (auto simp: ac_simps)
  qed
next
  assume "probe a = Some 0x0F \<and> probe (a + 1) \<in> {Some 0x0D, Some 0x18} \<or>
     probe a \<in> Some ` set prefixes \<and> prefetch_at probe n (a + 1)"
  then show "prefetch_at probe (Suc n) a"
  proof (elim disjE conjE)
    assume "probe a = Some 0x0F" "probe (a + 1) \<in> {Some 0x0D, Some 0x18}"
    then show ?thesis unfolding prefetch_at_def by (intro exI [of _ 0]) simp
  next
    assume a: "probe a \<in> Some ` set prefixes" and "prefetch_at probe n (a + 1)"
    then obtain k where k: "k < n" "\<forall>i < k. probe (a + 1 + of_nat i) \<in> Some ` set prefixes"
      "probe (a + 1 + of_nat k) = Some 0x0F" "probe (a + 1 + of_nat k + 1) \<in> {Some 0x0D, Some 0x18}"
      by (auto simp: prefetch_at_def)
    have "probe (a + of_nat i) \<in> Some ` set prefixes" if "i < Suc k" for i
      using a k(2) that by (cases i) (simp_all add: ac_simps)
    then show ?thesis
      using k unfolding prefetch_at_def by (intro exI [of _ "Suc k"]) (simp add: ac_simps)
  qed
qed

lemma prefetch_loop_spec: "prefetch_loop probe n a False = prefetch_at probe n a"
proof (induction n arbitrary: a)
  case 0
  then show ?case by (simp add: prefetch_at_def)
next
  case (Suc n)
  have pre: "(0x0F :: byte) \<notin> set prefixes" by (simp add: prefixes_def)
  show ?case
  proof (cases "probe a")
    case None
    then show ?thesis by (simp add: prefetch_at_Suc)
  next
    case (Some b)
    then show ?thesis
      using Suc pre
      by (auto simp: prefetch_at_Suc check_opcode_class opcode_class_eq split: option.splits)
  qed
qed

section \<open>Properties\<close>

text \<open>
  C25: the scan for prefetch instructions recognises exactly the instructions that consist of fewer
  than 15 legal prefix bytes followed by one of the two prefetch opcodes; it is not fooled by
  other opcodes, and never takes an instruction fetch or a user-mode address in kernel space for one.
\<close>

theorem is_prefetch_exact:
  "is_prefetch probe user ip ec \<longleftrightarrow>
     \<not> bit ec PF_INSTR \<and> \<not> (user \<and> TASK_SIZE \<le> ip) \<and> ip < ip + 15 \<and>
     (\<exists>k < 15. (\<forall>i < k. probe (ip + of_nat i) \<in> Some ` set prefixes) \<and>
        probe (ip + of_nat k) = Some 0x0F \<and> probe (ip + of_nat k + 1) \<in> {Some 0x0D, Some 0x18})"
  unfolding is_prefetch_def prefetch_loop_spec prefetch_at_def by simp

theorem is_prefetch_exact_witness:
  "is_prefetch (\<lambda>a. if a = 4096 then Some 0xF3 else if a = 4097 then Some 0x0F
     else if a = 4098 then Some 0x18 else None) True 4096 4"
proof -
  let ?p = "\<lambda>a :: u32. if a = 4096 then Some 0xF3 else if a = 4097 then Some 0x0F
     else if a = 4098 then Some 0x18 else None :: byte option"
  have "\<exists>k < 15. (\<forall>i < k. ?p (4096 + of_nat i) \<in> Some ` set prefixes) \<and>
        ?p (4096 + of_nat k) = Some 0x0F \<and> ?p (4096 + of_nat k + 1) \<in> {Some 0x0D, Some 0x18}"
    by (intro exI [of _ 1]) (simp add: prefixes_def)
  moreover have "\<not> bit (4 :: u32) PF_INSTR" by (simp add: PF_INSTR_def bit_numeral_rec)
  ultimately show ?thesis
    unfolding is_prefetch_exact by (simp add: TASK_SIZE_def)
qed

text \<open>What the error paths leave alone.\<close>

definition same_counts :: "pfstate \<Rightarrow> pfstate \<Rightarrow> bool" where
  "same_counts s s' \<longleftrightarrow> pfcount s' = pfcount s \<and> maj_flt s' = maj_flt s \<and> min_flt s' = min_flt s"

lemma die_frame [simp]:
  "same_counts s (die e a ec s)" "mmap_readers (die e a ec s) = mmap_readers s" "signals (die e a ec s) = signals s"
  by (simp_all add: die_def note_fault_def same_counts_def Let_def)

lemma no_context_frame [simp]:
  "same_counts s (no_context e ec a s)" "mmap_readers (no_context e ec a s) = mmap_readers s"
  using die_frame [where s = s] by (auto simp: no_context_def same_counts_def)

lemma bad_area_frame [simp]:
  "same_counts s (bad_area_nosemaphore_code e ec a c s)"
  "mmap_readers (bad_area_nosemaphore_code e ec a c s) = mmap_readers s"
  using no_context_frame [where s = s]
  by (auto simp: bad_area_nosemaphore_code_def same_counts_def note_fault_def force_sig_info_fault_def)

lemma up_read_frame [simp]:
  "same_counts s (up_read s)" "mmap_readers (up_read s) = mmap_readers s - 1"
  by (simp_all add: up_read_def same_counts_def)

lemma same_counts_trans: "same_counts s t \<Longrightarrow> same_counts t u \<Longrightarrow> same_counts s u"
  by (simp add: same_counts_def)

lemma bad_area_code_frame [simp]:
  "same_counts s (bad_area_code e ec a c s)"
  "mmap_readers (bad_area_code e ec a c s) = mmap_readers s - 1"
  unfolding bad_area_code_def
  by (rule same_counts_trans [OF up_read_frame(1) bad_area_frame(1)]) simp

lemma mm_fault_error_frame [simp]:
  "same_counts s (mm_fault_error e ec a s)" "mmap_readers (mm_fault_error e ec a s) = mmap_readers s - 1"
proof -
  have n: "same_counts s (no_context e ec a (up_read s))"
    by (rule same_counts_trans [OF up_read_frame(1) no_context_frame(1)])
  have u: "same_counts s (up_read s)" by simp
  show "same_counts s (mm_fault_error e ec a s)"
    using n u by (auto simp: mm_fault_error_def do_sigbus_def out_of_memory_def Let_def same_counts_def
        note_fault_def force_sig_info_fault_def)
  show "mmap_readers (mm_fault_error e ec a s) = mmap_readers s - 1"
    by (simp add: mm_fault_error_def do_sigbus_def out_of_memory_def Let_def note_fault_def
        force_sig_info_fault_def)
qed

text \<open>Exactly one of the two counters of handled faults grows, or none.\<close>

definition counted_once :: "pfstate \<Rightarrow> pfstate \<Rightarrow> bool" where
  "counted_once s s' \<longleftrightarrow> (maj_flt s', min_flt s') \<in>
     {(maj_flt s, min_flt s), (maj_flt s + 1, min_flt s), (maj_flt s, min_flt s + 1)}"

lemma good_area_frame:
  "pfcount (good_area e ec a v s) = pfcount s" "counted_once s (good_area e ec a v s)"
  "mmap_readers (good_area e ec a v s) = mmap_readers s - 1"
  using bad_area_code_frame [where s = s] mm_fault_error_frame [where s = s]
  by (auto simp: good_area_def bad_area_access_error_def counted_once_def same_counts_def check_v8086_mode_def
      up_read_def Let_def)

lemma locked_fault_frame:
  "pfcount (locked_fault e ec a s) = pfcount s" "counted_once s (locked_fault e ec a s)"
  "mmap_readers (locked_fault e ec a s) = mmap_readers s - 1"
  using bad_area_code_frame [where s = s] good_area_frame [where s = s]
  by (auto simp: locked_fault_def bad_area_def same_counts_def counted_once_def split: option.split)

lemma user_space_fault_frame:
  "pfcount (user_space_fault e ec a s) = pfcount s \<and> counted_once s (user_space_fault e ec a s) \<and>
   mmap_readers (user_space_fault e ec a s) = mmap_readers s"
proof -
  define ec' where "ec' = (if e_user e then or ec 4 else ec)"
  define t where "t = (if bit ec' PF_RSVD then pgtable_bad e ec' a s else s)"
  have t: "same_counts s t" "mmap_readers t = mmap_readers s"
    by (simp_all add: t_def pgtable_bad_def) (simp add: same_counts_def)
  have run: "user_space_fault e ec a s = (if notify_page_fault e then s
      else if e_atomic e \<or> \<not> e_mm e then bad_area_nosemaphore e ec' a t
      else if \<not> e_trylock e \<and> \<not> bit ec' PF_USER \<and> \<not> e_exception_table e then bad_area_nosemaphore e ec' a t
      else locked_fault e ec' a (t\<lparr>mmap_readers := mmap_readers t + 1\<rparr>))"
    by (simp add: user_space_fault_def ec'_def [symmetric] t_def [symmetric] Let_def)
  show ?thesis
    using t bad_area_frame [where s = t] locked_fault_frame [where s = "t\<lparr>mmap_readers := mmap_readers t + 1\<rparr>"]
    unfolding run by (auto simp: bad_area_nosemaphore_def same_counts_def counted_once_def)
qed

lemma kernel_space_fault_frame:
  "kernel_space_fault e ec a s = Some s' \<Longrightarrow> same_counts s s' \<and> mmap_readers s' = mmap_readers s"
  using bad_area_frame
  by (fastforce simp: kernel_space_fault_def vmalloc_fault_def bad_area_nosemaphore_def Let_def same_counts_def
      split: if_splits option.splits sync.splits bool.splits)

text \<open>A number of faults, one after the other, that the kernel survives.\<close>

inductive faults :: "nat \<Rightarrow> pfstate \<Rightarrow> pfstate \<Rightarrow> bool" where
  faults_0: "faults 0 s s"
| faults_Suc: "faults n s t \<Longrightarrow> do_page_fault e ec t = Some u \<Longrightarrow> faults (Suc n) s u"

lemma do_page_fault_frame:
  assumes "do_page_fault e ec s = Some s'"
  shows "pfcount s' = pfcount s + 1 \<and> counted_once s s' \<and> mmap_readers s' = mmap_readers s"
proof -
  let ?s = "s\<lparr>pfcount := pfcount s + 1\<rparr>"
  show ?thesis
    using assms kernel_space_fault_frame [of e ec "e_cr2 e" ?s s'] user_space_fault_frame [of e ec "e_cr2 e" ?s]
    by (auto simp: do_page_fault_def Let_def same_counts_def counted_once_def split: if_splits)
qed

text \<open>
  C9: \<open>pfcount\<close>, and with it the result of \<open>sys_do_pfcount\<close>, grows by exactly one for every page fault,
  whatever becomes of the fault (modulo the width of the counter); each fault is counted at most
  once among the handled faults of the process, and every path through the handler releases the
  lock on the memory map that it took. Faults are handled one after the other here: \<open>pfcount++\<close> is not
  atomic, and on several processors counts can be lost.
\<close>

theorem page_fault_accounting:
  assumes "faults n s s'"
  shows "snd (sys_do_pfcount now' s') - snd (sys_do_pfcount now s) = of_nat n \<and>
    mmap_readers s' = mmap_readers s \<and>
    (n = 1 \<longrightarrow> (maj_flt s', min_flt s') \<in>
       {(maj_flt s, min_flt s), (maj_flt s + 1, min_flt s), (maj_flt s, min_flt s + 1)})"
proof -
  have "pfcount s' = pfcount s + of_nat n \<and> mmap_readers s' = mmap_readers s \<and> (n \<le> 1 \<longrightarrow> counted_once s s')"
    using assms
  proof (induction rule: faults.induct)
    case (faults_0 s)
    then show ?case by (simp add: counted_once_def)
  next
    case (faults_Suc n s t e ec u)
    have "t = s" if "n = 0" using faults_Suc.hyps(1) that by (cases rule: faults.cases) auto
    then show ?case using faults_Suc do_page_fault_frame [OF faults_Suc.hyps(2)] by (auto simp: ac_simps)
  qed
  then show ?thesis by (simp add: sys_do_pfcount_def counted_once_def)
qed

text \<open>A user process touches an unmapped address.\<close>

definition segv_env :: pfenv where
  "segv_env = \<lparr>e_cr2 = 8, e_user = True, e_ip = 4096, e_sp = 0xBFFF0000, e_probe = (\<lambda>_. None), e_v8086 = False,
     e_kmmio = False, e_kmemcheck = False, e_kprobe = False, e_ref_pgd = Map.empty,
     e_vmalloc = (0xF8000000, 0xFF000000), e_pte_present = (\<lambda>_. False), e_pmd_large = (\<lambda>_. False),
     e_pte_write = (\<lambda>_. False), e_pte_exec = (\<lambda>_. False), e_atomic = False, e_mm = True, e_trylock = True,
     e_exception_table = False, e_find_vma = None, e_expand_fails = False, e_handle = Fault_minor,
     e_f00f = False, e_die = False\<rparr>"

definition start_state :: pfstate where
  "start_state = \<lparr>pfcount = 41, maj_flt = 0, min_flt = 0, mmap_readers = 0, cur_pgd = Map.empty, th_cr2 = 0,
     th_error = 0, th_trap = 0, screen_bitmap = 0, signals = [], died = [], oom_killed = False\<rparr>"

lemma segv_env_run: "\<exists>s'. do_page_fault segv_env 4 start_state = Some s'"
  by (simp add: do_page_fault_def segv_env_def fault_in_kernel_space_def TASK_SIZE_def)

theorem page_fault_accounting_witness:
  "\<exists>s'. do_page_fault segv_env 4 start_state = Some s' \<and>
     snd (sys_do_pfcount (0, 0) s') - snd (sys_do_pfcount (0, 0) start_state) = 1"
proof -
  obtain s' where s': "do_page_fault segv_env 4 start_state = Some s'" using segv_env_run by blast
  from page_fault_accounting [OF faults_Suc [OF faults_0 s'], of "(0, 0)" "(0, 0)"] s' show ?thesis by simp
qed

text \<open>
  A user-mode access to an address that is not mapped, or whose mapping forbids the access,
  sends the process exactly one \<open>SIGSEGV\<close> that names the address and tells the two cases apart; the
  kernel does not die and no fault is counted as handled.
\<close>

theorem user_bad_access_segv:
  assumes "e_user e" and "\<not> e_kmmio e" and "\<not> fault_in_kernel_space (e_cr2 e)" and "\<not> bit ec PF_RSVD"
    and "\<not> is_prefetch (e_probe e) True (e_ip e) (or ec 4)"
    and "\<not> e_atomic e" and "e_mm e"
    and "e_find_vma e = None \<and> code = SEGV_MAPERR \<or>
      (\<exists>v. e_find_vma e = Some v \<and> vm_start v \<le> e_cr2 e \<and> access_error (or ec 4) (bit ec PF_WRITE) v \<and>
         code = SEGV_ACCERR)"
  shows "\<exists>s'. do_page_fault e ec s = Some s' \<and> signals s' = signals s @ [(SIGSEGV, code, e_cr2 e)] \<and>
    died s' = died s \<and> maj_flt s' = maj_flt s \<and> min_flt s' = min_flt s \<and> th_cr2 s' = e_cr2 e"
proof -
  have b: "bit (or ec 4) PF_USER" "\<not> bit (or ec 4) PF_RSVD" "bit (or ec 4) PF_WRITE = bit ec PF_WRITE"
    using assms(4) by (simp_all add: bit_or_iff PF_USER_def PF_RSVD_def PF_WRITE_def bit_numeral_rec)
  define t where "t = s\<lparr>pfcount := pfcount s + 1, mmap_readers := mmap_readers s + 1\<rparr>"
  have run: "do_page_fault e ec s = Some (locked_fault e (or ec 4) (e_cr2 e) t)"
    using assms b
    by (simp add: do_page_fault_def user_space_fault_def notify_page_fault_def Let_def t_def)
  have "locked_fault e (or ec 4) (e_cr2 e) t = bad_area_code e (or ec 4) (e_cr2 e) code t"
    using assms(8) b
    by (auto simp: locked_fault_def bad_area_def good_area_def bad_area_access_error_def)
  then show ?thesis
    using run assms(1,5) b
    by (simp add: bad_area_code_def bad_area_nosemaphore_code_def force_sig_info_fault_def note_fault_def up_read_def
        t_def)
qed

theorem user_bad_access_segv_witness:
  "\<exists>s'. do_page_fault segv_env 4 start_state = Some s' \<and> signals s' = [(SIGSEGV, SEGV_MAPERR, 8)] \<and> died s' = []"
proof -
  have "\<not> is_prefetch (e_probe segv_env) True (e_ip segv_env) (or 4 4)"
    by (simp add: is_prefetch_def segv_env_def numeral_eq_Suc)
  moreover have "\<not> bit (4 :: u32) PF_RSVD" by (simp add: PF_RSVD_def bit_numeral_rec)
  ultimately show ?thesis
    using user_bad_access_segv [of segv_env 4 SEGV_MAPERR start_state]
    by (auto simp: segv_env_def start_state_def fault_in_kernel_space_def TASK_SIZE_def)
qed

end
