(* ===== verification/KernelTables.thy ===== *)
theory KernelTables
  imports PageFault CString
begin

text \<open>
  The rest of \<open>src/5/kernel/fault.c\<close>: bringing the page tables of all processes up to date with the kernel's
  (\<open>vmalloc_sync_all\<close>, 32-bit and 64-bit), the 64-bit \<open>vmalloc_fault\<close>, the printing of page tables and faults, and the checks
  for processor errata. What \<open>printk\<close> prints is a list of items, without log levels.
\<close>

type_synonym u64 = "64 word"

section \<open>Synchronising all page directories, 32-bit\<close>

text \<open>
  \<open>PMD_SIZE\<close> is that of a machine without PAE, as in \<open>PageFault\<close>. The list of page directories is walked until
  \<open>vmalloc_sync_one\<close> finds no entry in the reference directory; \<open>None\<close> is its \<open>BUG_ON\<close>.
\<close>

definition PMD_SIZE :: u32 where "PMD_SIZE = 0x400000"

fun sync_list :: "pgdir \<Rightarrow> u32 \<Rightarrow> pgdir list \<Rightarrow> pgdir list option" where
  "sync_list ref address [] = Some []"
| "sync_list ref address (pgd # pgds) =
     (case vmalloc_sync_one ref pgd address of
        Sync_none \<Rightarrow> Some (pgd # pgds)
      | Sync_bug \<Rightarrow> None
      | Sync_ok pgd' _ \<Rightarrow> map_option ((#) pgd') (sync_list ref address pgds))"

lemma next_address:
  assumes "TASK_SIZE \<le> a"
  shows "a + PMD_SIZE < TASK_SIZE \<or> unat (a + PMD_SIZE) = unat a + 0x400000 \<and> unat a + 0x400000 < 2 ^ 32"
proof (cases "unat a + 0x400000 < 2 ^ 32")
  case True
  then show ?thesis by (simp add: PMD_SIZE_def unat_word_ariths)
next
  case False
  have "unat a < 2 ^ 32" using unsigned_less [of a, where ?'a = nat] by simp
  with False have "unat (a + PMD_SIZE) = unat a + 0x400000 - 2 ^ 32"
    by (simp add: PMD_SIZE_def unat_word_ariths mod_if)
  with \<open>unat a < 2 ^ 32\<close> show ?thesis by (intro disjI1) (simp add: word_less_nat_alt TASK_SIZE_def)
qed

function sync_loop :: "pgdir \<Rightarrow> u32 \<Rightarrow> u32 \<Rightarrow> pgdir list \<Rightarrow> pgdir list option" where
  "sync_loop ref fixaddr_top address pgds =
     (if TASK_SIZE \<le> address \<and> address < fixaddr_top then
        (case sync_list ref address pgds of
           None \<Rightarrow> None
         | Some pgds \<Rightarrow> sync_loop ref fixaddr_top (address + PMD_SIZE) pgds)
      else Some pgds)"
  by pat_completeness auto

termination
proof (relation "measure (\<lambda>(ref, lim, a, pgds). if TASK_SIZE \<le> a then 2 ^ 32 - unat a else 0)")
  fix ref and lim :: u32 and a :: u32 and pgds x2
  assume a: "TASK_SIZE \<le> a \<and> a < lim"
  have "unat a < 2 ^ 32" using unsigned_less [of a, where ?'a = nat] by simp
  with next_address [of a] a
  show "((ref, lim, a + PMD_SIZE, x2), (ref, lim, a, pgds)) \<in> measure (\<lambda>(ref, lim, a, pgds). if TASK_SIZE \<le> a then 2 ^ 32 - unat a else 0)"
    by (auto simp: not_le)
qed simp

declare sync_loop.simps [simp del]

definition vmalloc_sync_all :: "bool \<Rightarrow> u32 \<Rightarrow> u32 \<Rightarrow> pgdir \<Rightarrow> pgdir list \<Rightarrow> pgdir list option" where
  "vmalloc_sync_all shared_kernel_pmd vmalloc_start fixaddr_top ref pgds =
     (if shared_kernel_pmd then Some pgds
      else sync_loop ref fixaddr_top (and vmalloc_start (not (PMD_SIZE - 1))) pgds)"

text \<open>The entries the loop visits from \<open>a\<close> on, and what it makes of a directory.\<close>

definition slots :: "u32 \<Rightarrow> u32 \<Rightarrow> u32 set" where
  "slots a lim = {i. unat a \<le> 0x400000 * unat i \<and> 0x400000 * unat i < unat lim}"

definition synced :: "pgdir \<Rightarrow> u32 set \<Rightarrow> pgdir \<Rightarrow> pgdir" where
  "synced ref S pgd = (\<lambda>i. if i \<in> S \<and> ref i \<noteq> None then ref i else pgd i)"

definition agrees :: "pgdir \<Rightarrow> u32 set \<Rightarrow> pgdir \<Rightarrow> bool" where
  "agrees ref S pgd \<longleftrightarrow> (\<forall>i \<in> S. ref i = None \<or> pgd i = None \<or> pgd i = ref i)"

lemma sync_list_exact:
  assumes "\<forall>pgd \<in> set pgds. agrees ref {pgd_index a} pgd"
  shows "sync_list ref a pgds = Some (map (synced ref {pgd_index a}) pgds)"
proof (cases "ref (pgd_index a)")
  case None
  then have "synced ref {pgd_index a} = id" by (auto simp: synced_def fun_eq_iff)
  with None show ?thesis by (cases pgds) (simp_all add: vmalloc_sync_one_def)
next
  case (Some v)
  have "vmalloc_sync_one ref pgd a = Sync_ok (synced ref {pgd_index a} pgd) v" if "agrees ref {pgd_index a} pgd" for pgd
    using that Some by (auto simp: vmalloc_sync_one_def synced_def agrees_def split: option.splits)
  with assms show ?thesis by (induction pgds) auto
qed

lemma slots_next:
  assumes "TASK_SIZE \<le> a" "a < lim" "unat a mod 0x400000 = 0"
  shows "slots a lim = insert (pgd_index a) (if TASK_SIZE \<le> a + PMD_SIZE then slots (a + PMD_SIZE) lim else {})"
proof -
  have "unat (pgd_index a) = unat a div 0x400000"
    by (simp add: pgd_index_def drop_bit_eq_div unat_div_distrib)
  with assms(3) have j: "0x400000 * unat (pgd_index a) = unat a"
    using div_mult_mod_eq [of "unat a" "0x400000"] by simp
  have i: "i = pgd_index a" if "0x400000 * unat i = unat a" for i :: u32
    using that j by (metis mult_left_cancel unsigned_word_eqI zero_neq_numeral)
  have lim: "unat lim < 2 ^ 32" using unsigned_less [of lim, where ?'a = nat] by simp
  have next_slot: "unat a \<le> 0x400000 * unat i \<longleftrightarrow> 0x400000 * unat i = unat a \<or> unat a + 0x400000 \<le> 0x400000 * unat i" for i :: u32
  proof -
    have "0x400000 * u + 0x400000 \<le> 0x400000 * k \<longleftrightarrow> u < k" for u k :: nat by (rule iffI) linarith+
    then show ?thesis unfolding j [symmetric] by auto
  qed
  show ?thesis
  proof (cases "TASK_SIZE \<le> a + PMD_SIZE")
    case True
    with next_address [OF assms(1)] have "unat (a + PMD_SIZE) = unat a + 0x400000" by (auto simp: not_le)
    with True j assms(2) show ?thesis
      by (auto simp: slots_def next_slot word_less_nat_alt dest: i)
  next
    case False
    have "2 ^ 32 \<le> unat a + 0x400000"
      using False assms(1) by (auto simp: PMD_SIZE_def unat_word_ariths word_le_nat_alt TASK_SIZE_def not_le mod_if split: if_splits)
    with False j assms(2) lim show ?thesis
      by (auto simp: slots_def next_slot word_less_nat_alt dest: i)
  qed
qed

lemma synced_union: "synced ref A (synced ref B pgd) = synced ref (A \<union> B) pgd"
  by (auto simp: synced_def)

lemma agrees_synced: "agrees ref S pgd \<Longrightarrow> agrees ref S (synced ref T pgd)"
  by (auto simp: agrees_def synced_def)

lemma agrees_mono: "agrees ref S pgd \<Longrightarrow> T \<subseteq> S \<Longrightarrow> agrees ref T pgd"
  unfolding agrees_def by blast

lemma slots_step_aligned:
  assumes "unat a mod 0x400000 = 0" "unat (a + PMD_SIZE) = unat a + 0x400000"
  shows "unat (a + PMD_SIZE) mod 0x400000 = 0"
  using assms by simp

lemma sync_loop_exact:
  assumes "TASK_SIZE \<le> a" "unat a mod 0x400000 = 0" "\<forall>pgd \<in> set pgds. agrees ref (slots a lim) pgd"
  shows "sync_loop ref lim a pgds = Some (map (synced ref (slots a lim)) pgds)"
  using assms
proof (induction ref lim a pgds rule: sync_loop.induct)
  case (1 ref lim a pgds)
  show ?case
  proof (cases "a < lim")
    case False
    then have "slots a lim = {}" by (auto simp: slots_def word_less_nat_alt)
    then have "synced ref (slots a lim) = id" by (auto simp: synced_def fun_eq_iff)
    with False show ?thesis by (subst sync_loop.simps) simp
  next
    case True
    note sl = slots_next [OF 1(2) True 1(3)]
    let ?p = "map (synced ref {pgd_index a}) pgds"
    have l: "sync_list ref a pgds = Some ?p"
    proof (rule sync_list_exact, rule ballI)
      fix pgd assume "pgd \<in> set pgds"
      moreover have "{pgd_index a} \<subseteq> slots a lim" by (subst sl) blast
      ultimately show "agrees ref {pgd_index a} pgd" using 1(4) agrees_mono by blast
    qed
    have s: "sync_loop ref lim a pgds = sync_loop ref lim (a + PMD_SIZE) ?p"
      using True 1(2) l by (subst sync_loop.simps) simp
    show ?thesis
    proof (cases "TASK_SIZE \<le> a + PMD_SIZE")
      case False
      then have "sync_loop ref lim (a + PMD_SIZE) ?p = Some ?p" by (subst sync_loop.simps) simp
      moreover have "slots a lim = {pgd_index a}" by (subst sl) (use False in simp)
      ultimately show ?thesis using s by simp
    next
      case t: True
      with next_address [OF 1(2)] have "unat (a + PMD_SIZE) = unat a + 0x400000" by (auto simp: not_le)
      with 1(3) have al: "unat (a + PMD_SIZE) mod 0x400000 = 0" by (rule slots_step_aligned)
      have "\<forall>pgd \<in> set ?p. agrees ref (slots (a + PMD_SIZE) lim) pgd"
      proof -
        have "slots (a + PMD_SIZE) lim \<subseteq> slots a lim" by (subst sl) (use t in auto)
        with 1(4) have "\<forall>pgd \<in> set pgds. agrees ref (slots (a + PMD_SIZE) lim) pgd" using agrees_mono by blast
        then show ?thesis by (simp add: agrees_synced)
      qed
      with 1(1) [OF _ l t al] True 1(2) s
      have "sync_loop ref lim a pgds = Some (map (synced ref (slots (a + PMD_SIZE) lim)) ?p)" by simp
      also have "\<dots> = Some (map (synced ref (slots a lim)) pgds)"
        by (subst sl) (use t in \<open>simp add: synced_union Un_commute\<close>)
      finally show ?thesis .
    qed
  qed
qed

lemma align_down:
  fixes a :: u32
  assumes "TASK_SIZE \<le> a"
  shows "unat (and a (not (PMD_SIZE - 1))) mod 0x400000 = 0 \<and> TASK_SIZE \<le> and a (not (PMD_SIZE - 1))"
proof -
  have m: "PMD_SIZE - 1 = mask 22" by (simp add: PMD_SIZE_def mask_eq_exp_minus_1)
  have "and a (not (mask 22)) = push_bit 22 (drop_bit 22 a)"
    by (rule bit_word_eqI) (auto simp: bit_simps)
  moreover have "unat (push_bit 22 (drop_bit 22 a)) = 0x400000 * (unat a div 0x400000)"
  proof -
    have "unat a < 2 ^ 32" using unsigned_less [of a, where ?'a = nat] by simp
    then have "unat a div 0x400000 < 2 ^ 10" by (simp add: less_mult_imp_div_less)
    then show ?thesis
      by (simp add: push_bit_eq_mult drop_bit_eq_div unat_word_ariths unat_div_distrib)
  qed
  ultimately have u: "unat (and a (not (PMD_SIZE - 1))) = 0x400000 * (unat a div 0x400000)" using m by simp
  have "(0xC0000000 :: nat) div 0x400000 \<le> unat a div 0x400000"
    using assms by (intro div_le_mono) (simp add: word_le_nat_alt TASK_SIZE_def)
  then show ?thesis unfolding word_le_nat_alt u by (simp add: TASK_SIZE_def)
qed

text \<open>
  C10: After \<open>vmalloc_sync_all\<close> every page directory has the entries of the reference directory, from the start of
  the vmalloc area to the fixed mappings, wherever the reference directory has one; all other entries are as before. The
  loop ends although its address can wrap around at the end of the address space, and no \<open>BUG_ON\<close> is reached,
  provided that no directory had a different entry there.
\<close>

theorem vmalloc_sync_all_exact:
  assumes "TASK_SIZE \<le> vmalloc_start"
    "\<forall>pgd \<in> set pgds. agrees ref (slots (and vmalloc_start (not (PMD_SIZE - 1))) fixaddr_top) pgd"
  shows "vmalloc_sync_all False vmalloc_start fixaddr_top ref pgds =
    Some (map (synced ref (slots (and vmalloc_start (not (PMD_SIZE - 1))) fixaddr_top)) pgds)"
  using sync_loop_exact [of "and vmalloc_start (not (PMD_SIZE - 1))" pgds ref fixaddr_top] align_down [OF assms(1)] assms(2)
  by (simp add: vmalloc_sync_all_def)

theorem vmalloc_sync_all_exact_witness:
  "vmalloc_sync_all False 0xFF801000 0xFFFFF000 [0x3FE \<mapsto> 7, 0x3FF \<mapsto> 8] [[0 \<mapsto> 1], [0x3FF \<mapsto> 8]] =
    Some (map (synced [0x3FE \<mapsto> 7, 0x3FF \<mapsto> 8] (slots 0xFF800000 0xFFFFF000)) [[0 \<mapsto> 1], [0x3FF \<mapsto> 8]])"
proof -
  have a: "and 0xFF801000 (not (PMD_SIZE - 1)) = (0xFF800000 :: u32)" by (simp add: PMD_SIZE_def)
  have "\<forall>pgd \<in> set [[0 \<mapsto> 1], [0x3FF \<mapsto> 8]]. agrees [0x3FE \<mapsto> 7, 0x3FF \<mapsto> 8] (slots 0xFF800000 0xFFFFF000) pgd"
    by (auto simp: agrees_def slots_def)
  with vmalloc_sync_all_exact [of "0xFF801000" "[[0 \<mapsto> 1], [0x3FF \<mapsto> 8]]" "[0x3FE \<mapsto> 7, 0x3FF \<mapsto> 8]" "0xFFFFF000"] a
  show ?thesis by (simp add: TASK_SIZE_def)
qed

section \<open>Page tables of four levels\<close>

text \<open>
  The operations on entries and tables that the architecture's headers define: whether an entry is empty, present or maps a
  large page, the frame it points to (\<open>pgd_page_vaddr\<close>, \<open>pud_page_vaddr\<close>, \<open>pmd_page\<close>, \<open>pte_pfn\<close>), and the addresses of the entries of
  the four levels: in a top-level table, and in the table an entry points to. Memory maps the addresses of entries to
  entries. \<open>walk_laws\<close> is what the code relies on: an entry of the next level is found through the frame alone.
\<close>

record arch =
  ar_none :: "u64 \<Rightarrow> bool"
  ar_present :: "u64 \<Rightarrow> bool"
  ar_large :: "u64 \<Rightarrow> bool"
  ar_page :: "u64 \<Rightarrow> u64"
  pgd_offset :: "u64 \<Rightarrow> u64 \<Rightarrow> u64"
  pud_offset :: "u64 \<Rightarrow> u64 \<Rightarrow> u64"
  pmd_offset :: "u64 \<Rightarrow> u64 \<Rightarrow> u64"
  pte_offset :: "u64 \<Rightarrow> u64 \<Rightarrow> u64"

definition walk_laws :: "arch \<Rightarrow> bool" where
  "walk_laws A \<longleftrightarrow> (\<forall>v v' a. ar_page A v = ar_page A v' \<longrightarrow>
     pud_offset A v a = pud_offset A v' a \<and> pmd_offset A v a = pmd_offset A v' a \<and> pte_offset A v a = pte_offset A v' a)"

type_synonym mem64 = "u64 \<Rightarrow> u64"

datatype vres = V_bug | V_ret mem64 bool

text \<open>
  The 64-bit \<open>vmalloc_fault\<close>. \<open>True\<close> stands for the return value 0, \<open>False\<close> for -1.
\<close>

definition vmalloc_fault64 :: "arch \<Rightarrow> u64 \<times> u64 \<Rightarrow> u64 \<Rightarrow> u64 \<Rightarrow> u64 \<Rightarrow> mem64 \<Rightarrow> vres" where
  "vmalloc_fault64 A vmalloc init_pgd active_pgd address mem =
     (if \<not> (fst vmalloc \<le> address \<and> address < snd vmalloc) then V_ret mem False
      else
        (let pgd = pgd_offset A active_pgd address; pgd_ref = pgd_offset A init_pgd address in
         if ar_none A (mem pgd_ref) then V_ret mem False
         else if \<not> ar_none A (mem pgd) \<and> ar_page A (mem pgd) \<noteq> ar_page A (mem pgd_ref) then V_bug
         else
           (let mem = (if ar_none A (mem pgd) then mem(pgd := mem pgd_ref) else mem);
                pud = pud_offset A (mem pgd) address; pud_ref = pud_offset A (mem pgd_ref) address in
            if ar_none A (mem pud_ref) then V_ret mem False
            else if ar_none A (mem pud) \<or> ar_page A (mem pud) \<noteq> ar_page A (mem pud_ref) then V_bug
            else
              (let pmd = pmd_offset A (mem pud) address; pmd_ref = pmd_offset A (mem pud_ref) address in
               if ar_none A (mem pmd_ref) then V_ret mem False
               else if ar_none A (mem pmd) \<or> ar_page A (mem pmd) \<noteq> ar_page A (mem pmd_ref) then V_bug
               else
                 (let pte_ref = pte_offset A (mem pmd_ref) address; pte = pte_offset A (mem pmd) address in
                  if \<not> ar_present A (mem pte_ref) then V_ret mem False
                  else if \<not> ar_present A (mem pte) \<or> ar_page A (mem pte) \<noteq> ar_page A (mem pte_ref) then V_bug
                  else V_ret mem True)))))"

text \<open>The entry for a page that a walk from a top-level table finds.\<close>

definition mapped :: "arch \<Rightarrow> mem64 \<Rightarrow> u64 \<Rightarrow> u64 \<Rightarrow> u64 option" where
  "mapped A mem base address =
     (let pgd = mem (pgd_offset A base address); pud = mem (pud_offset A pgd address);
          pmd = mem (pmd_offset A pud address); pte = mem (pte_offset A pmd address)
      in if ar_none A pgd \<or> ar_none A pud \<or> ar_none A pmd \<or> \<not> ar_present A pte then None else Some pte)"

text \<open>
  The 64-bit handler of faults in the vmalloc area succeeds exactly when the kernel's reference table maps the
  page, and then the table of the current process maps it to the same entry. It copies at most the top-level entry, and the
  three checks for mismatches further down never fire: a \<open>BUG\<close> needs a top-level entry that differs from the reference.
\<close>

theorem vmalloc_fault64_exact:
  assumes "walk_laws A" "lo \<le> address" "address < hi"
    "ar_none A (mem (pgd_offset A act address)) \<or> ar_page A (mem (pgd_offset A act address)) = ar_page A (mem (pgd_offset A init address))"
  shows "\<exists>mem'. vmalloc_fault64 A (lo, hi) init act address mem = V_ret mem' (mapped A mem' init address \<noteq> None) \<and>
    (\<forall>x. x \<noteq> pgd_offset A act address \<longrightarrow> mem' x = mem x) \<and>
    (mapped A mem' init address \<noteq> None \<longrightarrow> mapped A mem' act address = mapped A mem' init address)"
proof (cases "ar_none A (mem (pgd_offset A init address))")
  case True
  with assms(2,3) show ?thesis by (intro exI [of _ mem]) (simp add: vmalloc_fault64_def mapped_def Let_def)
next
  case False
  define m where "m = (if ar_none A (mem (pgd_offset A act address)) then mem(pgd_offset A act address := mem (pgd_offset A init address)) else mem)"
  have n: "\<not> ar_none A (m (pgd_offset A act address))" "\<not> ar_none A (m (pgd_offset A init address))"
    "ar_page A (m (pgd_offset A act address)) = ar_page A (m (pgd_offset A init address))"
    using False assms(4) by (auto simp: m_def)
  then have "pud_offset A (m (pgd_offset A act address)) address = pud_offset A (m (pgd_offset A init address)) address"
    using assms(1) unfolding walk_laws_def by blast
  then have "mapped A m act address = mapped A m init address" using n by (simp add: mapped_def)
  moreover have "vmalloc_fault64 A (lo, hi) init act address mem = V_ret m (mapped A m init address \<noteq> None)"
    using False assms(2-4) n(2) \<open>pud_offset A _ _ = _\<close>
    unfolding vmalloc_fault64_def m_def [symmetric] by (simp add: mapped_def Let_def flip: m_def)
  moreover have "\<forall>x. x \<noteq> pgd_offset A act address \<longrightarrow> m x = mem x" by (simp add: m_def)
  ultimately show ?thesis by blast
qed

text \<open>Tables at multiples of the page size; an entry is the frame with bit 0 as the present bit.\<close>

definition flat_arch :: arch where
  "flat_arch = \<lparr>ar_none = (\<lambda>v. v = 0), ar_present = (\<lambda>v. bit v 0), ar_large = (\<lambda>v. bit v 7),
     ar_page = (\<lambda>v. and v (not 0xFFF)), pgd_offset = (\<lambda>b a. b + 8 * and (drop_bit 39 a) 511),
     pud_offset = (\<lambda>v a. and v (not 0xFFF) + 8 * and (drop_bit 30 a) 511),
     pmd_offset = (\<lambda>v a. and v (not 0xFFF) + 8 * and (drop_bit 21 a) 511),
     pte_offset = (\<lambda>v a. and v (not 0xFFF) + 8 * and (drop_bit 12 a) 511)\<rparr>"

definition kernel_mem :: mem64 where
  "kernel_mem = (\<lambda>_. 0)(0x1000 := 0x3001, 0x3000 := 0x4001, 0x4000 := 0x5001, 0x5000 := 0x9001)"

lemma flat_walk_laws: "walk_laws flat_arch"
  unfolding walk_laws_def flat_arch_def by simp

theorem vmalloc_fault64_exact_witness:
  "\<exists>mem'. vmalloc_fault64 flat_arch (0, 0x1000) 0x1000 0x2000 0 kernel_mem = V_ret mem' (mapped flat_arch mem' 0x1000 0 \<noteq> None) \<and>
    (\<forall>x. x \<noteq> pgd_offset flat_arch 0x2000 0 \<longrightarrow> mem' x = kernel_mem x) \<and>
    (mapped flat_arch mem' 0x1000 0 \<noteq> None \<longrightarrow> mapped flat_arch mem' 0x2000 0 = mapped flat_arch mem' 0x1000 0)"
  by (rule vmalloc_fault64_exact [OF flat_walk_laws]) (simp_all add: flat_arch_def kernel_mem_def)

section \<open>Synchronising all top-level tables, 64-bit\<close>

text \<open>\<open>bases\<close> are the addresses of the top-level tables on \<open>pgd_list\<close>. \<open>Some None\<close> is the \<open>BUG_ON\<close>.\<close>

definition PGDIR_SIZE :: u64 where "PGDIR_SIZE = 0x8000000000"

fun sync_bases :: "arch \<Rightarrow> u64 \<Rightarrow> u64 \<Rightarrow> u64 list \<Rightarrow> mem64 \<Rightarrow> mem64 option" where
  "sync_bases A pgd_ref address [] mem = Some mem"
| "sync_bases A pgd_ref address (base # bases) mem =
     (let pgd = pgd_offset A base address in
      if ar_none A (mem pgd) then sync_bases A pgd_ref address bases (mem(pgd := mem pgd_ref))
      else if ar_page A (mem pgd) \<noteq> ar_page A (mem pgd_ref) then None
      else sync_bases A pgd_ref address bases mem)"

partial_function (option) sync_loop64 :: "arch \<Rightarrow> u64 \<Rightarrow> u64 \<Rightarrow> u64 list \<Rightarrow> u64 \<Rightarrow> mem64 \<Rightarrow> mem64 option option" where
  "sync_loop64 A vmalloc_end init_pgd bases address mem =
     (if address \<le> vmalloc_end then
        (let pgd_ref = pgd_offset A init_pgd address in
         if ar_none A (mem pgd_ref) then sync_loop64 A vmalloc_end init_pgd bases (address + PGDIR_SIZE) mem
         else (case sync_bases A pgd_ref address bases mem of
                 None \<Rightarrow> Some None
               | Some mem \<Rightarrow> sync_loop64 A vmalloc_end init_pgd bases (address + PGDIR_SIZE) mem))
      else Some (Some mem))"

definition vmalloc_sync_all64 :: "arch \<Rightarrow> u64 \<times> u64 \<Rightarrow> u64 \<Rightarrow> u64 list \<Rightarrow> mem64 \<Rightarrow> mem64 option option" where
  "vmalloc_sync_all64 A vmalloc init_pgd bases mem =
     sync_loop64 A (snd vmalloc) init_pgd bases (and (fst vmalloc) (not (PGDIR_SIZE - 1))) mem"

text \<open>Only empty entries are written, so an entry that is there stays.\<close>

definition keeps :: "arch \<Rightarrow> mem64 \<Rightarrow> mem64 \<Rightarrow> bool" where
  "keeps A mem mem' \<longleftrightarrow> (\<forall>x. \<not> ar_none A (mem x) \<longrightarrow> mem' x = mem x)"

definition same_frame :: "arch \<Rightarrow> u64 \<Rightarrow> u64 list \<Rightarrow> u64 \<Rightarrow> mem64 \<Rightarrow> bool" where
  "same_frame A init_pgd bases address mem \<longleftrightarrow> (\<forall>b \<in> set bases. \<not> ar_none A (mem (pgd_offset A b address)) \<and>
     ar_page A (mem (pgd_offset A b address)) = ar_page A (mem (pgd_offset A init_pgd address)))"

lemma keeps_trans: "keeps A m m' \<Longrightarrow> keeps A m' m'' \<Longrightarrow> keeps A m m''"
  unfolding keeps_def by metis

lemma same_frame_keeps:
  "same_frame A i bases a m \<Longrightarrow> keeps A m m' \<Longrightarrow> \<not> ar_none A (m (pgd_offset A i a)) \<Longrightarrow> same_frame A i bases a m'"
  unfolding keeps_def same_frame_def by metis

lemma sync_bases_exact:
  assumes "\<not> ar_none A (mem (pgd_offset A i a))" "sync_bases A (pgd_offset A i a) a bases mem = Some mem'"
  shows "keeps A mem mem' \<and> same_frame A i bases a mem'"
  using assms
proof (induction bases arbitrary: mem)
  case Nil
  then show ?case by (simp add: keeps_def same_frame_def)
next
  case (Cons b bases)
  define m where "m = (if ar_none A (mem (pgd_offset A b a)) then mem(pgd_offset A b a := mem (pgd_offset A i a)) else mem)"
  have m: "keeps A mem m" "\<not> ar_none A (m (pgd_offset A i a))" "same_frame A i [b] a m"
    "sync_bases A (pgd_offset A i a) a bases m = Some mem'"
    using Cons.prems by (auto simp: m_def keeps_def same_frame_def Let_def split: if_splits)
  with Cons.IH [of m] have "keeps A m mem'" "same_frame A i bases a mem'" by auto
  moreover from this(1) m have "same_frame A i [b] a mem'" by (blast intro: same_frame_keeps)
  ultimately show ?case using m(1) keeps_trans unfolding same_frame_def by auto
qed

lemma sync_loop64_exact:
  assumes "unat vend + 2 ^ 39 < 2 ^ 64"
  shows "\<exists>r. sync_loop64 A vend i bases a mem = Some r \<and>
    (\<forall>mem'. r = Some mem' \<longrightarrow> keeps A mem mem' \<and>
      (\<forall>k. unat a + k * 2 ^ 39 \<le> unat vend \<longrightarrow> \<not> ar_none A (mem (pgd_offset A i (a + of_nat k * PGDIR_SIZE))) \<longrightarrow>
         same_frame A i bases (a + of_nat k * PGDIR_SIZE) mem'))"
proof (induction "2 ^ 64 - unat a" arbitrary: a mem rule: less_induct)
  case less
  show ?case
  proof (cases "a \<le> vend")
    case False
    then show ?thesis by (subst sync_loop64.simps) (auto simp: keeps_def word_le_nat_alt)
  next
    case True
    then have u: "unat (a + PGDIR_SIZE) = unat a + 2 ^ 39"
      using assms by (simp add: word_le_nat_alt PGDIR_SIZE_def unat_word_ariths)
    have "unat a < 2 ^ 64" using unsigned_less [of a, where ?'a = nat] by simp
    then have "2 ^ 64 - unat (a + PGDIR_SIZE) < 2 ^ 64 - unat a" using u by simp
    note IH = less [OF this]
    have k: "a + of_nat (Suc j) * PGDIR_SIZE = a + PGDIR_SIZE + of_nat j * PGDIR_SIZE" for j
      by (simp add: algebra_simps)
    have step: ?thesis if s: "sync_loop64 A vend i bases a mem = sync_loop64 A vend i bases (a + PGDIR_SIZE) m"
      and m: "keeps A mem m" "\<not> ar_none A (mem (pgd_offset A i a)) \<Longrightarrow> same_frame A i bases a m" for m
    proof -
      from IH [of m] obtain r where r: "sync_loop64 A vend i bases (a + PGDIR_SIZE) m = Some r"
        "\<And>mem'. r = Some mem' \<Longrightarrow> keeps A m mem'"
        "\<And>mem' j. r = Some mem' \<Longrightarrow> unat (a + PGDIR_SIZE) + j * 2 ^ 39 \<le> unat vend \<Longrightarrow>
          \<not> ar_none A (m (pgd_offset A i (a + PGDIR_SIZE + of_nat j * PGDIR_SIZE))) \<Longrightarrow>
          same_frame A i bases (a + PGDIR_SIZE + of_nat j * PGDIR_SIZE) mem'" by blast
      have "same_frame A i bases (a + of_nat n * PGDIR_SIZE) mem'"
        if q: "r = Some mem'" "unat a + n * 2 ^ 39 \<le> unat vend" "\<not> ar_none A (mem (pgd_offset A i (a + of_nat n * PGDIR_SIZE)))" for mem' n
      proof (cases n)
        case 0
        with q(3) have nn: "\<not> ar_none A (mem (pgd_offset A i a))" by simp
        moreover from this m(1) have "\<not> ar_none A (m (pgd_offset A i a))" unfolding keeps_def by metis
        ultimately have "same_frame A i bases a mem'" using m(2) r(2) [OF q(1)] same_frame_keeps by blast
        then show ?thesis using 0 by simp
      next
        case (Suc j)
        have "\<not> ar_none A (m (pgd_offset A i (a + PGDIR_SIZE + of_nat j * PGDIR_SIZE)))"
          using q(3) m(1) unfolding Suc k keeps_def by metis
        moreover have "unat (a + PGDIR_SIZE) + j * 2 ^ 39 \<le> unat vend" using q(2) u Suc by simp
        ultimately show ?thesis using r(3) [OF q(1)] unfolding Suc k by blast
      qed
      with s r m(1) keeps_trans show ?thesis by (intro exI [of _ r]) (metis (no_types))
    qed
    show ?thesis
    proof (cases "ar_none A (mem (pgd_offset A i a))")
      case n: True
      with True have "sync_loop64 A vend i bases a mem = sync_loop64 A vend i bases (a + PGDIR_SIZE) mem"
        by (subst sync_loop64.simps) simp
      then show ?thesis using n by (intro step) (auto simp: keeps_def)
    next
      case False
      show ?thesis
      proof (cases "sync_bases A (pgd_offset A i a) a bases mem")
        case None
        with True False show ?thesis by (subst sync_loop64.simps) simp
      next
        case (Some m)
        with True False have "sync_loop64 A vend i bases a mem = sync_loop64 A vend i bases (a + PGDIR_SIZE) m"
          by (subst sync_loop64.simps) simp
        then show ?thesis using sync_bases_exact [OF False Some] by (intro step) auto
      qed
    qed
  qed
qed

text \<open>
  The 64-bit \<open>vmalloc_sync_all\<close> returns, as long as the end of the area leaves room for one more step of its address
  below the end of the address space. It only fills empty entries; if it meets no contradicting entry, then every top-level table has
  the frame of the reference table at every address the loop visits and the reference maps.
\<close>

theorem vmalloc_sync_all64_returns:
  assumes "unat vend + 2 ^ 39 < 2 ^ 64" "start = and vstart (not (PGDIR_SIZE - 1))"
  shows "\<exists>r. vmalloc_sync_all64 A (vstart, vend) i bases mem = Some r \<and>
    (\<forall>mem'. r = Some mem' \<longrightarrow> keeps A mem mem' \<and>
      (\<forall>k. unat start + k * 2 ^ 39 \<le> unat vend \<longrightarrow> \<not> ar_none A (mem (pgd_offset A i (start + of_nat k * PGDIR_SIZE))) \<longrightarrow>
         same_frame A i bases (start + of_nat k * PGDIR_SIZE) mem'))"
  using sync_loop64_exact [OF assms(1)] by (simp add: vmalloc_sync_all64_def assms(2))

section \<open>Printing page tables and faults\<close>

datatype pitem = Label string | Hex u64 | Num int

text \<open>32-bit: \<open>pde\<close> and \<open>pte\<close> are the entries for the address; \<open>pfn\<close>, \<open>present\<close> and \<open>large\<close> belong to \<open>pde\<close>.\<close>

definition low_pfn :: "u32 \<Rightarrow> u32 \<Rightarrow> bool" where
  "low_pfn max_low_pfn pfn = (pfn < max_low_pfn)"

definition dump_pagetable32 :: "u32 \<Rightarrow> u32 \<Rightarrow> bool \<Rightarrow> bool \<Rightarrow> u32 \<Rightarrow> u32 \<Rightarrow> pitem list" where
  "dump_pagetable32 max_low_pfn pfn present large pde pte =
     [Label ''*pde = '', Hex (ucast pde)] @
     (if \<not> low_pfn max_low_pfn pfn \<or> \<not> present \<or> large then [] else [Label ''*pte = '', Hex (ucast pte)]) @
     [Label [NL]]"

text \<open>64-bit: \<open>bad\<close> says which addresses \<open>probe_kernel_address\<close> cannot read.\<close>

definition bad_address :: "(u64 \<Rightarrow> bool) \<Rightarrow> u64 \<Rightarrow> bool" where
  "bad_address bad p = bad p"

definition dump_pagetable64 :: "arch \<Rightarrow> (u64 \<Rightarrow> bool) \<Rightarrow> mem64 \<Rightarrow> u64 \<Rightarrow> u64 \<Rightarrow> pitem list" where
  "dump_pagetable64 A bad mem base address =
     (let BAD = [Label (''BAD'' @ [NL])]; out = [Label [NL]];
          pgd = pgd_offset A base address; pud = pud_offset A (mem pgd) address;
          pmd = pmd_offset A (mem pud) address; pte = pte_offset A (mem pmd) address in
      if bad_address bad pgd then BAD
      else [Label ''PGD '', Hex (mem pgd)] @
        (if \<not> ar_present A (mem pgd) then out
         else if bad_address bad pud then BAD
         else [Label ''PUD '', Hex (mem pud)] @
           (if \<not> ar_present A (mem pud) \<or> ar_large A (mem pud) then out
            else if bad_address bad pmd then BAD
            else [Label ''PMD '', Hex (mem pmd)] @
              (if \<not> ar_present A (mem pmd) \<or> ar_large A (mem pmd) then out
               else if bad_address bad pte then BAD
               else [Label ''PTE '', Hex (mem pte)] @ out))))"

definition show_fault_oops :: "bool \<Rightarrow> (bool \<times> bool) option \<Rightarrow> int \<Rightarrow> u32 \<Rightarrow> u32 \<Rightarrow> u32 \<Rightarrow> pitem list \<Rightarrow> pitem list" where
  "show_fault_oops may_print pte uid error_code address ip dump =
     (if \<not> may_print then []
      else
        (if bit error_code PF_INSTR \<and> (case pte of None \<Rightarrow> False | Some (present, exec) \<Rightarrow> present \<and> \<not> exec)
         then [Label ''kernel tried to execute NX-protected page - exploit attempt? (uid: '', Num uid, Label ('')'' @ [NL])] else []) @
        [Label ''BUG: unable to handle kernel '',
         Label (if address < 0x1000 then ''NULL pointer dereference'' else ''paging request''),
         Label '' at '', Hex (ucast address), Label [NL], Label ''IP:'', Hex (ucast ip)] @ dump)"

text \<open>\<open>where_ip\<close> is what \<open>print_vma_addr\<close> prints about the file of the instruction.\<close>

definition show_signal_msg :: "bool \<Rightarrow> bool \<Rightarrow> string \<Rightarrow> int \<Rightarrow> u32 \<Rightarrow> u32 \<Rightarrow> u32 \<Rightarrow> u32 \<Rightarrow> pitem list \<Rightarrow> pitem list" where
  "show_signal_msg unhandled ratelimit comm pid address ip sp error_code where_ip =
     (if \<not> unhandled \<or> \<not> ratelimit then []
      else [Label comm, Label ''['', Num pid, Label '']: segfault at '', Hex (ucast address), Label '' ip '', Hex (ucast ip),
            Label '' sp '', Hex (ucast sp), Label '' error '', Hex (ucast error_code)] @ where_ip @ [Label [NL]])"

section \<open>Errata and tracing\<close>

text \<open>
  \<open>is_errata93\<close>: a fault at an instruction address whose upper half was cleared; the address is repaired when the
  repaired one lies in the kernel's text or in a module. The result is the return value and the instruction address.
\<close>

definition is_errata93 :: "u64 \<times> u64 \<Rightarrow> u64 \<times> u64 \<Rightarrow> u64 \<Rightarrow> u64 \<Rightarrow> bool \<times> u64" where
  "is_errata93 text modules ip address =
     (if address \<noteq> ip then (False, ip)
      else if drop_bit 32 address \<noteq> 0 then (False, ip)
      else
        (let address = or address (push_bit 32 0xFFFFFFFF) in
         if fst text \<le> address \<and> address \<le> snd text \<or> fst modules \<le> address \<and> address \<le> snd modules
         then (True, address) else (False, ip)))"

definition is_errata100 :: "u64 \<Rightarrow> u64 \<Rightarrow> u64 \<Rightarrow> bool" where
  "is_errata100 user32_cs cs address = ((cs = user32_cs \<or> bit cs 2) \<and> drop_bit 32 address \<noteq> 0)"

definition is_f00f_bug :: "bool \<Rightarrow> u32 \<Rightarrow> u32 \<Rightarrow> bool" where
  "is_f00f_bug f00f_bug idt address = (f00f_bug \<and> drop_bit 3 (address - idt) = 6)"

definition kmmio_fault :: "bool \<Rightarrow> int \<Rightarrow> int" where
  "kmmio_fault active handler = (if active \<and> handler = 1 then - 1 else 0)"

lemma split_halves: "drop_bit 32 k = 0 \<Longrightarrow> take_bit 32 k = (k :: u64)"
  using bits_ident [of 32 k] by simp

lemma halves_or:
  assumes "drop_bit 32 k = (0xFFFFFFFF :: u64)"
  shows "or (take_bit 32 k) (push_bit 32 0xFFFFFFFF) = k"
proof -
  have "or (push_bit 32 (drop_bit 32 k)) (take_bit 32 k) = k"
    by (rule bit_word_eqI) (auto simp: bit_simps)
  then show ?thesis unfolding assms by (simp add: or.commute)
qed

text \<open>
  The workaround for erratum 93 restores an instruction address of the kernel exactly: if the upper half of an address in the
  kernel's text or a module was cleared, the repaired address is the original one. Whatever it repairs has the lower half it
  was given, lies in one of the two ranges, and was the address of the faulting instruction.
\<close>

theorem errata93_repairs:
  "(drop_bit 32 k = 0xFFFFFFFF \<longrightarrow> fst tx \<le> k \<and> k \<le> snd tx \<or> fst md \<le> k \<and> k \<le> snd md \<longrightarrow>
      is_errata93 tx md (take_bit 32 k) (take_bit 32 k) = (True, k)) \<and>
   (is_errata93 tx md ip address = (True, ip') \<longrightarrow>
      address = ip \<and> take_bit 32 ip' = ip \<and> (fst tx \<le> ip' \<and> ip' \<le> snd tx \<or> fst md \<le> ip' \<and> ip' \<le> snd md))"
proof (intro conjI impI)
  assume k: "drop_bit 32 k = 0xFFFFFFFF" "fst tx \<le> k \<and> k \<le> snd tx \<or> fst md \<le> k \<and> k \<le> snd md"
  have "drop_bit 32 (take_bit 32 k) = 0" by (simp add: drop_bit_take_bit)
  with k(2) halves_or [OF k(1)] show "is_errata93 tx md (take_bit 32 k) (take_bit 32 k) = (True, k)"
    unfolding is_errata93_def Let_def by simp
next
  assume r: "is_errata93 tx md ip address = (True, ip')"
  then show "address = ip" by (auto simp: is_errata93_def split: if_splits)
  from r have i: "drop_bit 32 ip = 0" "ip' = or ip (push_bit 32 0xFFFFFFFF)"
    by (auto simp: is_errata93_def Let_def split: if_splits)
  have "take_bit 32 (push_bit 32 0xFFFFFFFF :: u64) = 0" by (simp add: take_bit_push_bit)
  with i split_halves [of ip] show "take_bit 32 ip' = ip" by (simp only: take_bit_or) simp
  from r show "fst tx \<le> ip' \<and> ip' \<le> snd tx \<or> fst md \<le> ip' \<and> ip' \<le> snd md"
    by (auto simp: is_errata93_def Let_def split: if_splits)
qed

theorem errata93_repairs_witness:
  "is_errata93 (0xFFFFFFFF81000000, 0xFFFFFFFF81FFFFFF) (1, 0) 0x81000010 0x81000010 = (True, 0xFFFFFFFF81000010)"
  using errata93_repairs [of "0xFFFFFFFF81000010" "(0xFFFFFFFF81000000, 0xFFFFFFFF81FFFFFF)" "(1, 0)" 0 0 0]
  by simp

theorem vmalloc_sync_all64_returns_witness:
  "\<exists>r. vmalloc_sync_all64 flat_arch (0, 0xFFF) 0x1000 [0x2000] kernel_mem = Some r \<and>
    (\<forall>mem'. r = Some mem' \<longrightarrow> keeps flat_arch kernel_mem mem' \<and> same_frame flat_arch 0x1000 [0x2000] 0 mem')"
proof -
  have "(0 :: u64) = and 0 (not (PGDIR_SIZE - 1))" by simp
  from vmalloc_sync_all64_returns [OF _ this, of "0xFFF" flat_arch "0x1000" "[0x2000]" kernel_mem] obtain r where
    r: "vmalloc_sync_all64 flat_arch (0, 0xFFF) 0x1000 [0x2000] kernel_mem = Some r"
    "\<And>mem'. r = Some mem' \<Longrightarrow> keeps flat_arch kernel_mem mem'"
    "\<And>mem' k. r = Some mem' \<Longrightarrow> unat (0 :: u64) + k * 2 ^ 39 \<le> unat (0xFFF :: u64) \<Longrightarrow>
      \<not> ar_none flat_arch (kernel_mem (pgd_offset flat_arch 0x1000 (0 + of_nat k * PGDIR_SIZE))) \<Longrightarrow>
      same_frame flat_arch 0x1000 [0x2000] (0 + of_nat k * PGDIR_SIZE) mem'" by auto
  have "\<not> ar_none flat_arch (kernel_mem (pgd_offset flat_arch 0x1000 0))" by (simp add: flat_arch_def kernel_mem_def)
  with r(1,2) r(3) [of _ 0] show ?thesis by auto
qed

end
