(* ===== verification/PageFlags.thy ===== *)
theory PageFlags
  imports Prelude "HOL-Library.Word"
begin

text \<open>
  The word \<open>flags\<close> of a page, of which \<open>src/5/kernel/mm.h\<close> uses the upper bits for the section, the node and the zone of the page.
  The number of bits each of them needs and the number of page flags come from other headers: they are the fields of \<open>mmconfig\<close>,
  and the theorems hold for every configuration that passes the two \<open>#error\<close> checks. Words have 32 bits, as in the kernel the system
  calls were added to. A conditional of the preprocessor is a condition on the configuration.
\<close>

unbundle bit_operations_syntax

section \<open>Layout\<close>

record mmconfig =
  CONFIG_SPARSEMEM :: bool
  CONFIG_SPARSEMEM_VMEMMAP :: bool
  SECTIONS_SHIFT :: nat
  ZONES_SHIFT :: nat
  NODES_SHIFT :: nat
  NR_PAGEFLAGS :: nat

definition BITS_PER_LONG :: nat where "BITS_PER_LONG = 32"

definition SECTIONS_WIDTH :: "mmconfig \<Rightarrow> nat" where
  "SECTIONS_WIDTH k = (if CONFIG_SPARSEMEM k \<and> \<not> CONFIG_SPARSEMEM_VMEMMAP k then SECTIONS_SHIFT k else 0)"

definition ZONES_WIDTH :: "mmconfig \<Rightarrow> nat" where
  "ZONES_WIDTH k = ZONES_SHIFT k"

definition nodes_fit :: "mmconfig \<Rightarrow> bool" where
  "nodes_fit k \<longleftrightarrow> int (SECTIONS_WIDTH k + ZONES_WIDTH k + NODES_SHIFT k) \<le> int BITS_PER_LONG - int (NR_PAGEFLAGS k)"

definition NODES_WIDTH :: "mmconfig \<Rightarrow> nat" where
  "NODES_WIDTH k = (if nodes_fit k then NODES_SHIFT k else 0)"

text \<open>Neither \<open>#error\<close> is reached.\<close>

definition layout_compiles :: "mmconfig \<Rightarrow> bool" where
  "layout_compiles k \<longleftrightarrow> (nodes_fit k \<or> \<not> CONFIG_SPARSEMEM_VMEMMAP k) \<and>
     int (SECTIONS_WIDTH k + NODES_WIDTH k + ZONES_WIDTH k) \<le> int BITS_PER_LONG - int (NR_PAGEFLAGS k)"

definition SECTIONS_PGOFF :: "mmconfig \<Rightarrow> nat" where
  "SECTIONS_PGOFF k = BITS_PER_LONG - SECTIONS_WIDTH k"

definition NODES_PGOFF :: "mmconfig \<Rightarrow> nat" where
  "NODES_PGOFF k = SECTIONS_PGOFF k - NODES_WIDTH k"

definition ZONES_PGOFF :: "mmconfig \<Rightarrow> nat" where
  "ZONES_PGOFF k = NODES_PGOFF k - ZONES_WIDTH k"

definition NODE_NOT_IN_PAGE_FLAGS :: "mmconfig \<Rightarrow> bool" where
  "NODE_NOT_IN_PAGE_FLAGS k \<longleftrightarrow> \<not> (0 < NODES_WIDTH k \<or> NODES_SHIFT k = 0)"

definition SECTIONS_PGSHIFT :: "mmconfig \<Rightarrow> nat" where
  "SECTIONS_PGSHIFT k = SECTIONS_PGOFF k * of_bool (SECTIONS_WIDTH k \<noteq> 0)"

definition NODES_PGSHIFT :: "mmconfig \<Rightarrow> nat" where
  "NODES_PGSHIFT k = NODES_PGOFF k * of_bool (NODES_WIDTH k \<noteq> 0)"

definition ZONES_PGSHIFT :: "mmconfig \<Rightarrow> nat" where
  "ZONES_PGSHIFT k = ZONES_PGOFF k * of_bool (ZONES_WIDTH k \<noteq> 0)"

text \<open>
  The conditional tests \<open>NODE_NOT_IN_PAGEFLAGS\<close>, but the macro defined above it is \<open>NODE_NOT_IN_PAGE_FLAGS\<close>: the branch for
  sections is never taken.
\<close>

definition ZONEID_SHIFT :: "mmconfig \<Rightarrow> nat" where
  "ZONEID_SHIFT k = NODES_SHIFT k + ZONES_SHIFT k"

definition ZONEID_PGOFF :: "mmconfig \<Rightarrow> nat" where
  "ZONEID_PGOFF k = (if NODES_PGOFF k < ZONES_PGOFF k then NODES_PGOFF k else ZONES_PGOFF k)"

definition ZONEID_PGSHIFT :: "mmconfig \<Rightarrow> nat" where
  "ZONEID_PGSHIFT k = ZONEID_PGOFF k * of_bool (ZONEID_SHIFT k \<noteq> 0)"

definition ZONES_MASK :: "mmconfig \<Rightarrow> u32" where "ZONES_MASK k = push_bit (ZONES_WIDTH k) 1 - 1"
definition NODES_MASK :: "mmconfig \<Rightarrow> u32" where "NODES_MASK k = push_bit (NODES_WIDTH k) 1 - 1"
definition SECTIONS_MASK :: "mmconfig \<Rightarrow> u32" where "SECTIONS_MASK k = push_bit (SECTIONS_WIDTH k) 1 - 1"
definition ZONEID_MASK :: "mmconfig \<Rightarrow> u32" where "ZONEID_MASK k = push_bit (ZONEID_SHIFT k) 1 - 1"

section \<open>Reading and writing the fields\<close>

definition page_zonenum :: "mmconfig \<Rightarrow> u32 \<Rightarrow> u32" where
  "page_zonenum k flags = drop_bit (ZONES_PGSHIFT k) flags AND ZONES_MASK k"

definition page_zone_id :: "mmconfig \<Rightarrow> u32 \<Rightarrow> u32" where
  "page_zone_id k flags = drop_bit (ZONEID_PGSHIFT k) flags AND ZONEID_MASK k"

text \<open>
  Without room for the node in the flags, \<open>page_to_nid\<close> is only declared here and defined in another file: then it is the parameter
  \<open>ext\<close>, a function of the page. \<open>node_zones\<close> is \<open>NODE_DATA(nid)->node_zones\<close>.
\<close>

definition page_to_nid :: "mmconfig \<Rightarrow> (u32 \<Rightarrow> u32) \<Rightarrow> u32 \<Rightarrow> u32" where
  "page_to_nid k ext flags =
     (if NODE_NOT_IN_PAGE_FLAGS k then ext flags else drop_bit (NODES_PGSHIFT k) flags AND NODES_MASK k)"

definition page_zone :: "mmconfig \<Rightarrow> (u32 \<Rightarrow> u32) \<Rightarrow> (u32 \<Rightarrow> u32 \<Rightarrow> 'z) \<Rightarrow> u32 \<Rightarrow> 'z" where
  "page_zone k ext node_zones flags = node_zones (page_to_nid k ext flags) (page_zonenum k flags)"

definition page_to_section :: "mmconfig \<Rightarrow> u32 \<Rightarrow> u32" where
  "page_to_section k flags = drop_bit (SECTIONS_PGSHIFT k) flags AND SECTIONS_MASK k"

definition set_page_zone :: "mmconfig \<Rightarrow> u32 \<Rightarrow> u32 \<Rightarrow> u32" where
  "set_page_zone k zone flags =
     (flags AND NOT (push_bit (ZONES_PGSHIFT k) (ZONES_MASK k))) OR push_bit (ZONES_PGSHIFT k) (zone AND ZONES_MASK k)"

definition set_page_node :: "mmconfig \<Rightarrow> u32 \<Rightarrow> u32 \<Rightarrow> u32" where
  "set_page_node k node flags =
     (flags AND NOT (push_bit (NODES_PGSHIFT k) (NODES_MASK k))) OR push_bit (NODES_PGSHIFT k) (node AND NODES_MASK k)"

definition set_page_section :: "mmconfig \<Rightarrow> u32 \<Rightarrow> u32 \<Rightarrow> u32" where
  "set_page_section k section flags =
     (flags AND NOT (push_bit (SECTIONS_PGSHIFT k) (SECTIONS_MASK k))) OR push_bit (SECTIONS_PGSHIFT k) (section AND SECTIONS_MASK k)"

definition set_page_links :: "mmconfig \<Rightarrow> (u32 \<Rightarrow> u32) \<Rightarrow> u32 \<Rightarrow> u32 \<Rightarrow> u32 \<Rightarrow> u32 \<Rightarrow> u32" where
  "set_page_links k pfn_to_section_nr zone node pfn flags =
     set_page_section k (pfn_to_section_nr pfn) (set_page_node k node (set_page_zone k zone flags))"

section \<open>Fields of a word\<close>

text \<open>The three pairs of functions read and write a field of \<open>w\<close> bits at position \<open>s\<close>; what follows is proved for a field once.\<close>

definition field :: "nat \<Rightarrow> nat \<Rightarrow> u32 \<Rightarrow> u32" where
  "field s w f = take_bit w (drop_bit s f)"

definition put_field :: "nat \<Rightarrow> nat \<Rightarrow> u32 \<Rightarrow> u32 \<Rightarrow> u32" where
  "put_field s w v f = (f AND NOT (push_bit s (mask w))) OR push_bit s (take_bit w v)"

lemma mask_code: "push_bit w 1 - 1 = (mask w :: u32)"
  by (simp add: mask_eq_exp_minus_1 push_bit_eq_mult)

lemma field_bits: "bit (field s w f) i \<longleftrightarrow> i < w \<and> bit f (s + i)"
  by (simp add: field_def bit_simps)

lemma put_field_bits:
  "bit (put_field s w v f) i \<longleftrightarrow> i < 32 \<and> (if s \<le> i \<and> i < s + w then bit v (i - s) else bit f i)"
  by (auto simp: put_field_def bit_simps dest: bit_imp_le_length)

lemma field_put_same: "s + w \<le> 32 \<Longrightarrow> field s w (put_field s w v f) = take_bit w v"
  by (rule bit_eqI) (auto simp: field_bits put_field_bits bit_take_bit_iff)

lemma field_put_other:
  "s + w \<le> s' \<or> s' + w' \<le> s \<Longrightarrow> field s w (put_field s' w' v f) = field s w f"
  by (rule bit_eqI) (auto simp: field_bits put_field_bits dest: bit_imp_le_length)

lemma field_empty [simp]: "field s 0 f = 0" "put_field s 0 v f = f"
  by (simp_all add: field_def put_field_def)

lemma mask_fields:
  "ZONES_MASK k = mask (ZONES_WIDTH k)" "NODES_MASK k = mask (NODES_WIDTH k)" "SECTIONS_MASK k = mask (SECTIONS_WIDTH k)"
  "ZONEID_MASK k = mask (ZONEID_SHIFT k)"
  by (simp_all only: ZONES_MASK_def NODES_MASK_def SECTIONS_MASK_def ZONEID_MASK_def mask_code)

lemma page_fields:
  "page_zonenum k = field (ZONES_PGSHIFT k) (ZONES_WIDTH k)"
  "\<not> NODE_NOT_IN_PAGE_FLAGS k \<Longrightarrow> page_to_nid k ext = field (NODES_PGSHIFT k) (NODES_WIDTH k)"
  "page_to_section k = field (SECTIONS_PGSHIFT k) (SECTIONS_WIDTH k)" "page_zone_id k = field (ZONEID_PGSHIFT k) (ZONEID_SHIFT k)"
  by (simp_all add: fun_eq_iff field_def page_zonenum_def page_to_nid_def page_to_section_def page_zone_id_def mask_fields take_bit_eq_mask)

lemma set_page_fields:
  "set_page_zone k = put_field (ZONES_PGSHIFT k) (ZONES_WIDTH k)" "set_page_node k = put_field (NODES_PGSHIFT k) (NODES_WIDTH k)"
  "set_page_section k = put_field (SECTIONS_PGSHIFT k) (SECTIONS_WIDTH k)"
  by (simp_all add: fun_eq_iff put_field_def set_page_zone_def set_page_node_def set_page_section_def mask_fields take_bit_eq_mask)

text \<open>Zone, node and section follow each other up to the last bit, above the page flags.\<close>

lemma layout:
  assumes "layout_compiles k"
  shows "NR_PAGEFLAGS k \<le> ZONES_PGOFF k" "ZONES_PGOFF k + ZONES_WIDTH k = NODES_PGOFF k"
    "NODES_PGOFF k + NODES_WIDTH k = SECTIONS_PGOFF k" "SECTIONS_PGOFF k + SECTIONS_WIDTH k = 32"
  using assms by (auto simp: layout_compiles_def ZONES_PGOFF_def NODES_PGOFF_def SECTIONS_PGOFF_def BITS_PER_LONG_def)

lemma shift_or_empty:
  "ZONES_WIDTH k = 0 \<or> ZONES_PGSHIFT k = ZONES_PGOFF k" "NODES_WIDTH k = 0 \<or> NODES_PGSHIFT k = NODES_PGOFF k"
  "SECTIONS_WIDTH k = 0 \<or> SECTIONS_PGSHIFT k = SECTIONS_PGOFF k"
  by (auto simp: ZONES_PGSHIFT_def NODES_PGSHIFT_def SECTIONS_PGSHIFT_def)

lemma field_shift: "field (ZONES_PGSHIFT k) (ZONES_WIDTH k) = field (ZONES_PGOFF k) (ZONES_WIDTH k)"
  "field (NODES_PGSHIFT k) (NODES_WIDTH k) = field (NODES_PGOFF k) (NODES_WIDTH k)"
  "field (SECTIONS_PGSHIFT k) (SECTIONS_WIDTH k) = field (SECTIONS_PGOFF k) (SECTIONS_WIDTH k)"
  "put_field (ZONES_PGSHIFT k) (ZONES_WIDTH k) = put_field (ZONES_PGOFF k) (ZONES_WIDTH k)"
  "put_field (NODES_PGSHIFT k) (NODES_WIDTH k) = put_field (NODES_PGOFF k) (NODES_WIDTH k)"
  "put_field (SECTIONS_PGSHIFT k) (SECTIONS_WIDTH k) = put_field (SECTIONS_PGOFF k) (SECTIONS_WIDTH k)"
  using shift_or_empty [of k] by (auto simp: fun_eq_iff)

text \<open>
  C26: In every configuration that compiles, \<open>set_page_links\<close> stores a zone and a section that are read back as they were stored,
  each cut to its width, and it does not touch the page flags in the lower bits. In the configurations whose flags have room for the
  node the same holds of the node, cut to \<open>NODES_SHIFT\<close> bits, and \<open>page_zone\<close> finds the entry of that node and zone; in the others
  \<open>page_to_nid\<close> is a function of another file, about which nothing is claimed.
\<close>

theorem page_links_roundtrip:
  assumes "layout_compiles k"
  shows "let f' = set_page_links k sec zone node pfn f in page_zonenum k f' = take_bit (ZONES_WIDTH k) zone \<and>
    page_to_section k f' = take_bit (SECTIONS_WIDTH k) (sec pfn) \<and> take_bit (NR_PAGEFLAGS k) f' = take_bit (NR_PAGEFLAGS k) f \<and>
    (\<not> NODE_NOT_IN_PAGE_FLAGS k \<longrightarrow> page_to_nid k ext f' = take_bit (NODES_SHIFT k) node \<and>
       page_zone k ext zones f' = zones (take_bit (NODES_SHIFT k) node) (take_bit (ZONES_WIDTH k) zone))"
proof -
  note l = layout [OF assms]
  define f' where "f' = set_page_links k sec zone node pfn f"
  have f': "f' = put_field (SECTIONS_PGOFF k) (SECTIONS_WIDTH k) (sec pfn) (put_field (NODES_PGOFF k) (NODES_WIDTH k) node
      (put_field (ZONES_PGOFF k) (ZONES_WIDTH k) zone f))"
    by (simp add: f'_def set_page_links_def set_page_fields field_shift)
  have "field 0 (NR_PAGEFLAGS k) f' = field 0 (NR_PAGEFLAGS k) f"
    using l by (simp add: f' field_put_other)
  then have "take_bit (NR_PAGEFLAGS k) f' = take_bit (NR_PAGEFLAGS k) f" by (simp add: field_def)
  moreover have "page_zonenum k f' = take_bit (ZONES_WIDTH k) zone"
    "page_to_section k f' = take_bit (SECTIONS_WIDTH k) (sec pfn)"
    using l by (simp_all add: page_fields field_shift f' field_put_other field_put_same)
  moreover have "page_to_nid k ext f' = take_bit (NODES_SHIFT k) node" if n: "\<not> NODE_NOT_IN_PAGE_FLAGS k"
  proof -
    have "page_to_nid k ext f' = take_bit (NODES_WIDTH k) node"
      using l n by (simp add: page_fields field_shift f' field_put_other field_put_same)
    moreover have "NODES_WIDTH k = NODES_SHIFT k"
      using n by (auto simp: NODE_NOT_IN_PAGE_FLAGS_def NODES_WIDTH_def)
    ultimately show ?thesis by simp
  qed
  ultimately show ?thesis by (simp add: page_zone_def Let_def f'_def)
qed

text \<open>Four zones, eight nodes, and 32 or 256 sections; in the second configuration the node does not fit.\<close>

definition numa_config :: mmconfig where
  "numa_config = \<lparr>CONFIG_SPARSEMEM = True, CONFIG_SPARSEMEM_VMEMMAP = False, SECTIONS_SHIFT = 5, ZONES_SHIFT = 2, NODES_SHIFT = 3,
     NR_PAGEFLAGS = 22\<rparr>"

definition tight_config :: mmconfig where
  "tight_config = \<lparr>CONFIG_SPARSEMEM = True, CONFIG_SPARSEMEM_VMEMMAP = False, SECTIONS_SHIFT = 8, ZONES_SHIFT = 2, NODES_SHIFT = 3,
     NR_PAGEFLAGS = 22\<rparr>"

lemmas config_defs = layout_compiles_def nodes_fit_def SECTIONS_WIDTH_def ZONES_WIDTH_def NODES_WIDTH_def BITS_PER_LONG_def
  numa_config_def tight_config_def

theorem page_links_roundtrip_witness:
  "page_zonenum numa_config (set_page_links numa_config (\<lambda>_. 9) 2 5 0 0xFFFFFFFF) = 2 \<and>
   page_to_nid numa_config (\<lambda>_. 7) (set_page_links numa_config (\<lambda>_. 9) 2 5 0 0xFFFFFFFF) = 5 \<and>
   page_to_section numa_config (set_page_links numa_config (\<lambda>_. 9) 2 5 0 0xFFFFFFFF) = 9 \<and>
   take_bit 22 (set_page_links numa_config (\<lambda>_. 9) 2 5 0 0xFFFFFFFF) = 0x3FFFFF"
  using page_links_roundtrip [of numa_config "\<lambda>_. 9" 2 5 0 "0xFFFFFFFF" "\<lambda>_. 7" "\<lambda>n z. z"]
  by (simp add: config_defs NODE_NOT_IN_PAGE_FLAGS_def Let_def)

section \<open>The number of a zone\<close>

lemma field_append: "field s (v + w) f = field s (v + w) f' \<longleftrightarrow> field s v f = field s v f' \<and> field (s + v) w f = field (s + v) w f'"
proof
  assume eq: "field s (v + w) f = field s (v + w) f'"
  then have "bit f (s + i) = bit f' (s + i)" if "i < v + w" for i
    using that by (metis field_bits)
  then show "field s v f = field s v f' \<and> field (s + v) w f = field (s + v) w f'"
    by (auto intro!: bit_eqI simp: field_bits add.assoc)
next
  assume eq: "field s v f = field s v f' \<and> field (s + v) w f = field (s + v) w f'"
  have "bit f (s + i) = bit f' (s + i)" if "i < v + w" for i
  proof (cases "i < v")
    case True
    then show ?thesis using eq by (metis field_bits)
  next
    case False
    with that have "i - v < w" "s + v + (i - v) = s + i" by auto
    then show ?thesis using eq by (metis field_bits)
  qed
  then show "field s (v + w) f = field s (v + w) f'"
    by (auto intro!: bit_eqI simp: field_bits)
qed

text \<open>
  Where the node is part of the flags, two pages have the same zone number exactly when they have the same zone
  and the same node. Where it is not, the number takes as many bits of the section as a node would have, because of the misspelt macro,
  and not the section, as the comment says: pages of different sections can have the same number.
\<close>

theorem page_zone_id_identifies:
  assumes "layout_compiles k"
  shows "(\<not> NODE_NOT_IN_PAGE_FLAGS k \<longrightarrow>
      (page_zone_id k f = page_zone_id k f' \<longleftrightarrow> page_zonenum k f = page_zonenum k f' \<and> page_to_nid k ext f = page_to_nid k ext f')) \<and>
    (NODE_NOT_IN_PAGE_FLAGS k \<longrightarrow>
      (page_zone_id k f = page_zone_id k f' \<longleftrightarrow> page_zonenum k f = page_zonenum k f' \<and>
         field (SECTIONS_PGOFF k) (NODES_SHIFT k) f = field (SECTIONS_PGOFF k) (NODES_SHIFT k) f'))"
proof -
  note l = layout [OF assms]
  have "ZONEID_PGOFF k = ZONES_PGOFF k" using l by (auto simp: ZONEID_PGOFF_def)
  then have "field (ZONEID_PGSHIFT k) (ZONEID_SHIFT k) = field (ZONES_PGOFF k) (ZONES_WIDTH k + NODES_SHIFT k)"
    by (cases "ZONEID_SHIFT k = 0") (auto simp: fun_eq_iff ZONEID_PGSHIFT_def ZONEID_SHIFT_def ZONES_WIDTH_def add.commute)
  then have "page_zone_id k f = page_zone_id k f' \<longleftrightarrow> page_zonenum k f = page_zonenum k f' \<and>
      field (NODES_PGOFF k) (NODES_SHIFT k) f = field (NODES_PGOFF k) (NODES_SHIFT k) f'"
    using l(2) by (simp add: page_fields field_shift field_append)
  moreover have "NODES_WIDTH k = (if NODE_NOT_IN_PAGE_FLAGS k then 0 else NODES_SHIFT k)"
    by (auto simp: NODE_NOT_IN_PAGE_FLAGS_def NODES_WIDTH_def)
  moreover have "\<not> NODE_NOT_IN_PAGE_FLAGS k \<Longrightarrow> page_to_nid k ext = field (NODES_PGOFF k) (NODES_WIDTH k)"
    by (simp add: page_fields field_shift)
  ultimately show ?thesis using l(3) by auto
qed

theorem page_zone_id_identifies_witness:
  "NODE_NOT_IN_PAGE_FLAGS tight_config \<and> page_zone_id tight_config 0x01000000 = page_zone_id tight_config 0x09000000 \<and>
   page_to_section tight_config 0x01000000 = 1 \<and> page_to_section tight_config 0x09000000 = 9"
proof -
  have n: "NODE_NOT_IN_PAGE_FLAGS tight_config" "layout_compiles tight_config"
    by (simp_all add: NODE_NOT_IN_PAGE_FLAGS_def config_defs)
  have "page_zonenum tight_config 0x01000000 = page_zonenum tight_config 0x09000000 \<and>
    field (SECTIONS_PGOFF tight_config) (NODES_SHIFT tight_config) 0x01000000 = field (SECTIONS_PGOFF tight_config) (NODES_SHIFT tight_config) 0x09000000"
    by code_simp
  moreover have "page_to_section tight_config 0x01000000 = 1 \<and> page_to_section tight_config 0x09000000 = 9" by code_simp
  ultimately show ?thesis
    using page_zone_id_identifies [OF n(2), of "0x01000000" "0x09000000"] n(1) by blast
qed

end
