(* ===== verification/MmHeader.thy ===== *)
theory MmHeader
  imports Prelude "HOL-Library.Word"
begin

text \<open>
  The inline functions of \<open>src/5/kernel/mm.h\<close> on pages, counters and areas of memory (\<open>PageFlags\<close> has the layout of the flags).
  The array of pages is a function of the page number, so \<open>page[1]\<close> is the page after. What the page flags mean, whether
  \<open>VM_BUG_ON\<close> is compiled in, and functions the header only declares are parameters; \<open>None\<close> is a failed \<open>VM_BUG_ON\<close>.
\<close>

unbundle bit_operations_syntax

section \<open>Pages\<close>

record page =
  flags :: u32
  pg_count :: int
  pg_mapcount :: int
  pg_private :: u32
  mapping :: u32
  index :: u32
  first_page :: nat
  lru_next :: u32
  lru_prev :: u32

record pgenv =
  DEBUG_VM :: bool
  PageTail :: "u32 \<Rightarrow> bool"
  PageHead :: "u32 \<Rightarrow> bool"
  PageSlab :: "u32 \<Rightarrow> bool"
  PageSwapCache :: "u32 \<Rightarrow> bool"
  swapper_space :: u32

type_synonym mem_map = "nat \<Rightarrow> page"

definition set_count :: "nat \<Rightarrow> int \<Rightarrow> mem_map \<Rightarrow> mem_map" where
  "set_count p n m = m(p := (m p)\<lparr>pg_count := int32 n\<rparr>)"

definition put_page_testzero :: "pgenv \<Rightarrow> nat \<Rightarrow> mem_map \<Rightarrow> (mem_map \<times> bool) option" where
  "put_page_testzero e p m =
     (if DEBUG_VM e \<and> pg_count (m p) = 0 then None
      else (let m' = set_count p (pg_count (m p) - 1) m in Some (m', pg_count (m' p) = 0)))"

definition get_page_unless_zero :: "nat \<Rightarrow> mem_map \<Rightarrow> mem_map \<times> bool" where
  "get_page_unless_zero p m = (if pg_count (m p) = 0 then (m, False) else (set_count p (pg_count (m p) + 1) m, True))"

definition compound_head :: "pgenv \<Rightarrow> mem_map \<Rightarrow> nat \<Rightarrow> nat" where
  "compound_head e m p = (if PageTail e (flags (m p)) then first_page (m p) else p)"

definition page_count :: "pgenv \<Rightarrow> mem_map \<Rightarrow> nat \<Rightarrow> int" where
  "page_count e m p = pg_count (m (compound_head e m p))"

definition get_page :: "pgenv \<Rightarrow> nat \<Rightarrow> mem_map \<Rightarrow> mem_map option" where
  "get_page e p m =
     (let p = compound_head e m p
      in if DEBUG_VM e \<and> pg_count (m p) = 0 then None else Some (set_count p (pg_count (m p) + 1) m))"

definition virt_to_head_page :: "pgenv \<Rightarrow> (u32 \<Rightarrow> nat) \<Rightarrow> mem_map \<Rightarrow> u32 \<Rightarrow> nat" where
  "virt_to_head_page e virt_to_page m x = compound_head e m (virt_to_page x)"

definition init_page_count :: "nat \<Rightarrow> mem_map \<Rightarrow> mem_map" where
  "init_page_count p m = set_count p 1 m"

definition set_compound_page_dtor :: "nat \<Rightarrow> u32 \<Rightarrow> mem_map \<Rightarrow> mem_map" where
  "set_compound_page_dtor p dtor m = m(p + 1 := (m (p + 1))\<lparr>lru_next := dtor\<rparr>)"

definition get_compound_page_dtor :: "nat \<Rightarrow> mem_map \<Rightarrow> u32" where
  "get_compound_page_dtor p m = lru_next (m (p + 1))"

definition compound_order :: "pgenv \<Rightarrow> nat \<Rightarrow> mem_map \<Rightarrow> int" where
  "compound_order e p m = (if \<not> PageHead e (flags (m p)) then 0 else sint (lru_prev (m (p + 1))))"

definition set_compound_order :: "nat \<Rightarrow> u32 \<Rightarrow> mem_map \<Rightarrow> mem_map" where
  "set_compound_order p order m = m(p + 1 := (m (p + 1))\<lparr>lru_prev := order\<rparr>)"

subsection \<open>What a page is mapped by\<close>

definition PAGE_MAPPING_ANON :: u32 where "PAGE_MAPPING_ANON = 1"
definition PAGE_MAPPING_KSM :: u32 where "PAGE_MAPPING_KSM = 2"
definition PAGE_MAPPING_FLAGS :: u32 where "PAGE_MAPPING_FLAGS = PAGE_MAPPING_ANON OR PAGE_MAPPING_KSM"

definition page_mapping :: "pgenv \<Rightarrow> page \<Rightarrow> u32 option" where
  "page_mapping e pg =
     (if DEBUG_VM e \<and> PageSlab e (flags pg) then None
      else if PageSwapCache e (flags pg) then Some (swapper_space e)
      else if mapping pg AND PAGE_MAPPING_ANON \<noteq> 0 then Some 0
      else Some (mapping pg))"

definition page_rmapping :: "page \<Rightarrow> u32" where
  "page_rmapping pg = mapping pg AND NOT PAGE_MAPPING_FLAGS"

definition PageAnon :: "page \<Rightarrow> bool" where
  "PageAnon pg \<longleftrightarrow> mapping pg AND PAGE_MAPPING_ANON \<noteq> 0"

definition page_index :: "pgenv \<Rightarrow> page \<Rightarrow> u32" where
  "page_index e pg = (if PageSwapCache e (flags pg) then pg_private pg else index pg)"

definition reset_page_mapcount :: "page \<Rightarrow> page" where
  "reset_page_mapcount pg = pg\<lparr>pg_mapcount := - 1\<rparr>"

definition page_mapcount :: "page \<Rightarrow> int" where
  "page_mapcount pg = int32 (pg_mapcount pg + 1)"

definition page_mapped :: "page \<Rightarrow> bool" where
  "page_mapped pg \<longleftrightarrow> 0 \<le> pg_mapcount pg"

section \<open>Counters of a memory map\<close>

text \<open>The version without split counters. The counters are signed, but read as unsigned words; the sum wraps.\<close>

datatype mm_member = MM_FILEPAGES | MM_ANONPAGES | MM_member nat

record mm =
  rss_stat :: "mm_member \<Rightarrow> u32"
  hiwater_rss :: u32
  hiwater_vm :: u32
  total_vm :: u32

definition set_mm_counter :: "mm_member \<Rightarrow> u32 \<Rightarrow> mm \<Rightarrow> mm" where
  "set_mm_counter k v m = m\<lparr>rss_stat := (rss_stat m)(k := v)\<rparr>"

definition get_mm_counter :: "mm_member \<Rightarrow> mm \<Rightarrow> u32" where
  "get_mm_counter k m = rss_stat m k"

definition add_mm_counter :: "mm_member \<Rightarrow> u32 \<Rightarrow> mm \<Rightarrow> mm" where
  "add_mm_counter k v m = m\<lparr>rss_stat := (rss_stat m)(k := rss_stat m k + v)\<rparr>"

definition inc_mm_counter :: "mm_member \<Rightarrow> mm \<Rightarrow> mm" where
  "inc_mm_counter k m = m\<lparr>rss_stat := (rss_stat m)(k := rss_stat m k + 1)\<rparr>"

definition dec_mm_counter :: "mm_member \<Rightarrow> mm \<Rightarrow> mm" where
  "dec_mm_counter k m = m\<lparr>rss_stat := (rss_stat m)(k := rss_stat m k - 1)\<rparr>"

definition get_mm_rss :: "mm \<Rightarrow> u32" where
  "get_mm_rss m = get_mm_counter MM_FILEPAGES m + get_mm_counter MM_ANONPAGES m"

definition get_mm_hiwater_rss :: "mm \<Rightarrow> u32" where
  "get_mm_hiwater_rss m = max (hiwater_rss m) (get_mm_rss m)"

definition get_mm_hiwater_vm :: "mm \<Rightarrow> u32" where
  "get_mm_hiwater_vm m = max (hiwater_vm m) (total_vm m)"

definition update_hiwater_rss :: "mm \<Rightarrow> mm" where
  "update_hiwater_rss m = (if hiwater_rss m < get_mm_rss m then m\<lparr>hiwater_rss := get_mm_rss m\<rparr> else m)"

definition update_hiwater_vm :: "mm \<Rightarrow> mm" where
  "update_hiwater_vm m = (if hiwater_vm m < total_vm m then m\<lparr>hiwater_vm := total_vm m\<rparr> else m)"

definition setmax_mm_hiwater_rss :: "u32 \<Rightarrow> mm \<Rightarrow> u32" where
  "setmax_mm_hiwater_rss maxrss m = (if maxrss < get_mm_hiwater_rss m then get_mm_hiwater_rss m else maxrss)"

section \<open>Areas\<close>

definition VM_GROWSDOWN :: u32 where "VM_GROWSDOWN = 0x100"
definition VM_PFNMAP :: u32 where "VM_PFNMAP = 0x400"
definition VM_SEQ_READ :: u32 where "VM_SEQ_READ = 0x8000"
definition VM_RAND_READ :: u32 where "VM_RAND_READ = 0x10000"
definition VM_PFN_AT_MMAP :: u32 where "VM_PFN_AT_MMAP = 0x40000000"
definition VM_READHINTMASK :: u32 where "VM_READHINTMASK = VM_SEQ_READ OR VM_RAND_READ"

record vm_area_struct =
  vm_start :: u32
  vm_end :: u32
  vm_flags :: u32

definition VM_ClearReadHint :: "vm_area_struct \<Rightarrow> vm_area_struct" where
  "VM_ClearReadHint v = v\<lparr>vm_flags := vm_flags v AND NOT VM_READHINTMASK\<rparr>"

definition VM_NormalReadHint :: "vm_area_struct \<Rightarrow> bool" where
  "VM_NormalReadHint v \<longleftrightarrow> vm_flags v AND VM_READHINTMASK = 0"

definition is_linear_pfn_mapping :: "vm_area_struct \<Rightarrow> bool" where
  "is_linear_pfn_mapping v \<longleftrightarrow> vm_flags v AND VM_PFN_AT_MMAP \<noteq> 0"

definition is_pfn_mapping :: "vm_area_struct \<Rightarrow> bool" where
  "is_pfn_mapping v \<longleftrightarrow> vm_flags v AND VM_PFNMAP \<noteq> 0"

definition is_vmalloc_addr :: "u32 \<Rightarrow> u32 \<Rightarrow> u32 \<Rightarrow> bool" where
  "is_vmalloc_addr VMALLOC_START VMALLOC_END addr \<longleftrightarrow> VMALLOC_START \<le> addr \<and> addr < VMALLOC_END"

definition vma_stack_continue :: "vm_area_struct option \<Rightarrow> u32 \<Rightarrow> bool" where
  "vma_stack_continue vo addr =
     (case vo of None \<Rightarrow> False | Some v \<Rightarrow> vm_end v = addr \<and> vm_flags v AND VM_GROWSDOWN \<noteq> 0)"

definition find_vma_intersection :: "(u32 \<Rightarrow> vm_area_struct option) \<Rightarrow> u32 \<Rightarrow> u32 \<Rightarrow> vm_area_struct option" where
  "find_vma_intersection find_vma start_addr end_addr =
     (case find_vma start_addr of
        None \<Rightarrow> None
      | Some v \<Rightarrow> if end_addr \<le> vm_start v then None else Some v)"

definition PAGE_SHIFT :: nat where "PAGE_SHIFT = 12"
definition PAGE_SIZE :: u32 where "PAGE_SIZE = push_bit PAGE_SHIFT 1"
definition PAGE_MASK :: u32 where "PAGE_MASK = NOT (PAGE_SIZE - 1)"

definition PAGE_ALIGN :: "u32 \<Rightarrow> u32" where
  "PAGE_ALIGN addr = (addr + (PAGE_SIZE - 1)) AND NOT (PAGE_SIZE - 1)"

definition vma_pages :: "vm_area_struct \<Rightarrow> u32" where
  "vma_pages v = drop_bit PAGE_SHIFT (vm_end v - vm_start v)"

text \<open>\<open>do_mmap_pgoff\<close> gets the length and the page offset; \<open>'m\<close> is the state it changes. The file, address and flags are passed on.\<close>

definition do_mmap :: "(u32 \<Rightarrow> u32 \<Rightarrow> 'm \<Rightarrow> u32 \<times> 'm) \<Rightarrow> u32 \<Rightarrow> u32 \<Rightarrow> 'm \<Rightarrow> u32 \<times> 'm" where
  "do_mmap do_mmap_pgoff len offset s =
     (let ret = - word_of_int EINVAL
      in if offset + PAGE_ALIGN len < offset then (ret, s)
         else if offset AND NOT PAGE_MASK = 0 then do_mmap_pgoff len (drop_bit PAGE_SHIFT offset) s
         else (ret, s))"

section \<open>References to a page\<close>

text \<open>
  The users of a page: one that has a reference can take another (\<open>get_page\<close>) or give one back (\<open>put_page_testzero\<close>, which says
  whether it was the last), and anybody can try to take one (\<open>get_page_unless_zero\<close>). The state has the pages and the number of
  references held.
\<close>

datatype ref_action = Act_get | Act_try bool | Act_put bool

inductive ref_step :: "pgenv \<Rightarrow> nat \<Rightarrow> mem_map \<times> nat \<Rightarrow> ref_action \<Rightarrow> mem_map \<times> nat \<Rightarrow> bool" for e p where
  ref_get: "0 < r \<Longrightarrow> get_page e p m = Some m' \<Longrightarrow> ref_step e p (m, r) Act_get (m', r + 1)"
| ref_try: "get_page_unless_zero p m = (m', ok) \<Longrightarrow> ref_step e p (m, r) (Act_try ok) (m', if ok then r + 1 else r)"
| ref_put: "0 < r \<Longrightarrow> put_page_testzero e p m = Some (m', z) \<Longrightarrow> ref_step e p (m, r) (Act_put z) (m', r - 1)"

inductive ref_run :: "pgenv \<Rightarrow> nat \<Rightarrow> mem_map \<times> nat \<Rightarrow> ref_action list \<Rightarrow> mem_map \<times> nat \<Rightarrow> bool" for e p s0 where
  run_nil: "ref_run e p s0 [] s0"
| run_snoc: "ref_run e p s0 tr s \<Longrightarrow> ref_step e p s a s' \<Longrightarrow> ref_run e p s0 (tr @ [a]) s'"

inductive_cases ref_stepE: "ref_step e p s a s'"

lemma set_count_simps [simp]:
  "pg_count (set_count p n m p) = int32 n" "flags (set_count p n m q) = flags (m q)" "q \<noteq> p \<Longrightarrow> set_count p n m q = m q"
  by (simp_all add: set_count_def)

lemma int32_nat: "n < 2 ^ 31 \<Longrightarrow> int32 (int n) = int n"
  by (simp add: int32_id)

text \<open>The count is the number of references, and the last put is followed by failed tries only.\<close>

definition ref_inv :: "pgenv \<Rightarrow> nat \<Rightarrow> ref_action list \<Rightarrow> mem_map \<times> nat \<Rightarrow> bool" where
  "ref_inv e p tr s \<longleftrightarrow>
     (case s of (m, r) \<Rightarrow> \<not> PageTail e (flags (m p)) \<and> pg_count (m p) = int r \<and> r \<le> length tr + 1 \<and>
        (if r = 0 then \<exists>pre post. tr = pre @ Act_put True # post \<and> Act_put True \<notin> set pre \<and> set post \<subseteq> {Act_try False}
         else Act_put True \<notin> set tr))"

lemma ref_inv_step:
  assumes "ref_inv e p tr s" "ref_step e p s a s'" "length tr < 2 ^ 31 - 2"
  shows "ref_inv e p (tr @ [a]) s'"
  using assms(2)
proof cases
  case (ref_get r m m')
  then have "m' = set_count p (int r + 1) m" "\<not> PageTail e (flags (m p))" "r \<le> length tr + 1" "Act_put True \<notin> set tr"
    using assms(1) by (auto simp: ref_inv_def get_page_def compound_head_def Let_def split: if_splits)
  then show ?thesis using ref_get assms(3) int32_nat [of "r + 1"] by (simp add: ref_inv_def add.commute)
next
  case (ref_try m m' ok r)
  show ?thesis
  proof (cases "r = 0")
    case True
    with ref_try assms(1) have a: "a = Act_try False" "s' = (m, 0)" by (auto simp: ref_inv_def get_page_unless_zero_def)
    from True ref_try assms(1) obtain pre post where
      "tr = pre @ Act_put True # post" "Act_put True \<notin> set pre" "set post \<subseteq> {Act_try False}" by (auto simp: ref_inv_def)
    then have "tr @ [a] = pre @ Act_put True # (post @ [a])" "Act_put True \<notin> set pre" "set (post @ [a]) \<subseteq> {Act_try False}"
      using a by auto
    then show ?thesis using assms(1) ref_try True a unfolding ref_inv_def by fastforce
  next
    case False
    then have "m' = set_count p (int r + 1) m" ok "r \<le> length tr + 1" using assms(1) ref_try
      by (auto simp: ref_inv_def get_page_unless_zero_def)
    then show ?thesis using False ref_try assms(1,3) int32_nat [of "r + 1"] by (simp add: ref_inv_def add.commute)
  qed
next
  case (ref_put r m m' z)
  have i: "pg_count (m p) = int r" "r \<le> length tr + 1" "Act_put True \<notin> set tr" "\<not> PageTail e (flags (m p))"
    using assms(1) ref_put by (auto simp: ref_inv_def)
  then have m': "m' = set_count p (int r - 1) m" "z \<longleftrightarrow> int32 (int r - 1) = 0"
    using ref_put by (auto simp: put_page_testzero_def Let_def split: if_splits)
  have c: "int32 (int r - 1) = int (r - 1)" using int32_nat [of "r - 1"] i(2) assms(3) ref_put by (simp add: of_nat_diff)
  show ?thesis
  proof (cases "r = 1")
    case True
    then have "a = Act_put True" "s' = (m', 0)" using c m' ref_put by simp_all
    moreover have "pg_count (m' p) = 0" "\<not> PageTail e (flags (m' p))" using c m'(1) i(4) True by simp_all
    moreover have "\<exists>pre post. tr @ [Act_put True] = pre @ Act_put True # post \<and> Act_put True \<notin> set pre \<and> set post \<subseteq> {Act_try False}"
      by (rule exI [of _ tr], rule exI [of _ "[]"]) (simp add: i(3))
    ultimately show ?thesis by (simp add: ref_inv_def)
  next
    case False
    then have "a = Act_put False" using c m' ref_put by simp
    moreover have "pg_count (m' p) = int (r - 1)" "\<not> PageTail e (flags (m' p))" using c m'(1) i(4) by simp_all
    ultimately show ?thesis using False i(2,3) ref_put by (simp add: ref_inv_def)
  qed
qed

text \<open>
  C13: From \<open>init_page_count\<close> on, for a page that is no tail page of a compound page, in any interleaving of takes, tries and puts by
  users that hold what they give back, the count is the number of references; exactly the put of the last reference reports zero, and after it every attempt to take a reference
  fails, so a page that was reported unused is not used again. While a reference is held, \<open>get_page\<close> and \<open>put_page_testzero\<close>
  do not stop at their \<open>VM_BUG_ON\<close>. The number of calls is below \<open>2 ^ 31 - 2\<close>, so that the count does not wrap.
\<close>

theorem page_references:
  assumes "ref_run e p (init_page_count p m0, 1) tr (m, r)" "\<not> PageTail e (flags (m0 p))" "length tr < 2 ^ 31 - 2"
  shows "page_count e m p = int r \<and> (r = 0 \<longleftrightarrow> Act_put True \<in> set tr) \<and>
    (\<forall>pre post. tr = pre @ Act_put True # post \<longrightarrow> set post \<subseteq> {Act_try False}) \<and>
    (0 < r \<longrightarrow> get_page e p m \<noteq> None \<and> put_page_testzero e p m \<noteq> None)"
proof -
  have "ref_inv e p tr (m, r)" if "length tr < 2 ^ 31 - 2"
    using assms(1) that
  proof (induction tr "(m, r)" arbitrary: m r)
    case run_nil
    then show ?case using assms(2) by (simp add: ref_inv_def init_page_count_def int32_id)
  next
    case (run_snoc tr s a)
    then show ?case using ref_inv_step by (cases s) simp
  qed
  then have inv: "ref_inv e p tr (m, r)" using assms(3) by blast
  have post: "set post \<subseteq> {Act_try False}" if tr: "tr = pre @ Act_put True # post" for pre post
  proof -
    obtain pre' post' where p: "tr = pre' @ Act_put True # post'" "Act_put True \<notin> set pre'" "set post' \<subseteq> {Act_try False}"
      using inv tr by (auto simp: ref_inv_def split: if_splits)
    then have "Act_put True \<notin> set post'" by auto
    with p tr have "post = post'" by (metis append_Cons_eq_iff)
    with p(3) show ?thesis by simp
  qed
  have "page_count e m p = int r" using inv by (simp add: ref_inv_def page_count_def compound_head_def)
  moreover have "r = 0 \<longleftrightarrow> Act_put True \<in> set tr" using inv by (auto simp: ref_inv_def split: if_splits)
  moreover have "get_page e p m \<noteq> None \<and> put_page_testzero e p m \<noteq> None" if "0 < r"
    using inv that by (auto simp: ref_inv_def get_page_def put_page_testzero_def compound_head_def Let_def)
  ultimately show ?thesis using post by blast
qed

text \<open>A page is taken by a second user, both give it back, and a third comes too late.\<close>

definition plain_page :: page where
  "plain_page = \<lparr>flags = 0, pg_count = 0, pg_mapcount = - 1, pg_private = 0, mapping = 0, index = 0, first_page = 0, lru_next = 0, lru_prev = 0\<rparr>"

definition plain_env :: pgenv where
  "plain_env = \<lparr>DEBUG_VM = True, PageTail = (\<lambda>f. bit f 14), PageHead = (\<lambda>f. bit f 13), PageSlab = (\<lambda>f. bit f 7),
     PageSwapCache = (\<lambda>f. bit f 15), swapper_space = 0xC1000000\<rparr>"

abbreviation (input) mem0 :: mem_map where "mem0 \<equiv> \<lambda>_. plain_page"

definition used_trace :: "ref_action list" where
  "used_trace = [Act_get, Act_put False, Act_put True, Act_try False]"

lemma used_trace_run: "\<exists>m. ref_run plain_env 0 (init_page_count 0 mem0, 1) used_trace (m, 0)"
proof -
  let ?c = "\<lambda>n. set_count 0 n"
  let ?m0 = "init_page_count 0 mem0"
  let ?m1 = "?c 2 ?m0" let ?m2 = "?c 1 ?m1" let ?m3 = "?c 0 ?m2"
  have "get_page plain_env 0 ?m0 = Some ?m1"
    by (simp add: get_page_def compound_head_def init_page_count_def int32_def plain_env_def plain_page_def Let_def)
  then have run: "ref_run plain_env 0 (?m0, 1) ([] @ [Act_get]) (?m1, 2)"
    using run_snoc [OF run_nil, of plain_env 0 "(?m0, 1)"] ref_get [of 1 plain_env 0 ?m0 ?m1] by (simp only: one_add_one zero_less_one)
  have run: "ref_run plain_env 0 (?m0, 1) (([] @ [Act_get]) @ [Act_put False]) (?m2, 2 - 1)"
    by (rule run_snoc [OF run]) (use ref_put [of 2 plain_env 0 ?m1 ?m2 False] in \<open>simp add: put_page_testzero_def int32_def Let_def\<close>)
  have run: "ref_run plain_env 0 (?m0, 1) ((([] @ [Act_get]) @ [Act_put False]) @ [Act_put True]) (?m3, 1 - 1)"
    by (rule run_snoc [OF run]) (use ref_put [of 1 plain_env 0 ?m2 ?m3 True] in \<open>simp add: put_page_testzero_def int32_def Let_def\<close>)
  have "ref_run plain_env 0 (?m0, 1) (((([] @ [Act_get]) @ [Act_put False]) @ [Act_put True]) @ [Act_try False]) (?m3, 0)"
    by (rule run_snoc [OF run]) (use ref_try [of 0 ?m3 ?m3 False plain_env 0] in \<open>simp add: get_page_unless_zero_def int32_def\<close>)
  then show ?thesis by (auto simp: used_trace_def)
qed

theorem page_references_witness:
  "\<exists>m. ref_run plain_env 0 (init_page_count 0 mem0, 1) used_trace (m, 0) \<and> page_count plain_env m 0 = 0"
proof -
  obtain m where run: "ref_run plain_env 0 (init_page_count 0 mem0, 1) used_trace (m, 0)" using used_trace_run by blast
  have "\<not> PageTail plain_env (flags (mem0 0))" "length used_trace < 2 ^ 31 - 2"
    by (simp_all add: plain_env_def plain_page_def used_trace_def)
  from page_references [OF run this] run show ?thesis by auto
qed

section \<open>Mappings\<close>

text \<open>
  The lowest bits of \<open>mapping\<close> distinguish what it points to. For an aligned pointer with the bit for anonymous pages,
  with or without that of merged pages, the page is anonymous, has no address space unless it is in the swap cache, and \<open>page_rmapping\<close>
  returns the pointer; without tags it is a page of a file and both functions return the pointer.
\<close>

theorem anon_mapping_tagged:
  assumes "take_bit 2 ptr = (0 :: u32)" "\<not> PageSlab e (flags pg)" "\<not> PageSwapCache e (flags pg)" "tag \<in> {0, 1, 3}"
    "mapping pg = ptr OR tag"
  shows "(PageAnon pg \<longleftrightarrow> tag \<noteq> 0) \<and> page_rmapping pg = ptr \<and> page_mapping e pg = Some (if tag = 0 then ptr else 0)"
proof -
  have b: "\<not> bit ptr 0" "\<not> bit ptr 1"
    using assms(1) by (auto dest!: arg_cong [where f = "\<lambda>x. bit x 0 \<or> bit x 1"] simp: bit_take_bit_iff)
  have tag: "(ptr OR tag) AND 1 = (if tag = 0 then 0 else 1)"
  proof -
    have "ptr AND 1 = 0" using b(1) by (simp add: and_one_eq bit_0 even_iff_mod_2_eq_zero)
    moreover have "tag AND 1 = (if tag = 0 then 0 else 1)" using assms(4) by auto
    ultimately show ?thesis by (simp add: bit.conj_disj_distrib2)
  qed
  have "(ptr OR tag) AND NOT 3 = ptr"
  proof (rule bit_eqI)
    fix n assume "possible_bit TYPE(32 word) n"
    have m: "(3 :: u32) = mask 2" by (simp add: mask_eq_exp_minus_1)
    have "tag = take_bit 2 tag" using assms(4) by auto
    then have t: "bit tag n \<Longrightarrow> n < 2" by (metis bit_take_bit_iff)
    have "n < 2 \<Longrightarrow> \<not> bit ptr n" using b by (auto simp: less_2_cases_iff)
    then show "bit ((ptr OR tag) AND NOT 3) n = bit ptr n"
      using t by (auto simp: m bit_simps dest: bit_imp_le_length)
  qed
  with tag assms show ?thesis
    by (auto simp: PageAnon_def page_rmapping_def page_mapping_def PAGE_MAPPING_FLAGS_def PAGE_MAPPING_ANON_def PAGE_MAPPING_KSM_def)
qed

theorem anon_mapping_tagged_witness:
  "PageAnon (plain_page\<lparr>mapping := 0xC0000100 OR 3\<rparr>) \<and> page_rmapping (plain_page\<lparr>mapping := 0xC0000100 OR 3\<rparr>) = 0xC0000100 \<and>
   page_mapping plain_env (plain_page\<lparr>mapping := 0xC0000100 OR 3\<rparr>) = Some 0"
proof -
  have "take_bit 2 (0xC0000100 :: u32) = 0" by code_simp
  from anon_mapping_tagged [OF this, of plain_env "plain_page\<lparr>mapping := 0xC0000100 OR 3\<rparr>" 3] show ?thesis
    by (simp add: plain_env_def plain_page_def)
qed

section \<open>High-water marks\<close>

text \<open>A change of a counter, with or without an update of the high-water mark before it.\<close>

definition mm_change :: "bool \<times> mm_member \<times> u32 \<Rightarrow> mm \<Rightarrow> mm" where
  "mm_change c m = (case c of (update, k, v) \<Rightarrow> add_mm_counter k v (if update then update_hiwater_rss m else m))"

fun rss_seen :: "(bool \<times> mm_member \<times> u32) list \<Rightarrow> mm \<Rightarrow> u32 list" where
  "rss_seen [] m = [get_mm_rss m]"
| "rss_seen (c # cs) m = get_mm_rss m # rss_seen cs (mm_change c m)"

text \<open>The mark is updated before the resident set gets smaller.\<close>

fun updates_before_shrink :: "(bool \<times> mm_member \<times> u32) list \<Rightarrow> mm \<Rightarrow> bool" where
  "updates_before_shrink [] m \<longleftrightarrow> True"
| "updates_before_shrink (c # cs) m \<longleftrightarrow> (fst c \<or> get_mm_rss m \<le> get_mm_rss (mm_change c m)) \<and> updates_before_shrink cs (mm_change c m)"

lemma hiwater_change:
  "hiwater_rss (mm_change (u, k, v) m) = (if u then max (hiwater_rss m) (get_mm_rss m) else hiwater_rss m)"
  by (auto simp: mm_change_def add_mm_counter_def update_hiwater_rss_def max_def)

text \<open>
  If the high-water mark is updated before every change that makes the resident set smaller, then \<open>get_mm_hiwater_rss\<close>
  returns the largest size the set ever had (or the mark at the beginning), although the mark is not updated when the set grows.
\<close>

theorem hiwater_is_peak:
  assumes "updates_before_shrink cs m"
  shows "get_mm_hiwater_rss (fold mm_change cs m) = Max (set (hiwater_rss m # rss_seen cs m))"
  using assms
proof (induction cs arbitrary: m)
  case Nil
  then show ?case by (simp add: get_mm_hiwater_rss_def)
next
  case (Cons c cs)
  obtain u k v where c: "c = (u, k, v)" by (cases c)
  let ?m = "mm_change c m"
  have h: "hiwater_rss ?m = (if u then max (hiwater_rss m) (get_mm_rss m) else hiwater_rss m)" by (simp add: c hiwater_change)
  have seen: "get_mm_rss ?m \<in> set (rss_seen cs ?m)" by (cases cs) auto
  then have ne: "rss_seen cs ?m \<noteq> []" by auto
  have "get_mm_hiwater_rss (fold mm_change (c # cs) m) = Max (set (hiwater_rss ?m # rss_seen cs ?m))"
    using Cons by simp
  also have "\<dots> = Max (set (hiwater_rss m # get_mm_rss m # rss_seen cs ?m))"
  proof (cases u)
    case True
    then show ?thesis using ne h by (simp add: max.assoc)
  next
    case False
    then have "get_mm_rss m \<le> get_mm_rss ?m" using Cons.prems c by simp
    also have "\<dots> \<le> Max (set (rss_seen cs ?m))" using seen by simp
    finally show ?thesis using False ne h by (simp add: max_absorb2)
  qed
  finally show ?case by simp
qed

definition empty_mm :: mm where
  "empty_mm = \<lparr>rss_stat = (\<lambda>_. 0), hiwater_rss = 0, hiwater_vm = 0, total_vm = 0\<rparr>"

text \<open>The set grows to 10 pages, then gives 4 back.\<close>

theorem hiwater_is_peak_witness:
  "get_mm_hiwater_rss (fold mm_change [(False, MM_FILEPAGES, 3), (False, MM_ANONPAGES, 7), (True, MM_ANONPAGES, - 4)] empty_mm) = 10"
proof -
  let ?cs = "[(False, MM_FILEPAGES, 3), (False, MM_ANONPAGES, 7), (True, MM_ANONPAGES, - 4)]"
  have "updates_before_shrink ?cs empty_mm" "Max (set (hiwater_rss empty_mm # rss_seen ?cs empty_mm)) = 10" by code_simp+
  with hiwater_is_peak [of ?cs empty_mm] show ?thesis by (simp only:)
qed

section \<open>Intersecting areas and page offsets\<close>

text \<open>What \<open>mm.h\<close> says of \<open>find_vma\<close>: the first area with \<open>addr < vm_end\<close>, or none.\<close>

definition find_vma_spec :: "vm_area_struct list \<Rightarrow> (u32 \<Rightarrow> vm_area_struct option) \<Rightarrow> bool" where
  "find_vma_spec areas find_vma \<longleftrightarrow> (\<forall>addr. find_vma addr = List.find (\<lambda>v. addr < vm_end v) areas)"

definition areas_ok :: "vm_area_struct list \<Rightarrow> bool" where
  "areas_ok areas \<longleftrightarrow> sorted_wrt (\<lambda>v w. vm_end v \<le> vm_start w) areas \<and> list_all (\<lambda>v. vm_start v < vm_end v) areas"

lemma find_none_beyond:
  "areas_ok (v # areas) \<Longrightarrow> end_addr \<le> vm_start v \<Longrightarrow> List.find (\<lambda>w. vm_start w < end_addr \<and> P w) areas = None"
  by (force simp: find_None_iff areas_ok_def list_all_iff)

text \<open>
  For areas that are sorted and do not overlap, and a \<open>find_vma\<close> that does what the header says, the result is the
  first area that has a byte in common with the interval.
\<close>

theorem find_vma_intersection_exact:
  assumes "areas_ok areas" "find_vma_spec areas find_vma"
  shows "find_vma_intersection find_vma start_addr end_addr =
    List.find (\<lambda>v. vm_start v < end_addr \<and> start_addr < vm_end v) areas"
proof -
  have "(case List.find (\<lambda>v. start_addr < vm_end v) areas of None \<Rightarrow> None | Some v \<Rightarrow> if end_addr \<le> vm_start v then None else Some v) =
    List.find (\<lambda>v. vm_start v < end_addr \<and> start_addr < vm_end v) areas"
    using assms(1)
  proof (induction areas)
    case (Cons v areas)
    have "areas_ok areas" using Cons.prems by (simp add: areas_ok_def)
    then show ?case using Cons find_none_beyond [OF Cons.prems] by (auto simp: not_le not_less)
  qed simp
  with assms(2) show ?thesis by (simp add: find_vma_intersection_def find_vma_spec_def)
qed

definition two_areas :: "vm_area_struct list" where
  "two_areas = [\<lparr>vm_start = 0x1000, vm_end = 0x3000, vm_flags = 0\<rparr>, \<lparr>vm_start = 0x8000, vm_end = 0x9000, vm_flags = VM_GROWSDOWN\<rparr>]"

theorem find_vma_intersection_exact_witness:
  "find_vma_intersection (\<lambda>addr. List.find (\<lambda>v. addr < vm_end v) two_areas) 0x3000 0x8000 = None \<and>
   find_vma_intersection (\<lambda>addr. List.find (\<lambda>v. addr < vm_end v) two_areas) 0x3000 0x8001 = Some (two_areas ! 1)"
proof -
  have ok: "areas_ok two_areas" "find_vma_spec two_areas (\<lambda>addr. List.find (\<lambda>v. addr < vm_end v) two_areas)"
    by (simp_all add: areas_ok_def two_areas_def find_vma_spec_def)
  show ?thesis
    using find_vma_intersection_exact [OF ok, of "0x3000" "0x8000"] find_vma_intersection_exact [OF ok, of "0x3000" "0x8001"]
    by (simp add: two_areas_def)
qed

lemma not_page_mask: "NOT PAGE_MASK = mask 12"
  by (simp add: PAGE_MASK_def PAGE_SIZE_def PAGE_SHIFT_def mask_eq_exp_minus_1 push_bit_eq_mult)

lemma u32_bound: "unat x < 2 ^ 32" for x :: u32
  using unsigned_less [of x] by simp

lemma and_not_mask_unat: "unat (x AND NOT (mask n)) = unat x div 2 ^ n * 2 ^ n" for x :: u32
proof -
  have "unat (push_bit n (drop_bit n x)) = take_bit 32 (push_bit n (drop_bit n (unat x)))"
    by (simp only: unsigned_push_bit_eq unat_drop_bit_eq) simp
  moreover have "x AND NOT (mask n) = push_bit n (drop_bit n x)"
    by (rule bit_eqI) (auto simp: bit_simps not_less dest: bit_imp_le_length)
  moreover have "unat x div 2 ^ n * 2 ^ n < 2 ^ 32"
    using u32_bound [of x] by (metis div_times_less_eq_dividend le_less_trans)
  ultimately show ?thesis
    by (simp only: push_bit_eq_mult [where 'a = nat] drop_bit_eq_div [where 'a = nat] take_bit_eq_mod [where 'a = nat] mod_less)
qed

lemma page_align_unat:
  "unat (PAGE_ALIGN len) = (if unat len \<le> 2 ^ 32 - 4096 then (unat len + 4095) div 4096 * 4096 else 0)"
proof -
  have m: "PAGE_SIZE - 1 = mask 12" by (simp add: PAGE_SIZE_def PAGE_SHIFT_def mask_eq_exp_minus_1 push_bit_eq_mult)
  have "unat len < 2 ^ 32" by (rule u32_bound)
  then have "unat (len + mask 12) = (if unat len \<le> 2 ^ 32 - 4096 then unat len + 4095 else unat len + 4095 - 2 ^ 32)"
    by (auto simp: unat_word_ariths mask_eq_exp_minus_1 mod_if)
  then show ?thesis using \<open>unat len < 2 ^ 32\<close> by (simp add: PAGE_ALIGN_def m and_not_mask_unat)
qed

text \<open>
  \<open>do_mmap\<close> returns \<open>EINVAL\<close> and changes nothing exactly when the offset is not at the beginning of a page or the offset plus
  the length rounded up to pages is beyond the address space; otherwise it calls \<open>do_mmap_pgoff\<close> with the number of the page. The rounding
  itself wraps: for a length in the last page it is zero, and the check passes.
\<close>

theorem do_mmap_exact:
  "do_mmap do_mmap_pgoff len offset s =
     (if unat offset mod 4096 \<noteq> 0 \<or>
         2 ^ 32 \<le> unat offset + (if unat len \<le> 2 ^ 32 - 4096 then (unat len + 4095) div 4096 * 4096 else 0)
      then (- 22, s) else do_mmap_pgoff len (word_of_nat (unat offset div 4096)) s)"
proof -
  have "offset + PAGE_ALIGN len < offset \<longleftrightarrow> 2 ^ 32 \<le> unat offset + unat (PAGE_ALIGN len)"
    using no_olen_add_nat [of offset "PAGE_ALIGN len"] by (simp add: not_le [symmetric])
  moreover have "offset AND NOT PAGE_MASK = 0 \<longleftrightarrow> unat offset mod 4096 = 0"
    unfolding not_page_mask take_bit_eq_mask [symmetric]
    by (simp add: take_bit_eq_mod unat_mod flip: unat_eq_0)
  moreover have "drop_bit PAGE_SHIFT offset = word_of_nat (unat offset div 4096)"
  proof -
    have "drop_bit PAGE_SHIFT offset = word_of_nat (unat (drop_bit 12 offset))" by (simp add: PAGE_SHIFT_def)
    then show ?thesis by (simp only: unat_drop_bit_eq drop_bit_eq_div [where 'a = nat]) simp
  qed
  ultimately show ?thesis by (auto simp: do_mmap_def page_align_unat EINVAL_def Let_def)
qed

section \<open>Small round trips\<close>

lemma mapped_iff_mapcount:
  "- 1 \<le> pg_mapcount pg \<Longrightarrow> pg_mapcount pg < 2 ^ 31 - 1 \<Longrightarrow> page_mapped pg \<longleftrightarrow> 0 < page_mapcount pg"
  by (auto simp: page_mapped_def page_mapcount_def int32_id)

lemma reset_not_mapped: "\<not> page_mapped (reset_page_mapcount pg) \<and> page_mapcount (reset_page_mapcount pg) = 0"
  by (simp add: page_mapped_def reset_page_mapcount_def page_mapcount_def int32_def)

lemma compound_roundtrip:
  "PageHead e (flags (m p)) \<Longrightarrow>
    compound_order e p (set_compound_order p n (set_compound_page_dtor p d m)) = sint n \<and>
    get_compound_page_dtor p (set_compound_order p n (set_compound_page_dtor p d m)) = d"
  by (simp add: compound_order_def set_compound_order_def set_compound_page_dtor_def get_compound_page_dtor_def)

lemma clear_read_hint: "VM_NormalReadHint (VM_ClearReadHint v)"
  by (simp add: VM_NormalReadHint_def VM_ClearReadHint_def and.assoc)

end
