(* ===== verification/PageTables.thy ===== *)
theory PageTables
  imports Prelude
begin

text \<open>
  The page table helpers of \<open>src/5/kernel/mm.h\<close>: finding the next level of a page table, which is allocated if it is missing, and locking a
  page of entries, with one lock per page or one per address space (\<open>USE_SPLIT_PTLOCKS\<close>). The allocators and the index of an address
  in a table of a level are code of other files and parameters here; of the macros for spin locks and temporary mappings, only who holds a lock and how
  many mappings there are matters. \<open>None\<close> as the result of a macro means that it does not return: it waits for a lock its caller
  holds, or uses an entry that is not there.
\<close>

section \<open>State\<close>

datatype ptlock = Ptl nat | Page_table_lock nat

text \<open>
  The tables are maps from entries to the next level: a \<open>pgd\<close> to a table of \<open>pud\<close>s, and so on; \<open>pmds\<close> has the page with the last level.
  \<open>maps\<close> counts the pages of entries that are mapped at the moment.
\<close>

record ptstate =
  pgds :: "nat \<rightharpoonup> nat"
  puds :: "nat \<rightharpoonup> nat"
  pmds :: "nat \<rightharpoonup> nat"
  held :: "ptlock set"
  maps :: int
  mapping :: "nat \<rightharpoonup> nat"
  lock_ready :: "nat set"
  nr_pagetable :: int

record ptenv =
  split_ptlocks :: bool
  pud_alloc_fn :: "nat \<Rightarrow> nat \<Rightarrow> u32 \<Rightarrow> ptstate \<Rightarrow> ptstate \<times> int"
  pmd_alloc_fn :: "nat \<Rightarrow> nat \<Rightarrow> u32 \<Rightarrow> ptstate \<Rightarrow> ptstate \<times> int"
  pte_alloc_fn :: "nat \<Rightarrow> nat \<Rightarrow> u32 \<Rightarrow> ptstate \<Rightarrow> ptstate \<times> int"
  pte_alloc_kernel_fn :: "nat \<Rightarrow> u32 \<Rightarrow> ptstate \<Rightarrow> ptstate \<times> int"
  pt_index :: "nat \<Rightarrow> u32 \<Rightarrow> nat"

section \<open>Upper levels\<close>

text \<open>The address of an entry is its table and its index; a missing level is allocated first.\<close>

definition pud_alloc :: "ptenv \<Rightarrow> nat \<Rightarrow> nat \<Rightarrow> u32 \<Rightarrow> ptstate \<Rightarrow> ptstate \<times> (nat option \<times> nat) option" where
  "pud_alloc E mm pgd address s =
     (let (s, e) = (if pgds s pgd = None then pud_alloc_fn E mm pgd address s else (s, 0))
      in (s, if e \<noteq> 0 then None else Some (pgds s pgd, pt_index E 3 address)))"

definition pmd_alloc :: "ptenv \<Rightarrow> nat \<Rightarrow> nat \<Rightarrow> u32 \<Rightarrow> ptstate \<Rightarrow> ptstate \<times> (nat option \<times> nat) option" where
  "pmd_alloc E mm pud address s =
     (let (s, e) = (if puds s pud = None then pmd_alloc_fn E mm pud address s else (s, 0))
      in (s, if e \<noteq> 0 then None else Some (puds s pud, pt_index E 2 address)))"

section \<open>Locks\<close>

definition spin_lock :: "ptlock \<Rightarrow> ptstate \<Rightarrow> ptstate option" where
  "spin_lock k s = (if k \<in> held s then None else Some (s\<lparr>held := insert k (held s)\<rparr>))"

definition spin_unlock :: "ptlock \<Rightarrow> ptstate \<Rightarrow> ptstate" where
  "spin_unlock k s = s\<lparr>held := held s - {k}\<rparr>"

definition pte_lock_init :: "ptenv \<Rightarrow> nat \<Rightarrow> ptstate \<Rightarrow> ptstate" where
  "pte_lock_init E pg s = (if split_ptlocks E then s\<lparr>lock_ready := insert pg (lock_ready s)\<rparr> else s)"

definition pte_lock_deinit :: "ptenv \<Rightarrow> nat \<Rightarrow> ptstate \<Rightarrow> ptstate" where
  "pte_lock_deinit E pg s = (if split_ptlocks E then s\<lparr>mapping := (mapping s)(pg := None)\<rparr> else s)"

definition pte_lockptr :: "ptenv \<Rightarrow> nat \<Rightarrow> nat \<Rightarrow> ptstate \<Rightarrow> ptlock option" where
  "pte_lockptr E mm pmd s = (if split_ptlocks E then map_option Ptl (pmds s pmd) else Some (Page_table_lock mm))"

definition pgtable_page_ctor :: "ptenv \<Rightarrow> nat \<Rightarrow> ptstate \<Rightarrow> ptstate" where
  "pgtable_page_ctor E pg s = (let s = pte_lock_init E pg s in s\<lparr>nr_pagetable := nr_pagetable s + 1\<rparr>)"

definition pgtable_page_dtor :: "ptenv \<Rightarrow> nat \<Rightarrow> ptstate \<Rightarrow> ptstate" where
  "pgtable_page_dtor E pg s = (let s = pte_lock_deinit E pg s in s\<lparr>nr_pagetable := nr_pagetable s - 1\<rparr>)"

section \<open>The last level\<close>

definition pte_offset_map :: "ptenv \<Rightarrow> nat \<Rightarrow> u32 \<Rightarrow> ptstate \<Rightarrow> (ptstate \<times> nat \<times> nat) option" where
  "pte_offset_map E pmd address s =
     map_option (\<lambda>pg. (s\<lparr>maps := maps s + 1\<rparr>, pg, pt_index E 1 address)) (pmds s pmd)"

definition pte_unmap :: "nat \<times> nat \<Rightarrow> ptstate \<Rightarrow> ptstate" where
  "pte_unmap pte s = s\<lparr>maps := maps s - 1\<rparr>"

definition pte_offset_map_lock :: "ptenv \<Rightarrow> nat \<Rightarrow> nat \<Rightarrow> u32 \<Rightarrow> ptstate \<Rightarrow> (ptstate \<times> (nat \<times> nat) \<times> ptlock) option" where
  "pte_offset_map_lock E mm pmd address s =
     (case pte_lockptr E mm pmd s of
        None \<Rightarrow> None
      | Some ptl \<Rightarrow>
          (case pte_offset_map E pmd address s of
             None \<Rightarrow> None
           | Some (s, pte) \<Rightarrow> map_option (\<lambda>s. (s, pte, ptl)) (spin_lock ptl s)))"

definition pte_unmap_unlock :: "nat \<times> nat \<Rightarrow> ptlock \<Rightarrow> ptstate \<Rightarrow> ptstate" where
  "pte_unmap_unlock pte ptl s = pte_unmap pte (spin_unlock ptl s)"

definition pte_alloc_map :: "ptenv \<Rightarrow> nat \<Rightarrow> nat \<Rightarrow> u32 \<Rightarrow> ptstate \<Rightarrow> (ptstate \<times> (nat \<times> nat) option) option" where
  "pte_alloc_map E mm pmd address s =
     (let (s, e) = (if pmds s pmd = None then pte_alloc_fn E mm pmd address s else (s, 0))
      in if e \<noteq> 0 then Some (s, None) else map_option (\<lambda>(s, pte). (s, Some pte)) (pte_offset_map E pmd address s))"

definition pte_alloc_map_lock ::
  "ptenv \<Rightarrow> nat \<Rightarrow> nat \<Rightarrow> u32 \<Rightarrow> ptstate \<Rightarrow> (ptstate \<times> ((nat \<times> nat) \<times> ptlock) option) option" where
  "pte_alloc_map_lock E mm pmd address s =
     (let (s, e) = (if pmds s pmd = None then pte_alloc_fn E mm pmd address s else (s, 0))
      in if e \<noteq> 0 then Some (s, None) else map_option (\<lambda>(s, r). (s, Some r)) (pte_offset_map_lock E mm pmd address s))"

definition pte_alloc_kernel :: "ptenv \<Rightarrow> nat \<Rightarrow> u32 \<Rightarrow> ptstate \<Rightarrow> ptstate \<times> (nat option \<times> nat) option" where
  "pte_alloc_kernel E pmd address s =
     (let (s, e) = (if pmds s pmd = None then pte_alloc_kernel_fn E pmd address s else (s, 0))
      in (s, if e \<noteq> 0 then None else Some (pmds s pmd, pt_index E 1 address)))"

section \<open>Locking and unlocking\<close>

text \<open>
  What \<open>__pte_alloc\<close> promises: if it returns 0 the entry is there, an entry that was there stays, and it gives back the locks it takes.
\<close>

definition pte_alloc_ok :: "ptenv \<Rightarrow> bool" where
  "pte_alloc_ok E \<longleftrightarrow> (\<forall>mm pmd address s s' e. pte_alloc_fn E mm pmd address s = (s', e) \<longrightarrow>
     (e = 0 \<longrightarrow> pmds s' pmd \<noteq> None) \<and> (\<forall>p. pmds s p \<noteq> None \<longrightarrow> pmds s' p = pmds s p) \<and> held s' = held s \<and> maps s' = maps s)"

lemma offset_map_lock:
  assumes "pmds s pmd = Some pg"
  shows "\<exists>ptl. pte_lockptr E mm pmd s = Some ptl \<and>
    pte_offset_map_lock E mm pmd address s =
      (if ptl \<in> held s then None
       else Some (s\<lparr>maps := maps s + 1, held := insert ptl (held s)\<rparr>, (pg, pt_index E 1 address), ptl))"
  using assms by (cases "split_ptlocks E") (simp_all add: pte_offset_map_lock_def pte_offset_map_def pte_lockptr_def spin_lock_def)

lemma lockptr_fields [simp]: "pte_lockptr E mm pmd (s\<lparr>maps := n, held := h\<rparr>) = pte_lockptr E mm pmd s"
  by (simp add: pte_lockptr_def)

lemma alloc_step:
  assumes "pte_alloc_ok E" "(if pmds s pmd = None then pte_alloc_fn E mm pmd address s else (s, 0)) = (s1, e)"
  shows "held s1 = held s" "maps s1 = maps s" "e \<noteq> 0 \<longrightarrow> pmds s pmd = None" "e = 0 \<longrightarrow> pmds s1 pmd \<noteq> None"
proof -
  have "(e = 0 \<longrightarrow> pmds s1 pmd \<noteq> None) \<and> held s1 = held s \<and> maps s1 = maps s" if "pmds s pmd = None"
    using assms that unfolding pte_alloc_ok_def by (metis (full_types))
  then show "held s1 = held s" "maps s1 = maps s" "e \<noteq> 0 \<longrightarrow> pmds s pmd = None" "e = 0 \<longrightarrow> pmds s1 pmd \<noteq> None"
    using assms(2) by (cases "pmds s pmd = None"; simp)+
qed

text \<open>
  Allocating, mapping and locking: nothing is locked if the allocation failed; otherwise the lock belongs to the entry's page, and
  unlocking gives back the state the caller had. The call waits for ever exactly if the caller holds that lock.
\<close>

lemma alloc_lock_unlock:
  assumes "pte_alloc_ok E" "pte_alloc_map_lock E mm pmd address s = Some (s', r)"
  shows "case r of
     None \<Rightarrow> pmds s pmd = None \<and> held s' = held s \<and> maps s' = maps s
   | Some (pte, ptl) \<Rightarrow>
       pmds s' pmd = Some (fst pte) \<and> pte_lockptr E mm pmd s' = Some ptl \<and> ptl \<notin> held s \<and> held s' = insert ptl (held s) \<and>
       held (pte_unmap_unlock pte ptl s') = held s \<and> maps (pte_unmap_unlock pte ptl s') = maps s"
proof -
  obtain s1 e where a: "(if pmds s pmd = None then pte_alloc_fn E mm pmd address s else (s, 0)) = (s1, e)" by (rule prod.exhaust)
  note s1 = alloc_step [OF assms(1) a]
  show ?thesis
  proof (cases "e = 0")
    case True
    then obtain pg where pg: "pmds s1 pmd = Some pg" using s1(4) by auto
    have "map_option (\<lambda>(s, r). (s, Some r)) (pte_offset_map_lock E mm pmd address s1) = Some (s', r)"
      using assms(2) True unfolding pte_alloc_map_lock_def a by simp
    then show ?thesis
      using offset_map_lock [OF pg, of E mm address] pg s1(1,2)
      by (auto simp: pte_unmap_unlock_def pte_unmap_def spin_unlock_def split: if_splits)
  next
    case False
    then show ?thesis using assms(2) s1 unfolding pte_alloc_map_lock_def a by auto
  qed
qed

lemma alloc_lock_returns:
  assumes "pte_alloc_ok E"
  shows "pte_alloc_map_lock E mm pmd address s = None \<longleftrightarrow>
    (let (s', e) = (if pmds s pmd = None then pte_alloc_fn E mm pmd address s else (s, 0))
     in e = 0 \<and> the (pte_lockptr E mm pmd s') \<in> held s)"
proof -
  obtain s1 e where a: "(if pmds s pmd = None then pte_alloc_fn E mm pmd address s else (s, 0)) = (s1, e)" by (rule prod.exhaust)
  note s1 = alloc_step [OF assms a]
  show ?thesis
  proof (cases "e = 0")
    case True
    then obtain pg where "pmds s1 pmd = Some pg" using s1(4) by auto
    from offset_map_lock [OF this, of E mm address] obtain ptl where ptl: "pte_lockptr E mm pmd s1 = Some ptl"
      "pte_offset_map_lock E mm pmd address s1 = None \<longleftrightarrow> ptl \<in> held s1" by auto
    show ?thesis unfolding pte_alloc_map_lock_def a by (simp add: True ptl s1(1))
  next
    case False
    then show ?thesis unfolding pte_alloc_map_lock_def a by simp
  qed
qed

text \<open>
  With one lock per page two pages of entries can be locked at the same time; with one per address space the second lock waits for the first.
\<close>

lemma lock_two:
  assumes "pte_offset_map_lock E mm p address s = Some (s', r)" "pmds s p = Some pg" "pmds s q = Some pg'" "pte_lockptr E mm q s \<noteq> None"
    "the (pte_lockptr E mm q s) \<notin> held s"
  shows "pte_offset_map_lock E mm q address' s' \<noteq> None \<longleftrightarrow> split_ptlocks E \<and> pg \<noteq> pg'"
  using assms
  by (auto simp: pte_offset_map_lock_def pte_offset_map_def pte_lockptr_def spin_lock_def split: if_splits)

lemma ctor_dtor:
  "nr_pagetable (pgtable_page_dtor E pg (pgtable_page_ctor E pg s)) = nr_pagetable s"
  "split_ptlocks E \<Longrightarrow> pg \<in> lock_ready (pgtable_page_ctor E pg s) \<and> mapping (pgtable_page_dtor E pg s) pg = None"
  by (simp_all add: pgtable_page_ctor_def pgtable_page_dtor_def pte_lock_init_def pte_lock_deinit_def Let_def)

end
