(* ===== verification/FlexBuffers.thy ===== *)
theory FlexBuffers
  imports CString
begin

text \<open>
  The input buffers of the scanner in \<open>src/2/parseline.c\<close>: buffers are allocated and freed, and the current one is the top of
  a stack that grows on demand. The functions that switch buffers keep the scanning position of the current
  buffer in variables and write it back. \<open>FlexScanner\<close> scans one buffer; here is what \<open>yyrestart\<close> and the functions for
  several buffers do. A pointer to a buffer is a number, the null pointer is \<open>None\<close>; using a freed buffer or an element beyond
  an array is \<open>Crash\<close>, \<open>YY_FATAL_ERROR\<close> ends the program with code 2. A buffer owns its characters; a buffer made by
  \<open>yy_scan_buffer\<close> has those of its caller.
\<close>

abbreviation EOB :: char where "EOB \<equiv> CHR 0x00"
definition YY_BUFFER_NEW :: nat where "YY_BUFFER_NEW = 0"

section \<open>State\<close>

record ybuf =
  yy_input_file :: "nat option"
  yy_ch_buf :: string
  yy_buf_pos :: nat
  yy_buf_size :: nat
  yy_n_chars :: nat
  yy_is_our_buffer :: bool
  yy_is_interactive :: bool
  yy_at_bol :: bool
  yy_bs_lineno :: int
  yy_bs_column :: int
  yy_fill_buffer :: bool
  yy_buffer_status :: nat

text \<open>
  The global variables; the length of the list is \<open>yy_buffer_stack_max\<close>. \<open>heap\<close> has the buffers that are
  allocated, \<open>fresh\<close> is the next one \<open>yyalloc\<close> returns, \<open>mem_ok n\<close> says whether allocation number \<open>n\<close> succeeds.
\<close>

record yyg =
  yy_buffer_stack :: "nat option list option"
  yy_buffer_stack_top :: nat
  yy_c_buf_p :: nat
  yytext_ptr :: nat
  n_chars :: nat
  yy_hold_char :: char
  yyin :: "nat option"
  yy_did_buffer_switch_on_eof :: bool
  yy_init :: bool
  yy_start :: nat
  heap :: "nat \<rightharpoonup> ybuf"
  fresh :: nat
  allocs :: nat
  mem_ok :: "nat \<Rightarrow> bool"

definition yy_fatal_error :: "'a sh" where
  "yy_fatal_error = Exit 2"

definition yyalloc :: "yyg \<Rightarrow> yyg sh" where
  "yyalloc g = (let g' = g\<lparr>allocs := allocs g + 1\<rparr> in if mem_ok g (allocs g) then Go g' else yy_fatal_error)"

definition current :: "yyg \<Rightarrow> nat option sh" where
  "current g =
     (case yy_buffer_stack g of
        None \<Rightarrow> Go None
      | Some st \<Rightarrow> if yy_buffer_stack_top g < length st then Go (st ! yy_buffer_stack_top g) else Crash)"

definition set_current :: "nat option \<Rightarrow> yyg \<Rightarrow> yyg sh" where
  "set_current b g =
     (case yy_buffer_stack g of
        None \<Rightarrow> Crash
      | Some st \<Rightarrow>
          if yy_buffer_stack_top g < length st
          then Go (g\<lparr>yy_buffer_stack := Some (st[yy_buffer_stack_top g := b])\<rparr>) else Crash)"

definition deref :: "nat \<Rightarrow> yyg \<Rightarrow> ybuf sh" where
  "deref b g = (case heap g b of None \<Rightarrow> Crash | Some B \<Rightarrow> Go B)"

definition store :: "nat \<Rightarrow> ybuf \<Rightarrow> yyg \<Rightarrow> yyg" where
  "store b B g = g\<lparr>heap := (heap g)(b \<mapsto> B)\<rparr>"

section \<open>One buffer\<close>

definition yy_load_buffer_state :: "yyg \<Rightarrow> yyg sh" where
  "yy_load_buffer_state g =
     sbind (current g) (\<lambda>c.
       case c of
         None \<Rightarrow> Crash
       | Some b \<Rightarrow>
           sbind (deref b g) (\<lambda>B.
             if yy_buf_pos B < length (yy_ch_buf B) then
               Go (g\<lparr>n_chars := yy_n_chars B, yytext_ptr := yy_buf_pos B, yy_c_buf_p := yy_buf_pos B,
                     yyin := yy_input_file B, yy_hold_char := yy_ch_buf B ! yy_buf_pos B\<rparr>)
             else Crash))"

definition yy_flush_buffer :: "nat option \<Rightarrow> yyg \<Rightarrow> yyg sh" where
  "yy_flush_buffer bo g =
     (case bo of
        None \<Rightarrow> Go g
      | Some b \<Rightarrow>
          sbind (deref b g) (\<lambda>B.
            if length (yy_ch_buf B) < 2 then Crash
            else
              (let g = store b (B\<lparr>yy_n_chars := 0, yy_ch_buf := (yy_ch_buf B)[0 := EOB, 1 := EOB], yy_buf_pos := 0,
                                  yy_at_bol := True, yy_buffer_status := YY_BUFFER_NEW\<rparr>) g
               in sbind (current g) (\<lambda>c. if c = Some b then yy_load_buffer_state g else Go g))))"

text \<open>\<open>tty\<close> says which files are terminals.\<close>

definition yy_init_buffer :: "(nat \<Rightarrow> bool) \<Rightarrow> nat \<Rightarrow> nat option \<Rightarrow> yyg \<Rightarrow> yyg sh" where
  "yy_init_buffer tty b file g =
     sbind (yy_flush_buffer (Some b) g) (\<lambda>g.
     sbind (deref b g) (\<lambda>B.
     sbind (current g) (\<lambda>c.
       (let B = B\<lparr>yy_input_file := file, yy_fill_buffer := True\<rparr>;
            B = (if c \<noteq> Some b then B\<lparr>yy_bs_lineno := 1, yy_bs_column := 0\<rparr> else B);
            B = B\<lparr>yy_is_interactive := (case file of None \<Rightarrow> False | Some f \<Rightarrow> tty f)\<rparr>
        in Go (store b B g)))))"

text \<open>A new buffer has arbitrary contents until \<open>yy_init_buffer\<close> has written its first two characters.\<close>

definition yy_create_buffer :: "(nat \<Rightarrow> bool) \<Rightarrow> string \<Rightarrow> nat option \<Rightarrow> nat \<Rightarrow> yyg \<Rightarrow> (yyg \<times> nat) sh" where
  "yy_create_buffer tty junk file sz g =
     sbind (yyalloc g) (\<lambda>g.
     sbind (yyalloc g) (\<lambda>g.
       (let b = fresh g;
            B = \<lparr>yy_input_file = None, yy_ch_buf = take (sz + 2) (junk @ replicate (sz + 2) EOB), yy_buf_pos = 0,
                 yy_buf_size = sz, yy_n_chars = 0, yy_is_our_buffer = True, yy_is_interactive = False, yy_at_bol = False,
                 yy_bs_lineno = 0, yy_bs_column = 0, yy_fill_buffer = False, yy_buffer_status = 0\<rparr>
        in sbind (yy_init_buffer tty b file (store b B (g\<lparr>fresh := b + 1\<rparr>))) (\<lambda>g. Go (g, b)))))"

definition yy_delete_buffer :: "nat option \<Rightarrow> yyg \<Rightarrow> yyg sh" where
  "yy_delete_buffer bo g =
     (case bo of
        None \<Rightarrow> Go g
      | Some b \<Rightarrow>
          sbind (current g) (\<lambda>c.
          sbind (if c = Some b then set_current None g else Go g) (\<lambda>g.
          sbind (deref b g) (\<lambda>B. Go (g\<lparr>heap := (heap g)(b := None)\<rparr>)))))"

section \<open>The stack\<close>

text \<open>The first allocation is for one element, later ones add eight.\<close>

definition yyensure_buffer_stack :: "yyg \<Rightarrow> yyg sh" where
  "yyensure_buffer_stack g =
     (case yy_buffer_stack g of
        None \<Rightarrow> sbind (yyalloc g) (\<lambda>g. Go (g\<lparr>yy_buffer_stack := Some [None], yy_buffer_stack_top := 0\<rparr>))
      | Some st \<Rightarrow>
          if length st \<le> yy_buffer_stack_top g + 1 then
            sbind (yyalloc g) (\<lambda>g. Go (g\<lparr>yy_buffer_stack := Some (st @ replicate 8 None)\<rparr>))
          else Go g)"

text \<open>Both functions that leave a buffer write its position and the character under it back.\<close>

definition save_current :: "yyg \<Rightarrow> yyg sh" where
  "save_current g =
     sbind (current g) (\<lambda>c.
       case c of
         None \<Rightarrow> Go g
       | Some b \<Rightarrow>
           sbind (deref b g) (\<lambda>B.
             if yy_c_buf_p g < length (yy_ch_buf B) then
               Go (store b (B\<lparr>yy_ch_buf := (yy_ch_buf B)[yy_c_buf_p g := yy_hold_char g], yy_buf_pos := yy_c_buf_p g,
                              yy_n_chars := n_chars g\<rparr>) g)
             else Crash))"

definition yy_switch_to_buffer :: "nat option \<Rightarrow> yyg \<Rightarrow> yyg sh" where
  "yy_switch_to_buffer new_buffer g =
     sbind (yyensure_buffer_stack g) (\<lambda>g.
     sbind (current g) (\<lambda>c.
       if c = new_buffer then Go g
       else
         sbind (save_current g) (\<lambda>g.
         sbind (set_current new_buffer g) (\<lambda>g.
         sbind (yy_load_buffer_state g) (\<lambda>g. Go (g\<lparr>yy_did_buffer_switch_on_eof := True\<rparr>))))))"

definition yypush_buffer_state :: "nat option \<Rightarrow> yyg \<Rightarrow> yyg sh" where
  "yypush_buffer_state new_buffer g =
     (if new_buffer = None then Go g
      else
        sbind (yyensure_buffer_stack g) (\<lambda>g.
        sbind (save_current g) (\<lambda>g.
        sbind (current g) (\<lambda>c.
          (let g = (if c \<noteq> None then g\<lparr>yy_buffer_stack_top := yy_buffer_stack_top g + 1\<rparr> else g)
           in sbind (set_current new_buffer g) (\<lambda>g.
              sbind (yy_load_buffer_state g) (\<lambda>g. Go (g\<lparr>yy_did_buffer_switch_on_eof := True\<rparr>))))))))"

definition drop_top :: "yyg \<Rightarrow> yyg" where
  "drop_top g = (if 0 < yy_buffer_stack_top g then g\<lparr>yy_buffer_stack_top := yy_buffer_stack_top g - 1\<rparr> else g)"

definition yypop_buffer_state :: "yyg \<Rightarrow> yyg sh" where
  "yypop_buffer_state g =
     sbind (current g) (\<lambda>c.
       if c = None then Go g
       else
         sbind (yy_delete_buffer c g) (\<lambda>g.
         sbind (set_current None g) (\<lambda>g.
           (let g = drop_top g
            in sbind (current g) (\<lambda>c.
                 if c = None then Go g
                 else sbind (yy_load_buffer_state g) (\<lambda>g. Go (g\<lparr>yy_did_buffer_switch_on_eof := True\<rparr>)))))))"

definition YY_BUF_SIZE :: nat where "YY_BUF_SIZE = 16384"

text \<open>The buffer a scanner gets when it has none: in \<open>yyrestart\<close> and at the first call of \<open>yylex\<close>.\<close>

definition need_buffer :: "(nat \<Rightarrow> bool) \<Rightarrow> string \<Rightarrow> yyg \<Rightarrow> yyg sh" where
  "need_buffer tty junk g =
     sbind (current g) (\<lambda>c.
       if c \<noteq> None then Go g
       else
         sbind (yyensure_buffer_stack g) (\<lambda>g.
         sbind (yy_create_buffer tty junk (yyin g) YY_BUF_SIZE g) (\<lambda>(g, b). set_current (Some b) g)))"

definition yyrestart :: "(nat \<Rightarrow> bool) \<Rightarrow> string \<Rightarrow> nat option \<Rightarrow> yyg \<Rightarrow> yyg sh" where
  "yyrestart tty junk input_file g =
     sbind (need_buffer tty junk g) (\<lambda>g.
     sbind (current g) (\<lambda>c.
       case c of
         None \<Rightarrow> Crash
       | Some b \<Rightarrow> sbind (yy_init_buffer tty b input_file g) yy_load_buffer_state))"

section \<open>Scanning from memory\<close>

definition yy_scan_buffer :: "string \<Rightarrow> yyg \<Rightarrow> (yyg \<times> nat option) sh" where
  "yy_scan_buffer base g =
     (let sz = length base in
      if sz < 2 \<or> base ! (sz - 2) \<noteq> EOB \<or> base ! (sz - 1) \<noteq> EOB then Go (g, None)
      else
        sbind (yyalloc g) (\<lambda>g.
          (let b = fresh g;
               B = \<lparr>yy_input_file = None, yy_ch_buf = base, yy_buf_pos = 0, yy_buf_size = sz - 2, yy_n_chars = sz - 2,
                    yy_is_our_buffer = False, yy_is_interactive = False, yy_at_bol = True, yy_bs_lineno = 0, yy_bs_column = 0,
                    yy_fill_buffer = False, yy_buffer_status = YY_BUFFER_NEW\<rparr>
           in sbind (yy_switch_to_buffer (Some b) (store b B (g\<lparr>fresh := b + 1\<rparr>))) (\<lambda>g. Go (g, Some b)))))"

definition yy_scan_bytes :: "string \<Rightarrow> yyg \<Rightarrow> (yyg \<times> nat option) sh" where
  "yy_scan_bytes yybytes g =
     sbind (yyalloc g) (\<lambda>g.
     sbind (yy_scan_buffer (yybytes @ [EOB, EOB]) g) (\<lambda>(g, bo).
       case bo of
         None \<Rightarrow> yy_fatal_error
       | Some b \<Rightarrow> sbind (deref b g) (\<lambda>B. Go (store b (B\<lparr>yy_is_our_buffer := True\<rparr>) g, bo))))"

definition yy_scan_string :: "string \<Rightarrow> yyg \<Rightarrow> (yyg \<times> nat option) sh" where
  "yy_scan_string yystr g = yy_scan_bytes (takeWhile (\<lambda>c. c \<noteq> EOB) yystr) g"

section \<open>Pushing a character back\<close>

text \<open>The loop that moves the buffer up copies from the end; \<open>dest\<close> is what is left of the destination when it stops.\<close>

fun shift_up :: "string \<Rightarrow> nat \<Rightarrow> nat \<Rightarrow> (string \<times> nat) sh" where
  "shift_up ch 0 dest = Go (ch, dest)"
| "shift_up ch (Suc source) dest =
     (if dest = 0 \<or> length ch < dest \<or> length ch \<le> source then Crash
      else shift_up (ch[dest - 1 := ch ! source]) source (dest - 1))"

definition unput_at :: "char \<Rightarrow> nat \<Rightarrow> nat \<Rightarrow> nat \<Rightarrow> ybuf \<Rightarrow> yyg \<Rightarrow> yyg sh" where
  "unput_at c yy_bp yy_cp b B g =
     (if yy_cp = 0 \<or> length (yy_ch_buf B) < yy_cp then Crash
      else Go ((store b (B\<lparr>yy_ch_buf := (yy_ch_buf B)[yy_cp - 1 := c]\<rparr>) g)
                 \<lparr>yytext_ptr := yy_bp, yy_hold_char := c, yy_c_buf_p := yy_cp - 1\<rparr>))"

definition yyunput :: "char \<Rightarrow> nat \<Rightarrow> yyg \<Rightarrow> yyg sh" where
  "yyunput c yy_bp g =
     sbind (current g) (\<lambda>cur.
       case cur of
         None \<Rightarrow> Crash
       | Some b \<Rightarrow>
           sbind (deref b g) (\<lambda>B.
             (let yy_cp = yy_c_buf_p g; ch = (yy_ch_buf B)[yy_cp := yy_hold_char g]
              in if length (yy_ch_buf B) \<le> yy_cp then Crash
                 else if 2 \<le> yy_cp then unput_at c yy_bp yy_cp b (B\<lparr>yy_ch_buf := ch\<rparr>) g
                 else
                   sbind (shift_up ch (n_chars g + 2) (yy_buf_size B + 2)) (\<lambda>(ch, dest).
                     if yy_cp + dest < 2 then yy_fatal_error
                     else unput_at c (yy_bp + dest) (yy_cp + dest) b
                            (B\<lparr>yy_ch_buf := ch, yy_n_chars := yy_buf_size B\<rparr>) (g\<lparr>n_chars := yy_buf_size B\<rparr>)))))"

section \<open>The end\<close>

definition yy_init_globals :: "yyg \<Rightarrow> yyg" where
  "yy_init_globals g =
     g\<lparr>yy_buffer_stack := None, yy_buffer_stack_top := 0, yy_c_buf_p := 0, yy_init := False, yy_start := 0, yyin := None\<rparr>"

partial_function (option) destroy_loop :: "yyg \<Rightarrow> yyg sh option" where
  "destroy_loop g =
     (case current g of
        Go None \<Rightarrow> Some (Go g)
      | Go (Some b) \<Rightarrow>
          (case sbind (yy_delete_buffer (Some b) g) (\<lambda>g. sbind (set_current None g) yypop_buffer_state) of
             Go g \<Rightarrow> destroy_loop g
           | e \<Rightarrow> Some e)
      | Exit n \<Rightarrow> Some (Exit n)
      | Crash \<Rightarrow> Some Crash)"

definition yylex_destroy :: "yyg \<Rightarrow> yyg sh option" where
  "yylex_destroy g =
     (case destroy_loop g of
        None \<Rightarrow> None
      | Some r \<Rightarrow> Some (sbind r (\<lambda>g. Go (yy_init_globals g))))"

section \<open>The stack stays in its array\<close>

text \<open>The top is an element of the array, and there is nothing above it.\<close>

definition stack_ok :: "yyg \<Rightarrow> bool" where
  "stack_ok g \<longleftrightarrow>
     (case yy_buffer_stack g of
        None \<Rightarrow> True
      | Some st \<Rightarrow> yy_buffer_stack_top g < length st \<and> (\<forall>i < length st. yy_buffer_stack_top g < i \<longrightarrow> st ! i = None))"

definition same_stack :: "yyg \<Rightarrow> yyg \<Rightarrow> bool" where
  "same_stack g g' \<longleftrightarrow> yy_buffer_stack g' = yy_buffer_stack g \<and> yy_buffer_stack_top g' = yy_buffer_stack_top g"

lemma same_stack_ok: "same_stack g g' \<Longrightarrow> stack_ok g \<Longrightarrow> stack_ok g'"
  by (auto simp: same_stack_def stack_ok_def split: option.splits)

lemma same_stack_refl [simp]: "same_stack g g"
  by (simp add: same_stack_def)

lemma stack_ok_fields [simp]:
  "stack_ok (g\<lparr>yy_did_buffer_switch_on_eof := x\<rparr>) = stack_ok g" "stack_ok (g\<lparr>heap := h\<rparr>) = stack_ok g"
  by (simp_all add: stack_ok_def split: option.splits)

lemma same_stack_trans: "same_stack g g' \<Longrightarrow> same_stack g' g'' \<Longrightarrow> same_stack g g''"
  by (simp add: same_stack_def)

lemma current_total: "stack_ok g \<Longrightarrow> \<exists>c. current g = Go c"
  by (auto simp: stack_ok_def current_def split: option.splits)

lemma alloc_same: "yyalloc g = Go g' \<Longrightarrow> same_stack g g'"
  by (auto simp: yyalloc_def yy_fatal_error_def same_stack_def Let_def split: if_splits)

lemma load_same: "yy_load_buffer_state g = Go g' \<Longrightarrow> same_stack g g'"
  by (auto simp: yy_load_buffer_state_def sbind_eq_Go same_stack_def split: option.splits if_splits)

lemma store_same: "same_stack g (store b B g)"
  by (simp add: same_stack_def store_def)

lemma flush_same: "yy_flush_buffer b g = Go g' \<Longrightarrow> same_stack g g'"
  by (auto simp: yy_flush_buffer_def sbind_eq_Go Let_def store_same split: option.splits if_splits
      dest!: load_same intro: same_stack_trans [OF store_same])

lemma init_same: "yy_init_buffer tty b f g = Go g' \<Longrightarrow> same_stack g g'"
  by (auto simp: yy_init_buffer_def sbind_eq_Go Let_def dest!: flush_same intro: same_stack_trans [OF _ store_same])

lemma create_same: "yy_create_buffer tty junk f n g = Go (g', b) \<Longrightarrow> same_stack g g'"
  by (fastforce simp: yy_create_buffer_def sbind_eq_Go Let_def same_stack_def store_def dest!: alloc_same init_same)

lemma save_same: "save_current g = Go g' \<Longrightarrow> same_stack g g'"
  by (auto simp: save_current_def sbind_eq_Go store_same split: option.splits if_splits)

lemma set_ok: "stack_ok g \<Longrightarrow> set_current b g = Go g' \<Longrightarrow> stack_ok g' \<and> yy_buffer_stack_top g' = yy_buffer_stack_top g"
  by (auto simp: set_current_def stack_ok_def split: option.splits if_splits)

text \<open>There is room for one more element, unless the stack was just created, with an empty top.\<close>

lemma ensure_ok:
  assumes "stack_ok g" "yyensure_buffer_stack g = Go g'"
  obtains st where "stack_ok g'" "yy_buffer_stack g' = Some st" "current g' = Go None \<or> yy_buffer_stack_top g' + 1 < length st"
proof (cases "yy_buffer_stack g")
  case None
  with assms(2) show thesis
    using that [of "[None]"] by (auto simp: yyensure_buffer_stack_def sbind_eq_Go stack_ok_def current_def)
next
  case (Some st)
  show thesis
  proof (cases "length st \<le> yy_buffer_stack_top g + 1")
    case True
    with assms Some obtain a where a: "yyalloc g = Go a" "g' = a\<lparr>yy_buffer_stack := Some (st @ replicate 8 None)\<rparr>"
      by (auto simp: yyensure_buffer_stack_def sbind_eq_Go)
    with alloc_same [OF a(1)] assms(1) Some show thesis
      using that [of "st @ replicate 8 None"] by (auto simp: stack_ok_def same_stack_def nth_append)
  next
    case False
    with assms Some show thesis using that [of st] by (simp add: yyensure_buffer_stack_def)
  qed
qed

lemma delete_ok:
  assumes "stack_ok g" "yy_delete_buffer bo g = Go g'"
  shows "stack_ok g' \<and> yy_buffer_stack_top g' = yy_buffer_stack_top g"
proof (cases bo)
  case (Some b)
  with assms(2) obtain c g1 where g1: "(if c = Some b then set_current None g else Go g) = Go g1"
    "g' = g1\<lparr>heap := (heap g1)(b := None)\<rparr>"
    by (auto simp: yy_delete_buffer_def sbind_eq_Go)
  then have "stack_ok g1 \<and> yy_buffer_stack_top g1 = yy_buffer_stack_top g"
    using set_ok [OF assms(1)] assms(1) by (cases "c = Some b") auto
  with g1(2) show ?thesis by simp
qed (use assms in \<open>simp add: yy_delete_buffer_def\<close>)

lemma switched_ok:
  assumes "stack_ok g" "set_current b g = Go g1" "yy_load_buffer_state g1 = Go g2"
  shows "stack_ok (g2\<lparr>yy_did_buffer_switch_on_eof := True\<rparr>)"
  using set_ok [OF assms(1,2)] load_same [OF assms(3)] same_stack_ok by auto

lemma switch_ok:
  assumes "stack_ok g" "yy_switch_to_buffer b g = Go g'"
  shows "stack_ok g'"
proof -
  from assms(2) obtain g1 c where g1: "yyensure_buffer_stack g = Go g1"
    "(if c = b then Go g1 else sbind (save_current g1) (\<lambda>g. sbind (set_current b g) (\<lambda>g.
       sbind (yy_load_buffer_state g) (\<lambda>g. Go (g\<lparr>yy_did_buffer_switch_on_eof := True\<rparr>))))) = Go g'"
    by (auto simp: yy_switch_to_buffer_def sbind_eq_Go)
  have ok: "stack_ok g1" by (rule ensure_ok [OF assms(1) g1(1)])
  show ?thesis
  proof (cases "c = b")
    case False
    with g1(2) obtain g2 g3 g4 where "save_current g1 = Go g2" "set_current b g2 = Go g3" "yy_load_buffer_state g3 = Go g4"
      "g' = g4\<lparr>yy_did_buffer_switch_on_eof := True\<rparr>" by (auto simp: sbind_eq_Go)
    then show ?thesis using switched_ok same_stack_ok [OF save_same ok] by blast
  qed (use g1(2) ok in simp)
qed

lemma push_ok:
  assumes "stack_ok g" "yypush_buffer_state b g = Go g'"
  shows "stack_ok g'"
proof (cases "b = None")
  case False
  with assms(2) obtain g1 g2 c g3 g4 where g: "yyensure_buffer_stack g = Go g1" "save_current g1 = Go g2" "current g2 = Go c"
    "set_current b (if c \<noteq> None then g2\<lparr>yy_buffer_stack_top := yy_buffer_stack_top g2 + 1\<rparr> else g2) = Go g3"
    "yy_load_buffer_state g3 = Go g4" "g' = g4\<lparr>yy_did_buffer_switch_on_eof := True\<rparr>"
    by (auto simp: yypush_buffer_state_def sbind_eq_Go Let_def)
  obtain st where st: "stack_ok g1" "yy_buffer_stack g1 = Some st" "current g1 = Go None \<or> yy_buffer_stack_top g1 + 1 < length st"
    using ensure_ok [OF assms(1) g(1)] .
  have s2: "stack_ok g2" "yy_buffer_stack g2 = Some st" "yy_buffer_stack_top g2 = yy_buffer_stack_top g1"
    using save_same [OF g(2)] st(2) same_stack_ok [OF save_same [OF g(2)] st(1)] by (auto simp: same_stack_def)
  then have "current g2 = current g1" using st(2) by (simp add: current_def)
  then have "stack_ok (if c \<noteq> None then g2\<lparr>yy_buffer_stack_top := yy_buffer_stack_top g2 + 1\<rparr> else g2)"
    using s2 st(3) g(3) by (auto simp: stack_ok_def)
  from switched_ok [OF this g(4,5)] g(6) show ?thesis by simp
qed (use assms in \<open>simp add: yypush_buffer_state_def\<close>)

lemma pop_ok:
  assumes "stack_ok g" "yypop_buffer_state g = Go g'"
  shows "stack_ok g'"
proof -
  from assms(2) obtain c where c: "current g = Go c" by (auto simp: yypop_buffer_state_def sbind_eq_Go)
  show ?thesis
  proof (cases "c = None")
    case False
    from False assms(2) c obtain g1 g2 and d :: "nat option" where g: "yy_delete_buffer c g = Go g1" "set_current None g1 = Go g2"
      "(if d = None then Go (drop_top g2) else sbind (yy_load_buffer_state (drop_top g2)) (\<lambda>g. Go (g\<lparr>yy_did_buffer_switch_on_eof := True\<rparr>))) = Go g'"
      by (auto simp: yypop_buffer_state_def sbind_eq_Go Let_def)
    have g1: "stack_ok g1" using delete_ok [OF assms(1) g(1)] by blast
    with g(2) obtain st where st: "yy_buffer_stack g2 = Some (st[yy_buffer_stack_top g1 := None])" "yy_buffer_stack_top g2 = yy_buffer_stack_top g1"
      "yy_buffer_stack g1 = Some st" "yy_buffer_stack_top g1 < length st"
      by (auto simp: set_current_def split: option.splits if_splits)
    have ok: "stack_ok (drop_top g2)"
      using g1 st by (auto simp: stack_ok_def drop_top_def nth_list_update)
    show ?thesis
    proof (cases "d = None")
      case True
      with g(3) ok show ?thesis by simp
    next
      case False
      with g(3) obtain g3 where "yy_load_buffer_state (drop_top g2) = Go g3" "g' = g3\<lparr>yy_did_buffer_switch_on_eof := True\<rparr>"
        by (auto simp: sbind_eq_Go)
      then show ?thesis using same_stack_ok [OF load_same ok] by simp
    qed
  qed (use assms c in \<open>simp add: yypop_buffer_state_def\<close>)
qed

lemma need_ok:
  assumes "stack_ok g" "need_buffer tty junk g = Go g'"
  shows "stack_ok g'"
proof -
  from assms(2) obtain c where c: "current g = Go c" by (auto simp: need_buffer_def sbind_eq_Go)
  show ?thesis
  proof (cases "c = None")
    case True
    with assms(2) c obtain g1 g2 b where g: "yyensure_buffer_stack g = Go g1"
      "yy_create_buffer tty junk (yyin g1) YY_BUF_SIZE g1 = Go (g2, b)" "set_current (Some b) g2 = Go g'"
      by (auto simp: need_buffer_def sbind_eq_Go)
    have "stack_ok g1" by (rule ensure_ok [OF assms(1) g(1)])
    with create_same [OF g(2)] have "stack_ok g2" using same_stack_ok by blast
    with set_ok g(3) show ?thesis by blast
  qed (use assms c in \<open>simp add: need_buffer_def\<close>)
qed

lemma restart_ok:
  assumes "stack_ok g" "yyrestart tty junk f g = Go g'"
  shows "stack_ok g'"
proof -
  from assms(2) obtain g1 g2 b where "need_buffer tty junk g = Go g1" "yy_init_buffer tty b f g1 = Go g2"
    "yy_load_buffer_state g2 = Go g'"
    by (auto simp: yyrestart_def sbind_eq_Go split: option.splits)
  then show ?thesis using need_ok [OF assms(1)] init_same load_same same_stack_ok by metis
qed

lemma scan_buffer_ok:
  assumes "stack_ok g" "yy_scan_buffer base g = Go (g', b)"
  shows "stack_ok g'"
proof -
  consider "g' = g" | g1 B n where "yyalloc g = Go g1" "yy_switch_to_buffer (Some n) (store n B (g1\<lparr>fresh := n + 1\<rparr>)) = Go g'"
    using assms(2) by (auto simp: yy_scan_buffer_def sbind_eq_Go Let_def split: if_splits)
  then show ?thesis
  proof cases
    case 2
    have "stack_ok g1" using alloc_same [OF 2(1)] assms(1) same_stack_ok by blast
    then have "stack_ok (store n B (g1\<lparr>fresh := n + 1\<rparr>))" by (simp add: store_def) (simp add: stack_ok_def split: option.splits)
    then show ?thesis using switch_ok 2(2) by blast
  qed (use assms in simp)
qed

lemma scan_bytes_ok:
  assumes "stack_ok g" "yy_scan_bytes bs g = Go (g', b)"
  shows "stack_ok g'"
proof -
  from assms(2) obtain g1 g2 n B where g: "yyalloc g = Go g1" "yy_scan_buffer (bs @ [EOB, EOB]) g1 = Go (g2, Some n)"
    "g' = store n B g2"
    by (auto simp: yy_scan_bytes_def sbind_eq_Go yy_fatal_error_def split: option.splits)
  have "stack_ok g1" using alloc_same [OF g(1)] assms(1) same_stack_ok by blast
  then show ?thesis using scan_buffer_ok [OF _ g(2)] g(3) store_same same_stack_ok by blast
qed

text \<open>The calls a program can make, and the states they lead to.\<close>

datatype buffer_call = B_push "nat option" | B_pop | B_switch "nat option" | B_delete "nat option" | B_flush "nat option"
  | B_restart "nat option" | B_create "nat option" nat | B_scan string

fun bcall :: "(nat \<Rightarrow> bool) \<Rightarrow> string \<Rightarrow> buffer_call \<Rightarrow> yyg \<Rightarrow> yyg sh" where
  "bcall tty junk (B_push b) g = yypush_buffer_state b g"
| "bcall tty junk B_pop g = yypop_buffer_state g"
| "bcall tty junk (B_switch b) g = yy_switch_to_buffer b g"
| "bcall tty junk (B_delete b) g = yy_delete_buffer b g"
| "bcall tty junk (B_flush b) g = yy_flush_buffer b g"
| "bcall tty junk (B_restart f) g = yyrestart tty junk f g"
| "bcall tty junk (B_create f n) g = sbind (yy_create_buffer tty junk f n g) (\<lambda>(g, b). Go g)"
| "bcall tty junk (B_scan bs) g = sbind (yy_scan_string bs g) (\<lambda>(g, b). Go g)"

fun bcalls :: "(nat \<Rightarrow> bool) \<Rightarrow> string \<Rightarrow> buffer_call list \<Rightarrow> yyg \<Rightarrow> yyg sh" where
  "bcalls tty junk [] g = Go g"
| "bcalls tty junk (c # cs) g = sbind (bcall tty junk c g) (bcalls tty junk cs)"

lemma bcall_ok:
  assumes "stack_ok g" "bcall tty junk c g = Go g'"
  shows "stack_ok g'"
proof (cases c)
  case (B_push b)
  then show ?thesis using push_ok [OF assms(1)] assms(2) by simp
next
  case B_pop
  then show ?thesis using pop_ok [OF assms(1)] assms(2) by simp
next
  case (B_switch b)
  then show ?thesis using switch_ok [OF assms(1)] assms(2) by simp
next
  case (B_delete b)
  then show ?thesis using delete_ok [OF assms(1)] assms(2) by simp
next
  case (B_flush b)
  then have "same_stack g g'" using flush_same assms(2) by simp
  then show ?thesis using assms(1) by (rule same_stack_ok)
next
  case (B_restart f)
  then show ?thesis using restart_ok [OF assms(1)] assms(2) by simp
next
  case (B_create f n)
  with assms(2) obtain b where "yy_create_buffer tty junk f n g = Go (g', b)" by (auto simp: sbind_eq_Go)
  then show ?thesis using create_same same_stack_ok assms(1) by blast
next
  case (B_scan bs)
  with assms(2) obtain b where "yy_scan_string bs g = Go (g', b)" by (auto simp: sbind_eq_Go)
  then show ?thesis using scan_bytes_ok [OF assms(1)] by (simp add: yy_scan_string_def)
qed

definition yy_globals :: yyg where
  "yy_globals = \<lparr>yy_buffer_stack = None, yy_buffer_stack_top = 0, yy_c_buf_p = 0, yytext_ptr = 0, n_chars = 0,
     yy_hold_char = EOB, yyin = None, yy_did_buffer_switch_on_eof = False, yy_init = False, yy_start = 0,
     heap = Map.empty, fresh = 0, allocs = 0, mem_ok = (\<lambda>_. True)\<rparr>"


text \<open>A string is scanned, and another buffer is pushed over it and removed.\<close>

definition some_calls :: "buffer_call list" where
  "some_calls = [B_scan ''ab'', B_create (Some 0) 4, B_push (Some 1), B_pop]"

lemma some_calls_return: "(case bcalls (\<lambda>_. False) [] some_calls yy_globals of Go g \<Rightarrow> True | _ \<Rightarrow> False)"
  by code_simp


section \<open>The text still to be scanned\<close>

text \<open>
  The scanner has put a zero byte at its position and holds the character that was there. \<open>cur_ok\<close>: the buffer \<open>b\<close> is current and the
  position, the number of characters and the size of the buffer fit together.
\<close>

definition pending :: "yyg \<Rightarrow> ybuf \<Rightarrow> string" where
  "pending g B = take (n_chars g - yy_c_buf_p g) (drop (yy_c_buf_p g) ((yy_ch_buf B)[yy_c_buf_p g := yy_hold_char g]))"

definition cur_ok :: "yyg \<Rightarrow> nat \<Rightarrow> ybuf \<Rightarrow> bool" where
  "cur_ok g b B \<longleftrightarrow> current g = Go (Some b) \<and> heap g b = Some B \<and> length (yy_ch_buf B) = yy_buf_size B + 2 \<and>
     yy_c_buf_p g \<le> n_chars g \<and> n_chars g \<le> yy_buf_size B"

lemma shift_up_moves:
  assumes "n \<le> dest" "dest \<le> length ch"
  shows "\<exists>ch'. shift_up ch n dest = Go (ch', dest - n) \<and> length ch' = length ch \<and>
    (\<forall>i < n. ch' ! (dest - n + i) = ch ! i) \<and> (\<forall>i < length ch. dest \<le> i \<longrightarrow> ch' ! i = ch ! i)"
  using assms
proof (induction n arbitrary: ch dest)
  case (Suc n)
  let ?ch = "ch[dest - 1 := ch ! n]"
  have "n \<le> dest - 1" "dest - 1 \<le> length ?ch" using Suc.prems by auto
  from Suc.IH [OF this] obtain ch' where IH: "shift_up ?ch n (dest - 1) = Go (ch', dest - 1 - n)"
    "length ch' = length ch" "\<forall>i < n. ch' ! (dest - 1 - n + i) = ?ch ! i" "\<forall>i < length ch. dest - 1 \<le> i \<longrightarrow> ch' ! i = ?ch ! i"
    by auto
  have "ch' ! (dest - Suc n + i) = ch ! i" if "i < Suc n" for i
  proof (cases "i < n")
    case True
    then show ?thesis using IH(3) Suc.prems by auto
  next
    case False
    with that Suc.prems have "i = n" "dest - Suc n + i = dest - 1" by auto
    then show ?thesis using IH(4) Suc.prems by auto
  qed
  moreover have "ch' ! i = ch ! i" if "i < length ch" "dest \<le> i" for i
    using IH(4) that Suc.prems by auto
  ultimately show ?case using IH(1,2) Suc.prems by auto
qed auto

lemma unput_at_pending:
  assumes "current g = Go (Some b)" "length (yy_ch_buf B) = yy_buf_size B + 2" "0 < p" "p \<le> n_chars g" "n_chars g \<le> yy_buf_size B"
  shows "\<exists>g' C. unput_at c bp p b B g = Go g' \<and> cur_ok g' b C \<and> pending g' C = c # take (n_chars g - p) (drop p (yy_ch_buf B))"
proof -
  let ?C = "B\<lparr>yy_ch_buf := (yy_ch_buf B)[p - 1 := c]\<rparr>"
  let ?g = "(store b ?C g)\<lparr>yytext_ptr := bp, yy_hold_char := c, yy_c_buf_p := p - 1\<rparr>"
  have u: "unput_at c bp p b B g = Go ?g" using assms by (simp add: unput_at_def)
  have "current ?g = current g" by (simp add: current_def store_def split: option.splits)
  then have ok: "cur_ok ?g b ?C" using assms by (auto simp: cur_ok_def store_def)
  have p: "p = Suc (p - 1)" "p - 1 < length (yy_ch_buf B)" using assms by auto
  have "drop (p - 1) ((yy_ch_buf B)[p - 1 := c]) = c # drop p (yy_ch_buf B)"
    using p by (metis Cons_nth_drop_Suc drop_update_cancel length_list_update lessI nth_list_update_eq)
  moreover have "n_chars g - (p - 1) = Suc (n_chars g - p)" using assms by linarith
  ultimately have "pending ?g ?C = c # take (n_chars g - p) (drop p (yy_ch_buf B))"
    by (simp add: pending_def store_def)
  with u ok show ?thesis by blast
qed

text \<open>
  A character pushed back is the next one to be scanned, before everything that was still to be scanned, and the
  buffer stays well formed, also when its contents have to be moved up to make room. The scanner gives up (exit code 2) exactly when there
  are fewer than two places in front of the position, counting those at the end of the buffer.
\<close>

theorem unput_pushes_back:
  assumes ok: "cur_ok g b B"
  shows "if 2 \<le> yy_c_buf_p g \<or> 2 \<le> yy_c_buf_p g + (yy_buf_size B - n_chars g)
    then \<exists>g' C. yyunput c bp g = Go g' \<and> cur_ok g' b C \<and> pending g' C = c # pending g B
    else yyunput c bp g = Exit 2"
proof (cases "2 \<le> yy_c_buf_p g")
  case True
  with unput_at_pending [of g b "B\<lparr>yy_ch_buf := (yy_ch_buf B)[yy_c_buf_p g := yy_hold_char g]\<rparr>" "yy_c_buf_p g" c bp] ok show ?thesis
    by (auto simp: yyunput_def cur_ok_def deref_def Let_def pending_def)
next
  case False
  let ?p = "yy_c_buf_p g" and ?ch = "(yy_ch_buf B)[yy_c_buf_p g := yy_hold_char g]" and ?d = "yy_buf_size B - n_chars g"
  have b: "length (yy_ch_buf B) = yy_buf_size B + 2" "?p \<le> n_chars g" "n_chars g \<le> yy_buf_size B" "current g = Go (Some b)" "heap g b = Some B"
    using ok by (auto simp: cur_ok_def)
  with shift_up_moves [of "n_chars g + 2" "yy_buf_size B + 2" ?ch] obtain ch where ch: "shift_up ?ch (n_chars g + 2) (yy_buf_size B + 2) = Go (ch, ?d)"
    "length ch = length (yy_ch_buf B)" "\<forall>i < n_chars g + 2. ch ! (?d + i) = ?ch ! i" by auto
  let ?C = "B\<lparr>yy_ch_buf := ch, yy_n_chars := yy_buf_size B\<rparr>"
  have un: "yyunput c bp g = (if ?p + ?d < 2 then Exit 2 else unput_at c (bp + ?d) (?p + ?d) b ?C (g\<lparr>n_chars := yy_buf_size B\<rparr>))"
    using False b ch(1) by (simp add: yyunput_def deref_def Let_def yy_fatal_error_def del: shift_up.simps)
  show ?thesis
  proof (cases "?p + ?d < 2")
    case False
    have "take (yy_buf_size B - (?p + ?d)) (drop (?p + ?d) ch) = take (n_chars g - ?p) (drop ?p ?ch)"
    proof (intro nth_equalityI)
      fix i assume "i < length (take (yy_buf_size B - (?p + ?d)) (drop (?p + ?d) ch))"
      then show "take (yy_buf_size B - (?p + ?d)) (drop (?p + ?d) ch) ! i = take (n_chars g - ?p) (drop ?p ?ch) ! i"
        using b ch(2) ch(3) [rule_format, of "?p + i"] by (simp add: ac_simps)
    qed (use b ch(2) in simp)
    moreover have "current (g\<lparr>n_chars := yy_buf_size B\<rparr>) = Go (Some b)" using b(4) by (auto simp: current_def split: option.splits if_splits)
    ultimately show ?thesis
      using unput_at_pending [of "g\<lparr>n_chars := yy_buf_size B\<rparr>" b ?C "?p + ?d" c "bp + ?d"] un False b ch(2) by (simp add: pending_def)
  qed (use un \<open>\<not> 2 \<le> ?p\<close> in simp)
qed

section \<open>Leaving a buffer and coming back\<close>

definition saved :: "yyg \<Rightarrow> ybuf \<Rightarrow> ybuf" where
  "saved g B = B\<lparr>yy_ch_buf := (yy_ch_buf B)[yy_c_buf_p g := yy_hold_char g], yy_buf_pos := yy_c_buf_p g, yy_n_chars := n_chars g\<rparr>"

lemma ensure_room:
  assumes "yy_buffer_stack g = Some st" "yy_buffer_stack_top g < length st" "mem_ok g (allocs g)"
  obtains st' a where "yyensure_buffer_stack g = Go (g\<lparr>yy_buffer_stack := Some st', allocs := a\<rparr>)"
    "yy_buffer_stack_top g + 1 < length st'" "st' ! yy_buffer_stack_top g = st ! yy_buffer_stack_top g"
proof (cases "length st \<le> yy_buffer_stack_top g + 1")
  case True
  then show thesis using assms that [of "allocs g + 1" "st @ replicate 8 None"]
    by (simp add: yyensure_buffer_stack_def yyalloc_def nth_append)
next
  case False
  have "g\<lparr>yy_buffer_stack := Some st, allocs := allocs g\<rparr> = g" using assms(1) by simp
  with False assms that [of "allocs g" st] show thesis by (simp add: yyensure_buffer_stack_def)
qed

text \<open>
  Pushing a buffer and popping it again continues the scan of the buffer below where it was: the same current buffer,
  the same position, the same character under it and the same number of characters, while the pushed buffer is freed. The characters of
  the buffer below are as they were before the scanner put a zero byte behind its token.
\<close>

theorem push_pop_roundtrip:
  assumes "yy_buffer_stack g = Some st" "yy_buffer_stack_top g < length st" "st ! yy_buffer_stack_top g = Some b"
    "heap g b = Some B" "yy_c_buf_p g < length (yy_ch_buf B)"
    "heap g n = Some N" "yy_buf_pos N < length (yy_ch_buf N)" "n \<noteq> b" "mem_ok g (allocs g)"
  shows "\<exists>g1 g2. yypush_buffer_state (Some n) g = Go g1 \<and> current g1 = Go (Some n) \<and> yypop_buffer_state g1 = Go g2 \<and>
    current g2 = Go (Some b) \<and> yy_c_buf_p g2 = yy_c_buf_p g \<and> yy_hold_char g2 = yy_hold_char g \<and> n_chars g2 = n_chars g \<and>
    yyin g2 = yy_input_file B \<and> heap g2 = (heap g)(b \<mapsto> saved g B, n := None)"
proof -
  let ?t = "yy_buffer_stack_top g"
  obtain st' a where e: "yyensure_buffer_stack g = Go (g\<lparr>yy_buffer_stack := Some st', allocs := a\<rparr>)"
    "?t + 1 < length st'" "st' ! ?t = Some b"
    using ensure_room [OF assms(1,2,9)] assms(3) by metis
  let ?h = "(heap g)(b \<mapsto> saved g B)"
  define g1 where "g1 = g\<lparr>yy_buffer_stack := Some (st'[?t + 1 := Some n]), allocs := a, heap := ?h, yy_buffer_stack_top := ?t + 1,
    n_chars := yy_n_chars N, yytext_ptr := yy_buf_pos N, yy_c_buf_p := yy_buf_pos N, yyin := yy_input_file N,
    yy_hold_char := yy_ch_buf N ! yy_buf_pos N, yy_did_buffer_switch_on_eof := True\<rparr>"
  have "save_current (g\<lparr>yy_buffer_stack := Some st', allocs := a\<rparr>) = Go (g\<lparr>yy_buffer_stack := Some st', allocs := a, heap := ?h\<rparr>)"
    using e assms(4,5) by (simp add: save_current_def current_def deref_def store_def saved_def)
  with e assms(6-8) have push: "yypush_buffer_state (Some n) g = Go g1"
    by (simp add: yypush_buffer_state_def current_def set_current_def yy_load_buffer_state_def deref_def g1_def)
  define g2 where "g2 = g1\<lparr>yy_buffer_stack := Some (st'[?t + 1 := None]), heap := ?h(n := None), yy_buffer_stack_top := ?t,
    n_chars := n_chars g, yytext_ptr := yy_c_buf_p g, yy_c_buf_p := yy_c_buf_p g, yyin := yy_input_file B,
    yy_hold_char := yy_hold_char g\<rparr>"
  have "yy_delete_buffer (Some n) g1 = Go (g1\<lparr>yy_buffer_stack := Some (st'[?t + 1 := None]), heap := ?h(n := None)\<rparr>)"
    using e(2) assms(6,8) by (simp add: yy_delete_buffer_def current_def set_current_def deref_def g1_def)
  with e assms(5,8) have pop: "yypop_buffer_state g1 = Go g2"
    by (simp add: yypop_buffer_state_def current_def set_current_def drop_top_def yy_load_buffer_state_def deref_def g2_def g1_def saved_def)
  have "current g1 = Go (Some n)" "current g2 = Go (Some b)"
    using e by (simp_all add: current_def g1_def g2_def)
  with push pop show ?thesis by (intro exI [of _ g1] exI [of _ g2]) (simp add: g2_def g1_def)
qed

text \<open>
  \<open>yylex_destroy\<close> ends, and frees the current buffer and nothing else: it clears the current buffer before it calls
  \<open>yypop_buffer_state\<close>, which then does nothing, so its loop never reaches the buffers below; they stay allocated when the
  stack that held them is gone. The comment says that every element is destroyed.
\<close>

theorem destroy_frees_top_only:
  assumes "yy_buffer_stack g = Some st" "yy_buffer_stack_top g < length st" "st ! yy_buffer_stack_top g = Some b" "heap g b = Some B"
  shows "\<exists>g'. yylex_destroy g = Some (Go g') \<and> heap g' = (heap g)(b := None) \<and> yy_buffer_stack g' = None"
proof -
  let ?g = "g\<lparr>yy_buffer_stack := Some (st[yy_buffer_stack_top g := None]), heap := (heap g)(b := None)\<rparr>"
  have c: "current ?g = Go None" using assms by (simp add: current_def)
  have "sbind (yy_delete_buffer (Some b) g) (\<lambda>g. sbind (set_current None g) yypop_buffer_state) = Go ?g"
    using assms by (simp add: yy_delete_buffer_def current_def set_current_def deref_def yypop_buffer_state_def)
  moreover have "destroy_loop ?g = Some (Go ?g)" using c by (subst destroy_loop.simps) simp
  ultimately have "destroy_loop g = Some (Go ?g)"
    using assms by (subst destroy_loop.simps) (simp add: current_def)
  then show ?thesis by (simp add: yylex_destroy_def yy_init_globals_def)
qed

definition plain_buf :: "string \<Rightarrow> ybuf" where
  "plain_buf x = \<lparr>yy_input_file = None, yy_ch_buf = x @ [EOB, EOB], yy_buf_pos = 0, yy_buf_size = length x, yy_n_chars = length x,
     yy_is_our_buffer = True, yy_is_interactive = False, yy_at_bol = True, yy_bs_lineno = 1, yy_bs_column = 0, yy_fill_buffer = True,
     yy_buffer_status = YY_BUFFER_NEW\<rparr>"

definition two_buffers :: yyg where
  "two_buffers = yy_globals\<lparr>yy_buffer_stack := Some [Some 0, Some 1], yy_buffer_stack_top := 1, yy_c_buf_p := 1, yy_hold_char := CHR ''b'',
     n_chars := 2, heap := [0 \<mapsto> plain_buf ''x'', 1 \<mapsto> plain_buf ''ab'', 2 \<mapsto> plain_buf ''y''], fresh := 3\<rparr>"

theorem push_pop_roundtrip_witness:
  "\<exists>g1 g2. yypush_buffer_state (Some 2) two_buffers = Go g1 \<and> current g1 = Go (Some 2) \<and> yypop_buffer_state g1 = Go g2 \<and>
    current g2 = Go (Some 1) \<and> yy_c_buf_p g2 = 1 \<and> yy_hold_char g2 = CHR ''b'' \<and> n_chars g2 = 2"
  using push_pop_roundtrip [of two_buffers "[Some 0, Some 1]" 1 "plain_buf ''ab''" 2 "plain_buf ''y''"]
  by (auto simp: two_buffers_def yy_globals_def plain_buf_def)

text \<open>The buffer below has no room in front of its first character, but two characters at its end.\<close>

definition room_behind :: yyg where
  "room_behind = two_buffers\<lparr>yy_c_buf_p := 0, yy_hold_char := CHR ''a'',
     heap := (heap two_buffers)(1 \<mapsto> (plain_buf ''ab'')\<lparr>yy_buf_size := 4, yy_ch_buf := [EOB, CHR ''b'', EOB, EOB, EOB, EOB]\<rparr>)\<rparr>"

theorem unput_pushes_back_witness:
  "\<exists>g' C. yyunput (CHR ''z'') 0 room_behind = Go g' \<and> cur_ok g' 1 C \<and> pending g' C = ''zab''"
  using unput_pushes_back [of room_behind 1 "(plain_buf ''ab'')\<lparr>yy_buf_size := 4, yy_ch_buf := [EOB, CHR ''b'', EOB, EOB, EOB, EOB]\<rparr>" "CHR ''z''" 0]
  by (simp add: room_behind_def two_buffers_def yy_globals_def cur_ok_def current_def plain_buf_def pending_def)

theorem destroy_frees_top_only_witness:
  "\<exists>g'. yylex_destroy two_buffers = Some (Go g') \<and> heap g' 1 = None \<and> heap g' 0 = Some (plain_buf ''x'') \<and> yy_buffer_stack g' = None"
  using destroy_frees_top_only [of two_buffers "[Some 0, Some 1]" 1 "plain_buf ''ab''"]
  by (auto simp: two_buffers_def yy_globals_def)

end
