(* ===== verification/ShellExec.thy ===== *)
theory ShellExec
  imports CString
begin

text \<open>
  The executing half of the shell \<open>mysh\<close>: lists, pipelines, redirections, simple commands and the
  built-in commands (\<open>src/2/parseline.c\<close>, from \<open>get_cmd_handle\<close> to \<open>do_simple_cmd\<close>).

  A \<open>NULL\<close>-terminated array of tokens is a list of strings. Each of these functions runs over its array
  once from left to right and clears the slots it has passed, so what it still reads is the rest of
  the list, and what it hands on is the part since the last separator. A process has a table of
  file descriptors; what the shell does to other processes and to the terminal is a log of events.
\<close>

section \<open>File descriptors\<close>

datatype fobj = Term | Pipe_r nat | Pipe_w nat | Infile string | Outfile string

type_synonym fdt = "nat \<rightharpoonup> fobj"

definition OPEN_MAX :: nat where "OPEN_MAX = 1024"

text \<open>\<open>open\<close> and \<open>pipe\<close> use the lowest free descriptors.\<close>

definition free_fd :: "fdt \<Rightarrow> nat option" where
  "free_fd t = find (\<lambda>n. t n = None) [0..<OPEN_MAX]"

definition close_fd :: "nat \<Rightarrow> fdt \<Rightarrow> fdt" where
  "close_fd n t = t(n := None)"

definition open_fd :: "fobj \<Rightarrow> fdt \<Rightarrow> fdt option" where
  "open_fd f t = (case free_fd t of None \<Rightarrow> None | Some n \<Rightarrow> Some (t(n \<mapsto> f)))"

definition dup2 :: "nat \<Rightarrow> nat \<Rightarrow> fdt \<Rightarrow> fdt \<times> int" where
  "dup2 a b t = (case t a of None \<Rightarrow> (t, - 1) | Some f \<Rightarrow> (t(b \<mapsto> f), int b))"

definition mk_pipe :: "nat \<Rightarrow> fdt \<Rightarrow> (fdt \<times> nat \<times> nat) option" where
  "mk_pipe k t =
     (case free_fd t of
        None \<Rightarrow> None
      | Some r \<Rightarrow>
          (case free_fd (t(r \<mapsto> Pipe_r k)) of
             None \<Rightarrow> None
           | Some w \<Rightarrow> Some (t(r \<mapsto> Pipe_r k, w \<mapsto> Pipe_w k), r, w)))"

section \<open>Processes\<close>

datatype child = Exec "string list" fdt "string list" | Child_exit int | Child_crash

datatype event =
  E_fork nat child | E_wait nat | E_nowait nat | E_perror string | E_out "fobj option" string

record shell =
  fds :: fdt
  npipes :: nat
  npids :: nat
  log :: "event list"

text \<open>
  The environment: the size of a pointer, which calls of \<open>fork\<close> succeed (by the number of the child)
  and which files can be opened for reading and for writing.
\<close>

record shenv =
  se_ptr :: nat
  se_fork :: "nat \<Rightarrow> bool"
  se_read :: "string \<Rightarrow> bool"
  se_write :: "string \<Rightarrow> bool"

definition log_events :: "event list \<Rightarrow> shell \<Rightarrow> shell" where
  "log_events es s = s\<lparr>log := log s @ es\<rparr>"

section \<open>Redirection\<close>

definition reopen :: "bool \<Rightarrow> nat \<Rightarrow> fobj \<Rightarrow> fdt \<Rightarrow> fdt sh" where
  "reopen ok n f t =
     (if \<not> ok then Exit (- 1)
      else (case open_fd f (close_fd n t) of None \<Rightarrow> Exit (- 1) | Some t \<Rightarrow> Go t))"

text \<open>
  \<open>scan_redirect\<close> copies every token that is not part of a redirection into a block of
  \<open>sizeof(char *) + 1\<close> bytes.
\<close>

fun scan_redirect :: "shenv \<Rightarrow> string list \<Rightarrow> string list \<Rightarrow> fdt \<Rightarrow> (string list \<times> fdt) sh" where
  "scan_redirect e [] newcmd t = Go (newcmd, t)"
| "scan_redirect e (tok # toks) newcmd t =
     (if tok = ''<'' then
        (case toks of
           [] \<Rightarrow> Crash
         | f # toks \<Rightarrow> sbind (reopen (se_read e f) 0 (Infile f) t) (\<lambda>t. scan_redirect e toks newcmd t))
      else if tok = ''>'' then
        (case toks of
           [] \<Rightarrow> Crash
         | f # toks \<Rightarrow> sbind (reopen (se_write e f) 1 (Outfile f) t) (\<lambda>t. scan_redirect e toks newcmd t))
      else if se_ptr e < length tok then Crash
      else scan_redirect e toks (newcmd @ [tok]) t)"

section \<open>Built-in commands\<close>

datatype builtin = B_exit | B_cd | B_echo | B_export

definition buildin_cmd_table :: "(string \<times> builtin) list" where
  "buildin_cmd_table = [(''exit'', B_exit), (''cd'', B_cd), (''echo'', B_echo), (''export'', B_export)]"

definition get_cmd_handle :: "string \<Rightarrow> builtin option" where
  "get_cmd_handle cmd = map_of buildin_cmd_table cmd"

definition do_exit :: "string list \<Rightarrow> shell sh" where
  "do_exit argv = Exit (case argv of a # b # _ \<Rightarrow> atoi b | _ \<Rightarrow> 0)"

definition do_echo :: "string list \<Rightarrow> shell \<Rightarrow> shell sh" where
  "do_echo argv s =
     Go (log_events [E_out (fds s 1) (concat (map (\<lambda>a. a @ '' '') (tl argv)) @ [CHR 0x0A])] s)"

fun run_builtin :: "builtin \<Rightarrow> string list \<Rightarrow> shell \<Rightarrow> shell sh" where
  "run_builtin B_exit argv s = do_exit argv"
| "run_builtin B_cd argv s = Go s"
| "run_builtin B_echo argv s = do_echo argv s"
| "run_builtin B_export argv s = Go s"

section \<open>Simple commands\<close>

text \<open>
  The pipe ends of the neighbours become standard input and output. \<open>dup2\<close> returns the new
  descriptor, so the complaint about standard output is always printed. A forked child also closes
  the read end of the pipe it writes to; a built-in command, which runs in the shell, does not.
\<close>

definition join_input :: "(nat \<times> nat) option \<Rightarrow> fdt \<Rightarrow> fdt \<times> string list" where
  "join_input prefd t =
     (case prefd of
        None \<Rightarrow> (t, [])
      | Some (r, _) \<Rightarrow>
          (let (t, n) = dup2 r 0 t
           in (close_fd r t, if n \<noteq> 0 then [''DUP prefd0''] else [])))"

definition join_output :: "(nat \<times> nat) option \<Rightarrow> fdt \<Rightarrow> fdt \<times> string list" where
  "join_output postfd t =
     (case postfd of
        None \<Rightarrow> (t, [])
      | Some (_, w) \<Rightarrow>
          (let (t, n) = dup2 w 1 t
           in (close_fd w t, if n \<noteq> 0 then [''DUP postfd1''] else [])))"

definition close_read_end :: "(nat \<times> nat) option \<Rightarrow> fdt \<Rightarrow> fdt" where
  "close_read_end fd t = (case fd of None \<Rightarrow> t | Some (r, _) \<Rightarrow> close_fd r t)"

definition close_write_end :: "(nat \<times> nat) option \<Rightarrow> fdt \<Rightarrow> fdt" where
  "close_write_end fd t = (case fd of None \<Rightarrow> t | Some (_, w) \<Rightarrow> close_fd w t)"

definition exec_cmd :: "shenv \<Rightarrow> string list \<Rightarrow> fdt \<Rightarrow> string list \<Rightarrow> child" where
  "exec_cmd e cmd t ms =
     (case scan_redirect e cmd [] t of
        Go (argv, t) \<Rightarrow> Exec argv t ms
      | Exit n \<Rightarrow> Child_exit n
      | Crash \<Rightarrow> Child_crash)"

definition simple_child ::
  "shenv \<Rightarrow> string list \<Rightarrow> (nat \<times> nat) option \<Rightarrow> (nat \<times> nat) option \<Rightarrow> fdt \<Rightarrow> child" where
  "simple_child e cmd prefd postfd t =
     (let (t, ms) = join_input prefd t;
          (t, ms') = join_output postfd (close_read_end postfd t)
      in exec_cmd e cmd t (ms @ ms'))"

definition simple_builtin ::
  "shenv \<Rightarrow> builtin \<Rightarrow> string list \<Rightarrow> (nat \<times> nat) option \<Rightarrow> (nat \<times> nat) option \<Rightarrow> shell \<Rightarrow> shell sh" where
  "simple_builtin e h cmd prefd postfd s =
     (let (t, ms) = join_input prefd (fds s);
          (t, ms') = join_output postfd t;
          s = log_events (map E_perror (ms @ ms')) s
      in sbind (scan_redirect e cmd [] t) (\<lambda>(argv, t). run_builtin h argv (s\<lparr>fds := t\<rparr>)))"

definition do_simple_cmd ::
  "shenv \<Rightarrow> string list \<Rightarrow> (nat \<times> nat) option \<Rightarrow> (nat \<times> nat) option \<Rightarrow> bool \<Rightarrow> shell \<Rightarrow> shell sh" where
  "do_simple_cmd e cmd prefd postfd bg s =
     (case cmd of
        [] \<Rightarrow> Crash
      | c # _ \<Rightarrow>
          (case get_cmd_handle c of
             Some h \<Rightarrow> simple_builtin e h cmd prefd postfd s
           | None \<Rightarrow>
               (let p = npids s in
                if \<not> se_fork e p then Exit (- 1)
                else
                  Go (log_events [E_fork p (simple_child e cmd prefd postfd (fds s)),
                            if bg then E_nowait p else E_wait p]
                      (s\<lparr>npids := p + 1, fds := close_read_end prefd (close_write_end postfd (fds s))\<rparr>)))))"

section \<open>Pipelines and lists\<close>

definition new_pipe :: "shell \<Rightarrow> (shell \<times> nat \<times> nat) sh" where
  "new_pipe s =
     (case mk_pipe (npipes s) (fds s) of
        None \<Rightarrow> Crash
      | Some (t, r, w) \<Rightarrow> Go (s\<lparr>fds := t, npipes := npipes s + 1\<rparr>, r, w))"

fun pipe_loop ::
  "shenv \<Rightarrow> bool \<Rightarrow> string list \<Rightarrow> string list \<Rightarrow> (nat \<times> nat) option \<Rightarrow> shell \<Rightarrow> shell sh" where
  "pipe_loop e bg [] cur prefd s = do_simple_cmd e cur prefd None bg s"
| "pipe_loop e bg (tok # toks) cur prefd s =
     (if tok = ''|'' then
        sbind (new_pipe s) (\<lambda>(s, postfd).
        sbind (do_simple_cmd e cur prefd (Some postfd) bg s) (\<lambda>s.
        pipe_loop e bg toks [] (Some postfd) s))
      else pipe_loop e bg toks (cur @ [tok]) prefd s)"

definition do_pipe_cmd :: "shenv \<Rightarrow> string list \<Rightarrow> bool \<Rightarrow> shell \<Rightarrow> shell sh" where
  "do_pipe_cmd e pipeline bg s = pipe_loop e bg pipeline [] None s"

fun list_loop :: "shenv \<Rightarrow> string list \<Rightarrow> string list \<Rightarrow> shell \<Rightarrow> shell sh" where
  "list_loop e [] cur s = Go s"
| "list_loop e (tok # toks) cur s =
     (if tok = '';'' \<or> tok = [CHR 0x0A] then
        sbind (if cur \<noteq> [] then do_pipe_cmd e cur False s else Go s) (\<lambda>s. list_loop e toks [] s)
      else if tok = ''&'' then
        sbind (if cur \<noteq> [] then do_pipe_cmd e cur True s else Go s) (\<lambda>s. list_loop e toks [] s)
      else list_loop e toks (cur @ [tok]) s)"

definition do_list_cmd :: "shenv \<Rightarrow> string list \<Rightarrow> shell \<Rightarrow> shell sh" where
  "do_list_cmd e tokens s = list_loop e tokens [] s"

section \<open>How a pipeline is wired\<close>

text \<open>
  The specification: \<open>join_bar cs\<close> is the pipeline of the commands \<open>cs\<close>. Every command runs in a child of
  its own; all of them see the shell's descriptors, except that command \<open>i\<close> reads from the pipe that
  command \<open>i - 1\<close> writes to.
\<close>

fun join_bar :: "string list list \<Rightarrow> string list" where
  "join_bar [] = []"
| "join_bar [c] = c"
| "join_bar (c # cs) = c @ ''|'' # join_bar cs"

definition stdin_from :: "nat option \<Rightarrow> fdt \<Rightarrow> fdt" where
  "stdin_from inp t = (case inp of None \<Rightarrow> t | Some k \<Rightarrow> t(0 \<mapsto> Pipe_r k))"

definition waited :: "bool \<Rightarrow> nat \<Rightarrow> event" where
  "waited bg p = (if bg then E_nowait p else E_wait p)"

fun wired :: "shenv \<Rightarrow> bool \<Rightarrow> fdt \<Rightarrow> nat option \<Rightarrow> nat \<Rightarrow> nat \<Rightarrow> string list list \<Rightarrow> event list" where
  "wired e bg t inp k p [] = []"
| "wired e bg t inp k p [c] = [E_fork p (exec_cmd e c (stdin_from inp t) []), waited bg p]"
| "wired e bg t inp k p (c # cs) =
     [E_fork p (exec_cmd e c ((stdin_from inp t)(1 \<mapsto> Pipe_w k)) [''DUP postfd1'']), waited bg p] @
     wired e bg t (Some k) (k + 1) (p + 1) cs"

definition external :: "string list \<Rightarrow> bool" where
  "external c \<longleftrightarrow> c \<noteq> [] \<and> get_cmd_handle (hd c) = None \<and> ''|'' \<notin> set c"

definition roomy :: "fdt \<Rightarrow> bool" where
  "roomy t \<longleftrightarrow> t 0 \<noteq> None \<and> t 1 \<noteq> None \<and>
     (\<exists>a b c. distinct [a, b, c] \<and> (\<forall>x \<in> {a, b, c}. x < OPEN_MAX \<and> t x = None))"

lemma free_fd_SomeD: "free_fd t = Some n \<Longrightarrow> t n = None"
  by (auto simp: free_fd_def find_Some_iff)

lemma free_fd_least: "n < OPEN_MAX \<Longrightarrow> t n = None \<Longrightarrow> \<forall>m < n. t m \<noteq> None \<Longrightarrow> free_fd t = Some n"
  unfolding free_fd_def find_Some_iff by (auto intro!: exI [of _ n])

lemma free_fd_None: "free_fd t = None \<longleftrightarrow> (\<forall>n < OPEN_MAX. t n \<noteq> None)"
  by (auto simp: free_fd_def find_None_iff)

lemma mk_pipe_roomy:
  assumes "roomy t" and "t' = t \<or> (\<exists>q f. t q = None \<and> t' = t(q \<mapsto> f))"
  shows "\<exists>r w. mk_pipe k t' = Some (t'(r \<mapsto> Pipe_r k, w \<mapsto> Pipe_w k), r, w) \<and> r \<noteq> w \<and> t' r = None \<and> t' w = None \<and>
    t r = None \<and> t w = None \<and> 1 < r \<and> 1 < w"
proof -
  obtain a b where ab: "a \<noteq> b" "a < OPEN_MAX" "b < OPEN_MAX" "t' a = None" "t' b = None"
    using assms by (auto simp: roomy_def split: if_splits) metis+
  then obtain r where r: "free_fd t' = Some r" using free_fd_None [of t'] by fastforce
  have "free_fd (t'(r \<mapsto> Pipe_r k)) \<noteq> None"
    using ab by (cases "a = r") (auto simp: free_fd_None)
  then obtain w where w: "free_fd (t'(r \<mapsto> Pipe_r k)) = Some w" by blast
  have n: "t' r = None" "t' w = None" "w \<noteq> r"
    using free_fd_SomeD [OF r] free_fd_SomeD [OF w] by (auto split: if_splits)
  have t: "t x = None \<and> 1 < x" if "t' x = None" for x
  proof -
    have "t x = None" using that assms(2) by (auto split: if_splits)
    then have "x \<noteq> 0 \<and> x \<noteq> 1" using assms(1) unfolding roomy_def by metis
    with \<open>t x = None\<close> show ?thesis by linarith
  qed
  from n t [OF n(1)] t [OF n(2)] show ?thesis by (auto simp: mk_pipe_def r w)
qed

lemma pipe_loop_append:
  "''|'' \<notin> set c \<Longrightarrow> pipe_loop e bg (c @ toks) cur prefd s = pipe_loop e bg toks (cur @ c) prefd s"
  by (induction c arbitrary: cur) auto

text \<open>The descriptors between two commands: those of the shell and the read end of the last pipe.\<close>

definition holding :: "fdt \<Rightarrow> (nat \<times> nat) option \<Rightarrow> nat option \<Rightarrow> fdt \<Rightarrow> bool" where
  "holding t prefd inp t' \<longleftrightarrow>
     (case (prefd, inp) of
        (None, None) \<Rightarrow> t' = t
      | (Some (r, _), Some k) \<Rightarrow> t r = None \<and> 1 < r \<and> t' = t(r \<mapsto> Pipe_r k)
      | _ \<Rightarrow> False)"

lemma holdingE:
  assumes "holding t prefd inp t'"
  obtains "prefd = None" "inp = None" "t' = t"
  | r w k where "prefd = Some (r, w)" "inp = Some k" "t r = None" "1 < r" "t' = t(r \<mapsto> Pipe_r k)"
  using assms by (auto simp: holding_def split: option.splits)

lemma upd_back: "t r = None \<Longrightarrow> r \<noteq> n \<Longrightarrow> t(r := None, n := x) = t(n := x)"
  by (simp add: fun_upd_idem)

lemma child_last:
  assumes "holding t prefd inp t'"
  shows "simple_child e c prefd None t' = exec_cmd e c (stdin_from inp t) []" "close_read_end prefd t' = t"
  using assms
  by (auto elim!: holdingE simp: simple_child_def join_input_def join_output_def close_read_end_def
      dup2_def close_fd_def stdin_from_def upd_back fun_upd_twist [of 0])

lemma child_inner:
  assumes "holding t prefd inp t'" and "r \<noteq> w" "t r = None" "t w = None" "t' r = None" "t' w = None" "1 < r" "1 < w"
  shows "simple_child e c prefd (Some (r, w)) (t'(r \<mapsto> Pipe_r k, w \<mapsto> Pipe_w k)) =
           exec_cmd e c ((stdin_from inp t)(1 \<mapsto> Pipe_w k)) [''DUP postfd1'']"
    "holding t (Some (r, w)) (Some k)
       (close_read_end prefd (close_write_end (Some (r, w)) (t'(r \<mapsto> Pipe_r k, w \<mapsto> Pipe_w k))))"
proof -
  have *: "(let (u, ms) = join_input prefd (t'(r \<mapsto> Pipe_r k, w \<mapsto> Pipe_w k));
                (u, ms') = join_output (Some (r, w)) (close_read_end (Some (r, w)) u)
            in (u, ms @ ms')) = ((stdin_from inp t)(1 \<mapsto> Pipe_w k), [''DUP postfd1''])"
    using assms
    by (auto elim!: holdingE simp: join_input_def join_output_def close_read_end_def dup2_def close_fd_def
        stdin_from_def fun_eq_iff)
  then show "simple_child e c prefd (Some (r, w)) (t'(r \<mapsto> Pipe_r k, w \<mapsto> Pipe_w k)) =
           exec_cmd e c ((stdin_from inp t)(1 \<mapsto> Pipe_w k)) [''DUP postfd1'']"
    by (simp add: simple_child_def Let_def split: prod.splits)
  show "holding t (Some (r, w)) (Some k)
       (close_read_end prefd (close_write_end (Some (r, w)) (t'(r \<mapsto> Pipe_r k, w \<mapsto> Pipe_w k))))"
    using assms(1)
  proof (cases rule: holdingE)
    case 1
    with assms(2-) show ?thesis
      by (auto simp: holding_def close_read_end_def close_write_end_def close_fd_def fun_eq_iff)
  next
    case (2 r' w' k')
    with assms(2-) show ?thesis
      by (auto simp: holding_def close_read_end_def close_write_end_def close_fd_def fun_eq_iff)
  qed
qed

lemma external_simple_cmd:
  assumes "external c" and "se_fork e (npids s)"
  shows "do_simple_cmd e c prefd postfd bg s =
    Go (log_events [E_fork (npids s) (simple_child e c prefd postfd (fds s)), waited bg (npids s)]
      (s\<lparr>npids := npids s + 1, fds := close_read_end prefd (close_write_end postfd (fds s))\<rparr>))"
  using assms by (cases c) (simp_all add: external_def do_simple_cmd_def waited_def Let_def)

lemma pipe_loop_wired:
  assumes "cs \<noteq> []" and "\<forall>c \<in> set cs. external c" and "roomy t" and "holding t prefd inp (fds s)"
    and "\<forall>i < length cs. se_fork e (npids s + i)"
  shows "pipe_loop e bg (join_bar cs) [] prefd s =
    Go (s\<lparr>fds := t, npids := npids s + length cs, npipes := npipes s + (length cs - 1),
          log := log s @ wired e bg t inp (npipes s) (npids s) cs\<rparr>)"
  using assms
proof (induction cs arbitrary: prefd inp s rule: join_bar.induct)
  case 1
  then show ?case by simp
next
  case (2 c)
  then have "se_fork e (npids s)" "external c" by auto
  with 2 show ?case
    using pipe_loop_append [of c e bg "[]" "[]" prefd s]
    by (simp add: external_simple_cmd external_def child_last close_write_end_def log_events_def)
next
  case (3 c c' cs)
  have c: "external c" "''|'' \<notin> set c" and f: "se_fork e (npids s)"
    using 3(3,6) by (auto simp: external_def)
  have "fds s = t \<or> (\<exists>q f. t q = None \<and> fds s = t(q \<mapsto> f))"
    using 3(5) by (auto elim!: holdingE)
  from mk_pipe_roomy [OF 3(4) this, of "npipes s"] obtain r w where
    p: "mk_pipe (npipes s) (fds s) = Some ((fds s)(r \<mapsto> Pipe_r (npipes s), w \<mapsto> Pipe_w (npipes s)), r, w)"
    and rw: "r \<noteq> w" "t r = None" "t w = None" "fds s r = None" "fds s w = None" "1 < r" "1 < w"
    by blast
  note ci = child_inner [OF 3(5) rw, where k = "npipes s"]
  define s1 where "s1 = log_events [E_fork (npids s) (exec_cmd e c ((stdin_from inp t)(1 \<mapsto> Pipe_w (npipes s))) [''DUP postfd1'']),
      waited bg (npids s)]
    (s\<lparr>npipes := npipes s + 1, npids := npids s + 1,
       fds := close_read_end prefd (close_write_end (Some (r, w))
         ((fds s)(r \<mapsto> Pipe_r (npipes s), w \<mapsto> Pipe_w (npipes s))))\<rparr>)"
  have step: "pipe_loop e bg (join_bar (c # c' # cs)) [] prefd s =
      pipe_loop e bg (join_bar (c' # cs)) [] (Some (r, w)) s1"
    using pipe_loop_append [OF c(2), of e bg "''|'' # join_bar (c' # cs)" "[]" prefd s] c f
    by (simp add: new_pipe_def p external_simple_cmd ci(1) s1_def)
  have s1: "holding t (Some (r, w)) (Some (npipes s)) (fds s1)" "npids s1 = npids s + 1" "npipes s1 = npipes s + 1"
    "log s1 = log s @ [E_fork (npids s) (exec_cmd e c ((stdin_from inp t)(1 \<mapsto> Pipe_w (npipes s))) [''DUP postfd1'']),
      waited bg (npids s)]"
    using ci(2) by (simp_all add: s1_def log_events_def)
  have "\<forall>i < length (c' # cs). se_fork e (npids s1 + i)"
    using 3(6) s1(2) by (metis (no_types, lifting) add.assoc add.commute length_Cons Suc_less_eq plus_1_eq_Suc)
  with 3(1) [OF _ _ 3(4) s1(1)] 3(3) show ?case
    unfolding step by (simp add: s1(2-4))
qed

text \<open>
  C5: a pipeline of external commands forks one child per command, from left to right; the
  standard input of each is the pipe its predecessor writes to, the other descriptors are those of the
  shell and no end of any pipe is left open in a child, so that readers see the end of their
  input; afterwards the shell's descriptor table is exactly what it was. In the foreground each
  command is waited for before the next one is started.
\<close>

theorem pipeline_wiring:
  assumes "cs \<noteq> []" and "\<forall>c \<in> set cs. external c" and "roomy (fds s)"
    and "\<forall>i < length cs. se_fork e (npids s + i)"
  shows "do_pipe_cmd e (join_bar cs) bg s =
    Go (s\<lparr>npids := npids s + length cs, npipes := npipes s + (length cs - 1),
          log := log s @ wired e bg (fds s) None (npipes s) (npids s) cs\<rparr>)"
  using pipe_loop_wired [OF assms(1-3), of None None s e bg] assms(4) by (simp add: do_pipe_cmd_def holding_def)

definition terminal_shell :: shell where
  "terminal_shell = \<lparr>fds = [0 \<mapsto> Term, 1 \<mapsto> Term, 2 \<mapsto> Term], npipes = 0, npids = 0, log = []\<rparr>"

definition willing :: "nat \<Rightarrow> shenv" where
  "willing n = \<lparr>se_ptr = n, se_fork = (\<lambda>_. True), se_read = (\<lambda>_. True), se_write = (\<lambda>_. True)\<rparr>"

lemma roomy_terminal: "roomy (fds terminal_shell)"
  unfolding roomy_def terminal_shell_def
  by (intro conjI exI [of _ 3] exI [of _ 4] exI [of _ 5]) (auto simp: OPEN_MAX_def)

theorem pipeline_wiring_witness:
  "do_pipe_cmd (willing 4) [''ls'', ''|'', ''wc'', ''>'', ''n''] False terminal_shell =
    Go (terminal_shell\<lparr>npids := 2, npipes := 1, log :=
      [E_fork 0 (Exec [''ls''] ((fds terminal_shell)(1 \<mapsto> Pipe_w 0)) [''DUP postfd1'']), E_wait 0,
       E_fork 1 (exec_cmd (willing 4) [''wc'', ''>'', ''n''] ((fds terminal_shell)(0 \<mapsto> Pipe_r 0)) []), E_wait 1]\<rparr>)"
proof -
  have "exec_cmd (willing 4) [''ls''] t ms = Exec [''ls''] t ms" for t ms
    by (simp add: exec_cmd_def willing_def)
  moreover have "\<forall>c \<in> set [[''ls''], [''wc'', ''>'', ''n'']]. external c"
    by (simp add: external_def get_cmd_handle_def buildin_cmd_table_def)
  ultimately show ?thesis
    using pipeline_wiring [of "[[''ls''], [''wc'', ''>'', ''n'']]" terminal_shell "willing 4" False] roomy_terminal
    by (simp add: willing_def waited_def stdin_from_def) (simp add: terminal_shell_def)
qed

end
