(* ===== verification/FlexScanner.thy ===== *)
theory FlexScanner
  imports CString
begin

text \<open>
  The scanning engine that \<open>flex\<close> puts into \<open>src/2/parseline.c\<close> and into \<open>lex.yy.c\<close> of \<open>msh\<close>: the same
  code over different tables, so the tables are a parameter. The engine reads the transition
  function out of compressed tables, remembers the last accepting state, backs up to it when it is
  stuck, and refills its buffer when it meets the two zero bytes behind the data.

  A buffer is the list of characters not yet consumed (\<open>yb\<close>); positions are offsets from \<open>yytext\<close>. The
  zero byte that \<open>flex\<close> stores behind the current token while its action runs, and takes back
  afterwards, is not modelled: the text of a token is a slice of the buffer.
\<close>

section \<open>Tables\<close>

record flex =
  ft_accept :: "nat list"
  ft_ec :: "nat list"
  ft_meta :: "nat list"
  ft_base :: "nat list"
  ft_def :: "nat list"
  ft_nxt :: "nat list"
  ft_chk :: "nat list"
  ft_states :: nat
  ft_jam :: nat
  ft_eob :: nat

abbreviation NUL :: char where "NUL \<equiv> CHR 0x00"

definition yy_class :: "flex \<Rightarrow> char \<Rightarrow> nat" where
  "yy_class T c = ft_ec T ! of_char c"

text \<open>
  The inner \<open>while\<close> loop: follow the default states until the entry belongs to the current state.
  Nothing in the code bounds it; that it ends is a fact about the tables.
\<close>

partial_function (option) yy_trans :: "flex \<Rightarrow> nat \<Rightarrow> nat \<Rightarrow> nat option" where
  "yy_trans T st c =
     (if ft_chk T ! (ft_base T ! st + c) = st then Some (ft_nxt T ! (ft_base T ! st + c))
      else
        (let st' = ft_def T ! st
         in yy_trans T st' (if ft_states T \<le> st' then ft_meta T ! c else c)))"

declare yy_trans.simps [code]

definition remember :: "flex \<Rightarrow> nat \<Rightarrow> nat \<Rightarrow> nat \<times> nat \<Rightarrow> nat \<times> nat" where
  "remember T st cp la = (if ft_accept T ! st \<noteq> 0 then (st, cp) else la)"

section \<open>Matching\<close>

text \<open>
  \<open>yy_match T bs cp st last\<close>: the loop at the label \<open>yy_match\<close>; \<open>bs\<close> is the buffer from the current
  position on, the two zero bytes included. The result is the state in which it stopped, the
  position there and the last accepting state with its position. Running past the zero bytes is
  \<open>None\<close>.
\<close>

fun yy_match :: "flex \<Rightarrow> string \<Rightarrow> nat \<Rightarrow> nat \<Rightarrow> nat \<times> nat \<Rightarrow> (nat \<times> nat \<times> nat \<times> nat) option" where
  "yy_match T [] cp st la = None"
| "yy_match T (b # bs) cp st la =
     (case yy_trans T st (yy_class T b) of
        None \<Rightarrow> None
      | Some st' \<Rightarrow>
          (let la = remember T st cp la in
           if ft_base T ! st' = ft_jam T then Some (st', cp + 1, la)
           else yy_match T bs (cp + 1) st' la))"

definition yy_find_action :: "flex \<Rightarrow> nat \<Rightarrow> nat \<Rightarrow> nat \<times> nat \<Rightarrow> nat \<times> nat" where
  "yy_find_action T st cp la =
     (if ft_accept T ! st = 0 then (ft_accept T ! fst la, snd la) else (ft_accept T ! st, cp))"

text \<open>\<open>yy_get_previous_state\<close> runs over text that was matched before; a zero byte counts as class 1.\<close>

fun previous_loop :: "flex \<Rightarrow> string \<Rightarrow> nat \<Rightarrow> nat \<Rightarrow> nat \<times> nat \<Rightarrow> (nat \<times> nat \<times> nat) option" where
  "previous_loop T [] cp st la = Some (st, la)"
| "previous_loop T (b # bs) cp st la =
     (case yy_trans T st (if b = NUL then 1 else yy_class T b) of
        None \<Rightarrow> None
      | Some st' \<Rightarrow> previous_loop T bs (cp + 1) st' (remember T st cp la))"

definition yy_get_previous_state :: "flex \<Rightarrow> nat \<Rightarrow> string \<Rightarrow> nat \<times> nat \<Rightarrow> (nat \<times> nat \<times> nat) option" where
  "yy_get_previous_state T start text la = previous_loop T text 0 start la"

definition yy_try_NUL_trans :: "flex \<Rightarrow> nat \<Rightarrow> nat \<Rightarrow> nat \<times> nat \<Rightarrow> (nat \<times> nat \<times> nat) option" where
  "yy_try_NUL_trans T st cp la =
     (case yy_trans T st 1 of
        None \<Rightarrow> None
      | Some st' \<Rightarrow> Some (if st' = ft_states T - 1 then 0 else st', remember T st cp la))"

section \<open>The buffer\<close>

record ybuf =
  yb :: string
  yb_size :: nat
  yb_eof :: bool

definition YY_BUF_SIZE :: nat where "YY_BUF_SIZE = 16384"
definition YY_READ_BUF_SIZE :: nat where "YY_READ_BUF_SIZE = 8192"

definition new_buffer :: ybuf where
  "new_buffer = \<lparr>yb = [], yb_size = YY_BUF_SIZE, yb_eof = False\<rparr>"

text \<open>The buffer grows until the text that has to be kept and one more character fit.\<close>

partial_function (option) grow :: "nat \<Rightarrow> nat \<Rightarrow> nat option" where
  "grow sz moved = (if int sz - int moved - 1 \<le> 0 then grow (sz * 2) moved else Some sz)"

datatype refill = Continue_scan ybuf | Last_match ybuf | End_of_file ybuf | Fatal

text \<open>
  \<open>yy_get_next_buffer\<close>: \<open>inp\<close> is \<open>YY_INPUT\<close>, a function of the room in the buffer that returns the
  number of characters (or -1) and the characters. A negative number of characters, converted to the
  unsigned \<open>yy_size_t\<close>, asks for more memory than there is.
\<close>

definition yy_get_next_buffer ::
  "(nat \<Rightarrow> 'i \<Rightarrow> (int \<times> string) \<times> 'i) \<Rightarrow> nat \<Rightarrow> ybuf \<Rightarrow> 'i \<Rightarrow> (refill \<times> 'i) option" where
  "yy_get_next_buffer inp moved b i =
     (if yb_eof b then
        Some (if moved = 0 then End_of_file (b\<lparr>yb := [], yb_eof := False\<rparr>) else Last_match b, i)
      else
        (case grow (yb_size b) moved of
           None \<Rightarrow> None
         | Some sz \<Rightarrow>
             (let ((n, data), i) = inp (min YY_READ_BUF_SIZE (sz - moved - 1)) i;
                  b' = b\<lparr>yb := take (nat (n + int moved)) (take moved (yb b) @ data), yb_size := sz\<rparr>
              in Some (if n = 0 then
                         (if moved = 0 then End_of_file (b'\<lparr>yb := []\<rparr>) else Last_match (b'\<lparr>yb_eof := True\<rparr>))
                       else if n + int moved < 0 then Fatal
                       else Continue_scan b', i))))"

section \<open>One token\<close>

datatype token = Tok nat string ybuf | Eof ybuf | Tok_fatal

definition token_at :: "nat \<times> nat \<Rightarrow> ybuf \<Rightarrow> token" where
  "token_at a b = Tok (fst a) (take (snd a) (yb b)) (b\<lparr>yb := drop (snd a) (yb b)\<rparr>)"

text \<open>
  \<open>yy_scan\<close> is \<open>yylex\<close> from the label \<open>yy_match\<close> to the action switch, with the branch for the end of the
  buffer: a zero byte inside the data is matched like a character of class 1, otherwise the buffer is
  refilled and the scan continues where it was.
\<close>

partial_function (option) yy_scan ::
  "flex \<Rightarrow> (nat \<Rightarrow> 'i \<Rightarrow> (int \<times> string) \<times> 'i) \<Rightarrow> nat \<Rightarrow> ybuf \<Rightarrow> 'i \<Rightarrow> nat \<Rightarrow> nat \<Rightarrow> nat \<times> nat \<Rightarrow> (token \<times> 'i) option" where
  "yy_scan T inp start b i cp st la =
     (case yy_match T (drop cp (yb b @ [NUL, NUL])) cp st la of
        None \<Rightarrow> None
      | Some (st, cp, la) \<Rightarrow>
          (let (act, n) = yy_find_action T st cp la in
           if act \<noteq> ft_eob T then Some (token_at (act, n) b, i)
           else if n \<le> length (yb b) then
             (case yy_get_previous_state T start (take (n - 1) (yb b)) la of
                None \<Rightarrow> None
              | Some (st, la) \<Rightarrow>
                  (case yy_try_NUL_trans T st (n - 1) la of
                     None \<Rightarrow> None
                   | Some (st', la) \<Rightarrow>
                       if st' \<noteq> 0 then yy_scan T inp start b i n st' la
                       else Some (token_at (yy_find_action T st (n - 1) la) b, i)))
           else
             (case yy_get_next_buffer inp (n - 1) b i of
                None \<Rightarrow> None
              | Some (r, i) \<Rightarrow>
                  (case r of
                     Fatal \<Rightarrow> Some (Tok_fatal, i)
                   | End_of_file b \<Rightarrow> Some (Eof b, i)
                   | Continue_scan b \<Rightarrow>
                       (case yy_get_previous_state T start (take (n - 1) (yb b)) la of
                          None \<Rightarrow> None
                        | Some (st, la) \<Rightarrow> yy_scan T inp start b i (n - 1) st la)
                   | Last_match b \<Rightarrow>
                       (case yy_get_previous_state T start (yb b) la of
                          None \<Rightarrow> None
                        | Some (st, la) \<Rightarrow>
                            Some (token_at (yy_find_action T st (length (yb b)) la) b, i))))))"

section \<open>Scanners for runs of characters\<close>

text \<open>Comparing the code of a character with that of a fixed one.\<close>

lemma of_char_nat_eq: "of_char c = (of_char d :: nat) \<longleftrightarrow> c = d"
  by (rule of_char_eq_iff)

lemmas of_char_cases =
  of_char_nat_eq [of _ NUL, simplified] of_char_nat_eq [of _ "CHR '' ''", simplified]
  of_char_nat_eq [of _ TAB, simplified] of_char_nat_eq [of _ NL, simplified]
  of_char_nat_eq [of _ "CHR ''|''", simplified] of_char_nat_eq [of _ "CHR ''<''", simplified]
  of_char_nat_eq [of _ "CHR ''>''", simplified] of_char_nat_eq [of _ "CHR '';''", simplified]
  of_char_nat_eq [of _ "CHR ''&''", simplified] of_char_nat_eq [of _ "CHR 0x22", simplified]

text \<open>
  What the two scanners of the repository promise: in a start condition, a maximal run of word
  characters is one token with the action \<open>wact\<close>, any other character is a token by itself. The locale
  states this of the tables, state by state; the lemmas lift it to the engine.
\<close>

locale run_scanner =
  fixes T :: flex and start :: nat and words :: "nat set" and wordc :: "char \<Rightarrow> bool"
    and wact :: nat and act_of :: "char \<Rightarrow> nat" and eobst :: nat
  assumes enter: "wordc c \<Longrightarrow> \<exists>w \<in> words. yy_trans T start (yy_class T c) = Some w"
    and stay: "w \<in> words \<Longrightarrow> wordc c \<Longrightarrow> \<exists>w' \<in> words. yy_trans T w (yy_class T c) = Some w'"
    and leave: "w \<in> words \<Longrightarrow> \<not> wordc c \<Longrightarrow> c \<noteq> NUL \<Longrightarrow>
      \<exists>j. yy_trans T w (yy_class T c) = Some j \<and> ft_base T ! j = ft_jam T \<and> ft_accept T ! j = 0"
    and word_state: "w \<in> words \<Longrightarrow> ft_accept T ! w = wact \<and> ft_base T ! w \<noteq> ft_jam T"
    and wact: "wact \<noteq> 0" "wact \<noteq> ft_eob T"
    and single: "\<not> wordc c \<Longrightarrow> c \<noteq> NUL \<Longrightarrow>
      \<exists>j. yy_trans T start (yy_class T c) = Some j \<and> ft_base T ! j = ft_jam T \<and> ft_accept T ! j = act_of c"
    and act_of: "\<not> wordc c \<Longrightarrow> c \<noteq> NUL \<Longrightarrow> act_of c \<noteq> 0 \<and> act_of c \<noteq> ft_eob T"
    and start: "ft_accept T ! start = 0"
    and eob: "yy_trans T start (yy_class T NUL) = Some eobst" "ft_base T ! eobst \<noteq> ft_jam T"
      "ft_accept T ! eobst = ft_eob T" "ft_eob T \<noteq> 0"
      "\<exists>j. yy_trans T eobst (yy_class T NUL) = Some j \<and> ft_base T ! j = ft_jam T \<and> ft_accept T ! j = 0"
    and nul: "\<not> wordc NUL"
begin

lemma match_words:
  assumes "w \<in> words" and "list_all wordc us" and "\<not> wordc d" and "d \<noteq> NUL"
  shows "\<exists>st cp' la'. yy_match T (us @ d # bs) cp w la = Some (st, cp', la') \<and>
    yy_find_action T st cp' la' = (wact, cp + length us)"
  using assms(1,2)
proof (induction us arbitrary: cp w la)
  case Nil
  from leave [OF Nil(1) assms(3,4)] obtain j where
    j: "yy_trans T w (yy_class T d) = Some j" "ft_base T ! j = ft_jam T" "ft_accept T ! j = 0" by blast
  have "yy_match T ([] @ d # bs) cp w la = Some (j, cp + 1, (w, cp))"
    using j word_state [OF Nil(1)] wact by (simp add: remember_def)
  moreover have "yy_find_action T j (cp + 1) (w, cp) = (wact, cp + length [])"
    using j word_state [OF Nil(1)] by (simp add: yy_find_action_def)
  ultimately show ?case by blast
next
  case (Cons u us)
  from Cons.prems stay obtain w' where w': "w' \<in> words" "yy_trans T w (yy_class T u) = Some w'" by auto
  with Cons.IH [OF w'(1), of "cp + 1"] Cons.prems(2) word_state [OF w'(1)] show ?case by simp
qed

lemma next_word:
  assumes "wordc c" and "list_all wordc us" and "\<not> wordc d" and "d \<noteq> NUL" and "yb b = (c # us) @ d # bs"
  shows "yy_scan T inp start b i 0 start la = Some (Tok wact (c # us) (b\<lparr>yb := d # bs\<rparr>), i)"
proof -
  obtain w where w: "w \<in> words" "yy_trans T start (yy_class T c) = Some w" using enter [OF assms(1)] by blast
  obtain st cp la' where m: "yy_match T (us @ d # bs @ [NUL, NUL]) 1 w la = Some (st, cp, la')"
    and a: "yy_find_action T st cp la' = (wact, 1 + length us)"
    using match_words [OF w(1) assms(2-4), of "bs @ [NUL, NUL]" 1 la] by auto
  have "yy_match T (yb b @ [NUL, NUL]) 0 start la = Some (st, cp, la')"
    using w m word_state [OF w(1)] start by (simp add: assms(5) remember_def)
  then show ?thesis
    unfolding yy_scan.simps [of T inp start b i 0]
    using a wact by (simp add: token_at_def assms(5))
qed

lemma next_single:
  assumes "\<not> wordc c" and "c \<noteq> NUL" and "yb b = c # bs"
  shows "yy_scan T inp start b i 0 start la = Some (Tok (act_of c) [c] (b\<lparr>yb := bs\<rparr>), i)"
proof -
  obtain j where "yy_trans T start (yy_class T c) = Some j" "ft_base T ! j = ft_jam T" "ft_accept T ! j = act_of c"
    using single [OF assms(1,2)] by blast
  then show ?thesis
    unfolding yy_scan.simps [of T inp start b i 0]
    using act_of [OF assms(1,2)] by (simp add: assms(3) yy_find_action_def token_at_def)
qed

text \<open>An empty buffer is refilled, and the scan starts anew on what was read.\<close>

lemma next_refill:
  assumes "yb b = []" and "\<not> yb_eof b" and "1 < yb_size b"
    and "inp (min YY_READ_BUF_SIZE (yb_size b - 1)) i = ((n, data), i')" and "0 < n"
  shows "\<exists>la'. yy_scan T inp start b i 0 start la = yy_scan T inp start (b\<lparr>yb := take (nat n) data\<rparr>) i' 0 start la'"
proof -
  obtain j where j: "yy_trans T eobst (yy_class T NUL) = Some j" "ft_base T ! j = ft_jam T" "ft_accept T ! j = 0"
    using eob by blast
  have m: "yy_match T [NUL, NUL] 0 start la = Some (j, 2, (eobst, 1))"
    using eob j start by (simp add: remember_def)
  have g: "grow (yb_size b) 0 = Some (yb_size b)" using assms(3) by (subst grow.simps) simp
  have r: "yy_get_next_buffer inp 0 b i = Some (Continue_scan (b\<lparr>yb := take (nat n) data\<rparr>), i')"
    using assms(2,4,5) by (simp add: yy_get_next_buffer_def g)
  have "yy_scan T inp start b i 0 start la =
      yy_scan T inp start (b\<lparr>yb := take (nat n) data\<rparr>) i' 0 start (eobst, 1)"
    unfolding yy_scan.simps [of T inp start b i 0]
    using m j eob by (simp add: assms(1) yy_find_action_def r yy_get_previous_state_def)
  then show ?thesis by blast
qed

lemma next_eof:
  assumes "yb b = []" and "\<not> yb_eof b" and "1 < yb_size b"
    and "inp (min YY_READ_BUF_SIZE (yb_size b - 1)) i = ((0, data), i')"
  shows "yy_scan T inp start b i 0 start la = Some (Eof b, i')"
proof -
  obtain j where j: "yy_trans T eobst (yy_class T NUL) = Some j" "ft_base T ! j = ft_jam T" "ft_accept T ! j = 0"
    using eob by blast
  have m: "yy_match T [NUL, NUL] 0 start la = Some (j, 2, (eobst, 1))"
    using eob j start by (simp add: remember_def)
  have g: "grow (yb_size b) 0 = Some (yb_size b)" using assms(3) by (subst grow.simps) simp
  have r: "yy_get_next_buffer inp 0 b i = Some (End_of_file b, i')"
    using assms by (simp add: yy_get_next_buffer_def g)
  show ?thesis
    unfolding yy_scan.simps [of T inp start b i 0]
    using m j eob by (simp add: assms(1) yy_find_action_def r)
qed

end

end
