(* ===== verification/MyshScanner.thy ===== *)
theory MyshScanner
  imports FlexScanner
begin

text \<open>
  The tables of the scanner in \<open>src/2/parseline.c\<close>, and the proof that they recognise the rules of
  \<open>parseline.l\<close>: the operators, the newline, and words as maximal runs of other characters.
\<close>

section \<open>The tables\<close>

definition mysh_yy_accept :: "nat list" where
  "mysh_yy_accept =
    [0, 0, 0, 0, 0, 0, 0, 10, 6, 8, 7, 5, 1, 3, 2, 4, 9, 6, 0]"

definition mysh_yy_ec :: "nat list" where
  "mysh_yy_ec =
    [0, 1, 1, 1, 1, 1, 1, 1, 1, 2, 3, 1, 1, 1, 1, 1, 1, 1, 1, 1, 1, 1, 1, 1, 1, 1, 1, 1, 1, 1, 1, 1,
     2, 1, 2, 1, 1, 1, 4, 1, 1, 1, 1, 1, 1, 1, 1, 1, 1, 1, 1, 1, 1, 1, 1, 1, 1, 1, 1, 5, 6, 1, 7, 1,
     1, 1, 1, 1, 1, 1, 1, 1, 1, 1, 1, 1, 1, 1, 1, 1, 1, 1, 1, 1, 1, 1, 1, 1, 1, 1, 1, 1, 1, 1, 1, 1,
     1, 1, 1, 1, 1, 1, 1, 1, 1, 1, 1, 1, 1, 1, 1, 1, 1, 1, 1, 1, 1, 1, 1, 1, 1, 1, 1, 1, 8, 1, 1, 1,
     1, 1, 1, 1, 1, 1, 1, 1, 1, 1, 1, 1, 1, 1, 1, 1, 1, 1, 1, 1, 1, 1, 1, 1, 1, 1, 1, 1, 1, 1, 1, 1,
     1, 1, 1, 1, 1, 1, 1, 1, 1, 1, 1, 1, 1, 1, 1, 1, 1, 1, 1, 1, 1, 1, 1, 1, 1, 1, 1, 1, 1, 1, 1, 1,
     1, 1, 1, 1, 1, 1, 1, 1, 1, 1, 1, 1, 1, 1, 1, 1, 1, 1, 1, 1, 1, 1, 1, 1, 1, 1, 1, 1, 1, 1, 1, 1,
     1, 1, 1, 1, 1, 1, 1, 1, 1, 1, 1, 1, 1, 1, 1, 1, 1, 1, 1, 1, 1, 1, 1, 1, 1, 1, 1, 1, 1, 1, 1, 1]"

definition mysh_yy_meta :: "nat list" where
  "mysh_yy_meta =
    [0, 1, 1, 1, 1, 1, 1, 1, 1]"

definition mysh_yy_base :: "nat list" where
  "mysh_yy_base =
    [0, 0, 0, 0, 0, 0, 0, 12, 10, 13, 13, 13, 13, 13, 13, 13, 13, 9, 13, 8]"

definition mysh_yy_def :: "nat list" where
  "mysh_yy_def =
    [0, 18, 1, 19, 19, 19, 19, 18, 18, 18, 18, 18, 18, 18, 18, 18, 18, 18, 0, 18]"

definition mysh_yy_nxt :: "nat list" where
  "mysh_yy_nxt =
    [0, 8, 9, 10, 11, 12, 13, 14, 15, 16, 17, 17, 18, 7, 18, 18, 18, 18, 18, 18, 18, 18]"

definition mysh_yy_chk :: "nat list" where
  "mysh_yy_chk =
    [0, 1, 1, 1, 1, 1, 1, 1, 1, 19, 17, 8, 7, 18, 18, 18, 18, 18, 18, 18, 18, 18]"

definition mysh_flex :: flex where
  "mysh_flex = \<lparr>ft_accept = mysh_yy_accept, ft_ec = mysh_yy_ec, ft_meta = mysh_yy_meta, ft_base = mysh_yy_base,
     ft_def = mysh_yy_def, ft_nxt = mysh_yy_nxt, ft_chk = mysh_yy_chk,
     ft_states = 19, ft_jam = 13, ft_eob = 10\<rparr>"

section \<open>What the tables recognise\<close>

definition word_char :: "char \<Rightarrow> bool" where
  "word_char c \<longleftrightarrow>
     c \<notin> {NUL, CHR '' '', TAB, NL, CHR ''|'', CHR ''<'', CHR ''>'', CHR '';'', CHR ''&'', CHR 0x22}"

text \<open>The number of the rule in \<open>parseline.l\<close> that matches a character outside words.\<close>

definition rule_of :: "char \<Rightarrow> nat" where
  "rule_of c =
     (if c = CHR '';'' then 1 else if c = CHR ''>'' then 2 else if c = CHR ''<'' then 3
      else if c = CHR ''|'' then 4 else if c = CHR ''&'' then 5 else if c = NL then 7 else 8)"

definition char_class :: "nat \<Rightarrow> nat" where
  "char_class k =
     (if k = 0 then 0 else if k = 9 \<or> k = 32 \<or> k = 34 then 2 else if k = 10 then 3 else if k = 38 then 4
      else if k = 59 then 5 else if k = 60 then 6 else if k = 62 then 7 else if k = 124 then 8 else 1)"

lemma ec_char_class: "list_all (\<lambda>k. mysh_yy_ec ! k = char_class k) [0..<256]"
  by code_simp

lemma yy_class_mysh: "yy_class mysh_flex c = char_class (of_char c)"
proof -
  have "of_char c \<in> set [0..<256 :: nat]" by simp
  then show ?thesis using ec_char_class unfolding list_all_iff by (simp add: yy_class_def mysh_flex_def)
qed

lemma class_char: "yy_class mysh_flex c =
  (if c = NUL then 0 else if c = TAB \<or> c = CHR '' '' \<or> c = CHR 0x22 then 2 else if c = NL then 3
   else if c = CHR ''&'' then 4 else if c = CHR '';'' then 5 else if c = CHR ''<'' then 6
   else if c = CHR ''>'' then 7 else if c = CHR ''|'' then 8 else 1)"
  unfolding yy_class_mysh char_class_def of_char_cases by simp

lemma mysh_fields:
  "ft_accept mysh_flex = mysh_yy_accept" "ft_base mysh_flex = mysh_yy_base"
  "ft_jam mysh_flex = 13" "ft_eob mysh_flex = 10"
  by (simp_all add: mysh_flex_def)

lemmas mysh_tables = mysh_fields mysh_yy_accept_def mysh_yy_base_def

text \<open>The transitions out of every state that occurs, for every class of characters.\<close>

lemma trans_mysh:
  "yy_trans mysh_flex 1 0 = Some 7" "yy_trans mysh_flex 7 0 = Some 18"
  "c \<in> {1, 2, 3, 4, 5, 6, 7, 8} \<Longrightarrow> yy_trans mysh_flex 1 c = Some (c + 7)"
  "w \<in> {8, 17} \<Longrightarrow> yy_trans mysh_flex w 1 = Some 17"
  "w \<in> {8, 17} \<Longrightarrow> c \<in> {2, 3, 4, 5, 6, 7, 8} \<Longrightarrow> yy_trans mysh_flex w c = Some 18"
proof -
  have "list_all (\<lambda>c. yy_trans mysh_flex 1 c = Some (c + 7)) [1, 2, 3, 4, 5, 6, 7, 8]"
    "list_all (\<lambda>w. yy_trans mysh_flex w 1 = Some 17) [8, 17]"
    "list_all (\<lambda>w. list_all (\<lambda>c. yy_trans mysh_flex w c = Some 18) [2, 3, 4, 5, 6, 7, 8]) [8, 17]"
    by code_simp+
  then show "c \<in> {1, 2, 3, 4, 5, 6, 7, 8} \<Longrightarrow> yy_trans mysh_flex 1 c = Some (c + 7)"
    "w \<in> {8, 17} \<Longrightarrow> yy_trans mysh_flex w 1 = Some 17"
    "w \<in> {8, 17} \<Longrightarrow> c \<in> {2, 3, 4, 5, 6, 7, 8} \<Longrightarrow> yy_trans mysh_flex w c = Some 18"
    by (auto simp del: One_nat_def)
  show "yy_trans mysh_flex 1 0 = Some 7" "yy_trans mysh_flex 7 0 = Some 18" by code_simp+
qed

interpretation mysh_scan: run_scanner mysh_flex 1 "{8, 17}" word_char 6 rule_of 7
proof
  show "\<exists>w \<in> {8, 17}. yy_trans mysh_flex 1 (yy_class mysh_flex c) = Some w" if "word_char c" for c
    using that by (auto simp del: One_nat_def simp: word_char_def class_char trans_mysh)
  show "\<exists>w' \<in> {8, 17}. yy_trans mysh_flex w (yy_class mysh_flex c) = Some w'"
    if "w \<in> {8, 17}" "word_char c" for w c
    using that by (auto simp del: One_nat_def simp: word_char_def class_char trans_mysh)
  show "\<exists>j. yy_trans mysh_flex w (yy_class mysh_flex c) = Some j \<and> ft_base mysh_flex ! j = ft_jam mysh_flex \<and>
      ft_accept mysh_flex ! j = 0" if "w \<in> {8, 17}" "\<not> word_char c" "c \<noteq> NUL" for w c
    using that by (intro exI [of _ 18]) (auto simp del: One_nat_def simp: word_char_def class_char trans_mysh mysh_tables)
  show "\<exists>j. yy_trans mysh_flex 1 (yy_class mysh_flex c) = Some j \<and> ft_base mysh_flex ! j = ft_jam mysh_flex \<and>
      ft_accept mysh_flex ! j = rule_of c" if "\<not> word_char c" "c \<noteq> NUL" for c
    using that
    by (intro exI [of _ "yy_class mysh_flex c + 7"])
      (auto simp del: One_nat_def simp: word_char_def class_char trans_mysh rule_of_def mysh_tables)
qed (auto simp del: One_nat_def simp: class_char trans_mysh mysh_tables rule_of_def word_char_def)

end
