(* ===== verification/Mysh.thy ===== *)
theory Mysh
  imports ShellExec MyshScanner
begin

text \<open>
  The reading half of the shell \<open>mysh\<close>: parameter expansion, the token array and the actions of the
  scanner (\<open>src/2/parseline.c\<close>), and the main loop with its line buffer (\<open>src/2/mysh.c\<close>). The scanner
  is the engine of \<open>FlexScanner\<close> over the tables of \<open>MyshScanner\<close>, the commands run in \<open>ShellExec\<close>.
\<close>

section \<open>State\<close>

text \<open>
  The array \<open>tokens\<close> up to \<open>tok_cnt\<close> is a list; so is \<open>line_buf\<close> up to its terminating zero.
\<close>

record mysh =
  sh :: shell
  tokens :: "string list"
  lexer :: ybuf
  line_buf :: string
  line_len :: nat
  flag_cont_line :: bool
  ARGC :: int
  pos_param :: "string list"
  EXIT_STATUS :: int
  prompt :: string

text \<open>
  The environment adds the process number, the results of \<open>getpwnam\<close>, \<open>gethostname\<close> and \<open>getcwd\<close>, and
  the byte that happens to lie before the block \<open>readline\<close> returns.
\<close>

record menv =
  me_sh :: shenv
  me_pid :: int
  me_user :: "string option"
  me_host :: "string option"
  me_cwd :: "string option"
  me_below :: char

definition TOKENSZ :: nat where "TOKENSZ = 200"
definition BUFSIZE :: nat where "BUFSIZE = 128"

section \<open>Expansion of parameters\<close>

text \<open>
  What the character after a dollar sign stands for; other characters stand for nothing, and then
  only the dollar sign is dropped.
\<close>

definition param :: "menv \<Rightarrow> mysh \<Rightarrow> char \<Rightarrow> string option" where
  "param e s d =
     (if d = CHR ''$'' then Some (dec (me_pid e))
      else if is_digit d then Some (pos_param s ! (of_char d - 48))
      else if d = CHR ''#'' then Some (dec (ARGC s))
      else if d = CHR ''?'' then Some (dec (EXIT_STATUS s))
      else None)"

text \<open>
  The loop of \<open>expand\<close>: \<open>b\<close> is what has been stored in \<open>buf\<close>, so that \<open>l\<close> is its length; storing past
  the 200 bytes of \<open>buf\<close> is \<open>None\<close>.
\<close>

fun expand_loop :: "menv \<Rightarrow> mysh \<Rightarrow> string \<Rightarrow> string \<Rightarrow> string option" where
  "expand_loop e s [] b = (if length b < TOKENSZ then Some b else None)"
| "expand_loop e s [c] b =
     (if c = CHR ''$'' then expand_loop e s [] b
      else if length b < TOKENSZ then expand_loop e s [] (b @ [c]) else None)"
| "expand_loop e s (c # d # cs) b =
     (if c = CHR ''$'' then
        (case param e s d of
           Some x \<Rightarrow> if length b + length x < TOKENSZ then expand_loop e s cs (b @ x) else None
         | None \<Rightarrow> expand_loop e s (d # cs) b)
      else if length b < TOKENSZ then expand_loop e s (d # cs) (b @ [c]) else None)"

definition expand :: "menv \<Rightarrow> mysh \<Rightarrow> string \<Rightarrow> string option" where
  "expand e s token = expand_loop e s token []"

section \<open>Tokens\<close>

text \<open>
  \<open>add_token\<close> stores the token at \<open>tok_cnt\<close> and a null pointer behind it. The test allows one token too
  many, and the null pointer needs a slot as well: from the 200th token on the array overflows.
\<close>

definition add_token :: "string \<Rightarrow> mysh \<Rightarrow> mysh sh" where
  "add_token token s =
     (if length (tokens s) \<le> TOKENSZ then
        (if length (tokens s) + 1 < TOKENSZ then Go (s\<lparr>tokens := tokens s @ [token]\<rparr>) else Crash)
      else Exit (- 1))"

definition my_yyinput :: "nat \<Rightarrow> mysh \<Rightarrow> (int \<times> string) \<times> mysh" where
  "my_yyinput max_size s =
     (if line_len s < max_size then ((int (line_len s), line_buf s), s) else ((- 1, []), s))"

text \<open>The action switch of \<open>yylex\<close>; the flag says whether \<open>yylex\<close> returns.\<close>

definition yy_action :: "menv \<Rightarrow> nat \<Rightarrow> string \<Rightarrow> mysh \<Rightarrow> (mysh \<times> bool) sh" where
  "yy_action e act yytext s =
     (if act \<in> {1, 2, 3, 4, 5} then sbind (add_token yytext s) (\<lambda>s. Go (s, False))
      else if act = 6 then
        (case expand e s yytext of
           None \<Rightarrow> Crash
         | Some w \<Rightarrow> sbind (add_token w s) (\<lambda>s. Go (s, False)))
      else if act = 7 then
        sbind (add_token yytext s) (\<lambda>s.
        sbind (do_list_cmd (me_sh e) (tokens s) (sh s)) (\<lambda>h. Go (s\<lparr>sh := h, tokens := []\<rparr>, True)))
      else if act = 8 then Go (s, False)
      else Exit 2)"

partial_function (option) yylex :: "menv \<Rightarrow> mysh \<Rightarrow> mysh sh option" where
  "yylex e s =
     (case yy_scan mysh_flex my_yyinput 1 (lexer s) s 0 1 (0, 0) of
        None \<Rightarrow> None
      | Some (t, s) \<Rightarrow>
          (case t of
             Tok_fatal \<Rightarrow> Some (Exit 2)
           | Eof b \<Rightarrow> Some (Go (s\<lparr>lexer := b\<rparr>))
           | Tok act yytext b \<Rightarrow>
               (case yy_action e act yytext (s\<lparr>lexer := b\<rparr>) of
                  Exit n \<Rightarrow> Some (Exit n)
                | Crash \<Rightarrow> Some Crash
                | Go (s, done) \<Rightarrow> if done then Some (Go s) else yylex e s)))"

section \<open>The main loop\<close>

definition strcat_line :: "string \<Rightarrow> mysh \<Rightarrow> mysh sh" where
  "strcat_line x s =
     (if length (line_buf s) + length x < BUFSIZE then
        Go (s\<lparr>line_buf := line_buf s @ x, line_len := line_len s + length x\<rparr>)
      else Crash)"

definition ends_in_backslash :: "menv \<Rightarrow> string \<Rightarrow> bool" where
  "ends_in_backslash e line = ((if line = [] then me_below e else last line) = CHR 0x5C)"

definition main_line :: "menv \<Rightarrow> string \<Rightarrow> mysh \<Rightarrow> mysh sh option" where
  "main_line e line s =
     (if ends_in_backslash e line then
        Some (strcat_line (butlast line) (s\<lparr>flag_cont_line := True\<rparr>))
      else
        (case sbind (strcat_line line s) (strcat_line [NL]) of
           Exit n \<Rightarrow> Some (Exit n)
         | Crash \<Rightarrow> Some Crash
         | Go s \<Rightarrow> map_option (\<lambda>r. sbind r (\<lambda>s. Go (s\<lparr>line_buf := [], line_len := 0\<rparr>))) (yylex e s)))"

definition set_prompt :: "menv \<Rightarrow> mysh \<Rightarrow> mysh sh" where
  "set_prompt e s =
     (if flag_cont_line s then Go (s\<lparr>flag_cont_line := False, prompt := ''>''\<rparr>)
      else
        (let host = (case me_host e of None \<Rightarrow> ''unknown_host'' | Some h \<Rightarrow> h);
             cwd = (case me_cwd e of None \<Rightarrow> ''unknown_cwd'' | Some d \<Rightarrow> d)
         in case me_user e of
              None \<Rightarrow> Crash
            | Some u \<Rightarrow>
                (let p = u @ ''@'' @ host @ '':'' @ cwd @ ''$''
                 in if length p < 200 then Go (s\<lparr>prompt := p\<rparr>) else Crash)))"

definition mysh_init :: "shell \<Rightarrow> string list \<Rightarrow> mysh" where
  "mysh_init h argv =
     \<lparr>sh = h, tokens = [], lexer = new_buffer, line_buf = [], line_len = 0, flag_cont_line = False,
      ARGC = int (length argv), pos_param = map (\<lambda>i. if i < length argv then argv ! i else []) [0..<10],
      EXIT_STATUS = 0, prompt = ''>$''\<rparr>"

text \<open>The \<open>while\<close> loop of \<open>main\<close> over the results of \<open>readline\<close>; \<open>None\<close> is the end of the input.\<close>

fun main_loop :: "menv \<Rightarrow> string option list \<Rightarrow> mysh \<Rightarrow> mysh sh option" where
  "main_loop e [] s = Some (Go s)"
| "main_loop e (l # ls) s =
     (case set_prompt e s of
        Exit n \<Rightarrow> Some (Exit n)
      | Crash \<Rightarrow> Some Crash
      | Go s \<Rightarrow>
          (case l of
             None \<Rightarrow> Some (Exit 0)
           | Some line \<Rightarrow>
               (case main_line e line s of
                  None \<Rightarrow> None
                | Some (Exit n) \<Rightarrow> Some (Exit n)
                | Some Crash \<Rightarrow> Some Crash
                | Some (Go s) \<Rightarrow> main_loop e ls s)))"

section \<open>Expansion is substitution\<close>

fun subst_params :: "menv \<Rightarrow> mysh \<Rightarrow> string \<Rightarrow> string" where
  "subst_params e s [] = []"
| "subst_params e s [c] = (if c = CHR ''$'' then [] else [c])"
| "subst_params e s (c # d # cs) =
     (if c = CHR ''$'' then
        (case param e s d of Some x \<Rightarrow> x @ subst_params e s cs | None \<Rightarrow> subst_params e s (d # cs))
      else c # subst_params e s (d # cs))"

lemma expand_loop_subst:
  "expand_loop e s t b =
     (if length b + length (subst_params e s t) < TOKENSZ then Some (b @ subst_params e s t) else None)"
  by (induction t arbitrary: b rule: subst_params.induct) (auto split: option.splits)

lemma expand_subst:
  "expand e s t = (if length (subst_params e s t) < TOKENSZ then Some (subst_params e s t) else None)"
  by (simp add: expand_def expand_loop_subst)

lemma subst_params_id: "CHR ''$'' \<notin> set t \<Longrightarrow> subst_params e s t = t"
  by (induction t rule: subst_params.induct) auto

text \<open>Expansion depends on the positional parameters, their number and the exit status only.\<close>

definition same_params :: "mysh \<Rightarrow> mysh \<Rightarrow> bool" where
  "same_params s s' \<longleftrightarrow> ARGC s = ARGC s' \<and> pos_param s = pos_param s' \<and> EXIT_STATUS s = EXIT_STATUS s'"

lemma subst_params_cong: "same_params s s' \<Longrightarrow> subst_params e s t = subst_params e s' t"
proof -
  assume "same_params s s'"
  then have "param e s = param e s'" by (simp add: param_def same_params_def fun_eq_iff)
  then show ?thesis by (induction t rule: subst_params.induct) (auto split: option.splits)
qed

lemma subst_params_sh [simp]:
  "subst_params e (s\<lparr>lexer := b\<rparr>) t = subst_params e s t" "subst_params e (s\<lparr>tokens := ts\<rparr>) t = subst_params e s t"
  by (rule subst_params_cong, simp add: same_params_def)+

section \<open>The tokens of a line\<close>

text \<open>
  The reference: a line is chopped into maximal words and single other characters; blanks and
  double quotes are dropped, words are expanded.
\<close>

function chop :: "string \<Rightarrow> string list" where
  "chop [] = []"
| "chop (c # cs) =
     (if word_char c then (c # takeWhile word_char cs) # chop (dropWhile word_char cs) else [c] # chop cs)"
  by pat_completeness auto
termination
  by (relation "measure length") (auto simp: length_dropWhile_le le_imp_less_Suc)

definition significant :: "string \<Rightarrow> bool" where
  "significant w \<longleftrightarrow> word_char (hd w) \<or> rule_of (hd w) \<noteq> 8"

definition token_of :: "menv \<Rightarrow> mysh \<Rightarrow> string \<Rightarrow> string" where
  "token_of e s w = (if word_char (hd w) then subst_params e s w else w)"

definition line_tokens :: "menv \<Rightarrow> mysh \<Rightarrow> string \<Rightarrow> string list" where
  "line_tokens e s line = map (token_of e s) (filter significant (chop line))"

definition fits :: "menv \<Rightarrow> mysh \<Rightarrow> string \<Rightarrow> bool" where
  "fits e s line \<longleftrightarrow> (\<forall>w \<in> set (chop line). word_char (hd w) \<longrightarrow> length (subst_params e s w) < TOKENSZ)"

lemma length_chop: "length (chop t) \<le> length t"
  by (induction t rule: chop.induct) (auto, meson length_dropWhile_le le_trans Suc_le_mono)

lemma length_line_tokens: "length (line_tokens e s t) \<le> length t"
  unfolding line_tokens_def using length_chop [of t] length_filter_le [of significant "chop t"] by (simp del: length_filter_le)

lemma line_tokens_cong:
  assumes "same_params s s'"
  shows "line_tokens e s t = line_tokens e s' t" "fits e s t = fits e s' t"
  using subst_params_cong [OF assms] by (simp_all add: line_tokens_def token_of_def [abs_def] fits_def)

lemma line_tokens_sh [simp]:
  "line_tokens e (s\<lparr>lexer := b\<rparr>) t = line_tokens e s t" "line_tokens e (s\<lparr>tokens := ts\<rparr>) t = line_tokens e s t"
  "fits e (s\<lparr>lexer := b\<rparr>) t = fits e s t" "fits e (s\<lparr>tokens := ts\<rparr>) t = fits e s t"
  by (simp_all add: line_tokens_def token_of_def fits_def cong: map_cong)

text \<open>One step of \<open>yylex\<close>, for a scan that finds a token.\<close>

lemma yylex_token:
  assumes "yy_scan mysh_flex my_yyinput 1 (lexer s) s 0 1 (0, 0) = Some (Tok act w b, s)"
    and "yy_action e act w (s\<lparr>lexer := b\<rparr>) = Go (s', False)"
  shows "yylex e s = yylex e s'"
  by (subst yylex.simps) (simp add: assms del: One_nat_def)

lemma add_token_Go: "length (tokens s) + 1 < TOKENSZ \<Longrightarrow> add_token w s = Go (s\<lparr>tokens := tokens s @ [w]\<rparr>)"
  by (simp add: add_token_def)

lemma yy_action_word:
  assumes "length (subst_params e s w) < TOKENSZ" and "length (tokens s) + 1 < TOKENSZ"
  shows "yy_action e 6 w s = Go (s\<lparr>tokens := tokens s @ [subst_params e s w]\<rparr>, False)"
  using assms by (simp add: yy_action_def expand_subst add_token_Go)

lemma yy_action_char:
  assumes "\<not> word_char c" and "c \<noteq> NUL" and "c \<noteq> NL" and "length (tokens s) + 1 < TOKENSZ"
  shows "yy_action e (rule_of c) [c] s =
    Go (if rule_of c = 8 then s else s\<lparr>tokens := tokens s @ [[c]]\<rparr>, False)"
  using assms by (auto simp: yy_action_def rule_of_def add_token_Go)

definition run_line :: "menv \<Rightarrow> string list \<Rightarrow> mysh \<Rightarrow> mysh sh" where
  "run_line e ts s =
     sbind (do_list_cmd (me_sh e) (ts @ [[NL]]) (sh s)) (\<lambda>h. Go (s\<lparr>sh := h, tokens := [], lexer := (lexer s)\<lparr>yb := []\<rparr>\<rparr>))"

lemma run_line_sh [simp]:
  "run_line e ts (s\<lparr>tokens := us\<rparr>) = run_line e ts s" "run_line e ts (s\<lparr>lexer := (lexer s)\<lparr>yb := t\<rparr>\<rparr>) = run_line e ts s"
  by (simp_all add: run_line_def)

lemma line_tokens_Cons:
  "line_tokens e s (c # cs) =
     (if word_char c then subst_params e s (c # takeWhile word_char cs) # line_tokens e s (dropWhile word_char cs)
      else (if rule_of c = 8 then [] else [[c]]) @ line_tokens e s cs)"
  by (simp add: line_tokens_def significant_def token_of_def)

lemma yylex_word:
  assumes "word_char c" and "list_all word_char us" and "\<not> word_char d" and "d \<noteq> NUL"
    and "yb (lexer s) = (c # us) @ d # bs"
    and "length (subst_params e s (c # us)) < TOKENSZ" and "length (tokens s) + 1 < TOKENSZ"
  shows "yylex e s = yylex e (s\<lparr>lexer := (lexer s)\<lparr>yb := d # bs\<rparr>, tokens := tokens s @ [subst_params e s (c # us)]\<rparr>)"
  using assms by (intro yylex_token [OF mysh_scan.next_word [OF assms(1-5)]]) (simp add: yy_action_word)

lemma yylex_char:
  assumes "\<not> word_char c" and "c \<noteq> NUL" and "c \<noteq> NL" and "yb (lexer s) = c # bs" and "length (tokens s) + 1 < TOKENSZ"
  shows "yylex e s = yylex e (s\<lparr>lexer := (lexer s)\<lparr>yb := bs\<rparr>,
    tokens := tokens s @ (if rule_of c = 8 then [] else [[c]])\<rparr>)"
  using assms by (intro yylex_token [OF mysh_scan.next_single [OF assms(1,2,4)]]) (simp add: yy_action_char)

lemma yylex_newline:
  assumes "yb (lexer s) = [NL]" and "length (tokens s) + 1 < TOKENSZ"
  shows "yylex e s = Some (run_line e (tokens s) s)"
proof -
  have scan: "yy_scan mysh_flex my_yyinput 1 (lexer s) s 0 1 (0, 0) = Some (Tok 7 [NL] ((lexer s)\<lparr>yb := []\<rparr>), s)"
    using mysh_scan.next_single [of NL "lexer s" "[]"] assms(1) by (simp add: word_char_def rule_of_def)
  have act: "yy_action e 7 [NL] (s\<lparr>lexer := (lexer s)\<lparr>yb := []\<rparr>\<rparr>) =
      sbind (do_list_cmd (me_sh e) (tokens s @ [[NL]]) (sh s))
        (\<lambda>h. Go (s\<lparr>lexer := (lexer s)\<lparr>yb := []\<rparr>, sh := h, tokens := []\<rparr>, True))"
    using assms(2) by (simp add: yy_action_def add_token_Go)
  show ?thesis
    by (subst yylex.simps, cases "do_list_cmd (me_sh e) (tokens s @ [[NL]]) (sh s)")
      (simp_all add: scan act run_line_def del: One_nat_def)
qed

lemma rest_starts_outside:
  assumes "NUL \<notin> set cs"
  shows "\<exists>d ds. dropWhile word_char cs @ [NL] = d # ds \<and> \<not> word_char d \<and> d \<noteq> NUL"
proof (cases "dropWhile word_char cs")
  case Nil
  then show ?thesis by (intro exI [of _ NL] exI [of _ "[]"]) (simp add: word_char_def)
next
  case (Cons d ds)
  then have "\<not> word_char d" using hd_dropWhile [of word_char cs] by auto
  moreover have "d \<in> set cs" using Cons set_dropWhileD [of d word_char cs] by simp
  ultimately show ?thesis using assms Cons by auto
qed

lemma yylex_line:
  assumes "yb (lexer s) = line @ [NL]" and "NUL \<notin> set line" and "NL \<notin> set line" and "fits e s line"
    and "length (tokens s) + length line + 1 < TOKENSZ"
  shows "yylex e s = Some (run_line e (tokens s @ line_tokens e s line) s)"
  using assms
proof (induction line arbitrary: s rule: chop.induct)
  case 1
  then show ?case by (simp add: yylex_newline line_tokens_def)
next
  case (2 c cs)
  show ?case
  proof (cases "word_char c")
    case True
    define us r where "us = takeWhile word_char cs" and "r = dropWhile word_char cs"
    have cs: "cs = us @ r" by (simp add: us_def r_def)
    obtain d ds where d: "r @ [NL] = d # ds" "\<not> word_char d" "d \<noteq> NUL"
      using rest_starts_outside [of cs] 2(4) by (auto simp: r_def)
    have f: "length (subst_params e s (c # us)) < TOKENSZ" "fits e s r"
      using 2(6) True by (auto simp: fits_def us_def r_def)
    have lt: "line_tokens e s (c # cs) = subst_params e s (c # us) # line_tokens e s r"
      using True by (simp add: line_tokens_Cons us_def r_def)
    define s' where "s' = s\<lparr>lexer := (lexer s)\<lparr>yb := d # ds\<rparr>, tokens := tokens s @ [subst_params e s (c # us)]\<rparr>"
    have us: "list_all word_char us" by (auto simp: us_def list_all_iff dest: set_takeWhileD)
    have yb: "yb (lexer s) = (c # us) @ d # ds" using 2(3) d(1) by (simp add: cs)
    have "yylex e s = yylex e s'"
      unfolding s'_def using 2(7) by (intro yylex_word [OF True us d(2,3) yb f(1)]) simp
    also have "\<dots> = Some (run_line e (tokens s' @ line_tokens e s' r) s')"
    proof (rule 2(1) [OF True, folded r_def])
      show "yb (lexer s') = r @ [NL]" by (simp add: s'_def d(1))
      show "NUL \<notin> set r" "NL \<notin> set r" using 2(4,5) by (auto simp: cs)
      show "fits e s' r" using f(2) by (simp add: s'_def)
      show "length (tokens s') + length r + 1 < TOKENSZ" using 2(7) by (simp add: s'_def cs)
    qed
    also have "run_line e (tokens s' @ line_tokens e s' r) s' = run_line e (tokens s @ line_tokens e s (c # cs)) s"
      by (simp add: s'_def lt)
    finally show ?thesis .
  next
    case False
    have f: "fits e s cs" using 2(6) False by (simp add: fits_def)
    have "yylex e s = yylex e (s\<lparr>lexer := (lexer s)\<lparr>yb := cs @ [NL]\<rparr>,
        tokens := tokens s @ (if rule_of c = 8 then [] else [[c]])\<rparr>)"
      using 2(3-7) False by (intro yylex_char) auto
    also have "\<dots> = Some (run_line e (tokens s @ line_tokens e s (c # cs)) s)"
      using 2(4-7) f False by (subst 2(2)) (auto simp: line_tokens_Cons)
    finally show ?thesis .
  qed
qed

text \<open>The scanner starts every line with an empty buffer and reads \<open>line_buf\<close> into it.\<close>

lemma scan_start:
  assumes "yb b = line @ [NL]" and "NUL \<notin> set line"
  shows "\<exists>act w b'. \<forall>i la. yy_scan mysh_flex inp 1 b i 0 1 la = Some (Tok act w b', i)"
proof (cases line)
  case Nil
  have "\<not> word_char NL" "NL \<noteq> NUL" by (simp_all add: word_char_def)
  from mysh_scan.next_single [OF this, of b "[]"] assms(1) Nil show ?thesis by (metis append_Nil)
next
  case (Cons c cs)
  show ?thesis
  proof (cases "word_char c")
    case True
    obtain d ds where d: "dropWhile word_char cs @ [NL] = d # ds" "\<not> word_char d" "d \<noteq> NUL"
      using rest_starts_outside [of cs] assms(2) Cons by auto
    have us: "list_all word_char (takeWhile word_char cs)" by (auto simp: list_all_iff dest: set_takeWhileD)
    have "yb b = (c # takeWhile word_char cs) @ d # ds"
      using assms(1) Cons d(1) by (metis append_Cons append_assoc takeWhile_dropWhile_id)
    from mysh_scan.next_word [OF True us d(2,3) this] show ?thesis by metis
  next
    case False
    have "c \<noteq> NUL" "yb b = c # cs @ [NL]" using assms Cons by auto
    from mysh_scan.next_single [OF False this] show ?thesis by metis
  qed
qed

lemma yylex_refill:
  assumes "lexer s = new_buffer" and "line_buf s = line @ [NL]" and "NUL \<notin> set line"
    and "line_len s = length (line_buf s)" and "line_len s < YY_READ_BUF_SIZE"
  shows "yylex e s = yylex e (s\<lparr>lexer := new_buffer\<lparr>yb := line_buf s\<rparr>\<rparr>)"
proof -
  let ?b = "new_buffer\<lparr>yb := line_buf s\<rparr>"
  have inp: "my_yyinput (min YY_READ_BUF_SIZE (yb_size new_buffer - 1)) s = ((int (line_len s), line_buf s), s)"
    using assms(5) by (simp add: my_yyinput_def new_buffer_def YY_BUF_SIZE_def YY_READ_BUF_SIZE_def)
  obtain act w b' where t: "yy_scan mysh_flex my_yyinput 1 ?b i 0 1 la = Some (Tok act w b', i)" for i la
    using scan_start [of ?b line my_yyinput] assms(2,3) by auto
  obtain la where "yy_scan mysh_flex my_yyinput 1 new_buffer s 0 1 (0, 0) =
      yy_scan mysh_flex my_yyinput 1 (new_buffer\<lparr>yb := take (nat (int (line_len s))) (line_buf s)\<rparr>) s 0 1 la"
    using mysh_scan.next_refill [where b = new_buffer and inp = my_yyinput and i = s, OF _ _ _ inp, of "(0, 0)"] assms(2,4)
    by (auto simp: new_buffer_def YY_BUF_SIZE_def simp del: One_nat_def)
  then have "yy_scan mysh_flex my_yyinput 1 new_buffer s 0 1 (0, 0) = Some (Tok act w b', s)"
    using t [of s la] assms(4) by (simp del: One_nat_def)
  then show ?thesis
    by (subst (1 2) yylex.simps) (simp add: assms(1) t del: One_nat_def)
qed

section \<open>One line of input\<close>

definition between_lines :: "mysh \<Rightarrow> string \<Rightarrow> bool" where
  "between_lines s p \<longleftrightarrow>
     tokens s = [] \<and> lexer s = new_buffer \<and> line_buf s = p \<and> line_len s = length p \<and> length p < BUFSIZE"

lemma chop_subset: "w \<in> set (chop t) \<Longrightarrow> set w \<subseteq> set t"
  by (induction t rule: chop.induct) (auto split: if_splits dest: set_takeWhileD set_dropWhileD)

lemma chop_short: "w \<in> set (chop t) \<Longrightarrow> length w \<le> length t"
proof (induction t rule: chop.induct)
  case (2 c cs)
  then show ?case
    using length_dropWhile_le [of word_char cs] length_takeWhile_le [of word_char cs]
    by (fastforce split: if_splits)
qed simp

lemma fits_plain: "CHR ''$'' \<notin> set t \<Longrightarrow> length t < TOKENSZ \<Longrightarrow> fits e s t"
  using chop_subset chop_short unfolding fits_def
  by (metis le_trans not_le order_less_le subset_code(1) subst_params_id)

lemma strcat_line_Go:
  "length (line_buf s) + length x < BUFSIZE \<Longrightarrow>
   strcat_line x s = Go (s\<lparr>line_buf := line_buf s @ x, line_len := line_len s + length x\<rparr>)"
  by (simp add: strcat_line_def)

definition line_done :: "shell sh \<Rightarrow> mysh \<Rightarrow> mysh sh" where
  "line_done r s = sbind r (\<lambda>h. Go (s\<lparr>sh := h, line_buf := [], line_len := 0\<rparr>))"

lemma main_line_run:
  assumes "between_lines s p" and "\<not> ends_in_backslash e line" and "NUL \<notin> set (p @ line)" and "NL \<notin> set (p @ line)"
    and "fits e s (p @ line)" and "length p + length line + 1 < BUFSIZE"
  shows "main_line e line s = Some (line_done (do_list_cmd (me_sh e) (line_tokens e s (p @ line) @ [[NL]]) (sh s)) s)"
proof -
  define s1 where "s1 = s\<lparr>line_buf := (p @ line) @ [NL], line_len := length ((p @ line) @ [NL])\<rparr>"
  have s1: "sbind (strcat_line line s) (strcat_line [NL]) = Go s1"
    using assms(1,6) by (simp add: between_lines_def strcat_line_Go s1_def)
  have toks: "line_tokens e (s1\<lparr>lexer := b\<rparr>) t = line_tokens e s t" "fits e (s1\<lparr>lexer := b\<rparr>) t = fits e s t" for b t
    by (rule line_tokens_cong; simp add: same_params_def s1_def)+
  have "yylex e s1 = yylex e (s1\<lparr>lexer := new_buffer\<lparr>yb := line_buf s1\<rparr>\<rparr>)"
    using assms(1,3,6) by (intro yylex_refill [of _ "p @ line"])
      (auto simp: s1_def between_lines_def BUFSIZE_def YY_READ_BUF_SIZE_def)
  also have "\<dots> = Some (run_line e (line_tokens e s (p @ line)) (s1\<lparr>lexer := new_buffer\<lparr>yb := line_buf s1\<rparr>\<rparr>))"
    using assms(1,3-6) yylex_line [of "s1\<lparr>lexer := new_buffer\<lparr>yb := line_buf s1\<rparr>\<rparr>" "p @ line" e]
    by (simp add: toks del: line_tokens_sh) (simp add: s1_def between_lines_def BUFSIZE_def TOKENSZ_def)
  finally have "yylex e s1 = \<dots>" .
  moreover have "s1\<lparr>tokens := [], lexer := new_buffer\<rparr> = s1" using assms(1) by (simp add: s1_def between_lines_def)
  ultimately show ?thesis
    using assms(1,2)
    by (cases "do_list_cmd (me_sh e) (line_tokens e s (p @ line) @ [[NL]]) (sh s)")
      (simp_all add: main_line_def s1 run_line_def line_done_def between_lines_def, simp_all add: s1_def new_buffer_def)
qed

definition prompt_fits :: "menv \<Rightarrow> bool" where
  "prompt_fits e \<longleftrightarrow>
     (\<exists>u h d. me_user e = Some u \<and> me_host e = Some h \<and> me_cwd e = Some d \<and>
        length u + length h + length d < 197)"

lemma set_prompt_Go:
  assumes "prompt_fits e"
  shows "\<exists>q. set_prompt e s = Go (s\<lparr>flag_cont_line := False, prompt := q\<rparr>)"
proof (cases "flag_cont_line s")
  case True
  then show ?thesis by (simp add: set_prompt_def) blast
next
  case False
  with assms show ?thesis
    by (cases s) (auto simp: set_prompt_def prompt_fits_def Let_def)
qed

text \<open>A line with a backslash at its end is put aside.\<close>

lemma main_line_continued:
  assumes "between_lines s p" and "length p + length l < BUFSIZE"
  shows "\<exists>s'. main_line e (l @ [CHR 0x5C]) s = Some (Go s') \<and> between_lines s' (p @ l) \<and> sh s' = sh s \<and> same_params s' s"
  using assms by (simp add: main_line_def ends_in_backslash_def between_lines_def strcat_line_def same_params_def)

lemma main_loop_continued:
  assumes "between_lines s p" and "prompt_fits e" and "length p + length (concat ls) < BUFSIZE"
  shows "\<exists>s'. main_loop e (map (\<lambda>l. Some (l @ [CHR 0x5C])) ls @ rest) s = main_loop e rest s' \<and>
    between_lines s' (p @ concat ls) \<and> sh s' = sh s \<and> same_params s' s"
  using assms(1,3)
proof (induction ls arbitrary: s p)
  case Nil
  then show ?case by (auto simp: same_params_def intro!: exI [of _ s])
next
  case (Cons l ls)
  obtain q where q: "set_prompt e s = Go (s\<lparr>flag_cont_line := False, prompt := q\<rparr>)"
    using set_prompt_Go [OF assms(2)] by blast
  have "between_lines (s\<lparr>flag_cont_line := False, prompt := q\<rparr>) p" using Cons.prems by (simp add: between_lines_def)
  from main_line_continued [OF this, of l e] Cons.prems obtain s1 where
    s1: "main_line e (l @ [CHR 0x5C]) (s\<lparr>flag_cont_line := False, prompt := q\<rparr>) = Some (Go s1)"
    "between_lines s1 (p @ l)" "sh s1 = sh s" "same_params s1 s"
    by (auto simp: same_params_def)
  from Cons.IH [OF s1(2)] Cons.prems(2) s1(3,4) q s1(1) show ?case
    by (auto simp: same_params_def)
qed

text \<open>
  C6: a command typed on one or several lines, all but the last ending in a backslash, is executed
  as the single command line their concatenation is: it is cut into the tokens of the reference
  tokeniser, parameters substituted, and handed to \<open>do_list_cmd\<close>; afterwards the shell is ready for
  the next line. This needs the text to fit into the 128 bytes of \<open>line_buf\<close> and every expanded word
  into 200; then neither the token array nor the scanner's buffer can overflow.
\<close>

theorem mysh_lines:
  assumes "between_lines s []" and "prompt_fits e" and "\<not> ends_in_backslash e line"
    and "text = concat ls @ line" and "NUL \<notin> set text" and "NL \<notin> set text"
    and "length text + 1 < BUFSIZE" and "fits e s text"
  shows "case do_list_cmd (me_sh e) (line_tokens e s text @ [[NL]]) (sh s) of
      Go h \<Rightarrow> \<exists>s'. main_loop e (map (\<lambda>l. Some (l @ [CHR 0x5C])) ls @ [Some line]) s = Some (Go s') \<and>
        sh s' = h \<and> between_lines s' [] \<and> same_params s' s
    | Exit n \<Rightarrow> main_loop e (map (\<lambda>l. Some (l @ [CHR 0x5C])) ls @ [Some line]) s = Some (Exit n)
    | Crash \<Rightarrow> main_loop e (map (\<lambda>l. Some (l @ [CHR 0x5C])) ls @ [Some line]) s = Some Crash"
proof -
  obtain s1 where s1: "main_loop e (map (\<lambda>l. Some (l @ [CHR 0x5C])) ls @ [Some line]) s = main_loop e [Some line] s1"
    "between_lines s1 (concat ls)" "sh s1 = sh s" "same_params s1 s"
    using main_loop_continued [OF assms(1,2), of ls "[Some line]"] assms(4,7) by auto
  obtain q where q: "set_prompt e s1 = Go (s1\<lparr>flag_cont_line := False, prompt := q\<rparr>)"
    using set_prompt_Go [OF assms(2)] by blast
  define s2 where "s2 = s1\<lparr>flag_cont_line := False, prompt := q\<rparr>"
  have s2: "between_lines s2 (concat ls)" "same_params s2 s" "sh s2 = sh s"
    using s1(2-4) by (simp_all add: s2_def between_lines_def same_params_def)
  note lt = line_tokens_cong [OF s2(2)]
  have "main_line e line s2 = Some (line_done (do_list_cmd (me_sh e) (line_tokens e s text @ [[NL]]) (sh s)) s2)"
    using main_line_run [OF s2(1) assms(3)] assms(4-8) s2(3) lt by simp
  then have "main_loop e [Some line] s1 =
      (case line_done (do_list_cmd (me_sh e) (line_tokens e s text @ [[NL]]) (sh s)) s2 of
         Exit n \<Rightarrow> Some (Exit n) | Crash \<Rightarrow> Some Crash | Go s \<Rightarrow> Some (Go s))"
    using q by (simp add: s2_def cong: sh.case_cong)
  with s1(1) s2 show ?thesis
    by (auto simp: line_done_def between_lines_def same_params_def BUFSIZE_def split: sh.splits)
qed

definition student :: menv where
  "student = \<lparr>me_sh = willing 8, me_pid = 42, me_user = Some ''yj'', me_host = Some ''lab'', me_cwd = Some ''/home/yj'',
     me_below = NUL\<rparr>"

theorem mysh_lines_witness:
  "\<exists>s'. main_loop student [Some (''echo a; ec'' @ [CHR 0x5C]), Some ''ho $$''] (mysh_init terminal_shell [''mysh'']) = Some (Go s') \<and>
    log (sh s') = [E_out (Some Term) (''a '' @ [NL]), E_out (Some Term) (''42 '' @ [NL])]"
proof -
  let ?s = "mysh_init terminal_shell [''mysh'']"
  have "between_lines ?s []" by (simp add: between_lines_def mysh_init_def BUFSIZE_def)
  moreover have "prompt_fits student" by (simp add: prompt_fits_def student_def)
  moreover have toks: "line_tokens student ?s ''echo a; echo $$'' = [''echo'', ''a'', '';'', ''echo'', ''42'']" by code_simp
  moreover have "fits student ?s ''echo a; echo $$''" by code_simp
  moreover have "do_list_cmd (me_sh student) [''echo'', ''a'', '';'', ''echo'', ''42'', [NL]] terminal_shell =
      Go (terminal_shell\<lparr>log := [E_out (Some Term) (''a '' @ [NL]), E_out (Some Term) (''42 '' @ [NL])]\<rparr>)"
    by (simp add: do_list_cmd_def do_pipe_cmd_def do_simple_cmd_def get_cmd_handle_def buildin_cmd_table_def
        simple_builtin_def join_input_def join_output_def student_def willing_def do_echo_def log_events_def terminal_shell_def)
  ultimately show ?thesis
    using mysh_lines [of ?s student "''ho $$''" "''echo a; echo $$''" "[''echo a; ec'']"]
    by (auto simp: BUFSIZE_def ends_in_backslash_def mysh_init_def)
qed

text \<open>
  What a word expands to, stated without the loop: \<open>pid\<close> is the shell's process number, \<open>argv\<close> its
  arguments, \<open>st\<close> the exit status; \<open>u\<close> is the part before the first dollar sign.
\<close>

inductive expansion :: "int \<Rightarrow> string list \<Rightarrow> int \<Rightarrow> string \<Rightarrow> string \<Rightarrow> bool"
  for pid :: int and argv :: "string list" and st :: int where
  ex_plain: "CHR ''$'' \<notin> set u \<Longrightarrow> expansion pid argv st u u"
| ex_pid: "CHR ''$'' \<notin> set u \<Longrightarrow> expansion pid argv st v x \<Longrightarrow>
    expansion pid argv st (u @ ''$$'' @ v) (u @ dec pid @ x)"
| ex_arg: "CHR ''$'' \<notin> set u \<Longrightarrow> expansion pid argv st v x \<Longrightarrow> n < 10 \<Longrightarrow>
    expansion pid argv st (u @ [CHR ''$'', char_of (48 + n :: nat)] @ v)
      (u @ (if n < length argv then argv ! n else []) @ x)"
| ex_count: "CHR ''$'' \<notin> set u \<Longrightarrow> expansion pid argv st v x \<Longrightarrow>
    expansion pid argv st (u @ ''$#'' @ v) (u @ dec (int (length argv)) @ x)"
| ex_status: "CHR ''$'' \<notin> set u \<Longrightarrow> expansion pid argv st v x \<Longrightarrow>
    expansion pid argv st (u @ ''$?'' @ v) (u @ dec st @ x)"
| ex_other: "CHR ''$'' \<notin> set u \<Longrightarrow> expansion pid argv st (d # v) x \<Longrightarrow> d \<notin> set ''$#?0123456789'' \<Longrightarrow>
    expansion pid argv st (u @ CHR ''$'' # d # v) (u @ x)"
| ex_last: "CHR ''$'' \<notin> set u \<Longrightarrow> expansion pid argv st (u @ ''$'') u"

lemma digit_char:
  "is_digit d \<longleftrightarrow> (\<exists>n < 10. d = char_of (48 + n :: nat))"
proof
  assume "is_digit d"
  then have "48 + (of_char d - 48) = (of_char d :: nat)" "of_char d - 48 < (10 :: nat)"
    by (auto simp: is_digit_def)
  then show "\<exists>n < 10. d = char_of (48 + n :: nat)"
    by (intro exI [of _ "of_char d - 48"]) (metis char_of_char)
qed (auto simp: is_digit_char_of)

lemma digit_chars: "is_digit d \<longleftrightarrow> d \<in> set ''0123456789''"
proof -
  have "map (\<lambda>n. char_of (48 + n :: nat)) [0..<10] = ''0123456789''" by code_simp
  then have "set ''0123456789'' = (\<lambda>n. char_of (48 + n :: nat)) ` {0..<10}"
    by (metis set_map set_upt)
  then show ?thesis unfolding digit_char by (simp only: image_iff Bex_def atLeastLessThan_iff) blast
qed

lemma subst_params_append:
  "CHR ''$'' \<notin> set u \<Longrightarrow> subst_params e s (u @ v) = u @ subst_params e s v"
proof (induction u)
  case (Cons c u)
  then show ?case by (cases "u @ v") auto
qed simp

definition started_with :: "string list \<Rightarrow> int \<Rightarrow> mysh \<Rightarrow> bool" where
  "started_with argv st s \<longleftrightarrow> (\<exists>h. same_params s ((mysh_init h argv)\<lparr>EXIT_STATUS := st\<rparr>))"

lemma param_values:
  assumes "started_with argv st s"
  shows "param e s (CHR ''$'') = Some (dec (me_pid e))"
    and "param e s (CHR ''#'') = Some (dec (int (length argv)))"
    and "param e s (CHR ''?'') = Some (dec st)"
    and "n < 10 \<Longrightarrow> param e s (char_of (48 + n :: nat)) = Some (if n < length argv then argv ! n else [])"
    and "d \<notin> set ''$#?0123456789'' \<Longrightarrow> param e s d = None"
proof -
  have s: "ARGC s = int (length argv)" "EXIT_STATUS s = st"
    "pos_param s = map (\<lambda>i. if i < length argv then argv ! i else []) [0..<10]"
    using assms by (auto simp: started_with_def same_params_def mysh_init_def)
  show "param e s (CHR ''$'') = Some (dec (me_pid e))"
    and "param e s (CHR ''#'') = Some (dec (int (length argv)))"
    and "param e s (CHR ''?'') = Some (dec st)"
    by (simp_all add: param_def is_digit_def s)
  show "param e s d = None" if "d \<notin> set ''$#?0123456789''"
    using that digit_chars [of d] by (simp add: param_def)
  show "param e s (char_of (48 + n :: nat)) = Some (if n < length argv then argv ! n else [])" if "n < 10"
  proof -
    have "\<not> is_digit (CHR ''$'')" by (simp add: is_digit_def)
    then have "char_of (48 + n :: nat) \<noteq> CHR ''$''" using is_digit_char_of [OF that] by metis
    then show ?thesis using that by (simp add: param_def is_digit_char_of of_char_digit s)
  qed
qed

lemma expansion_subst:
  assumes "started_with argv st s" and "expansion (me_pid e) argv st t x"
  shows "subst_params e s t = x"
  using assms(2)
proof (induction rule: expansion.induct)
  case (ex_plain u)
  then show ?case by (rule subst_params_id)
next
  case (ex_last u)
  then show ?case by (simp add: subst_params_append)
qed (simp_all add: subst_params_append param_values [OF assms(1)])

lemma expansion_exists: "\<exists>x. expansion pid argv st t x"
proof (induction "length t" arbitrary: t rule: less_induct)
  case less
  let ?u = "takeWhile (\<lambda>c. c \<noteq> CHR ''$'') t"
  have u: "CHR ''$'' \<notin> set ?u" by (auto dest: set_takeWhileD)
  note t = takeWhile_dropWhile_id [of "\<lambda>c. c \<noteq> CHR ''$''" t]
  show ?case
  proof (cases "dropWhile (\<lambda>c. c \<noteq> CHR ''$'') t")
    case Nil
    then have "t = ?u" using t by (metis append_Nil2)
    then show ?thesis using ex_plain [OF u] by metis
  next
    case (Cons c r)
    then have c: "c = CHR ''$''" using hd_dropWhile [of "\<lambda>c. c \<noteq> CHR ''$''" t] by simp
    show ?thesis
    proof (cases r)
      case Nil
      then have "t = ?u @ ''$''" using t Cons c by simp
      then show ?thesis using ex_last [OF u] by metis
    next
      case (Cons d v)
      then have tt: "t = ?u @ CHR ''$'' # d # v" using t c \<open>dropWhile _ t = c # r\<close> by simp
      have "length (w @ CHR ''$'' # d # v) = length w + length v + 2" for w by simp
      then have "length v < length t \<and> length (d # v) < length t" using tt
        by (metis add_2_eq_Suc' add_Suc_right le_add2 length_Cons less_Suc_eq_le less_SucI)
      then obtain x y where x: "expansion pid argv st v x" and y: "expansion pid argv st (d # v) y"
        using less [of v] less [of "d # v"] by auto
      consider "d = CHR ''$''" | n where "n < 10" "d = char_of (48 + n :: nat)" | "d = CHR ''#''"
        | "d = CHR ''?''" | "d \<notin> set ''$#?0123456789''"
        using digit_chars [of d] digit_char [of d] by auto
      then show ?thesis
      proof cases
        case 1
        then show ?thesis using ex_pid [OF u x] tt by auto
      next
        case (2 n)
        then show ?thesis using ex_arg [OF u x 2(1)] tt by auto
      next
        case 3
        then show ?thesis using ex_count [OF u x] tt by auto
      next
        case 4
        then show ?thesis using ex_status [OF u x] tt by auto
      next
        case 5
        then show ?thesis using ex_other [OF u y] tt by auto
      qed
    qed
  qed
qed

text \<open>
  C17: in a shell started with the arguments \<open>argv\<close> and with the exit status \<open>st\<close>, every word has one
  expansion: \<open>$$\<close> stands for the process number, \<open>$0\<close> to \<open>$9\<close> for the argument of that position (nothing
  when there are fewer), \<open>$#\<close> for the number of arguments including the shell's name, \<open>$?\<close> for the
  exit status, and any other dollar sign is dropped, its character being read again; the rest is
  copied. \<open>expand\<close> returns it if it fits into the buffer of 200 bytes with its terminating zero, and
  writes past the buffer exactly when it does not fit.
\<close>

theorem expand_exact:
  assumes "started_with argv st s"
  shows "\<exists>x. expansion (me_pid e) argv st t x \<and> (\<forall>y. expansion (me_pid e) argv st t y \<longrightarrow> y = x) \<and>
    expand e s t = (if length x < TOKENSZ then Some x else None)"
proof -
  obtain x where x: "expansion (me_pid e) argv st t x" using expansion_exists by blast
  then show ?thesis using expansion_subst [OF assms] expand_subst [of e s t] by metis
qed

theorem expand_exact_witness:
  "started_with [''mysh'', ''x''] 0 (mysh_init terminal_shell [''mysh'', ''x'']) \<and>
   expand student (mysh_init terminal_shell [''mysh'', ''x'']) ''a$1'' = Some ''ax''"
proof -
  let ?s = "mysh_init terminal_shell [''mysh'', ''x'']"
  have st: "started_with [''mysh'', ''x''] 0 ?s"
    unfolding started_with_def
    by (rule exI [of _ terminal_shell]) (simp add: same_params_def mysh_init_def)
  have "expansion (me_pid student) [''mysh'', ''x''] 0 (''a'' @ [CHR ''$'', char_of (48 + 1 :: nat)] @ [])
      (''a'' @ (if 1 < length [''mysh'', ''x''] then [''mysh'', ''x''] ! 1 else []) @ [])"
    by (intro ex_arg ex_plain) simp_all
  moreover have "char_of (48 + 1 :: nat) = CHR ''1''" by code_simp
  ultimately have ex: "expansion (me_pid student) [''mysh'', ''x''] 0 ''a$1'' ''ax''" by simp
  obtain x where "\<forall>y. expansion (me_pid student) [''mysh'', ''x''] 0 ''a$1'' y \<longrightarrow> y = x"
    "expand student ?s ''a$1'' = (if length x < TOKENSZ then Some x else None)"
    using expand_exact [OF st, of student "''a$1''"] by blast
  then show ?thesis using ex st by (auto simp: TOKENSZ_def)
qed

text \<open>
  Four defects of the executing half. A pipeline that ends in a bar crashes the shell, since
  \<open>get_cmd_handle\<close> is called with a null pointer. A built-in command in a pipeline runs in the shell
  itself and leaves the shell's own standard output connected to the pipe, whose write end the next
  command inherits as its output, so that it never sees the end of its input. A redirection of a
  built-in command from a file that cannot be opened ends the shell. And an argument that is longer than
  a pointer overflows the block \<open>scan_redirect\<close> copies it into.
\<close>

theorem mysh_defects:
  "do_list_cmd (willing 8) [''ls'', ''|'', [NL]] terminal_shell = Crash \<and>
   (\<exists>s'. do_list_cmd (willing 8) [''echo'', ''x'', ''|'', ''cat'', [NL]] terminal_shell = Go s' \<and>
      fds s' = [0 \<mapsto> Term, 1 \<mapsto> Pipe_w 0, 2 \<mapsto> Term] \<and>
      log s' = [E_perror ''DUP postfd1'', E_out (Some (Pipe_w 0)) (''x '' @ [NL]),
        E_fork 0 (Exec [''cat''] [0 \<mapsto> Pipe_r 0, 1 \<mapsto> Pipe_w 0, 2 \<mapsto> Term] []), E_wait 0]) \<and>
   do_list_cmd ((willing 8)\<lparr>se_read := \<lambda>_. False\<rparr>) [''cd'', ''<'', ''x'', [NL]] terminal_shell = Exit (- 1) \<and>
   exec_cmd (willing 4) [''emacs''] t ms = Child_crash"
proof (intro conjI)
  note defs = do_list_cmd_def do_pipe_cmd_def do_simple_cmd_def get_cmd_handle_def buildin_cmd_table_def
    simple_builtin_def willing_def
  show "do_list_cmd (willing 8) [''ls'', ''|'', [NL]] terminal_shell = Crash"
    by (simp add: defs new_pipe_def Let_def split: option.splits)
  have p: "mk_pipe 0 (fds terminal_shell) = Some ((fds terminal_shell)(3 \<mapsto> Pipe_r 0, 4 \<mapsto> Pipe_w 0), 3, 4)"
  proof -
    have "free_fd [0 \<mapsto> Term, 1 \<mapsto> Term, 2 \<mapsto> Term] = Some 3"
      "free_fd [0 \<mapsto> Term, 1 \<mapsto> Term, 2 \<mapsto> Term, 3 \<mapsto> Pipe_r 0] = Some 4"
      by (auto intro!: free_fd_least simp: OPEN_MAX_def numeral_eq_Suc less_Suc_eq)
    then show ?thesis by (simp add: mk_pipe_def terminal_shell_def del: One_nat_def)
  qed
  show "\<exists>s'. do_list_cmd (willing 8) [''echo'', ''x'', ''|'', ''cat'', [NL]] terminal_shell = Go s' \<and>
      fds s' = [0 \<mapsto> Term, 1 \<mapsto> Pipe_w 0, 2 \<mapsto> Term] \<and>
      log s' = [E_perror ''DUP postfd1'', E_out (Some (Pipe_w 0)) (''x '' @ [NL]),
        E_fork 0 (Exec [''cat''] [0 \<mapsto> Pipe_r 0, 1 \<mapsto> Pipe_w 0, 2 \<mapsto> Term] []), E_wait 0]"
    using p
    by (simp add: defs new_pipe_def do_echo_def join_input_def join_output_def dup2_def close_fd_def log_events_def
        simple_child_def exec_cmd_def close_read_end_def close_write_end_def)
      (simp add: defs terminal_shell_def simple_child_def exec_cmd_def join_input_def join_output_def dup2_def close_fd_def
        close_read_end_def close_write_end_def log_events_def fun_eq_iff)
  show "do_list_cmd ((willing 8)\<lparr>se_read := \<lambda>_. False\<rparr>) [''cd'', ''<'', ''x'', [NL]] terminal_shell = Exit (- 1)"
    by (simp add: defs join_input_def join_output_def reopen_def)
  show "exec_cmd (willing 4) [''emacs''] t ms = Child_crash"
    by (simp add: exec_cmd_def willing_def)
qed

end
