(* ===== verification/LexEngine.thy ===== *)
theory LexEngine
  imports FlexScanner
begin

text \<open>
  The scanner of \<open>src/2/xyshell-read-only/study/msh/lex.yy.c\<close> as it works on its character array: pointers into the array, the zero byte put behind
  a token and the character held for it, the last accepting position, the copying and growing in \<open>yy_get_next_buffer\<close>, and the
  labels its code jumps between. \<open>FlexScanner\<close> describes the same engine over lists of characters; \<open>LexRefine\<close> shows that the
  array code refines it. A pointer into the array is an index. An access outside the array is \<open>Crash\<close>, \<open>YY_FATAL_ERROR\<close> is \<open>Exit 2\<close>, a
  loop that does not end is \<open>None\<close>.
\<close>

section \<open>State\<close>

text \<open>
  The current buffer and the variables of the scanner; \<open>buf_chars\<close> is the field \<open>yy_n_chars\<close> of the buffer, \<open>chars\<close> the variable
  of that name. \<open>room\<close> is the largest block \<open>yyrealloc\<close> can return, \<open>junk\<close> what is in the new part of a block.
  \<open>yywrap\<close> is what the function of that name answers; the one of the library the shell is linked with says yes.
\<close>

record lexb =
  ch_buf :: string
  buf_size :: nat
  buf_chars :: int
  status :: nat
  fill :: bool
  ours :: bool
  c_buf_p :: nat
  text_ptr :: nat
  chars :: nat
  hold :: char
  acc_state :: nat
  acc_cpos :: nat

record lexenv =
  room :: nat
  junk :: "nat \<Rightarrow> char"
  yywrap :: bool

definition YY_BUFFER_NEW :: nat where "YY_BUFFER_NEW = 0"
definition YY_BUFFER_NORMAL :: nat where "YY_BUFFER_NORMAL = 1"
definition YY_BUFFER_EOF_PENDING :: nat where "YY_BUFFER_EOF_PENDING = 2"

datatype eob_act = EOB_ACT_CONTINUE_SCAN | EOB_ACT_END_OF_FILE | EOB_ACT_LAST_MATCH

definition put_char :: "nat \<Rightarrow> char \<Rightarrow> lexb \<Rightarrow> lexb sh" where
  "put_char p c l = (if p < length (ch_buf l) then Go (l\<lparr>ch_buf := (ch_buf l)[p := c]\<rparr>) else Crash)"

definition note_accept :: "flex \<Rightarrow> nat \<Rightarrow> nat \<Rightarrow> lexb \<Rightarrow> lexb" where
  "note_accept T st cp l = (if ft_accept T ! st \<noteq> 0 then l\<lparr>acc_state := st, acc_cpos := cp\<rparr> else l)"

section \<open>Matching\<close>

function match_loop :: "flex \<Rightarrow> lexb \<Rightarrow> nat \<Rightarrow> nat \<Rightarrow> (lexb \<times> nat \<times> nat) sh option" where
  "match_loop T l cp st =
     (if length (ch_buf l) \<le> cp then Some Crash
      else
        (case yy_trans T st (yy_class T (ch_buf l ! cp)) of
           None \<Rightarrow> None
         | Some st' \<Rightarrow>
             (let l = note_accept T st cp l
              in if ft_base T ! st' = ft_jam T then Some (Go (l, cp + 1, st')) else match_loop T l (cp + 1) st')))"
  by pat_completeness auto
termination
  by (relation "measure (\<lambda>(T, l, cp, st). length (ch_buf l) - cp)") (auto simp: note_accept_def)

declare match_loop.simps [simp del]

definition YY_DO_BEFORE_ACTION :: "nat \<Rightarrow> nat \<Rightarrow> lexb \<Rightarrow> lexb sh" where
  "YY_DO_BEFORE_ACTION bp cp l =
     (if cp < length (ch_buf l)
      then Go (l\<lparr>text_ptr := bp, hold := ch_buf l ! cp, ch_buf := (ch_buf l)[cp := NUL], c_buf_p := cp\<rparr>)
      else Crash)"

function prev_loop :: "flex \<Rightarrow> lexb \<Rightarrow> nat \<Rightarrow> nat \<Rightarrow> (lexb \<times> nat) sh option" where
  "prev_loop T l cp st =
     (if c_buf_p l \<le> cp then Some (Go (l, st))
      else if length (ch_buf l) \<le> cp then Some Crash
      else
        (case yy_trans T st (if ch_buf l ! cp \<noteq> NUL then yy_class T (ch_buf l ! cp) else 1) of
           None \<Rightarrow> None
         | Some st' \<Rightarrow> prev_loop T (note_accept T st cp l) (cp + 1) st'))"
  by pat_completeness auto
termination
  by (relation "measure (\<lambda>(T, l, cp, st). c_buf_p l - cp)") (auto simp: note_accept_def)

declare prev_loop.simps [simp del]

definition previous_state :: "flex \<Rightarrow> nat \<Rightarrow> lexb \<Rightarrow> (lexb \<times> nat) sh option" where
  "previous_state T start l = prev_loop T l (text_ptr l) start"

definition try_NUL_trans :: "flex \<Rightarrow> nat \<Rightarrow> lexb \<Rightarrow> (lexb \<times> nat) option" where
  "try_NUL_trans T st l =
     (case yy_trans T st 1 of
        None \<Rightarrow> None
      | Some st' \<Rightarrow> Some (note_accept T st (c_buf_p l) l, if st' = ft_states T - 1 then 0 else st'))"

section \<open>Refilling the buffer\<close>

fun move_down :: "string \<Rightarrow> nat \<Rightarrow> nat \<Rightarrow> nat \<Rightarrow> string sh" where
  "move_down ch dest source 0 = Go ch"
| "move_down ch dest source (Suc n) =
     (if length ch \<le> source \<or> length ch \<le> dest then Crash
      else move_down (ch[dest := ch ! source]) (dest + 1) (source + 1) n)"

definition yyrealloc :: "lexenv \<Rightarrow> string \<Rightarrow> nat \<Rightarrow> string option" where
  "yyrealloc E ch n = (if n \<le> room E then Some (take n (ch @ map (junk E) [length ch..<n])) else None)"

partial_function (option) grow_loop :: "lexenv \<Rightarrow> nat \<Rightarrow> lexb \<Rightarrow> lexb sh option" where
  "grow_loop E moved l =
     (if 0 < int (buf_size l) - int moved - 1 then Some (Go l)
      else if \<not> ours l then Some (Exit 2)
      else
        (let size' = (if int32 (2 * int (buf_size l)) \<le> 0 then buf_size l + buf_size l div 8 else buf_size l * 2)
         in case yyrealloc E (ch_buf l) (size' + 2) of
              None \<Rightarrow> Some (Exit 2)
            | Some ch \<Rightarrow> grow_loop E moved (l\<lparr>buf_size := size', ch_buf := ch\<rparr>)))"

text \<open>\<open>yyrestart\<close> on the current buffer: \<open>yy_init_buffer\<close>, which flushes it, and \<open>yy_load_buffer_state\<close>.\<close>

definition restart :: "lexb \<Rightarrow> lexb sh" where
  "restart l =
     (if length (ch_buf l) < 2 then Crash
      else Go (l\<lparr>ch_buf := (ch_buf l)[0 := NUL, 1 := NUL], buf_chars := 0, status := YY_BUFFER_NEW, fill := True,
                 chars := 0, text_ptr := 0, c_buf_p := 0, hold := NUL\<rparr>))"

text \<open>
  What follows the reading, with \<open>n\<close> the value of \<open>yy_n_chars\<close>: the result, a larger array if the characters do not fit (a negative
  sum is a huge \<open>yy_size_t\<close>), and the two zero bytes.
\<close>

definition refill_end :: "lexenv \<Rightarrow> nat \<Rightarrow> int \<Rightarrow> lexb \<Rightarrow> (eob_act \<times> lexb) sh" where
  "refill_end E moved n l =
     sbind (if n = 0 then
              (if moved = 0 then sbind (restart l) (\<lambda>l. Go (EOB_ACT_END_OF_FILE, l))
               else Go (EOB_ACT_LAST_MATCH, l\<lparr>status := YY_BUFFER_EOF_PENDING\<rparr>))
            else Go (EOB_ACT_CONTINUE_SCAN, l)) (\<lambda>(r, l).
     sbind (if buf_size l < size_t32 (n + int moved) then
              (case yyrealloc E (ch_buf l) (size_t32 (n + int moved + n div 2)) of
                 None \<Rightarrow> Exit 2
               | Some ch \<Rightarrow> Go (l\<lparr>ch_buf := ch\<rparr>))
            else Go l) (\<lambda>l.
     (let k = nat (n + int moved)
      in sbind (put_char k NUL l) (\<lambda>l.
         sbind (put_char (k + 1) NUL l) (\<lambda>l. Go (r, l\<lparr>chars := k, text_ptr := 0\<rparr>))))))"

definition get_next_buffer ::
  "lexenv \<Rightarrow> (nat \<Rightarrow> 'i \<Rightarrow> (int \<times> string) \<times> 'i) \<Rightarrow> lexb \<Rightarrow> 'i \<Rightarrow> ((eob_act \<times> lexb) sh \<times> 'i) option" where
  "get_next_buffer E inp l i =
     (if chars l + 1 < c_buf_p l then Some (Exit 2, i)
      else if \<not> fill l then
        Some (Go (if c_buf_p l - text_ptr l = 1 then EOB_ACT_END_OF_FILE else EOB_ACT_LAST_MATCH, l), i)
      else
        (let moved = c_buf_p l - text_ptr l - 1
         in case move_down (ch_buf l) 0 (text_ptr l) moved of
              Go ch \<Rightarrow>
                (let l = l\<lparr>ch_buf := ch\<rparr>
                 in if status l = YY_BUFFER_EOF_PENDING then Some (refill_end E moved 0 (l\<lparr>chars := 0, buf_chars := 0\<rparr>), i)
                    else
                      (case grow_loop E moved l of
                         None \<Rightarrow> None
                       | Some (Go l) \<Rightarrow>
                           (let ((n, data), i) = inp (min YY_READ_BUF_SIZE (buf_size l - moved - 1)) i
                            in Some (if length (ch_buf l) < moved + length data then Crash
                                     else refill_end E moved n
                                            (l\<lparr>ch_buf := overwrite moved data (ch_buf l), buf_chars := n\<rparr>), i))
                       | Some (Exit k) \<Rightarrow> Some (Exit k, i)
                       | Some Crash \<Rightarrow> Some (Crash, i)))
            | Exit k \<Rightarrow> Some (Exit k, i)
            | Crash \<Rightarrow> Some (Crash, i)))"

section \<open>The labels\<close>

text \<open>
  Where control is in \<open>yylex\<close>: at the top of its loop, at \<open>yy_match\<close>, at \<open>yy_find_action\<close>, in the action of a rule, or at the end of the
  file; the arguments are \<open>yy_bp\<close>, \<open>yy_cp\<close> and \<open>yy_current_state\<close>. An action that was 0 after backing up is taken for ever.
\<close>

datatype label = L_top | L_match nat nat nat | L_find nat nat nat | L_rule nat | L_eof

definition at_find :: "flex \<Rightarrow> nat \<Rightarrow> nat \<Rightarrow> nat \<Rightarrow> lexb \<Rightarrow> (nat \<times> lexb) sh" where
  "at_find T bp cp st l =
     (let (act, cp) = (if ft_accept T ! st = 0 then (ft_accept T ! acc_state l, acc_cpos l) else (ft_accept T ! st, cp))
      in sbind (YY_DO_BEFORE_ACTION bp cp l) (\<lambda>l. Go (act, l)))"

text \<open>A zero byte inside the data.\<close>

definition at_nul :: "flex \<Rightarrow> nat \<Rightarrow> lexb \<Rightarrow> (label \<times> lexb) sh option" where
  "at_nul T start l =
     (case previous_state T start l of
        None \<Rightarrow> None
      | Some (Go (l, st)) \<Rightarrow>
          (case try_NUL_trans T st l of
             None \<Rightarrow> None
           | Some (l, st') \<Rightarrow>
               if st' \<noteq> 0 then
                 Some (Go (L_match (text_ptr l) (c_buf_p l + 1) st', l\<lparr>c_buf_p := c_buf_p l + 1\<rparr>))
               else Some (Go (L_find (text_ptr l) (c_buf_p l) st, l)))
      | Some (Exit k) \<Rightarrow> Some (Exit k)
      | Some Crash \<Rightarrow> Some Crash)"

definition at_refilled :: "lexenv \<Rightarrow> flex \<Rightarrow> nat \<Rightarrow> nat \<Rightarrow> eob_act \<Rightarrow> lexb \<Rightarrow> (label \<times> lexb) sh option" where
  "at_refilled E T start amount r l =
     (case r of
        EOB_ACT_END_OF_FILE \<Rightarrow>
          if yywrap E then Some (Go (L_eof, l\<lparr>c_buf_p := text_ptr l\<rparr>))
          else Some (sbind (restart l) (\<lambda>l. Go (L_top, l)))
      | EOB_ACT_CONTINUE_SCAN \<Rightarrow>
          (let l = l\<lparr>c_buf_p := text_ptr l + amount\<rparr>
           in case previous_state T start l of
                None \<Rightarrow> None
              | Some (Go (l, st)) \<Rightarrow> Some (Go (L_match (text_ptr l) (c_buf_p l) st, l))
              | Some (Exit k) \<Rightarrow> Some (Exit k)
              | Some Crash \<Rightarrow> Some Crash)
      | EOB_ACT_LAST_MATCH \<Rightarrow>
          (let l = l\<lparr>c_buf_p := chars l\<rparr>
           in case previous_state T start l of
                None \<Rightarrow> None
              | Some (Go (l, st)) \<Rightarrow> Some (Go (L_find (text_ptr l) (c_buf_p l) st, l))
              | Some (Exit k) \<Rightarrow> Some (Exit k)
              | Some Crash \<Rightarrow> Some Crash))"

definition at_end_of_buffer ::
  "lexenv \<Rightarrow> flex \<Rightarrow> (nat \<Rightarrow> 'i \<Rightarrow> (int \<times> string) \<times> 'i) \<Rightarrow> nat \<Rightarrow> lexb \<Rightarrow> 'i \<Rightarrow> ((label \<times> lexb) sh \<times> 'i) option" where
  "at_end_of_buffer E T inp start l i =
     (let amount = c_buf_p l - text_ptr l - 1;
          l = l\<lparr>ch_buf := (ch_buf l)[c_buf_p l := hold l]\<rparr>;
          l = (if status l = YY_BUFFER_NEW then l\<lparr>chars := nat (buf_chars l), status := YY_BUFFER_NORMAL\<rparr> else l)
      in if c_buf_p l \<le> chars l then
           map_option (\<lambda>r. (r, i)) (at_nul T start (l\<lparr>c_buf_p := text_ptr l + amount\<rparr>))
         else
           (case get_next_buffer E inp l i of
              None \<Rightarrow> None
            | Some (Go (r, l), i) \<Rightarrow> map_option (\<lambda>r. (r, i)) (at_refilled E T start amount r l)
            | Some (Exit k, i) \<Rightarrow> Some (Exit k, i)
            | Some (Crash, i) \<Rightarrow> Some (Crash, i)))"

definition lex_step ::
  "lexenv \<Rightarrow> flex \<Rightarrow> (nat \<Rightarrow> 'i \<Rightarrow> (int \<times> string) \<times> 'i) \<Rightarrow> nat \<Rightarrow> label \<Rightarrow> lexb \<Rightarrow> 'i \<Rightarrow> ((label \<times> lexb) sh \<times> 'i) option" where
  "lex_step E T inp start lab l i =
     (case lab of
        L_top \<Rightarrow>
          Some (sbind (put_char (c_buf_p l) (hold l) l) (\<lambda>l. Go (L_match (c_buf_p l) (c_buf_p l) start, l)), i)
      | L_match bp cp st \<Rightarrow>
          (case match_loop T l cp st of
             None \<Rightarrow> None
           | Some r \<Rightarrow> Some (sbind r (\<lambda>(l, cp, st). Go (L_find bp cp st, l)), i))
      | L_find bp cp st \<Rightarrow>
          (case at_find T bp cp st l of
             Go (act, l) \<Rightarrow>
               if act = 0 then None
               else if act = ft_eob T then at_end_of_buffer E T inp start l i
               else Some (Go (L_rule act, l), i)
           | Exit k \<Rightarrow> Some (Exit k, i)
           | Crash \<Rightarrow> Some (Crash, i))
      | _ \<Rightarrow> Some (Go (lab, l), i))"

definition ends_call :: "label \<Rightarrow> bool" where
  "ends_call lab = (case lab of L_rule _ \<Rightarrow> True | L_eof \<Rightarrow> True | _ \<Rightarrow> False)"

text \<open>From a label to the next action.\<close>

partial_function (option) lex_run ::
  "lexenv \<Rightarrow> flex \<Rightarrow> (nat \<Rightarrow> 'i \<Rightarrow> (int \<times> string) \<times> 'i) \<Rightarrow> nat \<Rightarrow> label \<Rightarrow> lexb \<Rightarrow> 'i \<Rightarrow> ((label \<times> lexb) sh \<times> 'i) option" where
  "lex_run E T inp start lab l i =
     (if ends_call lab then Some (Go (lab, l), i)
      else
        (case lex_step E T inp start lab l i of
           None \<Rightarrow> None
         | Some (Go (lab, l), i) \<Rightarrow> lex_run E T inp start lab l i
         | Some (Exit k, i) \<Rightarrow> Some (Exit k, i)
         | Some (Crash, i) \<Rightarrow> Some (Crash, i)))"

end
