(* ===== verification/LexRefine.thy ===== *)
theory LexRefine
  imports LexEngine
begin

text \<open>
  The scanner on its array (\<open>LexEngine\<close>) refines the scanner on lists of characters (\<open>FlexScanner\<close>): what the tables have to be
  for this, how the two states correspond while a token is matched and between two calls, and a simulation for matching, backing
  up, refilling and the end of the buffer.
\<close>

section \<open>Tables\<close>

text \<open>
  What the engine relies on in tables that \<open>flex\<close> generates: every state goes to the end-of-buffer state on a zero byte, which is
  stuck on whatever follows; the first character always leads to an accepting state, as there is a default rule.
\<close>

definition trans_ok :: "flex \<Rightarrow> nat \<Rightarrow> nat \<Rightarrow> bool" where
  "trans_ok T st c =
     (case yy_trans T st c of
        None \<Rightarrow> True
      | Some s \<Rightarrow>
          0 < s \<and> s < ft_states T \<and>
          (if c = ft_ec T ! 0 then (ft_accept T ! st \<noteq> ft_eob T \<longrightarrow> ft_accept T ! s = ft_eob T) else ft_accept T ! s \<noteq> ft_eob T) \<and>
          (ft_accept T ! st = ft_eob T \<longrightarrow> ft_base T ! s = ft_jam T \<and> ft_accept T ! s = 0))"

definition classes_ok :: "flex \<Rightarrow> bool" where
  "classes_ok T \<longleftrightarrow> length (ft_ec T) = 256 \<and> list_all (\<lambda>c. c < length (ft_meta T)) (ft_ec T) \<and> list_all (\<lambda>c. c \<noteq> hd (ft_ec T)) (tl (ft_ec T)) \<and>
     1 < length (ft_meta T) \<and> hd (ft_ec T) \<noteq> 1"

definition start_ok :: "flex \<Rightarrow> nat \<Rightarrow> bool" where
  "start_ok T start \<longleftrightarrow> 0 < start \<and> start < ft_states T \<and> ft_accept T ! start = 0 \<and> yy_trans T start 1 \<noteq> Some (ft_states T - 1) \<and>
     list_all (\<lambda>c. case yy_trans T start c of None \<Rightarrow> True | Some s \<Rightarrow> ft_accept T ! s \<noteq> 0) [0..<length (ft_meta T)]"

definition flex_ok :: "flex \<Rightarrow> nat \<Rightarrow> bool" where
  "flex_ok T start \<longleftrightarrow> ft_eob T \<noteq> 0 \<and> classes_ok T \<and> start_ok T start \<and>
     list_all (\<lambda>st. list_all (trans_ok T st) [0..<length (ft_meta T)]) [1..<ft_states T]"

lemma flex_class:
  assumes "flex_ok T start"
  shows "yy_class T c < length (ft_meta T)" "yy_class T c = yy_class T NUL \<longleftrightarrow> c = NUL" "yy_class T NUL \<noteq> 1" "1 < length (ft_meta T)"
proof -
  have ok: "length (ft_ec T) = 256" "list_all (\<lambda>c. c < length (ft_meta T)) (ft_ec T)" "list_all (\<lambda>c. c \<noteq> hd (ft_ec T)) (tl (ft_ec T))"
    "hd (ft_ec T) \<noteq> 1" "1 < length (ft_meta T)"
    using assms by (auto simp: flex_ok_def classes_ok_def)
  obtain e es where e: "ft_ec T = e # es" "length es = 255" using ok(1) by (cases "ft_ec T") auto
  have len: "(of_char c :: nat) < 256" by simp
  have *: "ft_ec T ! k \<noteq> e" if "k \<noteq> 0" "k < 256" for k
    using that ok(3) e by (cases k) (auto simp: list_all_iff)
  have "of_char c = (0 :: nat) \<longleftrightarrow> c = NUL" using of_char_nat_eq [of c NUL] by simp
  then show "yy_class T c = yy_class T NUL \<longleftrightarrow> c = NUL" using * [of "of_char c"] e(1) len by (auto simp: yy_class_def)
  show "yy_class T c < length (ft_meta T)" using ok(1,2) len by (simp add: yy_class_def list_all_length)
  show "yy_class T NUL \<noteq> 1" "1 < length (ft_meta T)" using ok(4,5) e(1) by (auto simp: yy_class_def)
qed

lemma flex_start:
  assumes "flex_ok T start"
  shows "start \<in> {0<..<ft_states T}" "ft_accept T ! start = 0" "ft_eob T \<noteq> 0" "yy_trans T start 1 \<noteq> Some (ft_states T - 1)"
  using assms by (auto simp: flex_ok_def start_ok_def)

lemma flex_trans:
  assumes "flex_ok T start" "st \<in> {0<..<ft_states T}" "c < length (ft_meta T)" "yy_trans T st c = Some s"
  shows "s \<in> {0<..<ft_states T}" "c = yy_class T NUL \<Longrightarrow> ft_accept T ! st \<noteq> ft_eob T \<Longrightarrow> ft_accept T ! s = ft_eob T"
    "c \<noteq> yy_class T NUL \<Longrightarrow> ft_accept T ! s \<noteq> ft_eob T"
    "ft_accept T ! st = ft_eob T \<Longrightarrow> ft_base T ! s = ft_jam T \<and> ft_accept T ! s = 0"
    "st = start \<Longrightarrow> ft_accept T ! s \<noteq> 0"
proof -
  have c: "c \<in> set [0..<length (ft_meta T)]" and "st \<in> set [1..<ft_states T]" using assms(2,3) by auto
  then have "trans_ok T st c" using assms(1) unfolding flex_ok_def list_all_iff by blast
  then show "s \<in> {0<..<ft_states T}" "c = yy_class T NUL \<Longrightarrow> ft_accept T ! st \<noteq> ft_eob T \<Longrightarrow> ft_accept T ! s = ft_eob T"
    "c \<noteq> yy_class T NUL \<Longrightarrow> ft_accept T ! s \<noteq> ft_eob T"
    "ft_accept T ! st = ft_eob T \<Longrightarrow> ft_base T ! s = ft_jam T \<and> ft_accept T ! s = 0"
    using assms(4) by (auto simp: trans_ok_def yy_class_def split: if_splits)
  show "st = start \<Longrightarrow> ft_accept T ! s \<noteq> 0"
    using assms(1,4) c unfolding flex_ok_def start_ok_def list_all_iff by fastforce
qed

section \<open>The array and the list\<close>

text \<open>
  While a token is matched: \<open>bp\<close> is where it starts, the characters from there to \<open>chars\<close> are the list of \<open>FlexScanner\<close>, and two
  zero bytes follow.
\<close>

definition absb :: "nat \<Rightarrow> lexb \<Rightarrow> ybuf" where
  "absb bp l = \<lparr>yb = take (chars l - bp) (drop bp (ch_buf l)), yb_size = buf_size l, yb_eof = (status l = YY_BUFFER_EOF_PENDING)\<rparr>"

definition data_ok :: "lexb \<Rightarrow> nat \<Rightarrow> bool" where
  "data_ok l bp \<longleftrightarrow> bp \<le> chars l \<and> chars l \<le> buf_size l \<and> length (ch_buf l) = buf_size l + 2 \<and>
     ch_buf l ! chars l = NUL \<and> ch_buf l ! (chars l + 1) = NUL \<and> fill l \<and> ours l \<and>
     (status l = YY_BUFFER_NEW \<longrightarrow> buf_chars l = int (chars l))"

definition same_data :: "lexb \<Rightarrow> lexb \<Rightarrow> bool" where
  "same_data l l' \<longleftrightarrow> l' = l\<lparr>acc_state := acc_state l', acc_cpos := acc_cpos l'\<rparr>"

lemma same_data_refl [simp]: "same_data l l"
  by (simp add: same_data_def)

lemma same_data_note: "same_data l (note_accept T st cp l)"
  by (simp add: same_data_def note_accept_def)

lemma same_data_trans: "same_data l l' \<Longrightarrow> same_data l' l'' \<Longrightarrow> same_data l l''"
  unfolding same_data_def by (metis (no_types, lifting) lexb.surjective lexb.update_convs(11,12))

lemma same_data_fields:
  assumes "same_data l l'"
  shows "ch_buf l' = ch_buf l" "buf_size l' = buf_size l" "buf_chars l' = buf_chars l" "status l' = status l" "fill l' = fill l"
    "ours l' = ours l" "c_buf_p l' = c_buf_p l" "text_ptr l' = text_ptr l" "chars l' = chars l" "hold l' = hold l"
  by (subst assms [unfolded same_data_def], simp)+

lemma same_data_ok: "same_data l l' \<Longrightarrow> data_ok l bp \<Longrightarrow> data_ok l' bp"
  using same_data_fields [of l l'] by (simp add: data_ok_def)

lemma same_data_abs: "same_data l l' \<Longrightarrow> absb bp l' = absb bp l"
  using same_data_fields [of l l'] by (simp add: absb_def)

lemma data_text:
  assumes "data_ok l bp"
  shows "length (yb (absb bp l)) = chars l - bp"
    "k < chars l - bp + 2 \<Longrightarrow> bp + k < length (ch_buf l) \<and> (yb (absb bp l) @ [NUL, NUL]) ! k = ch_buf l ! (bp + k)"
proof -
  show len: "length (yb (absb bp l)) = chars l - bp" using assms by (auto simp: absb_def data_ok_def)
  assume k: "k < chars l - bp + 2"
  consider "k < chars l - bp" | "k = chars l - bp" | "k = chars l - bp + 1" using k by linarith
  then show "bp + k < length (ch_buf l) \<and> (yb (absb bp l) @ [NUL, NUL]) ! k = ch_buf l ! (bp + k)"
  proof cases
    case 1
    then show ?thesis using assms len by (auto simp: nth_append absb_def data_ok_def)
  next
    case 2
    then show ?thesis using assms len by (auto simp: nth_append data_ok_def)
  next
    case 3
    then show ?thesis using assms len by (auto simp: nth_append data_ok_def)
  qed
qed

section \<open>Matching refines matching\<close>

text \<open>The last accepting position belongs to this token, and is a good place to back up to.\<close>

definition okla :: "flex \<Rightarrow> nat \<Rightarrow> nat \<Rightarrow> lexb \<Rightarrow> nat \<times> nat \<Rightarrow> bool" where
  "okla T len bp l la \<longleftrightarrow> acc_state l = fst la \<and> acc_cpos l = bp + snd la \<and> ft_accept T ! fst la \<noteq> 0 \<and>
     1 \<le> snd la \<and> snd la \<le> len + 1 \<and> (ft_accept T ! fst la \<noteq> ft_eob T \<longrightarrow> snd la \<le> len)"

text \<open>A state the scan can be in after \<open>k\<close> characters.\<close>

definition scanning :: "flex \<Rightarrow> nat \<Rightarrow> nat \<Rightarrow> nat \<Rightarrow> nat \<Rightarrow> nat \<Rightarrow> lexb \<Rightarrow> nat \<times> nat \<Rightarrow> bool" where
  "scanning T start len bp k st l la \<longleftrightarrow> st \<in> {0<..<ft_states T} \<and> k \<le> len + 1 \<and> (k = len + 1 \<longrightarrow> ft_accept T ! st = ft_eob T) \<and>
     (k = 0 \<and> st = start \<or> 1 \<le> k \<and> (ft_accept T ! st \<noteq> 0 \<or> okla T len bp l la))"

lemma note_okla:
  assumes "flex_ok T start" "scanning T start len bp k st l la"
  shows "k = 0 \<and> st = start \<or> okla T len bp (note_accept T st (bp + k) l) (remember T st k la)"
  using assms flex_start [OF assms(1)] by (cases "ft_accept T ! st = 0") (auto simp: scanning_def okla_def note_accept_def remember_def)

lemma match_sim:
  assumes "flex_ok T start" "data_ok l bp" "len = chars l - bp"
    "yy_match T (drop k (yb (absb bp l) @ [NUL, NUL])) k st la = Some (st', k', la')" "scanning T start len bp k st l la"
  shows "\<exists>l'. match_loop T l (bp + k) st = Some (Go (l', bp + k', st')) \<and> same_data l l' \<and>
    (if ft_accept T ! st' = 0 then okla T len bp l' la'
     else 1 \<le> k' \<and> k' \<le> len + 1 \<and> (ft_accept T ! st' \<noteq> ft_eob T \<longrightarrow> k' \<le> len))"
  using assms(2-)
proof (induction "len + 2 - k" arbitrary: l k st la)
  case 0
  then show ?case by (simp add: scanning_def)
next
  case (Suc d)
  let ?xs = "yb (absb bp l) @ [NUL, NUL]"
  note sc = Suc.prems(4)
  have k: "k < len + 2" using sc by (simp add: scanning_def)
  have len: "length ?xs = len + 2" using data_text(1) [OF Suc.prems(1)] Suc.prems(2) by simp
  have b: "bp + k < length (ch_buf l)" "?xs ! k = ch_buf l ! (bp + k)"
    using data_text(2) [OF Suc.prems(1), of k] k Suc.prems(2) by auto
  let ?c = "ch_buf l ! (bp + k)"
  have dr: "drop k ?xs = ?c # drop (k + 1) ?xs" using b(2) k len by (metis Cons_nth_drop_Suc Suc_eq_plus1)
  obtain s where s: "yy_trans T st (yy_class T ?c) = Some s"
    using Suc.prems(3) unfolding dr by (auto split: option.splits)
  let ?l = "note_accept T st (bp + k) l" and ?la = "remember T st k la"
  have st: "st \<in> {0<..<ft_states T}" using sc by (simp add: scanning_def)
  note tr = flex_trans [OF assms(1) st flex_class(1) [OF assms(1), of ?c] s]
  have nul: "k = len \<Longrightarrow> ?c = NUL"
    using Suc.prems(1,2) by (auto simp: data_ok_def)
  have last: "k \<noteq> len + 1 \<or> ft_accept T ! st = ft_eob T" using sc by (simp add: scanning_def)
  have acc: "ft_accept T ! s \<noteq> 0 \<Longrightarrow> k \<le> len \<and> (k = len \<longrightarrow> ft_accept T ! s = ft_eob T)"
  proof -
    assume "ft_accept T ! s \<noteq> 0"
    with tr(4) have e: "ft_accept T ! st \<noteq> ft_eob T" by auto
    with last k have "k \<le> len" by auto
    moreover have "ft_accept T ! s = ft_eob T" if "k = len" using tr(2) nul [OF that] e by simp
    ultimately show ?thesis by blast
  qed
  have old: "ft_accept T ! s = 0 \<Longrightarrow> okla T len bp ?l ?la" using note_okla [OF assms(1) sc] tr(5) by auto
  show ?case
  proof (cases "ft_base T ! s = ft_jam T")
    case True
    then have "st' = s" "k' = k + 1" "la' = ?la" using Suc.prems(3) s unfolding dr by (auto simp: Let_def)
    moreover have "match_loop T l (bp + k) st = Some (Go (?l, bp + (k + 1), s))"
      using b s True by (subst match_loop.simps) (simp add: Let_def)
    ultimately show ?thesis using acc old same_data_note by (auto split: if_splits)
  next
    case False
    with tr(4) have e: "ft_accept T ! st \<noteq> ft_eob T" by blast
    have "k \<le> len" using e last k by auto
    moreover have "k = len \<longrightarrow> ft_accept T ! s = ft_eob T" using tr(2) nul e by metis
    ultimately have "scanning T start len bp (k + 1) s ?l ?la"
      using tr(1) old by (auto simp: scanning_def)
    moreover have "yy_match T (drop (k + 1) ?xs) (k + 1) s ?la = Some (st', k', la')"
      using Suc.prems(3) s False unfolding dr by (simp add: Let_def)
    moreover note sd = same_data_note [of l T st "bp + k"]
    moreover have d: "d = len + 2 - (k + 1)" using Suc.hyps(2) by simp
    moreover have "len = chars ?l - bp" using same_data_fields(9) [OF sd] Suc.prems(2) by simp
    ultimately obtain l' where l': "match_loop T ?l (bp + (k + 1)) s = Some (Go (l', bp + k', st'))" "same_data ?l l'"
      "if ft_accept T ! st' = 0 then okla T len bp l' la'
       else 1 \<le> k' \<and> k' \<le> len + 1 \<and> (ft_accept T ! st' \<noteq> ft_eob T \<longrightarrow> k' \<le> len)"
      using Suc.hyps(1) [of "k + 1" ?l s ?la] same_data_ok [OF sd Suc.prems(1)] same_data_abs [OF sd] by metis
    have "match_loop T l (bp + k) st = match_loop T ?l (bp + (k + 1)) s"
      using b s False by (subst match_loop.simps) (simp add: Let_def)
    then show ?thesis using l'(1,3) same_data_trans [OF sd l'(2)] by auto
  qed
qed

text \<open>
  Running over the matched text again ends in a state in which the scan can go on; the position to back up to, if it is needed, was
  set on the way.
\<close>

definition rescanned :: "flex \<Rightarrow> nat \<Rightarrow> nat \<Rightarrow> nat \<Rightarrow> nat \<Rightarrow> nat \<Rightarrow> lexb \<Rightarrow> nat \<times> nat \<Rightarrow> bool" where
  "rescanned T start len bp k st l la \<longleftrightarrow> st \<in> {0<..<ft_states T} \<and> ft_accept T ! st \<noteq> ft_eob T \<and> k \<le> len \<and>
     (k = 0 \<and> st = start \<or> 1 \<le> k \<and> (ft_accept T ! st \<noteq> 0 \<or> okla T len bp l la \<and> ft_accept T ! fst la \<noteq> ft_eob T))"

lemma rescanned_scanning: "rescanned T start len bp k st l la \<Longrightarrow> scanning T start len bp k st l la"
  by (auto simp: rescanned_def scanning_def)

lemma rescanned_next:
  assumes "flex_ok T start" "rescanned T start len bp k st l la" "k < len" "c < length (ft_meta T)" "c \<noteq> yy_class T NUL" "yy_trans T st c = Some s"
  shows "rescanned T start len bp (k + 1) s (note_accept T st (bp + k) l) (remember T st k la)"
proof -
  have "st \<in> {0<..<ft_states T}" using assms(2) by (simp add: rescanned_def)
  note tr = flex_trans [OF assms(1) this assms(4,6)]
  have "ft_accept T ! s \<noteq> 0 \<or> okla T len bp (note_accept T st (bp + k) l) (remember T st k la) \<and>
      ft_accept T ! fst (remember T st k la) \<noteq> ft_eob T"
    using flex_start [OF assms(1)] assms(2,3) tr(5) by (cases "ft_accept T ! st = 0")
      (auto simp: rescanned_def okla_def note_accept_def remember_def)
  then show ?thesis using tr(1,3) assms(3,5) by (auto simp: rescanned_def)
qed

lemma prev_sim:
  assumes "flex_ok T start" "data_ok l bp" "len = chars l - bp" "c_buf_p l = bp + m" "m \<le> len" "k \<le> m"
    "previous_loop T (take (m - k) (drop k (yb (absb bp l)))) k st la = Some (st', la')" "rescanned T start len bp k st l la"
  shows "\<exists>l'. prev_loop T l (bp + k) st = Some (Go (l', st')) \<and> same_data l l' \<and> rescanned T start len bp m st' l' la'"
  using assms(2-)
proof (induction "m - k" arbitrary: l k st la)
  case 0
  then have "k = m" by simp
  with 0 show ?case by (intro exI [of _ l]) (subst prev_loop.simps, simp)
next
  case (Suc d)
  let ?xs = "yb (absb bp l)"
  have k: "k < m" using Suc.hyps(2) by simp
  have len: "length ?xs = len" using data_text(1) [OF Suc.prems(1)] Suc.prems(2) by simp
  have b: "bp + k < length (ch_buf l)" "?xs ! k = ch_buf l ! (bp + k)"
    using data_text(2) [OF Suc.prems(1), of k] k Suc.prems(2,4) len by (auto simp: nth_append)
  let ?c = "ch_buf l ! (bp + k)"
  have kl: "k < length ?xs" using k len Suc.prems(4) by simp
  have dr: "take (m - k) (drop k ?xs) = ?c # take (m - (k + 1)) (drop (k + 1) ?xs)"
    using k kl b(2) by (metis Cons_nth_drop_Suc Suc_diff_Suc Suc_eq_plus1 take_Suc_Cons)
  let ?k = "if ?c \<noteq> NUL then yy_class T ?c else 1"
  obtain s where s: "yy_trans T st ?k = Some s"
    using Suc.prems(6) unfolding dr by (auto split: option.splits if_splits)
  have pl: "previous_loop T (take (m - (k + 1)) (drop (k + 1) ?xs)) (k + 1) s (remember T st k la) = Some (st', la')"
    using Suc.prems(6) s unfolding dr by (auto split: if_splits)
  have "?k < length (ft_meta T)" "?k \<noteq> yy_class T NUL"
    using flex_class [OF assms(1)] by (auto simp: yy_class_def)
  then have nx: "rescanned T start len bp (k + 1) s (note_accept T st (bp + k) l) (remember T st k la)"
    using rescanned_next [OF assms(1) Suc.prems(7) _ _ _ s] k Suc.prems(4) by simp
  let ?l = "note_accept T st (bp + k) l"
  note sd = same_data_note [of l T st "bp + k"]
  note f = same_data_fields [OF sd]
  have d: "d = m - (k + 1)" using Suc.hyps(2) by simp
  obtain l' where l': "prev_loop T ?l (bp + (k + 1)) s = Some (Go (l', st'))" "same_data ?l l'" "rescanned T start len bp m st' l' la'"
    using Suc.hyps(1) [OF d same_data_ok [OF sd Suc.prems(1)], of s "remember T st k la"] k Suc.prems(2-4) pl nx f(7,9) same_data_abs [OF sd, of bp] by auto
  have "prev_loop T l (bp + k) st = prev_loop T ?l (bp + (k + 1)) s"
    using b s k Suc.prems(3) by (subst prev_loop.simps) simp
  then show ?case using l' same_data_trans [OF sd] by auto
qed

lemma previous_sim:
  assumes "flex_ok T start" "data_ok l bp" "text_ptr l = bp" "c_buf_p l = bp + m" "m \<le> chars l - bp"
    "yy_get_previous_state T start (take m (yb (absb bp l))) la = Some (st', la')"
  shows "\<exists>l'. previous_state T start l = Some (Go (l', st')) \<and> same_data l l' \<and> rescanned T start (chars l - bp) bp m st' l' la'"
proof -
  have "rescanned T start (chars l - bp) bp 0 start l la"
    using flex_start [OF assms(1)] by (simp add: rescanned_def)
  then show ?thesis
    using prev_sim [OF assms(1,2) refl assms(4,5), of 0 start la] assms(3,6) by (simp add: previous_state_def yy_get_previous_state_def)
qed

section \<open>Refilling refines refilling\<close>

lemma move_down_moves:
  assumes "dest \<le> source" "source + n \<le> length ch"
  shows "\<exists>ch'. move_down ch dest source n = Go ch' \<and> length ch' = length ch \<and> take dest ch' = take dest ch \<and>
    take n (drop dest ch') = take n (drop source ch)"
  using assms
proof (induction n arbitrary: ch dest source)
  case (Suc n)
  let ?ch = "ch[dest := ch ! source]"
  obtain ch' where ch': "move_down ?ch (dest + 1) (source + 1) n = Go ch'" "length ch' = length ch"
    "take (dest + 1) ch' = take (dest + 1) ?ch" "take n (drop (dest + 1) ch') = take n (drop (source + 1) ?ch)"
    using Suc.IH [of "dest + 1" "source + 1" ?ch] Suc.prems by auto
  have d: "dest < length ch" "source < length ch" using Suc.prems by auto
  have "take dest ch' = take dest ch"
    using ch'(3) by (metis add.commute le_add2 min.absorb1 take_take take_update_cancel order_refl)
  moreover have "ch' ! dest = ch ! source"
    using ch'(2,3) d by (metis length_list_update less_add_one nth_list_update_eq nth_take)
  moreover have "drop (source + 1) ?ch = drop (source + 1) ch" using Suc.prems by simp
  ultimately have "take (Suc n) (drop dest ch') = take (Suc n) (drop source ch)"
    using ch'(2,4) d by (metis Cons_nth_drop_Suc Suc_eq_plus1 take_Suc_Cons)
  then show ?case using ch' d \<open>take dest ch' = take dest ch\<close> by auto
qed simp

lemma grow_sim:
  assumes "grow sz moved = Some sz'" "buf_size l = sz" "length (ch_buf l) = sz + 2" "ours l" "sz' + 2 \<le> room E" "room E < 2 ^ 31"
  shows "sz \<le> sz' \<and> moved + 1 < sz' \<and> (\<exists>ch. grow_loop E moved l = Some (Go (l\<lparr>buf_size := sz', ch_buf := ch\<rparr>)) \<and>
    length ch = sz' + 2 \<and> take (sz + 2) ch = ch_buf l)"
proof -
  let ?P = "\<lambda>sz moved sz'. sz \<le> sz' \<and> moved + 1 < sz' \<and> (\<forall>l. buf_size l = sz \<longrightarrow> length (ch_buf l) = sz + 2 \<longrightarrow> ours l \<longrightarrow> sz' + 2 \<le> room E \<longrightarrow>
    (\<exists>ch. grow_loop E moved l = Some (Go (l\<lparr>buf_size := sz', ch_buf := ch\<rparr>)) \<and> length ch = sz' + 2 \<and> take (sz + 2) ch = ch_buf l))"
  have "?P sz moved sz'"
  proof (rule grow.raw_induct [where P = ?P, OF _ assms(1)])
    fix f sz moved sz'
    assume IH: "\<And>sz moved sz'. f sz moved = Some sz' \<Longrightarrow> ?P sz moved sz'"
      and eq: "(if int sz - int moved - 1 \<le> 0 then f (sz * 2) moved else Some sz) = Some sz'"
    show "?P sz moved sz'"
    proof (cases "int sz - int moved - 1 \<le> 0")
      case False
      have "\<exists>ch. grow_loop E moved l = Some (Go (l\<lparr>buf_size := sz, ch_buf := ch\<rparr>)) \<and> length ch = sz + 2 \<and> take (sz + 2) ch = ch_buf l"
        if "buf_size l = sz" "length (ch_buf l) = sz + 2" for l
        using False that by (intro exI [of _ "ch_buf l"]) (subst grow_loop.simps, auto)
      with False eq show ?thesis by auto
    next
      case True
      with eq have h: "?P (sz * 2) moved sz'" using IH by simp
      have "\<exists>ch. grow_loop E moved l = Some (Go (l\<lparr>buf_size := sz', ch_buf := ch\<rparr>)) \<and> length ch = sz' + 2 \<and> take (sz + 2) ch = ch_buf l"
        if l: "buf_size l = sz" "length (ch_buf l) = sz + 2" "ours l" "sz' + 2 \<le> room E" for l
      proof -
        define c0 where "c0 = ch_buf l @ map (junk E) [sz + 2..<sz * 2 + 2]"
        let ?l = "l\<lparr>buf_size := sz * 2, ch_buf := c0\<rparr>"
        have c0: "length c0 = sz * 2 + 2" "take (sz + 2) c0 = ch_buf l" using l(2) by (simp_all only: c0_def length_append length_map length_upt) simp_all
        have sz: "sz * 2 \<le> sz'" "sz * 2 + 2 \<le> room E" using h l(4) by auto
        have "int32 (2 * int sz) = 2 * int sz" using sz(2) assms(6) by (simp add: int32_id)
        then have size: "(if int32 (2 * int sz) \<le> 0 then sz + sz div 8 else sz * 2) = sz * 2" by auto
        have "yyrealloc E (ch_buf l) (sz * 2 + 2) = Some c0"
          unfolding yyrealloc_def l(2) c0_def [symmetric] using sz(2) c0(1) by simp
        then have step: "grow_loop E moved l = grow_loop E moved ?l"
          using True l(3) by (subst grow_loop.simps) (simp only: Let_def l(1) size, simp)
        obtain ch where ch: "grow_loop E moved ?l = Some (Go (?l\<lparr>buf_size := sz', ch_buf := ch\<rparr>))" "length ch = sz' + 2"
          "take (sz * 2 + 2) ch = c0"
          using h [THEN conjunct2, THEN conjunct2, rule_format, of ?l] l(3,4) c0(1) by auto
        have "take (sz + 2) ch = take (sz + 2) (take (sz * 2 + 2) ch)" by (simp add: min_def)
        also have "\<dots> = ch_buf l" unfolding ch(3) by (rule c0(2))
        finally show ?thesis using step ch(1,2) by auto
      qed
      with h show ?thesis by auto
    qed
  qed
  with assms(2-) show ?thesis by blast
qed

text \<open>What \<open>YY_INPUT\<close> promises: as many characters as it says, and not more than were asked for.\<close>

definition inp_ok :: "(nat \<Rightarrow> 'i \<Rightarrow> (int \<times> string) \<times> 'i) \<Rightarrow> bool" where
  "inp_ok inp \<longleftrightarrow> (\<forall>m i n data i'. inp m i = ((n, data), i') \<longrightarrow> 0 \<le> n \<and> n \<le> int m \<and> length data = nat n)"

lemma refill_end_eq:
  assumes "length (ch_buf l) = buf_size l + 2" "0 \<le> n + int moved" "n + int moved \<le> int (buf_size l)" "buf_size l < 2 ^ 31"
  defines "k \<equiv> nat (n + int moved)"
  shows "refill_end E moved n l =
    (if n \<noteq> 0 then Go (EOB_ACT_CONTINUE_SCAN, l\<lparr>ch_buf := (ch_buf l)[k := NUL, k + 1 := NUL], chars := k, text_ptr := 0\<rparr>)
     else if moved \<noteq> 0 then
       Go (EOB_ACT_LAST_MATCH, l\<lparr>ch_buf := (ch_buf l)[k := NUL, k + 1 := NUL], chars := k, text_ptr := 0, status := YY_BUFFER_EOF_PENDING\<rparr>)
     else Go (EOB_ACT_END_OF_FILE, l\<lparr>ch_buf := (ch_buf l)[0 := NUL, 1 := NUL], buf_chars := 0, status := YY_BUFFER_NEW, fill := True,
                 chars := 0, text_ptr := 0, c_buf_p := 0, hold := NUL\<rparr>))"
proof -
  have "size_t32 (n + int moved) = k" using assms(2-4) by (simp add: size_t32_id k_def)
  moreover have "k \<le> buf_size l" "k + 1 < length (ch_buf l)" using assms(1-3) by (auto simp: k_def)
  ultimately show ?thesis
    using assms(1) k_def by (auto simp: refill_end_def restart_def put_char_def Let_def list_update_swap)
qed

definition refill_sim :: "refill \<Rightarrow> eob_act \<Rightarrow> lexb \<Rightarrow> bool" where
  "refill_sim r a l \<longleftrightarrow> data_ok l 0 \<and> text_ptr l = 0 \<and>
     (case r of
        Continue_scan b \<Rightarrow> a = EOB_ACT_CONTINUE_SCAN \<and> absb 0 l = b
      | Last_match b \<Rightarrow> a = EOB_ACT_LAST_MATCH \<and> absb 0 l = b \<and> yb b \<noteq> []
      | End_of_file b \<Rightarrow> a = EOB_ACT_END_OF_FILE \<and> absb 0 l = b \<and> chars l = 0 \<and> hold l = NUL \<and> c_buf_p l = 0
      | Fatal \<Rightarrow> False)"

definition refill_size :: "refill \<Rightarrow> nat" where
  "refill_size r = (case r of Continue_scan b \<Rightarrow> yb_size b | Last_match b \<Rightarrow> yb_size b | End_of_file b \<Rightarrow> yb_size b | Fatal \<Rightarrow> 0)"

lemma refill_end_sim:
  assumes "length (ch_buf l) = buf_size l + 2" "0 \<le> n + int m" "n + int m \<le> int (buf_size l)" "buf_size l < 2 ^ 31" "fill l" "ours l"
    "status l \<noteq> YY_BUFFER_NEW" "take (nat (n + int m)) (ch_buf l) = xs"
    "r = (if n \<noteq> 0 then Continue_scan \<lparr>yb = xs, yb_size = buf_size l, yb_eof = (status l = YY_BUFFER_EOF_PENDING)\<rparr>
          else if m \<noteq> 0 then Last_match \<lparr>yb = xs, yb_size = buf_size l, yb_eof = True\<rparr>
          else End_of_file \<lparr>yb = [], yb_size = buf_size l, yb_eof = False\<rparr>)"
  shows "\<exists>a l'. refill_end E m n l = Go (a, l') \<and> refill_sim r a l' \<and> chars l' = nat (n + int m)"
proof -
  define k where "k = nat (n + int m)"
  have k: "k \<le> buf_size l" "m \<noteq> 0 \<Longrightarrow> n = 0 \<Longrightarrow> 0 < k" using assms(2,3) by (auto simp: k_def)
  have u: "take k ((ch_buf l)[k := NUL, k + 1 := NUL]) = xs" using assms(8) by (simp add: k_def)
  note e = refill_end_eq [OF assms(1-4), of E, folded k_def]
  consider "n \<noteq> 0" | "n = 0" "m \<noteq> 0" | "n = 0" "m = 0" by blast
  then show ?thesis
  proof cases
    case 1
    then show ?thesis using e u k assms(1,5-7,9) by (auto simp: k_def [symmetric] refill_sim_def data_ok_def absb_def nth_list_update)
  next
    case 2
    moreover have "xs \<noteq> []" "k = m" using 2 k assms(1) by (auto simp: u [symmetric] k_def)
    ultimately show ?thesis using e u k assms(1,5,6,9)
      by (auto simp: k_def [symmetric] refill_sim_def data_ok_def absb_def nth_list_update YY_BUFFER_NEW_def YY_BUFFER_EOF_PENDING_def)
  next
    case 3
    then show ?thesis using e assms(1,6,9)
      by (auto simp: refill_sim_def data_ok_def absb_def nth_list_update YY_BUFFER_NEW_def YY_BUFFER_EOF_PENDING_def)
  qed
qed

lemma get_next_sim:
  assumes "data_ok l bp" "text_ptr l = bp" "c_buf_p l = chars l + 1" "status l \<noteq> YY_BUFFER_NEW" "inp_ok inp"
    "yy_get_next_buffer inp m (absb bp l) i = Some (r, i')" "m = chars l - bp" "refill_size r + 2 \<le> room E" "room E < 2 ^ 31"
  shows "\<exists>a l'. get_next_buffer E inp l i = Some (Go (a, l'), i') \<and> refill_sim r a l' \<and> m \<le> chars l'"
proof -
  note ok = assms(1) [unfolded data_ok_def]
  have m: "c_buf_p l - text_ptr l - 1 = m" "m \<le> buf_size l" "bp + m \<le> length (ch_buf l)" using assms(2,3,7) ok by auto
  have yb: "yb (absb bp l) = take m (drop bp (ch_buf l))" by (simp add: absb_def assms(7))
  obtain ch where ch: "move_down (ch_buf l) 0 bp m = Go ch" "length ch = buf_size l + 2" "take m ch = yb (absb bp l)"
    using move_down_moves [of 0 bp m "ch_buf l"] ok m(3) yb by auto
  show ?thesis
  proof (cases "status l = YY_BUFFER_EOF_PENDING")
    case True
    let ?e = "l\<lparr>ch_buf := ch, chars := 0, buf_chars := 0\<rparr>"
    have g: "get_next_buffer E inp l i = Some (refill_end E m 0 ?e, i)"
      using assms(2,3) ok True m(1) ch(1) by (simp add: get_next_buffer_def Let_def)
    have r: "r = (if m = 0 then End_of_file ((absb bp l)\<lparr>yb := [], yb_eof := False\<rparr>) else Last_match (absb bp l))" "i' = i"
      using assms(6) True by (auto simp: yy_get_next_buffer_def absb_def split: if_splits)
    have "buf_size l < 2 ^ 31" using assms(8,9) r(1) by (auto simp: refill_size_def absb_def split: if_splits)
    with refill_end_sim [of ?e 0 m "yb (absb bp l)" r E] ch m(2) ok assms(4) r True g show ?thesis
      by (auto simp: absb_def)
  next
    case False
    then obtain sz where sz: "grow (buf_size l) m = Some sz"
      using assms(6) by (auto simp: yy_get_next_buffer_def absb_def split: option.splits)
    obtain n data i1 where inp: "inp (min YY_READ_BUF_SIZE (sz - m - 1)) i = ((n, data), i1)" by (metis surj_pair)
    have n: "n \<le> int (sz - m - 1)" "length data = nat n" "0 \<le> n" using assms(5) inp unfolding inp_ok_def by fastforce+
    define xs where "xs = take (nat (n + int m)) (take m (yb (absb bp l)) @ data)"
    have r: "r = (if n \<noteq> 0 then Continue_scan \<lparr>yb = xs, yb_size = sz, yb_eof = False\<rparr>
        else if m \<noteq> 0 then Last_match \<lparr>yb = xs, yb_size = sz, yb_eof = True\<rparr>
        else End_of_file \<lparr>yb = [], yb_size = sz, yb_eof = False\<rparr>)" "i' = i1" "0 \<le> n + int m"
      using assms(6) n(3) False sz inp by (auto simp: yy_get_next_buffer_def absb_def xs_def Let_def split: if_splits)
    have room: "sz + 2 \<le> room E" using assms(8) r(1) by (auto simp: refill_size_def split: if_splits)
    let ?l = "l\<lparr>ch_buf := ch\<rparr>"
    obtain ch2 where g: "grow_loop E m ?l = Some (Go (?l\<lparr>buf_size := sz, ch_buf := ch2\<rparr>))" "length ch2 = sz + 2"
      "take (buf_size l + 2) ch2 = ch" "m + 1 < sz" "buf_size l \<le> sz"
      using grow_sim [OF sz, of ?l E] ch(2) ok room assms(9) by auto
    have t: "take m ch2 = yb (absb bp l)" using g(3) m(2) ch(3) by (metis le_add1 le_trans min.absorb1 take_take)
    let ?l2 = "l\<lparr>buf_size := sz, ch_buf := overwrite m data ch2, buf_chars := n\<rparr>"
    have d: "m + length data \<le> sz + 2" using n g(4) by auto
    have "get_next_buffer E inp l i = Some (refill_end E m n ?l2, i1)"
      using assms(2,3) ok False m(1) ch(1) g(1,2) inp d by (simp add: get_next_buffer_def Let_def)
    moreover have "take (nat (n + int m)) (overwrite m data ch2) = xs"
    proof -
      have "length (take m ch2) = m" using g(2,4) by simp
      moreover have "nat (n + int m) \<le> m + length data" using n(2) by simp
      ultimately have "take (nat (n + int m)) (overwrite m data ch2) = take (nat (n + int m)) (take m ch2 @ data)"
        by (simp add: overwrite_def)
      moreover have "take m (yb (absb bp l)) = take m ch2" unfolding t yb by simp
      ultimately show ?thesis by (simp add: xs_def)
    qed
    moreover have "length (overwrite m data ch2) = sz + 2" using d g(2) by (simp add: overwrite_simps)
    moreover have "n + int m \<le> int sz" using n(1) g(4) by auto
    ultimately show ?thesis
      using refill_end_sim [of ?l2 n m xs r E] r ok assms(4) room assms(9) n(3) False by (auto simp: absb_def)
  qed
qed

section \<open>Calls refine calls\<close>

text \<open>
  Between two calls the character at \<open>c_buf_p\<close> is held and a zero byte is in its place. \<open>restb\<close> is the buffer of \<open>FlexScanner\<close>
  then, \<open>yytext\<close> the token.
\<close>

definition released :: "lexb \<Rightarrow> lexb" where
  "released l = l\<lparr>ch_buf := (ch_buf l)[c_buf_p l := hold l]\<rparr>"

definition rest_ok :: "lexb \<Rightarrow> bool" where
  "rest_ok l \<longleftrightarrow> data_ok (released l) (c_buf_p l)"

definition restb :: "lexb \<Rightarrow> ybuf" where
  "restb l = absb (c_buf_p l) (released l)"

definition yytext :: "lexb \<Rightarrow> string" where
  "yytext l = take (c_buf_p l - text_ptr l) (drop (text_ptr l) (ch_buf l))"

definition token_sim :: "token \<Rightarrow> label \<Rightarrow> lexb \<Rightarrow> bool" where
  "token_sim tok lab l \<longleftrightarrow> rest_ok l \<and>
     (case tok of
        Tok act x b \<Rightarrow> lab = L_rule act \<and> yytext l = x \<and> ch_buf l ! c_buf_p l = NUL \<and> restb l = b
      | Eof b \<Rightarrow> lab = L_eof \<and> restb l = b
      | Tok_fatal \<Rightarrow> False)"

text \<open>The token is set up.\<close>

definition marked :: "nat \<Rightarrow> nat \<Rightarrow> lexb \<Rightarrow> lexb" where
  "marked bp cp l = l\<lparr>text_ptr := bp, hold := ch_buf l ! cp, ch_buf := (ch_buf l)[cp := NUL], c_buf_p := cp\<rparr>"

lemma at_find_sim:
  assumes "data_ok l bp" "yy_find_action T st k la = (act, n)" "ft_accept T ! st = 0 \<longrightarrow> okla T len bp l la" "bp + n < length (ch_buf l)"
  shows "at_find T bp (bp + k) st l = Go (act, marked bp (bp + n) l)"
  using assms by (auto simp: at_find_def yy_find_action_def okla_def YY_DO_BEFORE_ACTION_def marked_def Let_def split: if_splits)

lemma marked_token:
  assumes "data_ok l bp" "n \<le> chars l - bp"
  shows "token_sim (token_at (act, n) (absb bp l)) (L_rule act) (marked bp (bp + n) l)"
proof -
  let ?l = "marked bp (bp + n) l"
  note ok = assms(1) [unfolded data_ok_def]
  have "released ?l = l\<lparr>text_ptr := bp, hold := ch_buf l ! (bp + n), c_buf_p := bp + n\<rparr>"
    by (simp add: released_def marked_def)
  moreover have "drop n (take (chars l - bp) (drop bp (ch_buf l))) = take (chars l - (bp + n)) (drop (bp + n) (ch_buf l))"
    by (simp add: drop_take add.commute)
  moreover have "take n (drop bp ((ch_buf l)[bp + n := NUL])) = take n (take (chars l - bp) (drop bp (ch_buf l)))"
    using assms(2) by (simp add: drop_update_swap min_absorb1)
  moreover have "bp + n < length (ch_buf l)" "bp + n \<le> chars l" using assms(2) ok by auto
  ultimately show ?thesis
    using ok by (auto simp: token_sim_def token_at_def rest_ok_def restb_def absb_def data_ok_def yytext_def marked_def)
qed

lemma lex_run_step:
  "\<not> ends_call lab \<Longrightarrow> lex_step E T inp start lab l i = Some (Go (lab', l'), i') \<Longrightarrow>
    lex_run E T inp start lab l i = lex_run E T inp start lab' l' i'"
  by (subst lex_run.simps) simp

lemma lex_run_end [simp]: "lex_run E T inp start (L_rule act) l i = Some (Go (L_rule act, l), i)"
  "lex_run E T inp start L_eof l i = Some (Go (L_eof, l), i)"
  by (subst lex_run.simps, simp add: ends_call_def)+

lemma find_token:
  assumes "data_ok l bp" "yy_find_action T st k la = (act, n)" "ft_accept T ! st = 0 \<longrightarrow> okla T len bp l la"
    "act \<noteq> 0" "act \<noteq> ft_eob T" "n \<le> chars l - bp"
  shows "\<exists>l'. lex_run E T inp start (L_find bp (bp + k) st) l i = Some (Go (L_rule act, l'), i) \<and>
    token_sim (token_at (act, n) (absb bp l)) (L_rule act) l'"
proof -
  have "bp + n < length (ch_buf l)" using assms(1,6) by (auto simp: data_ok_def)
  note f = at_find_sim [OF assms(1-3) this]
  have "lex_step E T inp start (L_find bp (bp + k) st) l i = Some (Go (L_rule act, marked bp (bp + n) l), i)"
    using f assms(4,5) by (simp add: lex_step_def)
  then have "lex_run E T inp start (L_find bp (bp + k) st) l i = Some (Go (L_rule act, marked bp (bp + n) l), i)"
    by (simp add: lex_run_step ends_call_def)
  then show ?thesis using marked_token [OF assms(1,6)] by blast
qed

lemma find_rescanned:
  assumes "data_ok l bp" "rescanned T start (chars l - bp) bp k st l la" "1 \<le> k"
  shows "\<exists>lab l'. lex_run E T inp start (L_find bp (bp + k) st) l i = Some (Go (lab, l'), i) \<and>
    token_sim (token_at (yy_find_action T st k la) (absb bp l)) lab l'"
proof -
  obtain act n where f: "yy_find_action T st k la = (act, n)" by fastforce
  have r: "ft_accept T ! st \<noteq> ft_eob T" "k \<le> chars l - bp"
    "ft_accept T ! st = 0 \<longrightarrow> okla T (chars l - bp) bp l la \<and> ft_accept T ! fst la \<noteq> ft_eob T"
    using assms(2,3) by (auto simp: rescanned_def)
  then have "act \<noteq> 0" "act \<noteq> ft_eob T" "n \<le> chars l - bp"
    using f by (auto simp: yy_find_action_def okla_def split: if_splits)
  moreover have "ft_accept T ! st = 0 \<longrightarrow> okla T (chars l - bp) bp l la" using r(3) by blast
  ultimately show ?thesis
    using find_token [OF assms(1) f, of "chars l - bp" E inp start i] unfolding f by metis
qed

subsection \<open>The end of the buffer\<close>

text \<open>What the end-of-buffer action works on: the token is matched up to \<open>n\<close>, the zero byte is taken back and the buffer is not new any more.\<close>

definition at_eob :: "nat \<Rightarrow> nat \<Rightarrow> lexb \<Rightarrow> lexb" where
  "at_eob bp n l = l\<lparr>text_ptr := bp, hold := ch_buf l ! (bp + n), c_buf_p := bp + n,
     status := (if status l = YY_BUFFER_NEW then YY_BUFFER_NORMAL else status l)\<rparr>"

lemma at_eob_data:
  assumes "data_ok l bp"
  shows "data_ok (at_eob bp n l) bp" "absb bp (at_eob bp n l) = absb bp l" "status (at_eob bp n l) \<noteq> YY_BUFFER_NEW"
    "text_ptr (at_eob bp n l) = bp" "c_buf_p (at_eob bp n l) = bp + n" "chars (at_eob bp n l) = chars l"
  using assms by (auto simp: at_eob_def data_ok_def absb_def YY_BUFFER_NEW_def YY_BUFFER_NORMAL_def YY_BUFFER_EOF_PENDING_def)

lemma find_eob:
  assumes "data_ok l bp" "yy_find_action T st k la = (ft_eob T, n)" "ft_accept T ! st = 0 \<longrightarrow> okla T len bp l la" "1 \<le> n" "ft_eob T \<noteq> 0"
    "n \<le> chars l - bp + 1"
  shows "lex_step E T inp start (L_find bp (bp + k) st) l i =
    (if n \<le> chars l - bp then map_option (\<lambda>r. (r, i)) (at_nul T start ((at_eob bp n l)\<lparr>c_buf_p := bp + (n - 1)\<rparr>))
     else (case get_next_buffer E inp (at_eob bp n l) i of
             None \<Rightarrow> None
           | Some (Go (r, l), i) \<Rightarrow> map_option (\<lambda>r. (r, i)) (at_refilled E T start (n - 1) r l)
           | Some (Exit k, i) \<Rightarrow> Some (Exit k, i)
           | Some (Crash, i) \<Rightarrow> Some (Crash, i)))"
proof -
  note ok = assms(1) [unfolded data_ok_def]
  have b: "bp + n < length (ch_buf l)" using ok assms(6) by auto
  have m: "(let l = (marked bp (bp + n) l)\<lparr>ch_buf := (ch_buf (marked bp (bp + n) l))[c_buf_p (marked bp (bp + n) l) := hold (marked bp (bp + n) l)]\<rparr>
      in if status l = YY_BUFFER_NEW then l\<lparr>chars := nat (buf_chars l), status := YY_BUFFER_NORMAL\<rparr> else l) = at_eob bp n l"
    using ok by (auto simp: marked_def at_eob_def Let_def)
  have "at_end_of_buffer E T inp start (marked bp (bp + n) l) i =
      (let amount = n - 1; l = at_eob bp n l
       in if c_buf_p l \<le> chars l then map_option (\<lambda>r. (r, i)) (at_nul T start (l\<lparr>c_buf_p := text_ptr l + amount\<rparr>))
          else (case get_next_buffer E inp l i of
             None \<Rightarrow> None
           | Some (Go (r, l), i) \<Rightarrow> map_option (\<lambda>r. (r, i)) (at_refilled E T start amount r l)
           | Some (Exit k, i) \<Rightarrow> Some (Exit k, i)
           | Some (Crash, i) \<Rightarrow> Some (Crash, i)))"
    unfolding m [symmetric] by (simp add: at_end_of_buffer_def Let_def marked_def)
  moreover have "bp + n \<le> chars l \<longleftrightarrow> n \<le> chars l - bp" using ok by auto
  ultimately show ?thesis
    using at_find_sim [OF assms(1-3) b] assms(5) at_eob_data [OF assms(1), of n] by (simp add: lex_step_def Let_def del: One_nat_def)
qed

lemma nul_sim:
  assumes "flex_ok T start" "data_ok l bp" "text_ptr l = bp" "c_buf_p l = bp + m" "m < chars l - bp"
    "yy_get_previous_state T start (take m (yb (absb bp l))) la = Some (st, la1)" "yy_try_NUL_trans T st m la1 = Some (st', la2)"
  shows "\<exists>l'. absb bp l' = absb bp l \<and> data_ok l' bp \<and> chars l' = chars l \<and>
    (if st' \<noteq> 0 then at_nul T start l = Some (Go (L_match bp (bp + (m + 1)) st', l')) \<and> scanning T start (chars l - bp) bp (m + 1) st' l' la2
     else at_nul T start l = Some (Go (L_find bp (bp + m) st, l')) \<and> rescanned T start (chars l - bp) bp m st l' la2 \<and> 1 \<le> m)"
proof -
  obtain l1 where l1: "previous_state T start l = Some (Go (l1, st))" "same_data l l1" "rescanned T start (chars l - bp) bp m st l1 la1"
    using previous_sim [OF assms(1-4) _ assms(6)] assms(5) by auto
  note f = same_data_fields [OF l1(2)]
  obtain s where s: "yy_trans T st 1 = Some s" "st' = (if s = ft_states T - 1 then 0 else s)" "la2 = remember T st m la1"
    using assms(7) by (auto simp: yy_try_NUL_trans_def split: option.splits)
  let ?l = "note_accept T st (bp + m) l1"
  have sd: "same_data l ?l" using same_data_trans [OF l1(2) same_data_note] .
  note g = same_data_fields [OF sd]
  have c1: "1 < length (ft_meta T)" "1 \<noteq> yy_class T NUL" using flex_class(3,4) [OF assms(1)] by auto
  have nx: "rescanned T start (chars l - bp) bp (m + 1) s ?l la2"
    using rescanned_next [OF assms(1) l1(3) assms(5) c1 s(1)] s(3) by simp
  have nul: "try_NUL_trans T st l1 = Some (?l, st')"
    using s(1,2) f(7) assms(4) by (simp add: try_NUL_trans_def)
  show ?thesis
  proof (cases "st' = 0")
    case False
    let ?l' = "?l\<lparr>c_buf_p := bp + (m + 1)\<rparr>"
    have "at_nul T start l = Some (Go (L_match bp (bp + (m + 1)) st', ?l'))"
      using l1(1) nul False g(7,8) assms(3,4) by (simp add: at_nul_def)
    moreover have "scanning T start (chars l - bp) bp (m + 1) st' ?l' la2"
      using rescanned_scanning [OF nx] False s(2) by (auto simp: scanning_def okla_def)
    moreover have "absb bp ?l' = absb bp l" "data_ok ?l' bp" "chars ?l' = chars l"
      using same_data_abs [OF sd, of bp] same_data_ok [OF sd assms(2)] g(9) by (auto simp: absb_def data_ok_def)
    ultimately show ?thesis using False by auto
  next
    case True
    have "s \<noteq> 0" using nx by (simp add: rescanned_def)
    then have "s = ft_states T - 1" using True s(2) by (auto split: if_splits)
    then have "1 \<le> m" using l1(3) s(1) flex_start [OF assms(1)] by (auto simp: rescanned_def)
    moreover have "rescanned T start (chars l - bp) bp m st ?l la2"
      using l1(3) s(3) by (cases "ft_accept T ! st = 0") (auto simp: rescanned_def note_accept_def remember_def)
    moreover have "at_nul T start l = Some (Go (L_find bp (bp + m) st, ?l))"
      using l1(1) nul True g(7,8) assms(3,4) by (simp add: at_nul_def)
    ultimately show ?thesis
      using True same_data_abs [OF sd, of bp] same_data_ok [OF sd assms(2)] g(9) by auto
  qed
qed

lemma refilled_sim:
  assumes "flex_ok T start" "yywrap E" "refill_sim r a l" "m \<le> chars l"
    "case r of
       Fatal \<Rightarrow> False
     | End_of_file b \<Rightarrow> tok = Eof b \<and> i' = i \<and> C
     | Continue_scan b \<Rightarrow>
         (\<exists>st la1. yy_get_previous_state T start (take m (yb b)) la = Some (st, la1) \<and>
            (\<forall>l. data_ok l 0 \<longrightarrow> absb 0 l = b \<longrightarrow> scanning T start (chars l) 0 m st l la1 \<longrightarrow>
               C \<and> (\<exists>lab l'. lex_run E T inp start (L_match 0 m st) l i = Some (Go (lab, l'), i') \<and> token_sim tok lab l')))
     | Last_match b \<Rightarrow>
         (\<exists>st la1. yy_get_previous_state T start (yb b) la = Some (st, la1) \<and>
            tok = token_at (yy_find_action T st (length (yb b)) la1) b \<and> i' = i \<and> C)"
  shows "C \<and> (\<exists>lab l1 lab' l'. at_refilled E T start m a l = Some (Go (lab, l1)) \<and>
    lex_run E T inp start lab l1 i = Some (Go (lab', l'), i') \<and> token_sim tok lab' l')"
proof (cases r)
  case (Continue_scan b)
  then have r: "a = EOB_ACT_CONTINUE_SCAN" "absb 0 l = b" "data_ok l 0" "text_ptr l = 0" using assms(3) by (auto simp: refill_sim_def)
  from assms(5) Continue_scan obtain st la1 where p: "yy_get_previous_state T start (take m (yb b)) la = Some (st, la1)"
    and run: "\<forall>l. data_ok l 0 \<longrightarrow> absb 0 l = b \<longrightarrow> scanning T start (chars l) 0 m st l la1 \<longrightarrow>
      C \<and> (\<exists>lab l'. lex_run E T inp start (L_match 0 m st) l i = Some (Go (lab, l'), i') \<and> token_sim tok lab l')" by auto
  let ?l = "l\<lparr>c_buf_p := m\<rparr>"
  have d: "data_ok ?l 0" "absb 0 ?l = b" using r(2,3) by (auto simp: data_ok_def absb_def)
  obtain l1 where l1: "previous_state T start ?l = Some (Go (l1, st))" "same_data ?l l1" "rescanned T start (chars l) 0 m st l1 la1"
    using previous_sim [OF assms(1) d(1), of m la st la1] p r(4) d(2) assms(4) by auto
  note f = same_data_fields [OF l1(2)]
  have "at_refilled E T start m a l = Some (Go (L_match 0 m st, l1))"
    using l1(1) f r(1,4) by (simp add: at_refilled_def Let_def)
  moreover have "scanning T start (chars l1) 0 m st l1 la1" using rescanned_scanning [OF l1(3)] f by simp
  ultimately show ?thesis
    using run same_data_ok [OF l1(2) d(1)] same_data_abs [OF l1(2), of 0] d(2) by blast
next
  case (Last_match b)
  then have r: "a = EOB_ACT_LAST_MATCH" "absb 0 l = b" "data_ok l 0" "text_ptr l = 0" "yb b \<noteq> []" using assms(3) by (auto simp: refill_sim_def)
  from assms(5) Last_match obtain st la1 where p: "yy_get_previous_state T start (yb b) la = Some (st, la1)"
    and tok: "tok = token_at (yy_find_action T st (length (yb b)) la1) b" "i' = i" C by auto
  have len: "length (yb b) = chars l" using data_text(1) [OF r(3)] r(2) by simp
  let ?l = "l\<lparr>c_buf_p := chars l\<rparr>"
  have d: "data_ok ?l 0" "absb 0 ?l = b" using r(2,3) by (auto simp: data_ok_def absb_def)
  obtain l1 where l1: "previous_state T start ?l = Some (Go (l1, st))" "same_data ?l l1" "rescanned T start (chars l) 0 (chars l) st l1 la1"
    using previous_sim [OF assms(1) d(1), of "chars l" la st la1] p r(4) d(2) len by auto
  note f = same_data_fields [OF l1(2)]
  have "at_refilled E T start m a l = Some (Go (L_find 0 (0 + chars l) st, l1))"
    using l1(1) f r(1,4) by (simp add: at_refilled_def Let_def)
  moreover have "1 \<le> chars l" using r(5) len by (cases "yb b") auto
  moreover have "rescanned T start (chars l1 - 0) 0 (chars l) st l1 la1" using l1(3) f by simp
  ultimately show ?thesis
    using find_rescanned [OF same_data_ok [OF l1(2) d(1)], of T start "chars l" st la1 E inp i] tok len same_data_abs [OF l1(2), of 0] d(2)
    by auto
next
  case (End_of_file b)
  then have r: "a = EOB_ACT_END_OF_FILE" "absb 0 l = b" "data_ok l 0" "text_ptr l = 0" "chars l = 0" "hold l = NUL" "tok = Eof b" "i' = i" C
    using assms(3,5) by (auto simp: refill_sim_def)
  let ?l = "l\<lparr>c_buf_p := 0\<rparr>"
  have "(ch_buf l)[0 := NUL] = ch_buf l" using r(3,5) by (metis data_ok_def list_update_id)
  then have "released ?l = ?l" using r(6) by (simp add: released_def)
  then have "token_sim tok L_eof ?l" using r(2,3,7) by (auto simp: token_sim_def rest_ok_def restb_def data_ok_def absb_def)
  then show ?thesis using r(1,4,8,9) assms(2) by (auto simp: at_refilled_def)
qed (use assms in auto)

text \<open>The ways a scan of \<open>FlexScanner\<close> comes to its token, as rules.\<close>

inductive scans :: "flex \<Rightarrow> (nat \<Rightarrow> 'i \<Rightarrow> (int \<times> string) \<times> 'i) \<Rightarrow> nat \<Rightarrow> ybuf \<Rightarrow> 'i \<Rightarrow> nat \<Rightarrow> nat \<Rightarrow> nat \<times> nat \<Rightarrow> token \<Rightarrow> 'i \<Rightarrow> bool"
  for T inp start where
  found: "yy_match T (drop k (yb b @ [NUL, NUL])) k st la = Some (st1, k1, la1) \<Longrightarrow> yy_find_action T st1 k1 la1 = (act, n) \<Longrightarrow>
    act \<noteq> ft_eob T \<Longrightarrow> scans T inp start b i k st la (token_at (act, n) b) i"
| nul_on: "yy_match T (drop k (yb b @ [NUL, NUL])) k st la = Some (st1, k1, la1) \<Longrightarrow> yy_find_action T st1 k1 la1 = (ft_eob T, n) \<Longrightarrow>
    n \<le> length (yb b) \<Longrightarrow> yy_get_previous_state T start (take (n - 1) (yb b)) la1 = Some (st2, la2) \<Longrightarrow>
    yy_try_NUL_trans T st2 (n - 1) la2 = Some (st3, la3) \<Longrightarrow> st3 \<noteq> 0 \<Longrightarrow> scans T inp start b i n st3 la3 tok i' \<Longrightarrow>
    scans T inp start b i k st la tok i'"
| nul_stop: "yy_match T (drop k (yb b @ [NUL, NUL])) k st la = Some (st1, k1, la1) \<Longrightarrow> yy_find_action T st1 k1 la1 = (ft_eob T, n) \<Longrightarrow>
    n \<le> length (yb b) \<Longrightarrow> yy_get_previous_state T start (take (n - 1) (yb b)) la1 = Some (st2, la2) \<Longrightarrow>
    yy_try_NUL_trans T st2 (n - 1) la2 = Some (0, la3) \<Longrightarrow>
    scans T inp start b i k st la (token_at (yy_find_action T st2 (n - 1) la3) b) i"
| refilled: "yy_match T (drop k (yb b @ [NUL, NUL])) k st la = Some (st1, k1, la1) \<Longrightarrow> yy_find_action T st1 k1 la1 = (ft_eob T, n) \<Longrightarrow>
    length (yb b) < n \<Longrightarrow> yy_get_next_buffer inp (n - 1) b i = Some (Continue_scan b', j) \<Longrightarrow>
    yy_get_previous_state T start (take (n - 1) (yb b')) la1 = Some (st2, la2) \<Longrightarrow> scans T inp start b' j (n - 1) st2 la2 tok i' \<Longrightarrow>
    scans T inp start b i k st la tok i'"
| last_match: "yy_match T (drop k (yb b @ [NUL, NUL])) k st la = Some (st1, k1, la1) \<Longrightarrow> yy_find_action T st1 k1 la1 = (ft_eob T, n) \<Longrightarrow>
    length (yb b) < n \<Longrightarrow> yy_get_next_buffer inp (n - 1) b i = Some (Last_match b', j) \<Longrightarrow>
    yy_get_previous_state T start (yb b') la1 = Some (st2, la2) \<Longrightarrow>
    scans T inp start b i k st la (token_at (yy_find_action T st2 (length (yb b')) la2) b') j"
| ended: "yy_match T (drop k (yb b @ [NUL, NUL])) k st la = Some (st1, k1, la1) \<Longrightarrow> yy_find_action T st1 k1 la1 = (ft_eob T, n) \<Longrightarrow>
    length (yb b) < n \<Longrightarrow> yy_get_next_buffer inp (n - 1) b i = Some (End_of_file b', j) \<Longrightarrow> scans T inp start b i k st la (Eof b') j"
| failed: "yy_match T (drop k (yb b @ [NUL, NUL])) k st la = Some (st1, k1, la1) \<Longrightarrow> yy_find_action T st1 k1 la1 = (ft_eob T, n) \<Longrightarrow>
    length (yb b) < n \<Longrightarrow> yy_get_next_buffer inp (n - 1) b i = Some (Fatal, j) \<Longrightarrow> scans T inp start b i k st la Tok_fatal j"

lemma scan_scans:
  assumes "yy_scan T inp start b i k st la = Some (tok, i')"
  shows "scans T inp start b i k st la tok i'"
proof -
  let ?P = "\<lambda>T inp start b i k st la r. scans T inp start b i k st la (fst r) (snd r)"
  have "?P T inp start b i k st la (tok, i')"
  proof (rule yy_scan.raw_induct [where P = ?P, OF _ assms], goal_cases)
    case (1 f T inp start b i k st la r)
    note IH = 1(1) and eq = 1(2)
    obtain st1 k1 la1 act n where m: "yy_match T (drop k (yb b @ [NUL, NUL])) k st la = Some (st1, k1, la1)"
      "yy_find_action T st1 k1 la1 = (act, n)" using eq by (auto split: option.splits prod.splits)
    show ?case
    proof (cases "act = ft_eob T")
      case False
      with eq m found [OF m] show ?thesis by auto
    next
      case act: True
      note m = m [unfolded act]
      show ?thesis
      proof (cases "n \<le> length (yb b)")
        case True
        with eq m obtain st2 la2 st3 la3 where p: "yy_get_previous_state T start (take (n - 1) (yb b)) la1 = Some (st2, la2)"
          "yy_try_NUL_trans T st2 (n - 1) la2 = Some (st3, la3)" by (auto split: option.splits)
        show ?thesis
        proof (cases "st3 = 0")
          case zero: True
          then show ?thesis using eq m p True nul_stop [OF m True p(1) p(2) [unfolded zero]] by auto
        next
          case False
          then have "f T inp start b i n st3 la3 = Some r" using eq m p True by simp
          from IH [OF this] show ?thesis by (rule nul_on [OF m True p False])
        qed
      next
        case False
        then have n: "length (yb b) < n" by simp
        with eq m obtain q j where q: "yy_get_next_buffer inp (n - 1) b i = Some (q, j)" by (auto split: option.splits)
        show ?thesis
        proof (cases q)
          case (Continue_scan b')
          with eq m n q obtain st2 la2 where p: "yy_get_previous_state T start (take (n - 1) (yb b')) la1 = Some (st2, la2)"
            "f T inp start b' j (n - 1) st2 la2 = Some r" by (auto split: option.splits)
          from IH [OF p(2)] show ?thesis by (rule refilled [OF m n q [unfolded Continue_scan] p(1)])
        next
          case (Last_match b')
          with eq m n q last_match [OF m n, of inp i b' j start] show ?thesis by (auto split: option.splits)
        qed (use eq m n q ended [OF m n, of inp i _ j start] failed [OF m n, of inp i j start] in auto)
      qed
    qed
  qed
  then show ?thesis by simp
qed

text \<open>A scan that has come to the end of its match.\<close>

lemma run_find:
  assumes "flex_ok T start" "data_ok l bp" "absb bp l = b" "scanning T start (chars l - bp) bp k st l la"
    "yy_match T (drop k (yb b @ [NUL, NUL])) k st la = Some (st1, k1, la1)" "yy_find_action T st1 k1 la1 = (act, n)"
  obtains l1 where "lex_run E T inp start (L_match bp (bp + k) st) l i = lex_run E T inp start (L_find bp (bp + k1) st1) l1 i"
    "data_ok l1 bp" "absb bp l1 = b" "chars l1 = chars l" "ft_accept T ! st1 = 0 \<longrightarrow> okla T (chars l - bp) bp l1 la1"
    "act \<noteq> 0" "1 \<le> n" "n \<le> chars l - bp + 1" "act \<noteq> ft_eob T \<longrightarrow> n \<le> chars l - bp"
proof -
  obtain l1 where l1: "match_loop T l (bp + k) st = Some (Go (l1, bp + k1, st1))" "same_data l l1"
    "if ft_accept T ! st1 = 0 then okla T (chars l - bp) bp l1 la1
     else 1 \<le> k1 \<and> k1 \<le> chars l - bp + 1 \<and> (ft_accept T ! st1 \<noteq> ft_eob T \<longrightarrow> k1 \<le> chars l - bp)"
    using match_sim [OF assms(1,2) refl _ assms(4)] assms(3,5) by metis
  have "lex_step E T inp start (L_match bp (bp + k) st) l i = Some (Go (L_find bp (bp + k1) st1, l1), i)"
    using l1(1) by (simp add: lex_step_def)
  then have "lex_run E T inp start (L_match bp (bp + k) st) l i = lex_run E T inp start (L_find bp (bp + k1) st1) l1 i"
    by (simp add: lex_run_step ends_call_def)
  moreover have "act \<noteq> 0" "1 \<le> n" "n \<le> chars l - bp + 1" "act \<noteq> ft_eob T \<longrightarrow> n \<le> chars l - bp"
    using l1(3) assms(6) by (auto simp: yy_find_action_def okla_def split: if_splits)
  ultimately show thesis
    using that l1(3) same_data_ok [OF l1(2) assms(2)] same_data_abs [OF l1(2), of bp] assms(3) same_data_fields(9) [OF l1(2)] by auto
qed

lemma run_nul:
  assumes "flex_ok T start" "data_ok l bp" "absb bp l = b" "scanning T start (chars l - bp) bp k st l la"
    "yy_match T (drop k (yb b @ [NUL, NUL])) k st la = Some (st1, k1, la1)" "yy_find_action T st1 k1 la1 = (ft_eob T, n)" "n \<le> length (yb b)"
    "yy_get_previous_state T start (take (n - 1) (yb b)) la1 = Some (st2, la2)" "yy_try_NUL_trans T st2 (n - 1) la2 = Some (st3, la3)"
  obtains l' where "absb bp l' = b" "data_ok l' bp"
    "if st3 \<noteq> 0
     then lex_run E T inp start (L_match bp (bp + k) st) l i = lex_run E T inp start (L_match bp (bp + n) st3) l' i \<and>
       scanning T start (chars l' - bp) bp n st3 l' la3
     else lex_run E T inp start (L_match bp (bp + k) st) l i = lex_run E T inp start (L_find bp (bp + (n - 1)) st2) l' i \<and>
       rescanned T start (chars l' - bp) bp (n - 1) st2 l' la3 \<and> 1 \<le> n - 1"
proof -
  obtain l1 where l1: "lex_run E T inp start (L_match bp (bp + k) st) l i = lex_run E T inp start (L_find bp (bp + k1) st1) l1 i"
    "data_ok l1 bp" "absb bp l1 = b" "ft_accept T ! st1 = 0 \<longrightarrow> okla T (chars l1 - bp) bp l1 la1" "1 \<le> n" "ft_eob T \<noteq> 0"
    using run_find [OF assms(1-6)] by metis
  have n: "n \<le> chars l1 - bp" using l1(3) assms(7) data_text(1) [OF l1(2)] by simp
  let ?l = "(at_eob bp n l1)\<lparr>c_buf_p := bp + (n - 1)\<rparr>"
  have d: "data_ok ?l bp" "absb bp ?l = b" "text_ptr ?l = bp" "chars ?l = chars l1"
    using at_eob_data [OF l1(2), of n] l1(3) by (auto simp: data_ok_def absb_def)
  have m: "n - 1 + 1 = n" "n - 1 < chars l1 - bp" "c_buf_p ?l = bp + (n - 1)" using l1(5) n by auto
  from nul_sim [OF assms(1) d(1,3) m(3) _ _ assms(9), unfolded d(2,4) m(1), OF m(2) assms(8)] obtain l' where
    l': "absb bp l' = b" "data_ok l' bp" "chars l' = chars l1"
    "if st3 \<noteq> 0 then at_nul T start ?l = Some (Go (L_match bp (bp + n) st3, l')) \<and> scanning T start (chars l1 - bp) bp n st3 l' la3
     else at_nul T start ?l = Some (Go (L_find bp (bp + (n - 1)) st2, l')) \<and> rescanned T start (chars l1 - bp) bp (n - 1) st2 l' la3 \<and> 1 \<le> n - 1"
    by blast
  have "lex_step E T inp start (L_find bp (bp + k1) st1) l1 i = map_option (\<lambda>r. (r, i)) (at_nul T start ?l)"
    using find_eob [OF l1(2) assms(6) l1(4,5,6)] n by simp
  with l1(1) l' show thesis using that [of l'] by (auto simp: lex_run_step ends_call_def split: if_splits)
qed

lemma run_refill:
  assumes "flex_ok T start" "data_ok l bp" "absb bp l = b" "scanning T start (chars l - bp) bp k st l la"
    "yy_match T (drop k (yb b @ [NUL, NUL])) k st la = Some (st1, k1, la1)" "yy_find_action T st1 k1 la1 = (ft_eob T, n)" "length (yb b) < n"
    "yy_get_next_buffer inp (n - 1) b i = Some (r, j)" "refill_size r + 2 \<le> room E" "room E < 2 ^ 31" "yywrap E" "inp_ok inp"
    "case r of
       Fatal \<Rightarrow> False
     | End_of_file b \<Rightarrow> tok = Eof b \<and> i' = j \<and> C
     | Continue_scan b \<Rightarrow>
         (\<exists>st la2. yy_get_previous_state T start (take (n - 1) (yb b)) la1 = Some (st, la2) \<and>
            (\<forall>l. data_ok l 0 \<longrightarrow> absb 0 l = b \<longrightarrow> scanning T start (chars l) 0 (n - 1) st l la2 \<longrightarrow>
               C \<and> (\<exists>lab l'. lex_run E T inp start (L_match 0 (n - 1) st) l j = Some (Go (lab, l'), i') \<and> token_sim tok lab l')))
     | Last_match b \<Rightarrow>
         (\<exists>st la2. yy_get_previous_state T start (yb b) la1 = Some (st, la2) \<and>
            tok = token_at (yy_find_action T st (length (yb b)) la2) b \<and> i' = j \<and> C)"
  shows "C \<and> (\<exists>lab l'. lex_run E T inp start (L_match bp (bp + k) st) l i = Some (Go (lab, l'), i') \<and> token_sim tok lab l')"
proof -
  obtain l1 where l1: "lex_run E T inp start (L_match bp (bp + k) st) l i = lex_run E T inp start (L_find bp (bp + k1) st1) l1 i"
    "data_ok l1 bp" "absb bp l1 = b" "ft_accept T ! st1 = 0 \<longrightarrow> okla T (chars l1 - bp) bp l1 la1" "1 \<le> n" "ft_eob T \<noteq> 0" "n \<le> chars l1 - bp + 1"
    using run_find [OF assms(1-6)] by metis
  have n: "n = chars l1 - bp + 1" "\<not> n \<le> chars l1 - bp" using l1(3,7) assms(7) data_text(1) [OF l1(2)] by auto
  note d = at_eob_data [OF l1(2), of n]
  have "c_buf_p (at_eob bp n l1) = chars (at_eob bp n l1) + 1" "n - 1 = chars (at_eob bp n l1) - bp"
    using d l1(2) n by (auto simp: data_ok_def)
  from get_next_sim [OF d(1,4) this(1) d(3) assms(12) _ this(2) assms(9,10)] assms(8) l1(3) d(2)
  obtain a l2 where g: "get_next_buffer E inp (at_eob bp n l1) i = Some (Go (a, l2), j)" "refill_sim r a l2" "n - 1 \<le> chars l2" by metis
  from refilled_sim [OF assms(1,11) g(2,3) assms(13)] obtain lab l3 lab' l' where
    r: "at_refilled E T start (n - 1) a l2 = Some (Go (lab, l3))" "lex_run E T inp start lab l3 j = Some (Go (lab', l'), i')" "token_sim tok lab' l'" C
    by metis
  have "lex_step E T inp start (L_find bp (bp + k1) st1) l1 i = Some (Go (lab, l3), j)"
    using find_eob [OF l1(2) assms(6) l1(4-7), of E inp start i] n(2) g(1) r(1) by (simp del: One_nat_def)
  then show ?thesis using l1(1) r(2-4) by (auto simp: lex_run_step ends_call_def)
qed

subsection \<open>Calls\<close>

text \<open>
  What a scanner has to know of its input: \<open>I\<close> is an invariant of the characters that are left and of the input, under which a refill
  never fails and needs no more than \<open>M\<close> bytes.
\<close>

locale scanner_input =
  fixes inp :: "nat \<Rightarrow> 'i \<Rightarrow> (int \<times> string) \<times> 'i" and I :: "ybuf \<Rightarrow> 'i \<Rightarrow> bool" and M :: nat
  assumes inp: "inp_ok inp"
    and refill: "I b i \<Longrightarrow> m \<le> length (yb b) \<Longrightarrow> yy_get_next_buffer inp m b i = Some (r, j) \<Longrightarrow>
      \<exists>b'. r \<in> {Continue_scan b', Last_match b', End_of_file b'} \<and> yb_size b' \<le> M \<and> I b' j"
    and consume: "I b i \<Longrightarrow> I (b\<lparr>yb := drop n (yb b)\<rparr>) i"
begin

lemma token_at_inv: "I b i \<Longrightarrow> case token_at a b of Tok act x b' \<Rightarrow> I b' i | Eof b' \<Rightarrow> I b' i | Tok_fatal \<Rightarrow> False"
  using consume by (simp add: token_at_def)

lemma refill_run:
  assumes "flex_ok T start" "data_ok l bp" "absb bp l = b" "scanning T start (chars l - bp) bp k st l la"
    "yy_match T (drop k (yb b @ [NUL, NUL])) k st la = Some (st1, k1, la1)" "yy_find_action T st1 k1 la1 = (ft_eob T, n)"
    "yy_get_next_buffer inp (n - 1) b i = Some (r, j)" "I b i" "M + 2 \<le> room E"
  shows "\<exists>b'. r \<in> {Continue_scan b', Last_match b', End_of_file b'} \<and> I b' j" "refill_size r + 2 \<le> room E"
proof -
  have "n \<le> chars l - bp + 1" using run_find [OF assms(1-6)] by metis
  then have "n - 1 \<le> length (yb b)" using data_text(1) [OF assms(2)] assms(3) by auto
  from refill [OF assms(8) this assms(7)]
  show "\<exists>b'. r \<in> {Continue_scan b', Last_match b', End_of_file b'} \<and> I b' j" "refill_size r + 2 \<le> room E"
    using assms(9) by (auto simp: refill_size_def)
qed

lemma scans_run:
  assumes "scans T inp start b i k st la tok i'" "I b i" "M + 2 \<le> room E" "room E < 2 ^ 31" "yywrap E"
    "flex_ok T start" "data_ok l bp" "absb bp l = b" "scanning T start (chars l - bp) bp k st l la"
  shows "(case tok of Tok act x b' \<Rightarrow> I b' i' | Eof b' \<Rightarrow> I b' i' | Tok_fatal \<Rightarrow> False) \<and>
    (\<exists>lab l'. lex_run E T inp start (L_match bp (bp + k) st) l i = Some (Go (lab, l'), i') \<and> token_sim tok lab l')"
  using assms(1,2,7-)
proof (induction arbitrary: l bp rule: scans.induct)
  case (found k b st la st1 k1 la1 act n i)
  obtain l1 where l1: "lex_run E T inp start (L_match bp (bp + k) st) l i = lex_run E T inp start (L_find bp (bp + k1) st1) l1 i"
    "data_ok l1 bp" "absb bp l1 = b" "ft_accept T ! st1 = 0 \<longrightarrow> okla T (chars l - bp) bp l1 la1" "act \<noteq> 0" "n \<le> chars l1 - bp"
    using run_find [OF assms(6) found.prems(2-4) found.hyps(1,2)] found.hyps(3) by metis
  then show ?case
    using find_token [OF l1(2) found.hyps(2) l1(4,5) found.hyps(3), of E inp start i] token_at_inv [OF found.prems(1)] by auto
next
  case (nul_on k b st la st1 k1 la1 n st2 la2 st3 la3 i tok i')
  from run_nul [OF assms(6) nul_on.prems(2-4) nul_on.hyps(1-5)] nul_on.hyps(6)
  obtain l2 where "lex_run E T inp start (L_match bp (bp + k) st) l i = lex_run E T inp start (L_match bp (bp + n) st3) l2 i"
    "absb bp l2 = b" "data_ok l2 bp" "scanning T start (chars l2 - bp) bp n st3 l2 la3" by metis
  then show ?case using nul_on.IH [OF nul_on.prems(1), of l2 bp] by simp
next
  case (nul_stop k b st la st1 k1 la1 n st2 la2 la3 i)
  from run_nul [OF assms(6) nul_stop.prems(2-4) nul_stop.hyps(1-5)]
  obtain l2 where "lex_run E T inp start (L_match bp (bp + k) st) l i = lex_run E T inp start (L_find bp (bp + (n - 1)) st2) l2 i"
    "absb bp l2 = b" "data_ok l2 bp" "rescanned T start (chars l2 - bp) bp (n - 1) st2 l2 la3" "1 \<le> n - 1" by metis
  then show ?case
    using find_rescanned [of l2 bp T start "n - 1" st2 la3 E inp i] token_at_inv [OF nul_stop.prems(1)] by simp
next
  case (refilled k b st la st1 k1 la1 n i b' j st2 la2 tok i')
  note r = refill_run [OF assms(6) refilled.prems(2-4) refilled.hyps(1,2,4) refilled.prems(1) assms(3)]
  have "I b' j" using r(1) by auto
  from refilled.IH [OF this, of _ 0] refilled.hyps(5) show ?case
    by (intro run_refill [OF assms(6) refilled.prems(2-4) refilled.hyps(1-4) r(2) assms(4,5) inp]) (cases la2, simp)
next
  case (last_match k b st la st1 k1 la1 n i b' j st2 la2)
  note r = refill_run [OF assms(6) last_match.prems(2-4) last_match.hyps(1,2,4) last_match.prems(1) assms(3)]
  then have "I b' j" by auto
  from token_at_inv [OF this] last_match.hyps(5) show ?case
    by (intro run_refill [OF assms(6) last_match.prems(2-4) last_match.hyps(1-4) r(2) assms(4,5) inp]) simp
next
  case (ended k b st la st1 k1 la1 n i b' j)
  note r = refill_run [OF assms(6) ended.prems(2-4) ended.hyps(1,2,4) ended.prems(1) assms(3)]
  then have "I b' j" by auto
  then show ?case
    by (intro run_refill [OF assms(6) ended.prems(2-4) ended.hyps(1-4) r(2) assms(4,5) inp]) simp
next
  case (failed k b st la st1 k1 la1 n i j)
  then show ?case using refill_run(1) [OF assms(6) failed.prems(2-4) failed.hyps(1,2,4) failed.prems(1) assms(3)] by simp
qed

lemma call_run:
  assumes "scans T inp start (restb l) i 0 start la tok i'" "rest_ok l" "I (restb l) i" "M + 2 \<le> room E" "room E < 2 ^ 31" "yywrap E"
    "flex_ok T start"
  shows "(case tok of Tok act x b' \<Rightarrow> I b' i' | Eof b' \<Rightarrow> I b' i' | Tok_fatal \<Rightarrow> False) \<and>
    (\<exists>lab l'. lex_run E T inp start L_top l i = Some (Go (lab, l'), i') \<and> token_sim tok lab l')"
proof -
  let ?l = "released l"
  have "c_buf_p l < length (ch_buf l)" using assms(2) by (auto simp: rest_ok_def data_ok_def released_def)
  then have "lex_step E T inp start L_top l i = Some (Go (L_match (c_buf_p l) (c_buf_p l + 0) start, ?l), i)"
    by (simp add: lex_step_def put_char_def released_def)
  then have "lex_run E T inp start L_top l i = lex_run E T inp start (L_match (c_buf_p l) (c_buf_p l + 0) start) ?l i"
    by (simp add: lex_run_step ends_call_def)
  moreover have "scanning T start (chars ?l - c_buf_p l) (c_buf_p l) 0 start ?l la"
    using flex_start [OF assms(7)] by (simp add: scanning_def)
  ultimately show ?thesis
    using scans_run [OF assms(1,3-7) _ restb_def [symmetric]] assms(2) unfolding rest_ok_def by metis
qed

end

text \<open>The input a scan has read, and the buffer it leaves at the end of the file.\<close>

lemma scans_frame:
  assumes "scans T inp start b i k st la tok i'" "\<And>m j. f (snd (inp m j)) = f j"
  shows "f i' = f i"
proof -
  have "f j = f i" if "yy_get_next_buffer inp m b i = Some (r, j)" for m b r i j
    using that assms(2) by (auto simp: yy_get_next_buffer_def Let_def split: if_splits option.splits prod.splits) (metis snd_conv)+
  with assms(1) show ?thesis by (induction rule: scans.induct) metis+
qed

lemma scans_eof: "scans T inp start b i k st la tok i' \<Longrightarrow> tok = Eof b' \<Longrightarrow> yb b' = [] \<and> \<not> yb_eof b'"
proof (induction rule: scans.induct)
  case (ended k b st la st1 k1 la1 n i b'' j)
  then show ?case by (auto simp: yy_get_next_buffer_def Let_def split: if_splits option.splits prod.splits)
qed (simp_all add: token_at_def)

end
