(* ===== verification/LexInput.thy ===== *)
theory LexInput
  imports LexRefine
begin

text \<open>
  The two functions of \<open>src/2/xyshell-read-only/study/msh/lex.yy.c\<close> by which an action reads and gives back characters itself: \<open>input\<close> and
  \<open>yyunput\<close>, on the array of \<open>LexEngine\<close>, and what they do to the characters that are left.
\<close>

section \<open>Giving a character back\<close>

text \<open>The loop that moves everything up to the end of the array; \<open>n\<close> is \<open>source\<close>.\<close>

fun move_up :: "string \<Rightarrow> nat \<Rightarrow> nat \<Rightarrow> string sh" where
  "move_up ch dest 0 = Go ch"
| "move_up ch dest (Suc n) =
     (if dest = 0 \<or> length ch < dest \<or> length ch \<le> n then Crash else move_up (ch[dest - 1 := ch ! n]) (dest - 1) n)"

definition yyunput :: "char \<Rightarrow> nat \<Rightarrow> lexb \<Rightarrow> lexb sh" where
  "yyunput c bp l =
     sbind (put_char (c_buf_p l) (hold l) l) (\<lambda>l.
     sbind (if c_buf_p l < 2 then
              sbind (move_up (ch_buf l) (buf_size l + 2) (chars l + 2)) (\<lambda>ch.
                (let d = buf_size l - chars l;
                     l = l\<lparr>ch_buf := ch, buf_chars := int (buf_size l), chars := buf_size l\<rparr>
                 in if c_buf_p l + d < 2 then Exit 2 else Go (l, c_buf_p l + d, bp + d)))
            else Go (l, c_buf_p l, bp)) (\<lambda>(l, cp, bp).
     sbind (put_char (cp - 1) c l) (\<lambda>l. Go (l\<lparr>text_ptr := bp, hold := ch_buf l ! (cp - 1), c_buf_p := cp - 1\<rparr>))))"

section \<open>Reading a character\<close>

definition EOF :: int where "EOF = - 1"

definition input_char :: "lexb \<Rightarrow> (int \<times> lexb) sh" where
  "input_char l =
     (if length (ch_buf l) \<le> c_buf_p l + 1 then Crash
      else Go (int (of_char (ch_buf l ! c_buf_p l)),
               l\<lparr>ch_buf := (ch_buf l)[c_buf_p l := NUL], hold := ch_buf l ! (c_buf_p l + 1), c_buf_p := c_buf_p l + 1\<rparr>))"

partial_function (option) lex_input ::
  "lexenv \<Rightarrow> (nat \<Rightarrow> 'i \<Rightarrow> (int \<times> string) \<times> 'i) \<Rightarrow> lexb \<Rightarrow> 'i \<Rightarrow> ((int \<times> lexb) sh \<times> 'i) option" where
  "lex_input E inp l i =
     (case put_char (c_buf_p l) (hold l) l of
        Exit k \<Rightarrow> Some (Exit k, i)
      | Crash \<Rightarrow> Some (Crash, i)
      | Go l \<Rightarrow>
          if ch_buf l ! c_buf_p l \<noteq> NUL \<or> c_buf_p l < chars l then Some (input_char l, i)
          else
            (let offset = c_buf_p l - text_ptr l
             in case get_next_buffer E inp (l\<lparr>c_buf_p := c_buf_p l + 1\<rparr>) i of
                  None \<Rightarrow> None
                | Some (Exit k, i) \<Rightarrow> Some (Exit k, i)
                | Some (Crash, i) \<Rightarrow> Some (Crash, i)
                | Some (Go (r, l), i) \<Rightarrow>
                    if r = EOB_ACT_CONTINUE_SCAN then Some (input_char (l\<lparr>c_buf_p := text_ptr l + offset\<rparr>), i)
                    else
                      (case (if r = EOB_ACT_LAST_MATCH then restart l else Go l) of
                         Exit k \<Rightarrow> Some (Exit k, i)
                       | Crash \<Rightarrow> Some (Crash, i)
                       | Go l \<Rightarrow>
                           if yywrap E then Some (Go (EOF, l), i)
                           else
                             (case restart l of
                                Exit k \<Rightarrow> Some (Exit k, i)
                              | Crash \<Rightarrow> Some (Crash, i)
                              | Go l \<Rightarrow> lex_input E inp l i))))"

section \<open>What they do to the characters that are left\<close>

lemma move_up_moves:
  assumes "n \<le> dest" "dest \<le> length ch"
  shows "\<exists>ch'. move_up ch dest n = Go ch' \<and> length ch' = length ch \<and> (\<forall>k<n. ch' ! (dest - n + k) = ch ! k) \<and>
    (\<forall>k. dest \<le> k \<longrightarrow> ch' ! k = ch ! k)"
  using assms
proof (induction n arbitrary: ch dest)
  case (Suc n)
  let ?ch = "ch[dest - 1 := ch ! n]"
  have "n \<le> dest - 1" "dest - 1 \<le> length ?ch" using Suc.prems by auto
  from Suc.IH [OF this] obtain ch' where ch': "move_up ?ch (dest - 1) n = Go ch'" "length ch' = length ch"
    "\<forall>k<n. ch' ! (dest - 1 - n + k) = ?ch ! k" "\<forall>k. dest - 1 \<le> k \<longrightarrow> ch' ! k = ?ch ! k" by auto
  have "ch' ! (dest - Suc n + k) = ch ! k" if "k < Suc n" for k
  proof (cases "k = n")
    case True
    have "ch' ! (dest - 1) = ?ch ! (dest - 1)" using ch'(4) by simp
    then show ?thesis using True Suc.prems by simp
  next
    case False
    then show ?thesis using that ch'(3) Suc.prems by (auto simp: nth_list_update)
  qed
  moreover have "\<forall>k. dest \<le> k \<longrightarrow> ch' ! k = ch ! k" using ch'(4) Suc.prems(1) by auto
  ultimately show ?case using ch'(1,2) Suc.prems by auto
qed simp

lemma released_rest:
  assumes "rest_ok l"
  shows "put_char (c_buf_p l) (hold l) l = Go (released l)" "data_ok (released l) (c_buf_p l)" "restb l = absb (c_buf_p l) (released l)"
    "released l = l\<lparr>ch_buf := ch_buf (released l)\<rparr>"
  using assms by (auto simp: rest_ok_def restb_def put_char_def released_def data_ok_def)

text \<open>The character is put in front of the ones that are left.\<close>

lemma push_front:
  fixes c :: char and bp :: nat
  assumes "data_ok l cp" "1 \<le> cp"
  defines "l' \<equiv> l\<lparr>ch_buf := (ch_buf l)[cp - 1 := c], text_ptr := bp, hold := c, c_buf_p := cp - 1\<rparr>"
  shows "put_char (cp - 1) c l = Go (l\<lparr>ch_buf := (ch_buf l)[cp - 1 := c]\<rparr>)" "rest_ok l'"
    "restb l' = (absb cp l)\<lparr>yb := c # yb (absb cp l)\<rparr>" "cp - 1 < length (ch_buf l)"
proof -
  note ok = assms(1) [unfolded data_ok_def]
  show "cp - 1 < length (ch_buf l)" using ok by auto
  then have cp: "cp - 1 < length (ch_buf l)" "Suc (cp - 1) = cp" using assms(2) by auto
  then show "put_char (cp - 1) c l = Go (l\<lparr>ch_buf := (ch_buf l)[cp - 1 := c]\<rparr>)" by (simp add: put_char_def)
  have r: "released l' = l'" by (simp add: released_def l'_def)
  show "rest_ok l'" unfolding rest_ok_def r using ok assms(2) by (auto simp: data_ok_def l'_def)
  have "drop (cp - 1) ((ch_buf l)[cp - 1 := c]) = c # drop cp (ch_buf l)"
    using cp Cons_nth_drop_Suc [of "cp - 1" "(ch_buf l)[cp - 1 := c]"] by simp
  moreover have "chars l - (cp - 1) = Suc (chars l - cp)" using ok assms(2) by auto
  ultimately show "restb l' = (absb cp l)\<lparr>yb := c # yb (absb cp l)\<rparr>"
    unfolding restb_def r by (simp add: l'_def absb_def)
qed

text \<open>Moving everything up does not change what is left.\<close>

lemma shift_rest:
  assumes "data_ok l p"
  defines "d \<equiv> buf_size l - chars l"
  shows "\<exists>ch. move_up (ch_buf l) (buf_size l + 2) (chars l + 2) = Go ch \<and>
    data_ok (l\<lparr>ch_buf := ch, buf_chars := int (buf_size l), chars := buf_size l\<rparr>) (p + d) \<and>
    absb (p + d) (l\<lparr>ch_buf := ch, buf_chars := int (buf_size l), chars := buf_size l\<rparr>) = absb p l"
proof -
  note ok = assms(1) [unfolded data_ok_def]
  obtain ch where ch: "move_up (ch_buf l) (buf_size l + 2) (chars l + 2) = Go ch" "length ch = buf_size l + 2"
    "\<forall>k < chars l + 2. ch ! (d + k) = ch_buf l ! k"
    using move_up_moves [of "chars l + 2" "buf_size l + 2" "ch_buf l"] ok by (auto simp: d_def)
  have e: "d + chars l = buf_size l" using ok by (simp add: d_def)
  have "ch ! buf_size l = NUL" "ch ! (buf_size l + 1) = NUL"
    using ch(3) [rule_format, of "chars l"] ch(3) [rule_format, of "chars l + 1"] ok e by (simp_all add: add.assoc [symmetric])
  then have "data_ok (l\<lparr>ch_buf := ch, buf_chars := int (buf_size l), chars := buf_size l\<rparr>) (p + d)"
    using ok ch(2) e by (auto simp: data_ok_def)
  moreover have "take (buf_size l - (p + d)) (drop (p + d) ch) = take (chars l - p) (drop p (ch_buf l))"
  proof (rule nth_equalityI)
    show "length (take (buf_size l - (p + d)) (drop (p + d) ch)) = length (take (chars l - p) (drop p (ch_buf l)))"
      using ok ch(2) e by auto
    fix k assume "k < length (take (buf_size l - (p + d)) (drop (p + d) ch))"
    then have k: "k < chars l - p" using ok e by auto
    then have "ch ! (d + (p + k)) = ch_buf l ! (p + k)" using ch(3) by auto
    then show "take (buf_size l - (p + d)) (drop (p + d) ch) ! k = take (chars l - p) (drop p (ch_buf l)) ! k"
      using k e ok ch(2) by (simp add: add.commute add.left_commute)
  qed
  ultimately show ?thesis using ch(1) by (auto simp: absb_def)
qed

lemma unput_sim:
  assumes "rest_ok l"
  shows "if length (yb (restb l)) + 2 \<le> buf_size l
    then \<exists>l'. yyunput c bp l = Go l' \<and> rest_ok l' \<and> restb l' = (restb l)\<lparr>yb := c # yb (restb l)\<rparr>
    else yyunput c bp l = Exit 2"
proof -
  let ?l = "released l" and ?p = "c_buf_p l"
  note r = released_rest [OF assms]
  have sel: "c_buf_p ?l = ?p" "buf_size ?l = buf_size l" "chars ?l = chars l" by (simp_all add: released_def)
  have len: "length (yb (restb l)) = chars l - ?p" using data_text(1) [OF r(2)] r(3) sel by simp
  have le: "?p \<le> chars l" "chars l \<le> buf_size l" using r(2) sel by (auto simp: data_ok_def)
  show ?thesis
  proof (cases "?p < 2")
    case False
    then have "1 \<le> ?p" by simp
    note p = push_front [OF r(2) this]
    have "yyunput c bp l = Go (?l\<lparr>ch_buf := (ch_buf ?l)[?p - 1 := c], text_ptr := bp, hold := c, c_buf_p := ?p - 1\<rparr>)"
      using False r(1) p(1,4) sel by (simp add: yyunput_def)
    then show ?thesis using p(2,3) False le len r(3) by auto
  next
    case True
    define d where "d = buf_size l - chars l"
    from shift_rest [OF r(2)] obtain ch l2 where ch: "move_up (ch_buf ?l) (buf_size l + 2) (chars l + 2) = Go ch"
      "l2 = ?l\<lparr>ch_buf := ch, buf_chars := int (buf_size l), chars := buf_size l\<rparr>" "data_ok l2 (?p + d)" "absb (?p + d) l2 = restb l"
      unfolding sel d_def r(3) by blast
    show ?thesis
    proof (cases "?p + d < 2")
      case small: True
      then have "yyunput c bp l = Exit 2" using True r(1) ch(1) sel by (simp add: yyunput_def d_def Let_def)
      then show ?thesis using small len le by (simp add: d_def)
    next
      case False
      then have "1 \<le> ?p + d" by simp
      note p = push_front [OF ch(3) this]
      have "yyunput c bp l = Go (l2\<lparr>ch_buf := (ch_buf l2)[?p + d - 1 := c], text_ptr := bp + d, hold := c, c_buf_p := ?p + d - 1\<rparr>)"
        using True False r(1) ch(1) p(1,4) sel unfolding d_def ch(2) by (simp add: yyunput_def Let_def)
      then show ?thesis using p(2,3) [of c "bp + d"] False le len ch(4) by (auto simp: d_def)
    qed
  qed
qed

lemma input_char_sim:
  assumes "data_ok l p" "c_buf_p l = p" "p < chars l"
  shows "\<exists>l'. input_char l = Go (int (of_char (ch_buf l ! p)), l') \<and> rest_ok l' \<and> restb l' = absb (p + 1) l"
proof -
  note ok = assms(1) [unfolded data_ok_def]
  let ?l = "l\<lparr>ch_buf := (ch_buf l)[p := NUL], hold := ch_buf l ! (p + 1), c_buf_p := p + 1\<rparr>"
  have "(ch_buf l)[p := NUL, p + 1 := ch_buf l ! (p + 1)] = (ch_buf l)[p := NUL]"
    by (metis add_eq_self_zero list_update_id nth_list_update_neq zero_neq_one)
  then have r: "released ?l = ?l" by (simp add: released_def)
  have "rest_ok ?l" unfolding rest_ok_def r using ok assms(3) by (auto simp: data_ok_def nth_list_update)
  moreover have "restb ?l = absb (p + 1) l" unfolding restb_def r by (simp add: absb_def)
  moreover have "input_char l = Go (int (of_char (ch_buf l ! p)), ?l)" using ok assms(2,3) by (simp add: input_char_def)
  ultimately show ?thesis by blast
qed

lemma absb_next: "absb (p + n) l = (absb p l)\<lparr>yb := drop n (yb (absb p l))\<rparr>"
  by (simp add: absb_def drop_take add.commute)

lemma input_next:
  assumes "rest_ok l" "yb (restb l) = c # cs"
  shows "\<exists>l'. lex_input E inp l i = Some (Go (int (of_char c), l'), i) \<and> rest_ok l' \<and> restb l' = (restb l)\<lparr>yb := cs\<rparr>"
proof -
  note r = released_rest [OF assms(1)]
  have p: "c_buf_p (released l) = c_buf_p l" by (simp add: released_def)
  have lt: "c_buf_p l < chars (released l)" using data_text(1) [OF r(2)] assms(2) r(3) by (cases "c_buf_p l < chars (released l)") auto
  have "ch_buf (released l) ! c_buf_p l = c" using data_text(2) [OF r(2), of 0] r(3) assms(2) by simp
  then show ?thesis
    using input_char_sim [OF r(2) p lt] lt r(1,3) p assms(2) absb_next [of "c_buf_p l" 1 "released l"]
    by (subst lex_input.simps) simp
qed

lemma refill_more:
  assumes "inp_ok inp" "m \<le> length (yb b0)" "yy_get_next_buffer inp m b0 i = Some (Continue_scan b, j)"
  shows "m < length (yb b)"
proof -
  obtain sz n data where r: "inp (min YY_READ_BUF_SIZE (sz - m - 1)) i = ((n, data), j)" "n \<noteq> 0"
    "yb b = take (nat (n + int m)) (take m (yb b0) @ data)"
    using assms(3) by (auto simp: yy_get_next_buffer_def Let_def split: if_splits option.splits prod.splits)
  then have "0 \<le> n" "length data = nat n" using assms(1) unfolding inp_ok_def by blast+
  with r(2,3) assms(2) show ?thesis by simp
qed

lemma restart_empty:
  assumes "data_ok l p"
  shows "\<exists>l'. restart l = Go l' \<and> rest_ok l' \<and> yb (restb l') = []"
  using assms by (auto simp: restart_def data_ok_def rest_ok_def restb_def released_def absb_def nth_list_update)

text \<open>At the end of the buffer: the next character of the input, or the end of the file.\<close>

lemma input_refill:
  assumes "rest_ok l" "yb (restb l) = []" "text_ptr l \<le> c_buf_p l" "status l \<noteq> YY_BUFFER_NEW" "inp_ok inp" "yywrap E"
    "yy_get_next_buffer inp (c_buf_p l - text_ptr l) (absb (text_ptr l) (released l)) i = Some (r, j)"
    "refill_size r + 2 \<le> room E" "room E < 2 ^ 31"
  shows "\<exists>l' c. lex_input E inp l i = Some (Go (c, l'), j) \<and> rest_ok l' \<and>
    (case r of
       Continue_scan b \<Rightarrow> c = int (of_char (yb b ! (c_buf_p l - text_ptr l))) \<and> restb l' = b\<lparr>yb := drop (c_buf_p l - text_ptr l + 1) (yb b)\<rparr>
     | _ \<Rightarrow> c = EOF \<and> yb (restb l') = [])"
proof -
  let ?l = "released l" and ?p = "c_buf_p l" and ?m = "c_buf_p l - text_ptr l"
  note rl = released_rest [OF assms(1)]
  have sel: "c_buf_p ?l = ?p" "text_ptr ?l = text_ptr l" "status ?l = status l" by (simp_all add: released_def)
  have "chars ?l - ?p = 0" using data_text(1) [OF rl(2)] rl(3) assms(2) by simp
  then have p: "?p = chars ?l" using rl(2) by (simp add: data_ok_def)
  then have nul: "ch_buf ?l ! ?p = NUL" using rl(2) by (simp add: data_ok_def)
  let ?l1 = "?l\<lparr>c_buf_p := ?p + 1\<rparr>"
  have d: "data_ok ?l1 (text_ptr l)" "absb (text_ptr l) ?l1 = absb (text_ptr l) ?l"
    using rl(2) assms(3) by (auto simp: data_ok_def absb_def)
  obtain a l2 where g: "get_next_buffer E inp ?l1 i = Some (Go (a, l2), j)" "refill_sim r a l2" "?m \<le> chars l2"
    using get_next_sim [OF d(1) _ _ _ assms(5) _ _ assms(8,9), of ?m i j] assms(4,7) d(2) sel p by auto
  have step: "lex_input E inp l i =
      (if a = EOB_ACT_CONTINUE_SCAN then Some (input_char (l2\<lparr>c_buf_p := text_ptr l2 + ?m\<rparr>), j)
       else (case (if a = EOB_ACT_LAST_MATCH then restart l2 else Go l2) of
               Exit k \<Rightarrow> Some (Exit k, j) | Crash \<Rightarrow> Some (Crash, j) | Go l \<Rightarrow> Some (Go (EOF, l), j)))"
    using rl(1) nul p sel g(1) assms(6) by (subst lex_input.simps) (simp add: Let_def split: sh.splits)
  note sim = g(2) [unfolded refill_sim_def]
  show ?thesis
  proof (cases r)
    case (Continue_scan b)
    then have c: "a = EOB_ACT_CONTINUE_SCAN" "absb 0 l2 = b" "data_ok l2 0" "text_ptr l2 = 0" using sim by auto
    have len: "length (yb b) = chars l2" using data_text(1) [OF c(3)] c(2) by simp
    have "?m \<le> length (yb (absb (text_ptr l) ?l))" using data_text(1) [OF d(1)] d(2) p by simp
    from refill_more [OF assms(5) this assms(7) [unfolded Continue_scan]] have m: "?m < chars l2" using len by simp
    let ?l3 = "l2\<lparr>c_buf_p := ?m\<rparr>"
    have "data_ok ?l3 ?m" using c(3) m by (auto simp: data_ok_def)
    from input_char_sim [OF this] m obtain l' where
      l': "input_char ?l3 = Go (int (of_char (ch_buf l2 ! ?m)), l')" "rest_ok l'" "restb l' = absb (?m + 1) ?l3" by auto
    have "ch_buf l2 ! ?m = yb b ! ?m" using data_text(2) [OF c(3), of ?m] m c(2) len by (simp add: nth_append)
    moreover have "absb (?m + 1) ?l3 = b\<lparr>yb := drop (?m + 1) (yb b)\<rparr>"
      using absb_next [of 0 "?m + 1" l2] unfolding c(2) by (simp add: absb_def)
    ultimately show ?thesis using l' step c(1,4) Continue_scan by simp
  next
    case (Last_match b)
    then have c: "a = EOB_ACT_LAST_MATCH" "data_ok l2 0" using sim by auto
    have "\<exists>l'. restart l2 = Go l' \<and> rest_ok l' \<and> yb (restb l') = []" by (rule restart_empty [OF c(2)])
    then show ?thesis using step c(1) Last_match by auto
  next
    case (End_of_file b)
    then have c: "a = EOB_ACT_END_OF_FILE" "data_ok l2 0" "chars l2 = 0" "hold l2 = NUL" "c_buf_p l2 = 0" using sim by auto
    have "released l2 = l2" using c by (simp add: released_def data_ok_def) (metis c(3) list_update_id lexb.surjective lexb.update_convs(1))
    then have "rest_ok l2" "yb (restb l2) = []" using c by (auto simp: rest_ok_def restb_def absb_def)
    then show ?thesis using step c(1) End_of_file by auto
  qed (use sim in simp)
qed

text \<open>
  A character that an action gives back to the scanner is what \<open>input\<close> reads next, and reading it leaves the input as it was.
  Giving back fails, with the message for an overflow, exactly if fewer than two characters of the buffer are free.
\<close>

lemma unput_input:
  assumes "rest_ok l"
  shows "if length (yb (restb l)) + 2 \<le> buf_size l
    then \<exists>l' l''. yyunput c bp l = Go l' \<and> lex_input E inp l' i = Some (Go (int (of_char c), l''), i) \<and> rest_ok l'' \<and> restb l'' = restb l
    else yyunput c bp l = Exit 2"
proof (cases "length (yb (restb l)) + 2 \<le> buf_size l")
  case True
  with unput_sim [OF assms, of c bp] obtain l' where
    l': "yyunput c bp l = Go l'" "rest_ok l'" "restb l' = (restb l)\<lparr>yb := c # yb (restb l)\<rparr>" by auto
  with input_next [OF l'(2), of c "yb (restb l)" E inp i] True show ?thesis by auto
qed (use unput_sim [OF assms, of c bp] in auto)

end
