(* ===== verification/MshExec.thy ===== *)
theory MshExec
  imports ShellExec
begin

text \<open>
  The executing half of the shell \<open>msh\<close> (\<open>src/2/xyshell-read-only/study/msh/lex.yy.c\<close>, from \<open>get_cmd_handle\<close> to
  \<open>do_simple_cmd\<close>): built-in commands, the search of \<open>PATH\<close>, redirection, pipelines and lists. The tables of file
  descriptors are those of \<open>ShellExec\<close>. The handlers of built-in commands get the number of arguments as it was before a
  redirection was cut off, as in the code.
\<close>

section \<open>State\<close>

datatype mout = M_out "fobj option" string | M_err string

text \<open>
  A child replaces itself by a program, ends, or, when \<open>execv\<close> fails, goes on as a second shell.
\<close>

datatype mchild = M_exec string "string list" fdt | M_exit int "mout list" | M_stray fdt | M_crash

datatype mevent = M_fork nat mchild | M_wait nat | M_wait_any | M_put mout

record msh =
  mfds :: fdt
  mpipes :: nat
  mpids :: nat
  mlog :: "mevent list"
  menv :: "string \<rightharpoonup> string"
  mcwd :: string
  lastdir :: string
  history :: "string list"

record mworld =
  mw_fork :: "nat \<Rightarrow> bool"
  mw_read :: "string \<Rightarrow> bool"
  mw_write :: "string \<Rightarrow> bool"
  mw_access :: "string \<Rightarrow> bool"
  mw_execv :: "string \<Rightarrow> bool"
  mw_chdir :: "string \<Rightarrow> string \<Rightarrow> string option"
  mw_pid :: int
  mw_strerror :: string

definition note_events :: "mevent list \<Rightarrow> msh \<Rightarrow> msh" where
  "note_events es s = s\<lparr>mlog := mlog s @ es\<rparr>"

section \<open>Built-in commands\<close>

datatype mbuiltin = MB_exit | MB_cd | MB_echo | MB_export | MB_history

definition msh_builtins :: "(string \<times> mbuiltin) list" where
  "msh_builtins =
     [(''exit'', MB_exit), (''cd'', MB_cd), (''echo'', MB_echo), (''export'', MB_export), (''history'', MB_history)]"

definition msh_handle :: "string \<Rightarrow> mbuiltin option" where
  "msh_handle cmd = map_of msh_builtins cmd"

definition msh_exit :: "nat \<Rightarrow> string list \<Rightarrow> (msh \<times> mout list) sh" where
  "msh_exit argc argv =
     (if 1 < argc then (case argv of a # b # _ \<Rightarrow> Exit (atoi b) | _ \<Rightarrow> Crash) else Exit 0)"

definition say :: "msh \<Rightarrow> string \<Rightarrow> mout" where
  "say s text = M_out (mfds s 1) text"

definition msh_chdir :: "mworld \<Rightarrow> string \<Rightarrow> msh \<Rightarrow> (msh \<times> mout list) sh" where
  "msh_chdir w dir s =
     (case mw_chdir w (mcwd s) dir of
        None \<Rightarrow> Go (s, [say s (''cd: '' @ mw_strerror w @ [NL])])
      | Some d \<Rightarrow> if 99 \<le> length (mcwd s) then Crash else Go (s\<lparr>mcwd := d, lastdir := mcwd s\<rparr>, []))"

definition msh_home :: "mworld \<Rightarrow> msh \<Rightarrow> (msh \<times> mout list) sh" where
  "msh_home w s =
     (case menv s ''HOME'' of
        None \<Rightarrow> Go (s, [say s (''cd: '' @ mw_strerror w @ [NL])])
      | Some d \<Rightarrow> msh_chdir w d s)"

definition msh_cd :: "mworld \<Rightarrow> nat \<Rightarrow> string list \<Rightarrow> msh \<Rightarrow> (msh \<times> mout list) sh" where
  "msh_cd w argc argv s =
     (if argc = 1 then msh_home w s
      else if argc = 2 then
        (case argv of
           a # b # _ \<Rightarrow>
             if b = ''-'' then msh_chdir w (lastdir s) s
             else if b = ''~'' then msh_home w s
             else msh_chdir w b s
         | _ \<Rightarrow> Crash)
      else Go (s, [say s (''Usage: cd [dir]'' @ [NL])]))"

definition bad_in_name :: string where
  "bad_in_name =
     ''~'' @ [CHR 0x60] @ ''!@#$%^&*()-_+=|'' @ [CHR 0x5C] @ ''{}[];:'' @ [CHR 0x27, CHR 0x22] @ ''<>,.?/''"

fun msh_export :: "mworld \<Rightarrow> string list \<Rightarrow> msh \<Rightarrow> msh \<times> mout list" where
  "msh_export w [] s = (s, [])"
| "msh_export w (a # as) s =
     (let name = takeWhile (\<lambda>c. c \<noteq> CHR ''='') a; val = drop (length name + 1) a;
          (s', o1) =
            (if CHR ''='' \<notin> set a then (s, [])
             else if \<exists>c \<in> set name. c \<in> set bad_in_name then
               (s, [say s (''export: '' @ a @ '': not a valid indentifier'' @ [NL])])
             else if name = [] then (s, [say s (''export: '' @ mw_strerror w @ [NL])])
             else (s\<lparr>menv := (menv s)(name \<mapsto> val)\<rparr>, []));
          (s'', o2) = msh_export w as s'
      in (s'', o1 @ o2))"

fun join_blank :: "string list \<Rightarrow> string" where
  "join_blank [] = []"
| "join_blank [a] = a"
| "join_blank (a # as) = a @ '' '' @ join_blank as"

definition msh_echo :: "string list \<Rightarrow> msh \<Rightarrow> mout list" where
  "msh_echo argv s =
     (let args = tl argv;
          opt = (args \<noteq> [] \<and> hd args \<in> {''-n'', ''-e'', ''-ne'', ''-en''});
          n = (opt \<and> hd args \<noteq> ''-e'');
          args = (if opt then tl args else args)
      in [say s (join_blank args @ (if n then [] else [NL]))])"

fun number_lines :: "nat \<Rightarrow> string list \<Rightarrow> string" where
  "number_lines i [] = []"
| "number_lines i (l # ls) = dec (int i) @ '': '' @ l @ [NL] @ number_lines (i + 1) ls"

fun msh_run :: "mworld \<Rightarrow> mbuiltin \<Rightarrow> nat \<Rightarrow> string list \<Rightarrow> msh \<Rightarrow> (msh \<times> mout list) sh" where
  "msh_run w MB_exit argc argv s = msh_exit argc argv"
| "msh_run w MB_cd argc argv s = msh_cd w argc argv s"
| "msh_run w MB_echo argc argv s = Go (s, msh_echo argv s)"
| "msh_run w MB_export argc argv s = Go (msh_export w (tl argv) s)"
| "msh_run w MB_history argc argv s = Go (s, [say s (number_lines 0 (history s))])"

section \<open>Finding a program\<close>

text \<open>
  \<open>file_exist\<close> collects the characters of \<open>PATH\<close> in a buffer of 100 bytes; at a colon it appends the name of the
  program and asks whether such a file exists. What follows the last colon is never tried.
\<close>

fun path_search :: "mworld \<Rightarrow> string \<Rightarrow> string \<Rightarrow> string \<Rightarrow> string option sh" where
  "path_search w file cur [] = Go None"
| "path_search w file cur (c # cs) =
     (if c \<noteq> CHR '':'' then
        (if 100 \<le> length cur then Crash else path_search w file (cur @ [c]) cs)
      else
        (let b = cur @ ''/'' @ file in
         if 100 \<le> length b then Crash
         else if mw_access w b then Go (Some b)
         else path_search w file [] cs))"

definition file_exist :: "mworld \<Rightarrow> msh \<Rightarrow> string \<Rightarrow> string option sh" where
  "file_exist w s file = (case menv s ''PATH'' of None \<Rightarrow> Crash | Some p \<Rightarrow> path_search w file [] p)"

section \<open>Redirection\<close>

definition redirect_at :: "string list \<Rightarrow> nat option" where
  "redirect_at argv = List.find (\<lambda>i. argv ! i = ''<'' \<or> argv ! i = ''>'') [1..<length argv]"

text \<open>The result: a message and failure, or the arguments that are left, the descriptors and the kind of redirection.\<close>

definition predo_for_redirect :: "mworld \<Rightarrow> string list \<Rightarrow> fdt \<Rightarrow> mout + string list \<times> fdt \<times> nat" where
  "predo_for_redirect w argv t =
     (case redirect_at argv of
        None \<Rightarrow> Inr (argv, t, 0)
      | Some i \<Rightarrow>
          if length argv \<le> i + 1 then Inl (M_err (''Bad redirect, need more arg'' @ [NL]))
          else
            (let f = argv ! (i + 1); out = (argv ! i = ''>'') in
             case (if (if out then mw_write w f else mw_read w f) then free_fd t else None) of
               None \<Rightarrow> Inl (M_err ((if out then ''Open out '' else ''Open in '') @ f @ '' failed'' @ [NL]))
             | Some fd \<Rightarrow>
                 Inr (take i argv,
                      fst (dup2 fd (if out then 1 else 0) (t(fd \<mapsto> if out then Outfile f else Infile f))),
                      if out then 2 else 1)))"

section \<open>Simple commands\<close>

definition pre_join :: "(nat \<times> nat) option \<Rightarrow> fdt \<Rightarrow> fdt" where
  "pre_join prefd t =
     (case prefd of
        None \<Rightarrow> t
      | Some (r, w) \<Rightarrow>
          (let t = close_fd w t in if r \<noteq> 0 then close_fd r (fst (dup2 r 0 t)) else t))"

definition post_join :: "(nat \<times> nat) option \<Rightarrow> fdt \<Rightarrow> fdt" where
  "post_join postfd t =
     (case postfd of
        None \<Rightarrow> t
      | Some (r, w) \<Rightarrow>
          (let t = close_fd r t in if w \<noteq> 1 then close_fd w (fst (dup2 w 1 t)) else t))"

definition msh_exec :: "mworld \<Rightarrow> string list \<Rightarrow> fdt \<Rightarrow> msh \<Rightarrow> mchild" where
  "msh_exec w argv t s =
     (case file_exist w s (hd argv) of
        Go (Some p) \<Rightarrow> if mw_execv w p then M_exec p argv t else M_stray t
      | Go None \<Rightarrow> M_exit 0 [M_err (''-msh: '' @ hd argv @ '': command not found'' @ [NL])]
      | _ \<Rightarrow> M_crash)"

definition msh_child :: "mworld \<Rightarrow> string list \<Rightarrow> (nat \<times> nat) option \<Rightarrow> (nat \<times> nat) option \<Rightarrow> msh \<Rightarrow> mchild" where
  "msh_child w argv prefd postfd s =
     (case predo_for_redirect w argv (mfds s) of
        Inl m \<Rightarrow> M_exit 1 [m]
      | Inr (args, t, redirect) \<Rightarrow>
          (let t = (if redirect \<noteq> 1 then pre_join prefd t else t);
               t = (if redirect \<noteq> 2 then post_join postfd t else t)
           in case msh_handle (hd args) of
                Some h \<Rightarrow>
                  (case msh_run w h (length argv) args (s\<lparr>mfds := t\<rparr>) of
                     Go (_, os) \<Rightarrow> M_exit 0 os
                   | Exit n \<Rightarrow> M_exit n []
                   | Crash \<Rightarrow> M_crash)
              | None \<Rightarrow> msh_exec w args t s))"

definition msh_simple_cmd ::
  "mworld \<Rightarrow> string list \<Rightarrow> (nat \<times> nat) option \<Rightarrow> (nat \<times> nat) option \<Rightarrow> msh \<Rightarrow> msh sh" where
  "msh_simple_cmd w argv prefd postfd s =
     (if argv = [] then Go s
      else
        (case (if prefd = None \<and> postfd = None then msh_handle (hd argv) else None) of
           Some h \<Rightarrow>
             (case predo_for_redirect w argv (mfds s) of
                Inl m \<Rightarrow> Go (note_events [M_put m] s)
              | Inr (args, t, _) \<Rightarrow>
                  sbind (msh_run w h (length argv) args (s\<lparr>mfds := t\<rparr>)) (\<lambda>(s, os). Go (note_events (map M_put os) s)))
         | None \<Rightarrow>
             (let p = mpids s;
                  s' = (if mw_fork w p then
                          note_events [M_fork p (msh_child w argv prefd postfd s), M_wait p] (s\<lparr>mpids := p + 1\<rparr>)
                        else note_events [M_wait_any] s)
              in Go (s'\<lparr>mfds := close_write_end postfd (mfds s')\<rparr>))))"

section \<open>Pipelines and lists\<close>

definition msh_new_pipe :: "msh \<Rightarrow> (msh \<times> nat \<times> nat) sh" where
  "msh_new_pipe s =
     (case mk_pipe (mpipes s) (mfds s) of
        None \<Rightarrow> Crash
      | Some (t, r, w) \<Rightarrow> Go (s\<lparr>mfds := t, mpipes := mpipes s + 1\<rparr>, r, w))"

fun msh_pipe_loop :: "mworld \<Rightarrow> string list \<Rightarrow> string list \<Rightarrow> (nat \<times> nat) option \<Rightarrow> msh \<Rightarrow> msh sh" where
  "msh_pipe_loop w [] cur prefd s = msh_simple_cmd w cur prefd None s"
| "msh_pipe_loop w (tok # toks) cur prefd s =
     (if tok = ''|'' then
        sbind (msh_new_pipe s) (\<lambda>(s, postfd).
        sbind (msh_simple_cmd w cur prefd (Some postfd) s) (\<lambda>s.
        msh_pipe_loop w toks [] (Some postfd) s))
      else msh_pipe_loop w toks (cur @ [tok]) prefd s)"

definition msh_pipe_cmd :: "mworld \<Rightarrow> string list \<Rightarrow> msh \<Rightarrow> msh sh" where
  "msh_pipe_cmd w argv s = msh_pipe_loop w argv [] None s"

fun msh_list_loop :: "mworld \<Rightarrow> string list \<Rightarrow> string list \<Rightarrow> msh \<Rightarrow> msh sh" where
  "msh_list_loop w [] cur s = msh_pipe_cmd w cur s"
| "msh_list_loop w (tok # toks) cur s =
     (if tok = '';'' then sbind (msh_pipe_cmd w cur s) (\<lambda>s. msh_list_loop w toks [] s)
      else msh_list_loop w toks (cur @ [tok]) s)"

definition msh_list_cmd :: "mworld \<Rightarrow> string list \<Rightarrow> msh \<Rightarrow> msh sh" where
  "msh_list_cmd w argbuf s = msh_list_loop w argbuf [] s"

section \<open>How a pipeline is wired\<close>

text \<open>
  The shell's descriptors are those below some number: what it opens gets the next number, and of a pipe it keeps
  the read end. A child is plugged in when its standard input and output are the given ones and it holds
  no write end of a pipe besides its output, so that a reader sees the end of its input when the writer ends.
\<close>

definition contiguous :: "nat \<Rightarrow> fdt \<Rightarrow> bool" where
  "contiguous d t \<longleftrightarrow> (\<forall>x. t x = None \<longleftrightarrow> d \<le> x)"

definition no_writers :: "fdt \<Rightarrow> bool" where
  "no_writers t \<longleftrightarrow> (\<forall>x k. t x \<noteq> Some (Pipe_w k))"

definition plugged :: "fobj option \<Rightarrow> fobj option \<Rightarrow> fdt \<Rightarrow> bool" where
  "plugged inp out t \<longleftrightarrow> t 0 = inp \<and> t 1 = out \<and> (\<forall>x k. 2 \<le> x \<longrightarrow> t x \<noteq> Some (Pipe_w k))"

fun msh_wired ::
  "(string list \<Rightarrow> string) \<Rightarrow> fobj option \<Rightarrow> fobj option \<Rightarrow> nat \<Rightarrow> nat \<Rightarrow> string list list \<Rightarrow> mevent list \<Rightarrow> bool" where
  "msh_wired path inp out k p [] es \<longleftrightarrow> es = []"
| "msh_wired path inp out k p [c] es \<longleftrightarrow>
     (\<exists>t. es = [M_fork p (M_exec (path c) c t), M_wait p] \<and> plugged inp out t)"
| "msh_wired path inp out k p (c # cs) es \<longleftrightarrow>
     (\<exists>t es'. es = M_fork p (M_exec (path c) c t) # M_wait p # es' \<and> plugged inp (Some (Pipe_w k)) t \<and>
        msh_wired path (Some (Pipe_r k)) out (k + 1) (p + 1) cs es')"

text \<open>
  A command that is an external program with its arguments and without a redirection, which the search of \<open>PATH\<close> finds.
\<close>

definition located :: "mworld \<Rightarrow> (string \<rightharpoonup> string) \<Rightarrow> (string list \<Rightarrow> string) \<Rightarrow> string list \<Rightarrow> bool" where
  "located w env path c \<longleftrightarrow>
     c \<noteq> [] \<and> ''|'' \<notin> set c \<and> redirect_at c = None \<and> msh_handle (hd c) = None \<and>
     (\<forall>s. menv s = env \<longrightarrow> file_exist w s (hd c) = Go (Some (path c))) \<and> mw_execv w (path c)"

lemma mk_pipe_contiguous:
  assumes "contiguous d t" "d + 1 < OPEN_MAX"
  shows "mk_pipe k t = Some (t(d \<mapsto> Pipe_r k, d + 1 \<mapsto> Pipe_w k), d, d + 1)"
proof -
  have "free_fd t = Some d" using assms by (intro free_fd_least) (auto simp: contiguous_def)
  moreover have "free_fd (t(d \<mapsto> Pipe_r k)) = Some (d + 1)"
  proof (rule free_fd_least)
    show "\<forall>m < d + 1. (t(d \<mapsto> Pipe_r k)) m \<noteq> None"
      using assms(1) by (simp add: contiguous_def del: not_None_eq)
  qed (use assms in \<open>auto simp: contiguous_def\<close>)
  ultimately show ?thesis by (simp add: mk_pipe_def)
qed

lemma contiguous_pipe:
  assumes "contiguous d t"
  shows "contiguous (d + 1) (t(d \<mapsto> Pipe_r k, d + 1 := None))"
  unfolding contiguous_def
proof
  fix x
  have "t x = None \<longleftrightarrow> d \<le> x" using assms by (simp add: contiguous_def)
  then show "(t(d \<mapsto> Pipe_r k, d + 1 := None)) x = None \<longleftrightarrow> d + 1 \<le> x" by (cases "x = d") auto
qed

lemma located_child:
  assumes "located w (menv s) path c"
  shows "msh_child w c prefd postfd s = M_exec (path c) c (post_join postfd (pre_join prefd (mfds s)))"
  using assms by (simp add: located_def msh_child_def predo_for_redirect_def msh_exec_def)

lemma located_simple_cmd:
  assumes "located w (menv s) path c" "mw_fork w (mpids s)"
  shows "msh_simple_cmd w c prefd postfd s =
    Go (s\<lparr>mfds := close_write_end postfd (mfds s), mpids := mpids s + 1,
          mlog := mlog s @ [M_fork (mpids s) (M_exec (path c) c (post_join postfd (pre_join prefd (mfds s)))), M_wait (mpids s)]\<rparr>)"
  using assms located_child [OF assms(1)]
  by (auto simp: msh_simple_cmd_def located_def note_events_def Let_def split: option.splits)

text \<open>What a command finds before it: nothing, or the pipe of its predecessor.\<close>

definition pre_ok :: "nat \<Rightarrow> (nat \<times> nat) option \<Rightarrow> msh \<Rightarrow> bool" where
  "pre_ok d prefd s \<longleftrightarrow>
     prefd = None \<or> prefd = Some (d - 1, d) \<and> 4 \<le> d \<and> 0 < mpipes s \<and> mfds s (d - 1) = Some (Pipe_r (mpipes s - 1))"

definition pre_input :: "(nat \<times> nat) option \<Rightarrow> msh \<Rightarrow> fobj option" where
  "pre_input prefd s = (if prefd = None then mfds s 0 else Some (Pipe_r (mpipes s - 1)))"

lemma pre_join_Some:
  assumes "t (d - 1) = Some f" "4 \<le> d"
  shows "pre_join (Some (d - 1, d)) t = t(d := None, 0 \<mapsto> f, d - 1 := None)"
proof -
  have "d - 1 \<noteq> d" "d - 1 \<noteq> 0" using assms(2) by auto
  then show ?thesis using assms(1) by (simp add: pre_join_def Let_def close_fd_def dup2_def del: One_nat_def)
qed

lemma post_join_Some:
  assumes "t (d + 1) = Some f" "3 \<le> d"
  shows "post_join (Some (d, d + 1)) t = t(d := None, 1 \<mapsto> f, d + 1 := None)"
  using assms by (simp add: post_join_def Let_def close_fd_def dup2_def)

lemma plugged_last:
  assumes "pre_ok d prefd s" "no_writers (mfds s)" "3 \<le> d"
  shows "plugged (pre_input prefd s) (mfds s 1) (post_join None (pre_join prefd (mfds s)))"
proof (cases "prefd = None")
  case True
  with assms show ?thesis by (simp add: pre_join_def post_join_def pre_input_def plugged_def no_writers_def)
next
  case False
  then have p: "prefd = Some (d - 1, d)" "4 \<le> d" "mfds s (d - 1) = Some (Pipe_r (mpipes s - 1))"
    using assms(1) by (auto simp: pre_ok_def)
  have "d - 1 \<noteq> 1" "d - 1 \<noteq> 0" using p(2) by auto
  then show ?thesis
    using p assms(2) pre_join_Some [of "mfds s" d, OF p(3,2)]
    by (auto simp: post_join_def pre_input_def plugged_def no_writers_def simp del: One_nat_def split: if_splits)
qed

lemma plugged_inner:
  assumes "pre_ok d prefd s" "no_writers (mfds s)" "3 \<le> d"
  shows "plugged (pre_input prefd s) (Some (Pipe_w k))
    (post_join (Some (d, d + 1)) (pre_join prefd ((mfds s)(d \<mapsto> Pipe_r k, d + 1 \<mapsto> Pipe_w k))))"
proof (cases "prefd = None")
  case True
  have "plugged (mfds s 0) (Some (Pipe_w k)) (post_join (Some (d, d + 1)) ((mfds s)(d \<mapsto> Pipe_r k, d + 1 \<mapsto> Pipe_w k)))"
    using assms(2,3) by (subst post_join_Some) (auto simp: plugged_def no_writers_def)
  with True show ?thesis by (simp add: pre_join_def pre_input_def)
next
  case False
  let ?t = "(mfds s)(d \<mapsto> Pipe_r k, d + 1 \<mapsto> Pipe_w k)"
  have p: "prefd = Some (d - 1, d)" "4 \<le> d" "mfds s (d - 1) = Some (Pipe_r (mpipes s - 1))"
    using assms(1) False by (auto simp: pre_ok_def)
  have n: "d - 1 \<noteq> 1" "d - 1 \<noteq> 0" "d - 1 \<noteq> d" "d - 1 \<noteq> d + 1" using p(2) by auto
  then have "pre_join prefd ?t = ?t(d := None, 0 \<mapsto> Pipe_r (mpipes s - 1), d - 1 := None)"
    using p by (simp only: p(1), intro pre_join_Some) (simp_all del: One_nat_def)
  moreover have "post_join (Some (d, d + 1)) (?t(d := None, 0 \<mapsto> Pipe_r (mpipes s - 1), d - 1 := None)) =
      ?t(d := None, 0 \<mapsto> Pipe_r (mpipes s - 1), d - 1 := None, d := None, 1 \<mapsto> Pipe_w k, d + 1 := None)"
    using n p(2) by (intro post_join_Some) auto
  ultimately show ?thesis
    using n p assms(2)
    by (auto simp: pre_input_def plugged_def no_writers_def simp del: One_nat_def split: if_splits)
qed

lemma msh_pipe_loop_append:
  "''|'' \<notin> set c \<Longrightarrow> msh_pipe_loop w (c @ toks) cur prefd s = msh_pipe_loop w toks (cur @ c) prefd s"
  by (induction c arbitrary: cur) auto

lemma msh_pipe_loop_wired:
  assumes "cs \<noteq> []" "\<forall>c \<in> set cs. located w (menv s) path c" "\<forall>i < length cs. mw_fork w (mpids s + i)"
    and "contiguous d (mfds s)" "no_writers (mfds s)" "3 \<le> d" "d + length cs \<le> OPEN_MAX" "pre_ok d prefd s"
  shows "\<exists>s' es. msh_pipe_loop w (join_bar cs) [] prefd s = Go s' \<and> mlog s' = mlog s @ es \<and>
    msh_wired path (pre_input prefd s) (mfds s 1) (mpipes s) (mpids s) cs es \<and>
    contiguous (d + length cs - 1) (mfds s') \<and> (\<forall>x < d. mfds s' x = mfds s x)"
  using assms
proof (induction cs arbitrary: s d prefd rule: join_bar.induct)
  case 1
  then show ?case by simp
next
  case (2 c)
  have c: "located w (menv s) path c" "''|'' \<notin> set c" using 2(2) by (auto simp: located_def)
  have f: "mw_fork w (mpids s)" using 2(3) by simp
  show ?case
    using msh_pipe_loop_append [OF c(2), of w "[]" "[]" prefd s] located_simple_cmd [OF c(1) f, of prefd None]
      plugged_last [OF 2(8,5,6)] 2(4)
    by (auto simp: close_write_end_def)
next
  case (3 c c' cs)
  let ?t = "(mfds s)(d \<mapsto> Pipe_r (mpipes s), d + 1 \<mapsto> Pipe_w (mpipes s))"
  let ?s1 = "s\<lparr>mfds := ?t, mpipes := mpipes s + 1\<rparr>"
  have c: "located w (menv s) path c" "''|'' \<notin> set c" using 3(3) by (auto simp: located_def)
  have f: "mw_fork w (mpids ?s1)" using 3(4) by auto
  have np: "msh_new_pipe s = Go (?s1, d, d + 1)"
    using mk_pipe_contiguous [OF 3(5)] 3(8) by (simp add: msh_new_pipe_def)
  define t where "t = post_join (Some (d, d + 1)) (pre_join prefd ?t)"
  define s2 where "s2 = s\<lparr>mfds := ?t(d + 1 := None), mpipes := mpipes s + 1, mpids := mpids s + 1,
    mlog := mlog s @ [M_fork (mpids s) (M_exec (path c) c t), M_wait (mpids s)]\<rparr>"
  have loc1: "located w (menv ?s1) path c" using c(1) by simp
  have sc: "msh_simple_cmd w c prefd (Some (d, d + 1)) ?s1 = Go s2"
    using located_simple_cmd [OF loc1 f, of prefd "Some (d, d + 1)"]
    by (simp add: s2_def t_def close_write_end_def close_fd_def)
  have "\<exists>s' es. msh_pipe_loop w (join_bar (c' # cs)) [] (Some (d, d + 1)) s2 = Go s' \<and> mlog s' = mlog s2 @ es \<and>
      msh_wired path (pre_input (Some (d, d + 1)) s2) (mfds s2 1) (mpipes s2) (mpids s2) (c' # cs) es \<and>
      contiguous (d + 1 + length (c' # cs) - 1) (mfds s') \<and> (\<forall>x < d + 1. mfds s' x = mfds s2 x)"
  proof (rule 3(1))
    show "\<forall>i < length (c' # cs). mw_fork w (mpids s2 + i)"
    proof (intro allI impI)
      fix i
      assume "i < length (c' # cs)"
      then show "mw_fork w (mpids s2 + i)" using 3(4) [rule_format, of "Suc i"] by (simp add: s2_def)
    qed
    show "contiguous (d + 1) (mfds s2)" using contiguous_pipe [OF 3(5)] by (simp add: s2_def)
    show "no_writers (mfds s2)" using 3(6) by (auto simp: no_writers_def s2_def)
    show "pre_ok (d + 1) (Some (d, d + 1)) s2" using 3(7) by (simp add: pre_ok_def s2_def)
  qed (use 3(3,7,8) in \<open>auto simp: s2_def\<close>)
  then obtain s' es where s': "msh_pipe_loop w (join_bar (c' # cs)) [] (Some (d, d + 1)) s2 = Go s'"
    "mlog s' = mlog s2 @ es"
    "msh_wired path (pre_input (Some (d, d + 1)) s2) (mfds s2 1) (mpipes s2) (mpids s2) (c' # cs) es"
    "contiguous (d + 1 + length (c' # cs) - 1) (mfds s')" "\<forall>x < d + 1. mfds s' x = mfds s2 x" by blast
  have "msh_pipe_loop w (join_bar (c # c' # cs)) [] prefd s = Go s'"
    using msh_pipe_loop_append [OF c(2), of w "''|'' # join_bar (c' # cs)" "[]" prefd s] np sc s'(1) by simp
  moreover have "msh_wired path (pre_input prefd s) (mfds s 1) (mpipes s) (mpids s) (c # c' # cs)
      (M_fork (mpids s) (M_exec (path c) c t) # M_wait (mpids s) # es)"
    using s'(3) plugged_inner [OF 3(9,6,7), of "mpipes s"] 3(7) by (auto simp: t_def s2_def pre_input_def)
  moreover have "mlog s' = mlog s @ (M_fork (mpids s) (M_exec (path c) c t) # M_wait (mpids s) # es)"
    using s'(2) by (simp add: s2_def)
  moreover have "\<forall>x < d. mfds s' x = mfds s x" using s'(5) by (simp add: s2_def)
  ultimately show ?case using s'(4) by auto
qed

text \<open>
  C31: a pipeline of external commands, none of which has a redirection (\<open><\<close> or \<open>>\<close>) among its arguments, all found by the
  search of \<open>PATH\<close> and executable, with every \<open>fork\<close> succeeding, runs each of them in a child of its own, one after the other, when
  the shell has its lowest descriptors open (at least three, none the write end of a pipe) and one left per command: the
  first with the standard input of the shell, the last with its standard output, and each with the output of its predecessor as input; no child keeps another write end open. The shell's own descriptors stay as they were, except that
  it keeps one descriptor more for every pipe, so that the descriptors run out in the end.
\<close>

theorem msh_pipeline_wiring:
  assumes "cs \<noteq> []" "\<forall>c \<in> set cs. located w (menv s) path c" "\<forall>i < length cs. mw_fork w (mpids s + i)"
    and "contiguous d (mfds s)" "no_writers (mfds s)" "3 \<le> d" "d + length cs \<le> OPEN_MAX"
  shows "\<exists>s' es. msh_pipe_cmd w (join_bar cs) s = Go s' \<and> mlog s' = mlog s @ es \<and>
    msh_wired path (mfds s 0) (mfds s 1) (mpipes s) (mpids s) cs es \<and>
    contiguous (d + length cs - 1) (mfds s') \<and> (\<forall>x < d. mfds s' x = mfds s x)"
  using msh_pipe_loop_wired [OF assms, of None] by (simp add: msh_pipe_cmd_def pre_ok_def pre_input_def)

definition msh_start :: msh where
  "msh_start =
     \<lparr>mfds = [0 \<mapsto> Term, 1 \<mapsto> Term, 2 \<mapsto> Term], mpipes = 0, mpids = 0, mlog = [], menv = [''PATH'' \<mapsto> ''/bin:''],
      mcwd = ''/'', lastdir = ''/'', history = []\<rparr>"

definition msh_world :: mworld where
  "msh_world =
     \<lparr>mw_fork = \<lambda>_. True, mw_read = \<lambda>_. True, mw_write = \<lambda>_. True, mw_access = \<lambda>_. True, mw_execv = \<lambda>_. True,
      mw_chdir = \<lambda>_ d. Some d, mw_pid = 42, mw_strerror = ''error''\<rparr>"

lemma msh_start_located:
  "c \<in> {[''ls'', ''-l''], [''wc'']} \<Longrightarrow> located msh_world (menv msh_start) (\<lambda>c. ''/bin/'' @ hd c) c"
  by (auto simp: located_def msh_world_def msh_start_def redirect_at_def msh_handle_def msh_builtins_def file_exist_def)

lemma msh_start_table: "contiguous 3 (mfds msh_start)" "no_writers (mfds msh_start)"
  by (auto simp: contiguous_def no_writers_def msh_start_def)

theorem msh_pipeline_wiring_witness:
  "\<exists>s' t1 t2. msh_pipe_cmd msh_world [''ls'', ''-l'', ''|'', ''wc''] msh_start = Go s' \<and>
     mlog s' = [M_fork 0 (M_exec ''/bin/ls'' [''ls'', ''-l''] t1), M_wait 0, M_fork 1 (M_exec ''/bin/wc'' [''wc''] t2), M_wait 1] \<and>
     plugged (Some Term) (Some (Pipe_w 0)) t1 \<and> plugged (Some (Pipe_r 0)) (Some Term) t2 \<and> contiguous 4 (mfds s')"
proof -
  let ?cs = "[[''ls'', ''-l''], [''wc'']]"
  have a: "\<forall>c \<in> set ?cs. located msh_world (menv msh_start) (\<lambda>c. ''/bin/'' @ hd c) c"
    using msh_start_located by simp
  have b: "\<forall>i < length ?cs. mw_fork msh_world (mpids msh_start + i)" by (simp add: msh_world_def)
  have c: "3 + length ?cs \<le> OPEN_MAX" by (simp add: OPEN_MAX_def)
  show ?thesis
    using msh_pipeline_wiring [OF _ a b msh_start_table _ c]
    by (auto simp: msh_start_def numeral_eq_Suc)
qed

text \<open>
  The search of \<open>PATH\<close> returns the first directory before the last colon that has the program; a directory after
  the last colon is not looked at.
\<close>

lemma path_search_dir:
  assumes "CHR '':'' \<notin> set d" "length (cur @ d) \<le> 100"
  shows "path_search w file cur (d @ CHR '':'' # rest) =
    (let b = cur @ d @ ''/'' @ file in
     if 100 \<le> length b then Crash else if mw_access w b then Go (Some b) else path_search w file [] rest)"
  using assms by (induction d arbitrary: cur) auto

lemma path_search_last:
  assumes "CHR '':'' \<notin> set d" "length (cur @ d) \<le> 100"
  shows "path_search w file cur d = Go None"
  using assms by (induction d arbitrary: cur) auto

theorem msh_path_search:
  assumes "\<forall>d \<in> set ds. CHR '':'' \<notin> set d \<and> length d + length file < 99" "CHR '':'' \<notin> set l" "length l \<le> 100"
    and "menv s ''PATH'' = Some (concat (map (\<lambda>d. d @ '':'') ds) @ l)"
  shows "file_exist w s file = Go (List.find (mw_access w) (map (\<lambda>d. d @ ''/'' @ file) ds))"
proof -
  have "path_search w file [] (concat (map (\<lambda>d. d @ '':'') ds) @ l) =
      Go (List.find (mw_access w) (map (\<lambda>d. d @ ''/'' @ file) ds))"
    using assms(1)
  proof (induction ds)
    case Nil
    then show ?case using path_search_last [of l "[]"] assms(2,3) by simp
  next
    case (Cons d ds)
    then show ?case using path_search_dir [of d "[]"] by (simp add: Let_def)
  qed
  then show ?thesis using assms(4) by (simp add: file_exist_def)
qed

text \<open>
  Two defects of built-in commands with a redirection: the shell redirects its own standard output and keeps it so, and
  the handler is given the number of arguments before the redirection was cut off, so that \<open>exit > f\<close> reads a null pointer.
\<close>

theorem msh_builtin_redirect:
  "\<exists>s'. msh_list_cmd msh_world [''echo'', ''x'', ''>'', ''f''] msh_start = Go s' \<and> mfds s' 1 = Some (Outfile ''f'') \<and>
     mlog s' = [M_put (M_out (Some (Outfile ''f'')) (''x'' @ [NL]))]"
  "msh_list_cmd msh_world [''exit'', ''>'', ''f''] msh_start = Crash"
proof -
  have f: "free_fd [0 \<mapsto> Term, 1 \<mapsto> Term, 2 \<mapsto> Term] = Some 3"
    by (auto intro!: free_fd_least simp: OPEN_MAX_def numeral_eq_Suc less_Suc_eq)
  note defs = msh_list_cmd_def msh_pipe_cmd_def msh_simple_cmd_def msh_handle_def msh_builtins_def
    predo_for_redirect_def redirect_at_def msh_world_def msh_start_def note_events_def
  show "\<exists>s'. msh_list_cmd msh_world [''echo'', ''x'', ''>'', ''f''] msh_start = Go s' \<and> mfds s' 1 = Some (Outfile ''f'') \<and>
      mlog s' = [M_put (M_out (Some (Outfile ''f'')) (''x'' @ [NL]))]"
    using f by (simp add: defs Let_def upt_rec numeral_eq_Suc dup2_def msh_echo_def say_def)
  show "msh_list_cmd msh_world [''exit'', ''>'', ''f''] msh_start = Crash"
    using f by (simp add: defs Let_def upt_rec numeral_eq_Suc dup2_def msh_exit_def)
qed

end
