(* ===== verification/MshScanner.thy ===== *)
theory MshScanner
  imports FlexScanner
begin

text \<open>
  The tables of the scanner of \<open>msh\<close> (\<open>src/2/xyshell-read-only/study/msh/lex.yy.c\<close>), and the proof that they
  recognise the rules of \<open>parsecmd.l\<close> in its two start conditions: outside quotes, operators, the newline, the
  quote and words; inside quotes, runs of characters up to the closing quote or the end of the line.
\<close>

section \<open>The tables\<close>

definition msh_yy_accept :: "nat list" where
  "msh_yy_accept =
    [0, 0, 0, 0, 0, 0, 0, 13, 9, 11, 10, 1, 5, 7, 6, 8, 2, 4, 3, 12, 9, 2, 0]"

definition msh_yy_ec :: "nat list" where
  "msh_yy_ec =
    [0, 1, 1, 1, 1, 1, 1, 1, 1, 2, 3, 1, 1, 1, 1, 1, 1, 1, 1, 1, 1, 1, 1, 1, 1, 1, 1, 1, 1, 1, 1, 1,
     2, 1, 4, 1, 1, 1, 1, 1, 1, 1, 1, 1, 1, 1, 1, 1, 1, 1, 1, 1, 1, 1, 1, 1, 1, 1, 1, 5, 6, 1, 7, 1,
     1, 1, 1, 1, 1, 1, 1, 1, 1, 1, 1, 1, 1, 1, 1, 1, 1, 1, 1, 1, 1, 1, 1, 1, 1, 1, 1, 1, 1, 1, 1, 1,
     1, 1, 1, 1, 1, 1, 1, 1, 1, 1, 1, 1, 1, 1, 1, 1, 1, 1, 1, 1, 1, 1, 1, 1, 1, 1, 1, 1, 8, 1, 1, 1,
     1, 1, 1, 1, 1, 1, 1, 1, 1, 1, 1, 1, 1, 1, 1, 1, 1, 1, 1, 1, 1, 1, 1, 1, 1, 1, 1, 1, 1, 1, 1, 1,
     1, 1, 1, 1, 1, 1, 1, 1, 1, 1, 1, 1, 1, 1, 1, 1, 1, 1, 1, 1, 1, 1, 1, 1, 1, 1, 1, 1, 1, 1, 1, 1,
     1, 1, 1, 1, 1, 1, 1, 1, 1, 1, 1, 1, 1, 1, 1, 1, 1, 1, 1, 1, 1, 1, 1, 1, 1, 1, 1, 1, 1, 1, 1, 1,
     1, 1, 1, 1, 1, 1, 1, 1, 1, 1, 1, 1, 1, 1, 1, 1, 1, 1, 1, 1, 1, 1, 1, 1, 1, 1, 1, 1, 1, 1, 1, 1]"

definition msh_yy_meta :: "nat list" where
  "msh_yy_meta =
    [0, 1, 1, 2, 2, 1, 1, 1, 1]"

definition msh_yy_base :: "nat list" where
  "msh_yy_base =
    [0, 0, 0, 6, 8, 0, 0, 20, 18, 21, 21, 21, 21, 21, 21, 21, 0, 21, 21, 21, 17, 0, 21, 12, 14, 16]"

definition msh_yy_def :: "nat list" where
  "msh_yy_def =
    [0, 22, 1, 23, 23, 24, 24, 22, 22, 22, 22, 22, 22, 22, 22, 22, 25, 22, 22, 22, 22, 25, 0, 22, 22, 22]"

definition msh_yy_nxt :: "nat list" where
  "msh_yy_nxt =
    [0, 8, 9, 10, 11, 12, 13, 14, 15, 17, 18, 17, 18, 16, 16, 19, 19, 21, 20, 20, 22, 7, 22, 22, 22, 22, 22, 22, 22, 22]"

definition msh_yy_chk :: "nat list" where
  "msh_yy_chk =
    [0, 1, 1, 1, 1, 1, 1, 1, 1, 3, 3, 4, 4, 23, 23, 24, 24, 25, 20, 8, 7, 22, 22, 22, 22, 22, 22, 22, 22, 22]"

definition msh_flex :: flex where
  "msh_flex = \<lparr>ft_accept = msh_yy_accept, ft_ec = msh_yy_ec, ft_meta = msh_yy_meta, ft_base = msh_yy_base,
     ft_def = msh_yy_def, ft_nxt = msh_yy_nxt, ft_chk = msh_yy_chk,
     ft_states = 23, ft_jam = 21, ft_eob = 13\<rparr>"

section \<open>What the tables recognise\<close>

definition QUOTE :: nat where "QUOTE = 1"

text \<open>\<open>BEGIN q\<close> sets \<open>yy_start\<close> to this state.\<close>

definition begin_state :: "nat \<Rightarrow> nat" where
  "begin_state q = 1 + 2 * q"

definition plain_char :: "char \<Rightarrow> bool" where
  "plain_char c \<longleftrightarrow>
     c \<notin> {NUL, CHR '' '', TAB, NL, CHR ''|'', CHR ''<'', CHR ''>'', CHR '';'', CHR 0x22}"

definition quoted_char :: "char \<Rightarrow> bool" where
  "quoted_char c \<longleftrightarrow> c \<notin> {NUL, NL, CHR 0x22}"

text \<open>The number of the rule in \<open>parsecmd.l\<close> that matches a character outside words, in both conditions.\<close>

definition plain_rule :: "char \<Rightarrow> nat" where
  "plain_rule c =
     (if c = CHR 0x22 then 1 else if c = CHR '';'' then 5 else if c = CHR ''>'' then 6 else if c = CHR ''<'' then 7
      else if c = CHR ''|'' then 8 else if c = NL then 10 else 11)"

definition quote_rule :: "char \<Rightarrow> nat" where
  "quote_rule c = (if c = CHR 0x22 then 3 else 4)"

definition msh_class :: "nat \<Rightarrow> nat" where
  "msh_class k =
     (if k = 0 then 0 else if k = 9 \<or> k = 32 then 2 else if k = 10 then 3 else if k = 34 then 4
      else if k = 59 then 5 else if k = 60 then 6 else if k = 62 then 7 else if k = 124 then 8 else 1)"

lemma ec_msh_class: "list_all (\<lambda>k. msh_yy_ec ! k = msh_class k) [0..<256]"
  by code_simp

lemma yy_class_msh: "yy_class msh_flex c = msh_class (of_char c)"
proof -
  have "of_char c \<in> set [0..<256 :: nat]" by simp
  then show ?thesis using ec_msh_class unfolding list_all_iff by (simp add: yy_class_def msh_flex_def)
qed

lemma msh_class_char: "yy_class msh_flex c =
  (if c = NUL then 0 else if c = TAB \<or> c = CHR '' '' then 2 else if c = NL then 3 else if c = CHR 0x22 then 4
   else if c = CHR '';'' then 5 else if c = CHR ''<'' then 6
   else if c = CHR ''>'' then 7 else if c = CHR ''|'' then 8 else 1)"
  unfolding yy_class_msh msh_class_def of_char_cases by simp

lemma msh_fields:
  "ft_accept msh_flex = msh_yy_accept" "ft_base msh_flex = msh_yy_base"
  "ft_jam msh_flex = 21" "ft_eob msh_flex = 13"
  by (simp_all add: msh_flex_def)

lemmas msh_tables = msh_fields msh_yy_accept_def msh_yy_base_def

text \<open>The transitions out of every state that occurs, for every class of characters.\<close>

lemma trans_msh:
  "yy_trans msh_flex 1 0 = Some 7" "yy_trans msh_flex 3 0 = Some 7" "yy_trans msh_flex 7 0 = Some 22"
  "c \<in> {1, 2, 3, 4, 5, 6, 7, 8} \<Longrightarrow> yy_trans msh_flex 1 c = Some (c + 7)"
  "w \<in> {8, 20} \<Longrightarrow> yy_trans msh_flex w 1 = Some 20"
  "w \<in> {8, 20} \<Longrightarrow> c \<in> {2, 3, 4, 5, 6, 7, 8} \<Longrightarrow> yy_trans msh_flex w c = Some 22"
  "c \<in> {1, 2, 5, 6, 7, 8} \<Longrightarrow> yy_trans msh_flex 3 c = Some 16"
  "yy_trans msh_flex 3 3 = Some 17" "yy_trans msh_flex 3 4 = Some 18"
  "w \<in> {16, 21} \<Longrightarrow> c \<in> {1, 2, 5, 6, 7, 8} \<Longrightarrow> yy_trans msh_flex w c = Some 21"
  "w \<in> {16, 21} \<Longrightarrow> c \<in> {3, 4} \<Longrightarrow> yy_trans msh_flex w c = Some 22"
proof -
  have "list_all (\<lambda>c. yy_trans msh_flex 1 c = Some (c + 7)) [1, 2, 3, 4, 5, 6, 7, 8]"
    "list_all (\<lambda>w. yy_trans msh_flex w 1 = Some 20) [8, 20]"
    "list_all (\<lambda>w. list_all (\<lambda>c. yy_trans msh_flex w c = Some 22) [2, 3, 4, 5, 6, 7, 8]) [8, 20]"
    "list_all (\<lambda>c. yy_trans msh_flex 3 c = Some 16) [1, 2, 5, 6, 7, 8]"
    "list_all (\<lambda>w. list_all (\<lambda>c. yy_trans msh_flex w c = Some 21) [1, 2, 5, 6, 7, 8]) [16, 21]"
    "list_all (\<lambda>w. list_all (\<lambda>c. yy_trans msh_flex w c = Some 22) [3, 4]) [16, 21]"
    by code_simp+
  then show "c \<in> {1, 2, 3, 4, 5, 6, 7, 8} \<Longrightarrow> yy_trans msh_flex 1 c = Some (c + 7)"
    "w \<in> {8, 20} \<Longrightarrow> yy_trans msh_flex w 1 = Some 20"
    "w \<in> {8, 20} \<Longrightarrow> c \<in> {2, 3, 4, 5, 6, 7, 8} \<Longrightarrow> yy_trans msh_flex w c = Some 22"
    "c \<in> {1, 2, 5, 6, 7, 8} \<Longrightarrow> yy_trans msh_flex 3 c = Some 16"
    "w \<in> {16, 21} \<Longrightarrow> c \<in> {1, 2, 5, 6, 7, 8} \<Longrightarrow> yy_trans msh_flex w c = Some 21"
    "w \<in> {16, 21} \<Longrightarrow> c \<in> {3, 4} \<Longrightarrow> yy_trans msh_flex w c = Some 22"
    by (auto simp del: One_nat_def)
  show "yy_trans msh_flex 1 0 = Some 7" "yy_trans msh_flex 3 0 = Some 7" "yy_trans msh_flex 7 0 = Some 22"
    "yy_trans msh_flex 3 3 = Some 17" "yy_trans msh_flex 3 4 = Some 18" by code_simp+
qed

interpretation plain_scan: run_scanner msh_flex 1 "{8, 20}" plain_char 9 plain_rule 7
proof
  show "\<exists>w \<in> {8, 20}. yy_trans msh_flex 1 (yy_class msh_flex c) = Some w" if "plain_char c" for c
    using that by (auto simp del: One_nat_def simp: plain_char_def msh_class_char trans_msh)
  show "\<exists>w' \<in> {8, 20}. yy_trans msh_flex w (yy_class msh_flex c) = Some w'"
    if "w \<in> {8, 20}" "plain_char c" for w c
    using that by (auto simp del: One_nat_def simp: plain_char_def msh_class_char trans_msh)
  show "\<exists>j. yy_trans msh_flex w (yy_class msh_flex c) = Some j \<and> ft_base msh_flex ! j = ft_jam msh_flex \<and>
      ft_accept msh_flex ! j = 0" if "w \<in> {8, 20}" "\<not> plain_char c" "c \<noteq> NUL" for w c
    using that by (intro exI [of _ 22]) (auto simp del: One_nat_def simp: plain_char_def msh_class_char trans_msh msh_tables)
  show "\<exists>j. yy_trans msh_flex 1 (yy_class msh_flex c) = Some j \<and> ft_base msh_flex ! j = ft_jam msh_flex \<and>
      ft_accept msh_flex ! j = plain_rule c" if "\<not> plain_char c" "c \<noteq> NUL" for c
    using that
    by (intro exI [of _ "yy_class msh_flex c + 7"])
      (auto simp del: One_nat_def simp: plain_char_def msh_class_char trans_msh plain_rule_def msh_tables)
qed (auto simp del: One_nat_def simp: msh_class_char trans_msh msh_tables plain_rule_def plain_char_def)

interpretation quote_scan: run_scanner msh_flex 3 "{16, 21}" quoted_char 2 quote_rule 7
proof
  show "\<exists>w \<in> {16, 21}. yy_trans msh_flex 3 (yy_class msh_flex c) = Some w" if "quoted_char c" for c
    using that by (auto simp del: One_nat_def simp: quoted_char_def msh_class_char trans_msh)
  show "\<exists>w' \<in> {16, 21}. yy_trans msh_flex w (yy_class msh_flex c) = Some w'"
    if "w \<in> {16, 21}" "quoted_char c" for w c
    using that by (auto simp del: One_nat_def simp: quoted_char_def msh_class_char trans_msh)
  show "\<exists>j. yy_trans msh_flex w (yy_class msh_flex c) = Some j \<and> ft_base msh_flex ! j = ft_jam msh_flex \<and>
      ft_accept msh_flex ! j = 0" if "w \<in> {16, 21}" "\<not> quoted_char c" "c \<noteq> NUL" for w c
    using that by (intro exI [of _ 22]) (auto simp del: One_nat_def simp: quoted_char_def msh_class_char trans_msh msh_tables)
  show "\<exists>j. yy_trans msh_flex 3 (yy_class msh_flex c) = Some j \<and> ft_base msh_flex ! j = ft_jam msh_flex \<and>
      ft_accept msh_flex ! j = quote_rule c" if "\<not> quoted_char c" "c \<noteq> NUL" for c
    using that
    by (intro exI [of _ "yy_class msh_flex c + 14"])
      (auto simp del: One_nat_def simp: quoted_char_def msh_class_char trans_msh quote_rule_def msh_tables)
qed (auto simp del: One_nat_def simp: msh_class_char trans_msh msh_tables quote_rule_def quoted_char_def)

end
