(* ===== verification/Msh.thy ===== *)
theory Msh
  imports MshExec MshScanner
begin

text \<open>
  The shell \<open>msh\<close> as a whole: the actions of its scanner with the expansion of variables
  (\<open>src/2/xyshell-read-only/study/msh/lex.yy.c\<close>, \<open>add_arg\<close> to \<open>my_yyinput\<close>) and the main program (\<open>msh.c\<close>).
\<close>

section \<open>State\<close>

text \<open>
  \<open>buf\<close> is what lies between \<open>myptr\<close> and \<open>mylim\<close>; \<open>yy_start\<close> is the state of the scanner for the current start condition.
\<close>

record mshell =
  core :: msh
  argbuf :: "string list"
  mlexer :: ybuf
  yy_start :: nat
  buf :: string

definition ARGBUF :: nat where "ARGBUF = 200"
definition BUFSIZ :: nat where "BUFSIZ = 8192"

section \<open>Arguments\<close>

definition add_simple_arg :: "string \<Rightarrow> mshell \<Rightarrow> mshell sh" where
  "add_simple_arg arg s = (if length (argbuf s) + 1 < ARGBUF then Go (s\<lparr>argbuf := argbuf s @ [arg]\<rparr>) else Crash)"

text \<open>
  The loop of \<open>add_arg\<close>: \<open>b\<close> is what it has put into its buffer of 200 bytes; a name is collected in another buffer
  of that size.
\<close>

function arg_loop :: "int \<Rightarrow> (string \<rightharpoonup> string) \<Rightarrow> string \<Rightarrow> string \<Rightarrow> string sh" where
  "arg_loop pid env [] b = (if length b < 200 then Go b else Crash)"
| "arg_loop pid env (c # cs) b =
     (if c = CHR ''$'' then
        (case cs of
           [] \<Rightarrow> arg_loop pid env [] (b @ ''$'')
         | d # ds \<Rightarrow>
             if d = CHR ''$'' then arg_loop pid env ds (b @ dec pid)
             else
               (let name = takeWhile (\<lambda>x. x \<noteq> CHR ''$'') cs in
                if 200 \<le> length name then Crash
                else arg_loop pid env (dropWhile (\<lambda>x. x \<noteq> CHR ''$'') cs) (b @ (case env name of None \<Rightarrow> [] | Some v \<Rightarrow> v))))
      else arg_loop pid env cs (b @ [c]))"
  by pat_completeness auto
termination
  by (relation "measure (\<lambda>(pid, env, cs, b). length cs)") (auto simp: less_Suc_eq_le intro: le_trans [OF length_dropWhile_le])

definition add_arg :: "mworld \<Rightarrow> string \<Rightarrow> mshell \<Rightarrow> mshell sh" where
  "add_arg w xarg s =
     sbind (arg_loop (mw_pid w) (menv (core s)) xarg []) (\<lambda>b. if b = [] then Go s else add_simple_arg b s)"

definition msh_yyinput :: "nat \<Rightarrow> mshell \<Rightarrow> (int \<times> string) \<times> mshell" where
  "msh_yyinput mx s =
     (let n = min mx (length (buf s)) in ((int n, take n (buf s)), s\<lparr>buf := drop n (buf s)\<rparr>))"

definition list_and_reset :: "mworld \<Rightarrow> mshell \<Rightarrow> mshell sh" where
  "list_and_reset w s = sbind (msh_list_cmd w (argbuf s) (core s)) (\<lambda>c. Go (s\<lparr>core := c, argbuf := []\<rparr>))"

text \<open>The actions, by the number of the rule; \<open>Exit 2\<close> is the fatal error of the scanner.\<close>

definition msh_action :: "mworld \<Rightarrow> nat \<Rightarrow> string \<Rightarrow> mshell \<Rightarrow> mshell sh" where
  "msh_action w act yytext s =
     (if act = 1 then Go (s\<lparr>yy_start := begin_state QUOTE\<rparr>)
      else if act = 2 \<or> act = 9 then add_arg w yytext s
      else if act = 3 then Go (s\<lparr>yy_start := begin_state 0\<rparr>)
      else if act = 4 then list_and_reset w (s\<lparr>yy_start := begin_state 0\<rparr>)
      else if act \<in> {5, 6, 7, 8} then add_simple_arg yytext s
      else if act = 10 then list_and_reset w s
      else if act = 11 then Go s
      else if act = 12 then Go (s\<lparr>core := note_events [M_put (say (core s) yytext)] (core s)\<rparr>)
      else Exit 2)"

partial_function (option) msh_yylex :: "mworld \<Rightarrow> mshell \<Rightarrow> mshell sh option" where
  "msh_yylex w s =
     (case yy_scan msh_flex msh_yyinput (yy_start s) (mlexer s) s 0 (yy_start s) (0, 0) of
        None \<Rightarrow> None
      | Some (t, s) \<Rightarrow>
          (case t of
             Tok_fatal \<Rightarrow> Some (Exit 2)
           | Eof b \<Rightarrow> Some (Go (s\<lparr>mlexer := b\<rparr>))
           | Tok act yytext b \<Rightarrow>
               (case msh_action w act yytext (s\<lparr>mlexer := b\<rparr>) of
                  Exit n \<Rightarrow> Some (Exit n)
                | Crash \<Rightarrow> Some Crash
                | Go s \<Rightarrow> msh_yylex w s)))"

section \<open>The main program\<close>

text \<open>\<open>basename\<close> of an absolute path without a slash at its end.\<close>

definition basename :: "string \<Rightarrow> string" where
  "basename p = rev (takeWhile (\<lambda>c. c \<noteq> CHR ''/'') (rev p))"

definition msh_prompt :: "string option \<Rightarrow> string option \<Rightarrow> string option \<Rightarrow> string" where
  "msh_prompt host cwd user =
     ''['' @ (case user of None \<Rightarrow> ''unknown'' | Some u \<Rightarrow> u) @ ''@'' @
     (case host of None \<Rightarrow> ''unknown'' | Some h \<Rightarrow> takeWhile (\<lambda>c. c \<noteq> CHR ''.'') h) @ '' '' @
     (case cwd of None \<Rightarrow> ''unknown'' | Some d \<Rightarrow> if d = ''/'' then d else basename d) @ '']# ''"

definition msh_init :: "msh \<Rightarrow> mshell" where
  "msh_init c =
     \<lparr>core = c\<lparr>lastdir := take 98 (mcwd c)\<rparr>, argbuf = [], mlexer = new_buffer, yy_start = 1, buf = []\<rparr>"

definition msh_line :: "mworld \<Rightarrow> string \<Rightarrow> mshell \<Rightarrow> mshell sh option" where
  "msh_line w line s =
     (let s = (if line = [] then s else s\<lparr>core := (core s)\<lparr>history := history (core s) @ [line]\<rparr>\<rparr>)
      in if BUFSIZ \<le> length line + 1 then Some Crash
         else msh_yylex w (s\<lparr>buf := line @ [NL]\<rparr>))"

text \<open>The loop over the lines \<open>readline\<close> returns, up to the end of the input.\<close>

fun msh_main :: "mworld \<Rightarrow> string list \<Rightarrow> mshell \<Rightarrow> mshell sh option" where
  "msh_main w [] s = Some (Go s)"
| "msh_main w (l # ls) s =
     (case msh_line w l s of
        None \<Rightarrow> None
      | Some (Exit n) \<Rightarrow> Some (Exit n)
      | Some Crash \<Rightarrow> Some Crash
      | Some (Go s) \<Rightarrow> msh_main w ls s)"

section \<open>Expansion\<close>

text \<open>What a word stands for, without the limits of the buffers.\<close>

function msh_subst :: "int \<Rightarrow> (string \<rightharpoonup> string) \<Rightarrow> string \<Rightarrow> string" where
  "msh_subst pid env [] = []"
| "msh_subst pid env (c # cs) =
     (if c = CHR ''$'' then
        (case cs of
           [] \<Rightarrow> ''$''
         | d # ds \<Rightarrow>
             if d = CHR ''$'' then dec pid @ msh_subst pid env ds
             else (case env (takeWhile (\<lambda>x. x \<noteq> CHR ''$'') cs) of None \<Rightarrow> [] | Some v \<Rightarrow> v) @
               msh_subst pid env (dropWhile (\<lambda>x. x \<noteq> CHR ''$'') cs))
      else c # msh_subst pid env cs)"
  by pat_completeness auto
termination
  by (relation "measure (\<lambda>(pid, env, cs). length cs)") (auto simp: less_Suc_eq_le intro: le_trans [OF length_dropWhile_le])

lemma arg_loop_subst:
  assumes "length xarg < 200" "length (b @ msh_subst pid env xarg) < 200"
  shows "arg_loop pid env xarg b = Go (b @ msh_subst pid env xarg)"
  using assms
proof (induction pid env xarg b rule: arg_loop.induct)
  case (2 pid env c cs b)
  have t: "length (takeWhile (\<lambda>x. x \<noteq> CHR ''$'') cs) < 200" "length (dropWhile (\<lambda>x. x \<noteq> CHR ''$'') cs) < 200"
    using 2(5) length_takeWhile_le [of "\<lambda>x. x \<noteq> CHR ''$''" cs] length_dropWhile_le [of "\<lambda>x. x \<noteq> CHR ''$''" cs] by auto
  show ?case
  proof (cases "c = CHR ''$''")
    case False
    with 2 show ?thesis by simp
  next
    case dollar: True
    show ?thesis
    proof (cases cs)
      case Nil
      with 2 dollar show ?thesis by simp
    next
      case (Cons d ds)
      show ?thesis
      proof (cases "d = CHR ''$''")
        case True
        with 2(2) [OF dollar Cons True] 2(5,6) dollar Cons show ?thesis by simp
      next
        case False
        with 2(3) [OF dollar Cons False refl] 2(5,6) t dollar Cons show ?thesis by simp
      qed
    qed
  qed
qed simp

section \<open>The arguments of a line\<close>

text \<open>
  A line consists of words outside quotes, the text between quotes, and operators; only words and quoted texts are expanded
  (flag \<open>True\<close>). \<open>q\<close> says that a quote is open.
\<close>

function pieces :: "bool \<Rightarrow> string \<Rightarrow> (bool \<times> string) list" where
  "pieces q [] = []"
| "pieces q (c # cs) =
     (if q then
        (if c = CHR 0x22 then pieces False cs
         else (True, c # takeWhile quoted_char cs) # pieces True (dropWhile quoted_char cs))
      else if plain_char c then (True, c # takeWhile plain_char cs) # pieces False (dropWhile plain_char cs)
      else if c = CHR 0x22 then pieces True cs
      else if c \<in> {CHR '';'', CHR ''<'', CHR ''>'', CHR ''|''} then (False, [c]) # pieces False cs
      else pieces False cs)"
  by pat_completeness auto
termination
  by (relation "measure (\<lambda>(q, cs). length cs)") (auto simp: less_Suc_eq_le length_dropWhile_le)

definition arg_of :: "int \<Rightarrow> (string \<rightharpoonup> string) \<Rightarrow> bool \<times> string \<Rightarrow> string list" where
  "arg_of pid env p =
     (if fst p then (let v = msh_subst pid env (snd p) in if v = [] then [] else [v]) else [snd p])"

definition line_args :: "int \<Rightarrow> (string \<rightharpoonup> string) \<Rightarrow> bool \<Rightarrow> string \<Rightarrow> string list" where
  "line_args pid env q line = concat (map (arg_of pid env) (pieces q line))"

definition line_fits :: "int \<Rightarrow> (string \<rightharpoonup> string) \<Rightarrow> bool \<Rightarrow> string \<Rightarrow> bool" where
  "line_fits pid env q line \<longleftrightarrow> (\<forall>p \<in> set (pieces q line). fst p \<longrightarrow> length (msh_subst pid env (snd p)) < 200)"

definition start_of :: "bool \<Rightarrow> nat" where
  "start_of q = begin_state (if q then QUOTE else 0)"

lemma start_of_simps [simp]: "start_of True = 3" "start_of False = 1" "begin_state QUOTE = 3" "begin_state 0 = 1"
  by (simp_all add: start_of_def begin_state_def QUOTE_def)

text \<open>One turn of \<open>msh_yylex\<close>.\<close>

lemma msh_yylex_token:
  assumes "yy_scan msh_flex msh_yyinput (yy_start s) (mlexer s) s 0 (yy_start s) (0, 0) = Some (Tok act x b, s)"
    and "msh_action w act x (s\<lparr>mlexer := b\<rparr>) = Go s'"
  shows "msh_yylex w s = msh_yylex w s'"
  by (subst msh_yylex.simps) (simp add: assms)

lemma msh_yylex_eof:
  assumes "yb (mlexer s) = []" "\<not> yb_eof (mlexer s)" "1 < yb_size (mlexer s)" "buf s = []" "yy_start s = 1"
  shows "msh_yylex w s = Some (Go s)"
proof -
  have inp: "msh_yyinput (min YY_READ_BUF_SIZE (yb_size (mlexer s) - 1)) s = ((0, []), s)"
    using assms(4) by (simp add: msh_yyinput_def)
  show ?thesis
    using plain_scan.next_eof [where b = "mlexer s" and inp = msh_yyinput and i = s, OF assms(1-3) inp] assms(5) by (subst msh_yylex.simps) (simp del: One_nat_def)
qed

lemma add_arg_Go:
  assumes "length x < 200" "length (msh_subst (mw_pid w) (menv (core s)) x) < 200" "length (argbuf s) + 1 < ARGBUF"
  shows "add_arg w x s = Go (s\<lparr>argbuf := argbuf s @ arg_of (mw_pid w) (menv (core s)) (True, x)\<rparr>)"
  using assms arg_loop_subst [of x "[]"] by (simp add: add_arg_def add_simple_arg_def arg_of_def Let_def)

text \<open>A word, in either start condition.\<close>

lemma msh_yylex_word:
  assumes "q \<Longrightarrow> quoted_char c \<and> list_all quoted_char us \<and> \<not> quoted_char d"
    and "\<not> q \<Longrightarrow> plain_char c \<and> list_all plain_char us \<and> \<not> plain_char d"
    and "d \<noteq> NUL" "yb (mlexer s) = (c # us) @ d # bs" "yy_start s = start_of q"
    and "length (c # us) < 200" "length (msh_subst (mw_pid w) (menv (core s)) (c # us)) < 200" "length (argbuf s) + 1 < ARGBUF"
  shows "msh_yylex w s =
    msh_yylex w (s\<lparr>mlexer := (mlexer s)\<lparr>yb := d # bs\<rparr>, argbuf := argbuf s @ arg_of (mw_pid w) (menv (core s)) (True, c # us)\<rparr>)"
proof -
  have "\<exists>act \<in> {2, 9}. yy_scan msh_flex msh_yyinput (yy_start s) (mlexer s) s 0 (yy_start s) (0, 0) =
      Some (Tok act (c # us) ((mlexer s)\<lparr>yb := d # bs\<rparr>), s)"
    using assms(1,2,5) quote_scan.next_word [where inp = msh_yyinput and i = s and la = "(0, 0)", OF _ _ _ assms(3,4)]
      plain_scan.next_word [where inp = msh_yyinput and i = s and la = "(0, 0)", OF _ _ _ assms(3,4)]
    by (cases q) (auto simp del: One_nat_def)
  then obtain act where act: "act \<in> {2, 9}"
    "yy_scan msh_flex msh_yyinput (yy_start s) (mlexer s) s 0 (yy_start s) (0, 0) =
      Some (Tok act (c # us) ((mlexer s)\<lparr>yb := d # bs\<rparr>), s)" by blast
  have "msh_action w act (c # us) (s\<lparr>mlexer := (mlexer s)\<lparr>yb := d # bs\<rparr>\<rparr>) =
      add_arg w (c # us) (s\<lparr>mlexer := (mlexer s)\<lparr>yb := d # bs\<rparr>\<rparr>)"
    using act(1) by (auto simp: msh_action_def)
  also have "\<dots> = Go (s\<lparr>mlexer := (mlexer s)\<lparr>yb := d # bs\<rparr>, argbuf := argbuf s @ arg_of (mw_pid w) (menv (core s)) (True, c # us)\<rparr>)"
    using assms(6-8) by (subst add_arg_Go) simp_all
  finally show ?thesis by (rule msh_yylex_token [OF act(2)])
qed

text \<open>A character outside words that is not the newline.\<close>

lemma msh_yylex_char:
  assumes "if q then c = CHR 0x22 else \<not> plain_char c" "c \<noteq> NUL" "c \<noteq> NL"
    and "yb (mlexer s) = c # bs" "yy_start s = start_of q" "length (argbuf s) + 1 < ARGBUF"
  shows "msh_yylex w s =
    msh_yylex w (s\<lparr>mlexer := (mlexer s)\<lparr>yb := bs\<rparr>, yy_start := start_of (if c = CHR 0x22 then \<not> q else q),
      argbuf := argbuf s @ (if c \<in> {CHR '';'', CHR ''<'', CHR ''>'', CHR ''|''} then [[c]] else [])\<rparr>)"
proof (cases q)
  case True
  then have c: "\<not> quoted_char c" "quote_rule c = 3" "c = CHR 0x22" using assms(1) by (simp_all add: quoted_char_def quote_rule_def)
  have scan: "yy_scan msh_flex msh_yyinput (yy_start s) (mlexer s) s 0 (yy_start s) (0, 0) =
      Some (Tok 3 [c] ((mlexer s)\<lparr>yb := bs\<rparr>), s)"
    using quote_scan.next_single [OF c(1) assms(2,4)] c(2) assms(5) True by simp
  show ?thesis using True c(3) by (intro msh_yylex_token [OF scan]) (simp add: msh_action_def)
next
  case False
  then have c: "\<not> plain_char c" using assms(1) by simp
  have scan: "yy_scan msh_flex msh_yyinput (yy_start s) (mlexer s) s 0 (yy_start s) (0, 0) =
      Some (Tok (plain_rule c) [c] ((mlexer s)\<lparr>yb := bs\<rparr>), s)"
    using plain_scan.next_single [OF c assms(2,4)] assms(5) False by (simp del: One_nat_def)
  show ?thesis
    using False c assms(2,3,5,6)
    by (intro msh_yylex_token [OF scan]) (auto simp: msh_action_def plain_rule_def plain_char_def add_simple_arg_def)
qed

lemma msh_yylex_newline:
  assumes "yb (mlexer s) = [NL]" "\<not> yb_eof (mlexer s)" "1 < yb_size (mlexer s)" "buf s = []" "yy_start s = start_of q"
  shows "msh_yylex w s = Some (list_and_reset w (s\<lparr>mlexer := (mlexer s)\<lparr>yb := []\<rparr>, yy_start := 1\<rparr>))"
proof -
  let ?s = "s\<lparr>mlexer := (mlexer s)\<lparr>yb := []\<rparr>, yy_start := 1\<rparr>"
  have nl: "\<not> quoted_char NL" "\<not> plain_char NL" "NL \<noteq> NUL" "quote_rule NL = 4" "plain_rule NL = 10"
    by (simp_all add: quoted_char_def plain_char_def quote_rule_def plain_rule_def)
  have scan: "yy_scan msh_flex msh_yyinput (yy_start s) (mlexer s) s 0 (yy_start s) (0, 0) =
      Some (Tok (if q then 4 else 10) [NL] ((mlexer s)\<lparr>yb := []\<rparr>), s)"
    using quote_scan.next_single [OF nl(1,3), of "mlexer s" "[]"] plain_scan.next_single [OF nl(2,3), of "mlexer s" "[]"]
      assms(1,5) nl(4,5) by (cases q) (simp_all del: One_nat_def)
  have act: "msh_action w (if q then 4 else 10) [NL] (s\<lparr>mlexer := (mlexer s)\<lparr>yb := []\<rparr>\<rparr>) = list_and_reset w ?s"
  proof (cases q)
    case False
    then have "s\<lparr>mlexer := (mlexer s)\<lparr>yb := []\<rparr>\<rparr> = ?s" using assms(5) by (intro mshell.equality) simp_all
    with False show ?thesis by (simp add: msh_action_def)
  qed (simp add: msh_action_def)
  have eof: "msh_yylex w s' = Some (Go s')" if "list_and_reset w ?s = Go s'" for s'
    using that assms(2-4)
    by (intro msh_yylex_eof) (cases "msh_list_cmd w (argbuf s) (core s)", auto simp: list_and_reset_def)+
  show ?thesis
    by (subst msh_yylex.simps) (simp add: scan act split: sh.splits, auto intro: eof)
qed

lemma rest_outside:
  assumes "NUL \<notin> set cs" "\<not> P NL"
  shows "\<exists>d ds. dropWhile P cs @ [NL] = d # ds \<and> \<not> P d \<and> d \<noteq> NUL"
proof (cases "dropWhile P cs")
  case Nil
  with assms(2) show ?thesis by (intro exI [of _ NL] exI [of _ "[]"]) (simp del: dropWhile_eq_Nil_conv)
next
  case (Cons d ds)
  then have "\<not> P d" using hd_dropWhile [of P cs] by auto
  moreover have "d \<in> set cs" using Cons set_dropWhileD [of d P cs] by simp
  ultimately show ?thesis using assms(1) Cons by auto
qed

lemma pieces_word:
  assumes "P = (if q then quoted_char else plain_char)" "P c" "c \<noteq> CHR 0x22"
  shows "pieces q (c # cs) = (True, c # takeWhile P cs) # pieces q (dropWhile P cs)"
  using assms by (cases q) simp_all

text \<open>From any point of a line to its end: the rest of the arguments, the commands, and the end of the input.\<close>

lemma msh_yylex_line:
  assumes "yb (mlexer s) = line @ [NL]" "NUL \<notin> set line" "NL \<notin> set line" "line_fits (mw_pid w) (menv (core s)) q line"
    and "length (argbuf s) + length line + 1 < ARGBUF" "\<not> yb_eof (mlexer s)" "1 < yb_size (mlexer s)" "buf s = []"
    and "yy_start s = start_of q"
  shows "msh_yylex w s = Some (list_and_reset w
    (s\<lparr>mlexer := (mlexer s)\<lparr>yb := []\<rparr>, yy_start := 1, argbuf := argbuf s @ line_args (mw_pid w) (menv (core s)) q line\<rparr>))"
  using assms
proof (induction "length line" arbitrary: line s q rule: less_induct)
  case less
  show ?case
  proof (cases line)
    case Nil
    with less.prems show ?thesis using msh_yylex_newline [of s q w] by (simp add: line_args_def)
  next
    case (Cons c cs)
    define P where "P = (if q then quoted_char else plain_char)"
    have nl: "\<not> P NL" by (simp add: P_def quoted_char_def plain_char_def)
    show ?thesis
    proof (cases "P c \<and> c \<noteq> CHR 0x22")
      case True
      define us r where "us = takeWhile P cs" and "r = dropWhile P cs"
      have cs: "cs = us @ r" by (simp add: us_def r_def)
      obtain d ds where d: "r @ [NL] = d # ds" "\<not> P d" "d \<noteq> NUL"
        using rest_outside [of cs P] less.prems(2) nl Cons by (auto simp: r_def)
      have p: "pieces q line = (True, c # us) # pieces q r"
        using True Cons pieces_word [OF P_def] by (simp add: us_def r_def del: pieces.simps)
      have us: "list_all P us" by (auto simp: us_def list_all_iff dest: set_takeWhileD)
      define x where "x = arg_of (mw_pid w) (menv (core s)) (True, c # us)"
      define s' where "s' = s\<lparr>mlexer := (mlexer s)\<lparr>yb := d # ds\<rparr>, argbuf := argbuf s @ x\<rparr>"
      have x1: "length x \<le> 1" by (simp add: x_def arg_of_def Let_def)
      have "msh_yylex w s = msh_yylex w s'"
        unfolding s'_def x_def using less.prems Cons True us d p
        by (intro msh_yylex_word [where q = q]) (auto simp: P_def cs line_fits_def ARGBUF_def)
      also have "\<dots> = Some (list_and_reset w (s'\<lparr>mlexer := (mlexer s')\<lparr>yb := []\<rparr>, yy_start := 1,
          argbuf := argbuf s' @ line_args (mw_pid w) (menv (core s')) q r\<rparr>))"
        using less.prems Cons d p x1 by (intro less.hyps) (auto simp: s'_def cs line_fits_def)
      finally show ?thesis by (simp add: s'_def line_args_def p x_def)
    next
      case False
      then have c: "c = CHR 0x22 \<or> \<not> q \<and> \<not> plain_char c"
        using less.prems(2,3) Cons by (auto simp: P_def quoted_char_def split: if_splits)
      define q' where "q' = (if c = CHR 0x22 then \<not> q else q)"
      define op where "op = (if c \<in> {CHR '';'', CHR ''<'', CHR ''>'', CHR ''|''} then [[c]] else [])"
      have pc: "pieces q line = (if c \<in> {CHR '';'', CHR ''<'', CHR ''>'', CHR ''|''} then [(False, [c])] else []) @ pieces q' cs"
      proof (cases "c = CHR 0x22")
        case True
        then show ?thesis using Cons by (cases q) (simp_all add: q'_def plain_char_def)
      next
        case quote: False
        with c have "\<not> q" "\<not> plain_char c" by simp_all
        with quote show ?thesis using Cons by (simp add: q'_def)
      qed
      have p: "line_args pid env q line = op @ line_args pid env q' cs"
        "line_fits pid env q line \<longleftrightarrow> line_fits pid env q' cs" for pid env
        unfolding line_args_def line_fits_def pc op_def by (simp add: arg_of_def, auto)
      have "msh_yylex w s = msh_yylex w (s\<lparr>mlexer := (mlexer s)\<lparr>yb := cs @ [NL]\<rparr>, yy_start := start_of q', argbuf := argbuf s @ op\<rparr>)"
        unfolding q'_def op_def using less.prems Cons c
        by (intro msh_yylex_char) (auto simp: plain_char_def ARGBUF_def split: if_splits)
      also have "\<dots> = Some (list_and_reset w (s\<lparr>mlexer := (mlexer s)\<lparr>yb := []\<rparr>, yy_start := 1,
          argbuf := argbuf s @ line_args (mw_pid w) (menv (core s)) q line\<rparr>))"
        using less.prems Cons p by (subst less.hyps [where line = cs and q = q']) (auto simp: op_def split: if_splits)
      finally show ?thesis .
    qed
  qed
qed

section \<open>One line of input\<close>

text \<open>Between two lines the scanner's buffer is empty and no quote is open.\<close>

definition at_prompt :: "mshell \<Rightarrow> bool" where
  "at_prompt s \<longleftrightarrow> argbuf s = [] \<and> mlexer s = new_buffer \<and> yy_start s = 1 \<and> buf s = []"

lemma msh_scan_start:
  assumes "yb b = line @ [NL]" "NUL \<notin> set line"
  shows "\<exists>act x b'. \<forall>i la. yy_scan msh_flex inp 1 b i 0 1 la = Some (Tok act x b', i)"
proof (cases line)
  case Nil
  have "\<not> plain_char NL" "NL \<noteq> NUL" by (simp_all add: plain_char_def)
  from plain_scan.next_single [OF this, of b "[]"] assms(1) Nil show ?thesis by (metis append_Nil)
next
  case (Cons c cs)
  show ?thesis
  proof (cases "plain_char c")
    case True
    obtain d ds where d: "dropWhile plain_char cs @ [NL] = d # ds" "\<not> plain_char d" "d \<noteq> NUL"
      using rest_outside [of cs plain_char] assms(2) Cons by (auto simp: plain_char_def)
    have us: "list_all plain_char (takeWhile plain_char cs)" by (auto simp: list_all_iff dest: set_takeWhileD)
    have "yb b = (c # takeWhile plain_char cs) @ d # ds"
      using assms(1) Cons d(1) by (metis append_Cons append_assoc takeWhile_dropWhile_id)
    from plain_scan.next_word [OF True us d(2,3) this] show ?thesis by metis
  next
    case False
    have "c \<noteq> NUL" "yb b = c # cs @ [NL]" using assms Cons by auto
    from plain_scan.next_single [OF False this] show ?thesis by metis
  qed
qed

lemma msh_yylex_refill:
  assumes "mlexer s = new_buffer" "yy_start s = 1" "buf s = line @ [NL]" "NUL \<notin> set line" "length line + 1 < YY_READ_BUF_SIZE"
  shows "msh_yylex w s = msh_yylex w (s\<lparr>mlexer := new_buffer\<lparr>yb := line @ [NL]\<rparr>, buf := []\<rparr>)"
proof -
  let ?b = "new_buffer\<lparr>yb := line @ [NL]\<rparr>" and ?s = "s\<lparr>buf := []\<rparr>"
  have inp: "msh_yyinput (min YY_READ_BUF_SIZE (yb_size new_buffer - 1)) s = ((int (length line + 1), line @ [NL]), ?s)"
    using assms(3,5) by (simp add: msh_yyinput_def new_buffer_def YY_BUF_SIZE_def YY_READ_BUF_SIZE_def Let_def)
  obtain act x b' where t: "yy_scan msh_flex msh_yyinput 1 ?b i 0 1 la = Some (Tok act x b', i)" for i la
    using msh_scan_start [of ?b line msh_yyinput] assms(4) by auto
  obtain la where "yy_scan msh_flex msh_yyinput 1 new_buffer s 0 1 (0, 0) =
      yy_scan msh_flex msh_yyinput 1 (new_buffer\<lparr>yb := take (nat (int (length line + 1))) (line @ [NL])\<rparr>) ?s 0 1 la"
    using plain_scan.next_refill [where b = new_buffer and inp = msh_yyinput and i = s, OF _ _ _ inp, of "(0, 0)"]
    by (auto simp: new_buffer_def YY_BUF_SIZE_def simp del: One_nat_def)
  then have "yy_scan msh_flex msh_yyinput 1 new_buffer s 0 1 (0, 0) = Some (Tok act x b', ?s)"
    using t [of ?s la] by (simp del: One_nat_def)
  then show ?thesis
    using assms(1,2) by (subst (1 2) msh_yylex.simps) (simp add: t del: One_nat_def)
qed

text \<open>A line with a quoted argument and two commands.\<close>

definition session_line :: string where
  "session_line = ''echo '' @ [CHR 0x22] @ ''a b'' @ [CHR 0x22] @ '';exit 3''"

lemma session:
  "line_args 42 (menv msh_start) False session_line = [''echo'', ''a b'', '';'', ''exit'', ''3'']"
  "line_fits 42 (menv msh_start) False session_line" "mw_pid msh_world = 42" "length session_line = 17"
  "NUL \<notin> set session_line" "NL \<notin> set session_line" "session_line \<noteq> []"
  "msh_list_cmd msh_world [''echo'', ''a b'', '';'', ''exit'', ''3''] c = Exit 3"
proof -
  show "line_args 42 (menv msh_start) False session_line = [''echo'', ''a b'', '';'', ''exit'', ''3'']"
    unfolding msh_start_def session_line_def by code_simp
  show "line_fits 42 (menv msh_start) False session_line"
    by (simp add: line_fits_def plain_char_def quoted_char_def msh_start_def session_line_def)
  have "atoi ''3'' = 3" by code_simp
  then show "msh_list_cmd msh_world [''echo'', ''a b'', '';'', ''exit'', ''3''] c = Exit 3"
    by (simp add: msh_list_cmd_def msh_pipe_cmd_def msh_simple_cmd_def msh_handle_def msh_builtins_def
        predo_for_redirect_def redirect_at_def upt_rec msh_exit_def)
qed (simp_all add: msh_world_def session_line_def)

lemma msh_line_step:
  assumes "at_prompt s" "NUL \<notin> set line" "NL \<notin> set line" "line \<noteq> []" "length line < 190"
    and "line_fits (mw_pid w) (menv (core s)) False line"
  shows "msh_line w line s = Some (list_and_reset w
    (s\<lparr>core := (core s)\<lparr>history := history (core s) @ [line]\<rparr>, argbuf := line_args (mw_pid w) (menv (core s)) False line\<rparr>))"
proof -
  define s1 where "s1 = s\<lparr>core := (core s)\<lparr>history := history (core s) @ [line]\<rparr>, buf := line @ [NL]\<rparr>"
  have s: "argbuf s = []" "mlexer s = new_buffer" "yy_start s = 1" "buf s = []" using assms(1) by (auto simp: at_prompt_def)
  have "msh_line w line s = msh_yylex w s1"
    using assms(4,5) by (simp add: msh_line_def s1_def BUFSIZ_def)
  also have "\<dots> = msh_yylex w (s1\<lparr>mlexer := new_buffer\<lparr>yb := line @ [NL]\<rparr>, buf := []\<rparr>)"
    using assms(2,5) s by (intro msh_yylex_refill) (simp_all add: s1_def YY_READ_BUF_SIZE_def)
  also have "\<dots> = Some (list_and_reset w (s1\<lparr>buf := [], mlexer := new_buffer\<lparr>yb := []\<rparr>, yy_start := 1,
      argbuf := line_args (mw_pid w) (menv (core s)) False line\<rparr>))"
    using assms(2,3,5,6) s
    by (subst msh_yylex_line [where q = False and line = line])
      (simp_all add: s1_def ARGBUF_def new_buffer_def YY_BUF_SIZE_def)
  also have "s1\<lparr>buf := [], mlexer := new_buffer\<lparr>yb := []\<rparr>, yy_start := 1,
      argbuf := line_args (mw_pid w) (menv (core s)) False line\<rparr> =
      s\<lparr>core := (core s)\<lparr>history := history (core s) @ [line]\<rparr>, argbuf := line_args (mw_pid w) (menv (core s)) False line\<rparr>"
    using s by (intro mshell.equality) (simp_all add: s1_def new_buffer_def)
  finally show ?thesis .
qed

text \<open>
  C30: for a shell at its prompt, a line that is not empty, has fewer than 190 characters, contains no zero byte and no
  newline, and whose words have fewer than 200 characters once their variables are replaced, is cut into
  arguments as the rules say: words, texts between quotes (which may contain blanks and operators), and operators, with
  variables replaced and empty arguments left out. The commands of the line are then run, and the shell is ready for the next line.
\<close>

theorem msh_lines:
  assumes "at_prompt s" "NUL \<notin> set line" "NL \<notin> set line" "line \<noteq> []" "length line < 190"
    and "line_fits (mw_pid w) (menv (core s)) False line"
  shows "msh_main w (line # lines) s =
    (case msh_list_cmd w (line_args (mw_pid w) (menv (core s)) False line) ((core s)\<lparr>history := history (core s) @ [line]\<rparr>) of
       Go c \<Rightarrow> msh_main w lines (s\<lparr>core := c\<rparr>)
     | Exit n \<Rightarrow> Some (Exit n)
     | Crash \<Rightarrow> Some Crash)"
proof -
  have "s\<lparr>core := c, argbuf := []\<rparr> = s\<lparr>core := c\<rparr>" for c using assms(1) by (intro mshell.equality) (simp_all add: at_prompt_def)
  with msh_line_step [OF assms] show ?thesis
    by (cases "msh_list_cmd w (line_args (mw_pid w) (menv (core s)) False line)
        ((core s)\<lparr>history := history (core s) @ [line]\<rparr>)") (simp_all add: list_and_reset_def)
qed

theorem msh_lines_witness:
  "line_args 42 (menv msh_start) False session_line = [''echo'', ''a b'', '';'', ''exit'', ''3''] \<and>
   msh_main msh_world [session_line] (msh_init msh_start) = Some (Exit 3)"
  using msh_lines [of "msh_init msh_start" session_line msh_world "[]"] session
  by (simp add: at_prompt_def msh_init_def)

end
