(* ===== verification/LexMsh.thy ===== *)
theory LexMsh
  imports LexRefine Msh
begin

text \<open>
  The shell \<open>msh\<close> with its scanner as it is compiled: \<open>yylex\<close> of \<open>src/2/xyshell-read-only/study/msh/lex.yy.c\<close> works on its character array
  and runs the actions of the rules, \<open>main\<close> of \<open>msh.c\<close> calls it for every line. The shell of \<open>Msh\<close>, whose scanner is
  \<open>FlexScanner\<close>, is the specification. The field \<open>mlexer\<close> of the state is not used here.
\<close>

section \<open>The shell on the array\<close>

text \<open>The buffer that the first call of \<open>yylex\<close> creates; its characters beyond the first two are whatever \<open>yyalloc\<close> returned.\<close>

definition lex_init :: "lexenv \<Rightarrow> lexb" where
  "lex_init E =
     \<lparr>ch_buf = (map (junk E) [0..<YY_BUF_SIZE + 2])[0 := NUL, 1 := NUL], buf_size = YY_BUF_SIZE, buf_chars = 0, status = YY_BUFFER_NEW,
      fill = True, ours = True, c_buf_p = 0, text_ptr = 0, chars = 0, hold = NUL, acc_state = 0, acc_cpos = 0\<rparr>"

partial_function (option) lex_yylex :: "lexenv \<Rightarrow> mworld \<Rightarrow> lexb \<Rightarrow> mshell \<Rightarrow> (lexb \<times> mshell) sh option" where
  "lex_yylex E w l s =
     (case lex_run E msh_flex msh_yyinput (yy_start s) L_top l s of
        None \<Rightarrow> None
      | Some (Exit k, s) \<Rightarrow> Some (Exit k)
      | Some (Crash, s) \<Rightarrow> Some Crash
      | Some (Go (lab, l), s) \<Rightarrow>
          (case lab of
             L_rule act \<Rightarrow>
               (case msh_action w act (yytext l) s of
                  Exit n \<Rightarrow> Some (Exit n)
                | Crash \<Rightarrow> Some Crash
                | Go s \<Rightarrow> lex_yylex E w l s)
           | _ \<Rightarrow> Some (Go (l, s))))"

definition lex_line :: "lexenv \<Rightarrow> mworld \<Rightarrow> string \<Rightarrow> lexb \<Rightarrow> mshell \<Rightarrow> (lexb \<times> mshell) sh option" where
  "lex_line E w line l s =
     (let s = (if line = [] then s else s\<lparr>core := (core s)\<lparr>history := history (core s) @ [line]\<rparr>\<rparr>)
      in if BUFSIZ \<le> length line + 1 then Some Crash else lex_yylex E w l (s\<lparr>buf := line @ [NL]\<rparr>))"

fun lex_main :: "lexenv \<Rightarrow> mworld \<Rightarrow> string list \<Rightarrow> lexb \<Rightarrow> mshell \<Rightarrow> (lexb \<times> mshell) sh option" where
  "lex_main E w [] l s = Some (Go (l, s))"
| "lex_main E w (x # xs) l s =
     (case lex_line E w x l s of
        None \<Rightarrow> None
      | Some (Exit n) \<Rightarrow> Some (Exit n)
      | Some Crash \<Rightarrow> Some Crash
      | Some (Go (l, s)) \<Rightarrow> lex_main E w xs l s)"

section \<open>The tables and the input\<close>

lemma flex_ok_msh: "st \<in> {1, 3} \<Longrightarrow> flex_ok msh_flex st"
proof -
  have "classes_ok msh_flex" "start_ok msh_flex 1" "start_ok msh_flex 3"
    "list_all (\<lambda>st. list_all (trans_ok msh_flex st) [0..<9]) [1..<23]" "length (ft_meta msh_flex) = 9" by code_simp+
  then show "st \<in> {1, 3} \<Longrightarrow> flex_ok msh_flex st" by (auto simp: flex_ok_def msh_flex_def)
qed

text \<open>What is in the buffer and what is still to be read fit into the buffer as it was created.\<close>

definition line_room :: "ybuf \<Rightarrow> mshell \<Rightarrow> bool" where
  "line_room b s \<longleftrightarrow> yb_size b = YY_BUF_SIZE \<and> length (yb b) + length (buf s) \<le> BUFSIZ"

interpretation msh_input: scanner_input msh_yyinput line_room YY_BUF_SIZE
proof
  show "inp_ok msh_yyinput" by (auto simp: inp_ok_def msh_yyinput_def Let_def)
  show "\<exists>b'. r \<in> {Continue_scan b', Last_match b', End_of_file b'} \<and> yb_size b' \<le> YY_BUF_SIZE \<and> line_room b' j"
    if "line_room b s" "m \<le> length (yb b)" "yy_get_next_buffer msh_yyinput m b s = Some (r, j)" for b s m r j
  proof -
    have "grow (yb_size b) m = Some (yb_size b)"
      using that(1,2) by (subst grow.simps) (simp add: line_room_def YY_BUF_SIZE_def BUFSIZ_def)
    with that show ?thesis
      by (auto simp: yy_get_next_buffer_def line_room_def msh_yyinput_def Let_def split: if_splits)
  qed
  show "line_room (b\<lparr>yb := drop n (yb b)\<rparr>) s" if "line_room b s" for b s n using that by (auto simp: line_room_def)
qed

section \<open>The two shells\<close>

definition with_rest :: "lexb \<times> mshell \<Rightarrow> mshell" where
  "with_rest p = (snd p)\<lparr>mlexer := restb (fst p)\<rparr>"

text \<open>Between two lines.\<close>

definition at_line :: "lexb \<Rightarrow> mshell \<Rightarrow> bool" where
  "at_line l s \<longleftrightarrow> rest_ok l \<and> restb l = new_buffer \<and> yy_start s \<in> {1, 3}"

lemma scans_lexer:
  assumes "scans T msh_yyinput start b s k st la tok s'"
  shows "scans T msh_yyinput start b (s\<lparr>mlexer := x\<rparr>) k st la tok (s'\<lparr>mlexer := x\<rparr>)"
proof -
  have read: "msh_yyinput m (s\<lparr>mlexer := x\<rparr>) = (fst (msh_yyinput m s), (snd (msh_yyinput m s))\<lparr>mlexer := x\<rparr>)" for m s
    by (cases s) (simp add: msh_yyinput_def Let_def)
  have fill: "yy_get_next_buffer msh_yyinput m b (s\<lparr>mlexer := x\<rparr>) = Some (r, j\<lparr>mlexer := x\<rparr>)"
    if "yy_get_next_buffer msh_yyinput m b s = Some (r, j)" for m b s r j
  proof (cases "yb_eof b")
    case False
    with that obtain sz where sz: "grow (yb_size b) m = Some sz" by (auto simp: yy_get_next_buffer_def split: option.splits)
    obtain n d s1 where in1: "msh_yyinput (min YY_READ_BUF_SIZE (sz - m - 1)) s = ((n, d), s1)" by (metis surj_pair)
    then have "msh_yyinput (min YY_READ_BUF_SIZE (sz - m - 1)) (s\<lparr>mlexer := x\<rparr>) = ((n, d), s1\<lparr>mlexer := x\<rparr>)" by (simp add: read)
    with that False sz in1 show ?thesis by (auto simp: yy_get_next_buffer_def Let_def)
  qed (use that in \<open>auto simp: yy_get_next_buffer_def\<close>)
  from assms show ?thesis
  proof (induction rule: scans.induct)
    case (refilled k b st la st1 k1 la1 n i b' j st2 la2 tok i')
    then show ?case using fill by (intro scans.refilled [OF refilled.hyps(1-3) _ refilled.hyps(5)])
  next
    case (last_match k b st la st1 k1 la1 n i b' j st2 la2)
    then show ?case using fill by (intro scans.last_match [OF last_match.hyps(1-3) _ last_match.hyps(5)])
  next
    case (ended k b st la st1 k1 la1 n i b' j)
    then show ?case using fill by (intro scans.ended [OF ended.hyps(1-3)])
  next
    case (failed k b st la st1 k1 la1 n i j)
    then show ?case using fill by (intro scans.failed [OF failed.hyps(1-3)])
  qed (rule scans.found scans.nul_on scans.nul_stop; assumption)+
qed

lemma action_lexer: "msh_action w act x (s\<lparr>mlexer := b\<rparr>) = map_sh (\<lambda>s. s\<lparr>mlexer := b\<rparr>) (msh_action w act x s)"
proof -
  have simple: "add_simple_arg a (s\<lparr>mlexer := b\<rparr>) = map_sh (\<lambda>s. s\<lparr>mlexer := b\<rparr>) (add_simple_arg a s)" for a s
    by (simp add: add_simple_arg_def)
  have arg: "add_arg w a (s\<lparr>mlexer := b\<rparr>) = map_sh (\<lambda>s. s\<lparr>mlexer := b\<rparr>) (add_arg w a s)" for a s
    by (cases "arg_loop (mw_pid w) (menv (core s)) a []") (simp_all add: add_arg_def simple)
  have lst: "list_and_reset w (s\<lparr>mlexer := b\<rparr>) = map_sh (\<lambda>s. s\<lparr>mlexer := b\<rparr>) (list_and_reset w s)" for s
    by (cases "msh_list_cmd w (argbuf s) (core s)") (simp_all add: list_and_reset_def)
  have "list_and_reset w (s\<lparr>mlexer := b, yy_start := q\<rparr>) = map_sh (\<lambda>s. s\<lparr>mlexer := b\<rparr>) (list_and_reset w (s\<lparr>yy_start := q\<rparr>))" for q
    using lst [of "s\<lparr>yy_start := q\<rparr>"] by (cases s) simp
  then show ?thesis by (simp add: msh_action_def simple arg lst)
qed

lemma action_keeps:
  assumes "msh_action w act x s = Go s'"
  shows "buf s' = buf s" "yy_start s \<in> {1, 3} \<Longrightarrow> yy_start s' \<in> {1, 3}"
  using assms by (auto simp: msh_action_def add_arg_def add_simple_arg_def list_and_reset_def begin_state_def QUOTE_def
      sbind_eq_Go split: if_splits)

text \<open>One call, from the array to the next token.\<close>

lemma call_token:
  assumes "yy_scan msh_flex msh_yyinput (yy_start s) (restb l) (with_rest (l, s)) 0 (yy_start s) la = Some (tok, sa)"
    "rest_ok l" "line_room (restb l) s" "yy_start s \<in> {1, 3}" "yywrap E" "YY_BUF_SIZE + 2 \<le> room E" "room E < 2 ^ 31"
  obtains lab l' s' where "lex_run E msh_flex msh_yyinput (yy_start s) L_top l s = Some (Go (lab, l'), s')" "token_sim tok lab l'"
    "sa = s'\<lparr>mlexer := restb l\<rparr>" "yy_start s' = yy_start s"
    "case tok of Tok act x b \<Rightarrow> line_room b s' | Eof b \<Rightarrow> b = new_buffer | Tok_fatal \<Rightarrow> False"
proof -
  define s' where "s' = sa\<lparr>mlexer := mlexer s\<rparr>"
  have sc: "scans msh_flex msh_yyinput (yy_start s) (restb l) (s\<lparr>mlexer := restb l\<rparr>) 0 (yy_start s) la tok sa"
    using scan_scans [OF assms(1)] by (simp add: with_rest_def)
  have "scans msh_flex msh_yyinput (yy_start s) (restb l) s 0 (yy_start s) la tok s'"
    using scans_lexer [OF sc, of "mlexer s"] by (simp add: s'_def)
  note run = msh_input.call_run [OF this assms(2,3,6,7,5) flex_ok_msh [OF assms(4)]]
  have frame: "(\<lambda>s. s\<lparr>buf := []\<rparr>) sa = (\<lambda>s. s\<lparr>buf := []\<rparr>) (s\<lparr>mlexer := restb l\<rparr>)"
    by (rule scans_frame [OF sc]) (simp add: msh_yyinput_def Let_def)
  then have "mlexer (sa\<lparr>buf := []\<rparr>) = restb l" "yy_start (sa\<lparr>buf := []\<rparr>) = yy_start s" by simp_all
  then have "sa = s'\<lparr>mlexer := restb l\<rparr>" "yy_start s' = yy_start s" by (simp_all add: s'_def)
  moreover have "case tok of Tok act x b \<Rightarrow> line_room b s' | Eof b \<Rightarrow> b = new_buffer | Tok_fatal \<Rightarrow> False"
    using run scans_eof [OF sc] by (auto simp: line_room_def new_buffer_def split: token.splits)
  ultimately show thesis using run that by blast
qed

lemma yylex_run:
  assumes "msh_yylex w (with_rest (l, s)) = Some r" "rest_ok l" "line_room (restb l) s" "yy_start s \<in> {1, 3}"
    "yywrap E" "YY_BUF_SIZE + 2 \<le> room E" "room E < 2 ^ 31"
  shows "\<exists>r'. lex_yylex E w l s = Some r' \<and> r = map_sh with_rest r' \<and> (\<forall>l' s'. r' = Go (l', s') \<longrightarrow> at_line l' s')"
proof -
  let ?P = "\<lambda>w sa r. \<forall>l s. sa = with_rest (l, s) \<longrightarrow> rest_ok l \<longrightarrow> line_room (restb l) s \<longrightarrow> yy_start s \<in> {1, 3} \<longrightarrow>
    (\<exists>r'. lex_yylex E w l s = Some r' \<and> r = map_sh with_rest r' \<and> (\<forall>l' s'. r' = Go (l', s') \<longrightarrow> at_line l' s'))"
  have "?P w (with_rest (l, s)) r"
  proof (rule msh_yylex.raw_induct [where P = ?P, OF _ assms(1)], intro allI impI, goal_cases)
    case (1 f w sa r l s)
    note IH = 1(1) and eq = 1(2) and sa = 1(3) and ok = 1(4-6)
    have sa_sel: "yy_start sa = yy_start s" "mlexer sa = restb l" by (simp_all add: sa with_rest_def)
    obtain tok s1 where t: "yy_scan msh_flex msh_yyinput (yy_start s) (restb l) (with_rest (l, s)) 0 (yy_start s) (0, 0) = Some (tok, s1)"
      using eq unfolding sa_sel by (auto simp: sa split: option.splits)
    from call_token [OF t ok assms(5-7)] obtain lab l' s' where
      run: "lex_run E msh_flex msh_yyinput (yy_start s) L_top l s = Some (Go (lab, l'), s')" and sim: "token_sim tok lab l'"
      and s1: "s1 = s'\<lparr>mlexer := restb l\<rparr>" "yy_start s' = yy_start s"
      and inv: "case tok of Tok act x b \<Rightarrow> line_room b s' | Eof b \<Rightarrow> b = new_buffer | Tok_fatal \<Rightarrow> False" by blast
    show ?case
    proof (cases tok)
      case (Eof b)
      then have "lab = L_eof" "rest_ok l'" "restb l' = new_buffer" using sim inv by (auto simp: token_sim_def)
      moreover have "r = Go (with_rest (l', s'))"
        using eq t Eof s1(1) \<open>restb l' = new_buffer\<close> inv unfolding sa_sel by (simp add: sa with_rest_def)
      ultimately show ?thesis
        using run s1(2) ok(3) by (intro exI [of _ "Go (l', s')"]) (subst lex_yylex.simps, simp add: at_line_def)
    next
      case (Tok act x b)
      then have l': "lab = L_rule act" "yytext l' = x" "rest_ok l'" "restb l' = b" "line_room b s'" using sim inv by (auto simp: token_sim_def)
      have act: "msh_action w act x (s1\<lparr>mlexer := b\<rparr>) = map_sh (\<lambda>s. s\<lparr>mlexer := b\<rparr>) (msh_action w act x s')"
        using action_lexer [of w act x b s'] by (simp add: s1(1))
      have step: "lex_yylex E w l s =
          (case msh_action w act x s' of Exit n \<Rightarrow> Some (Exit n) | Crash \<Rightarrow> Some Crash | Go s \<Rightarrow> lex_yylex E w l' s)"
        using run l' by (subst lex_yylex.simps) simp
      show ?thesis
      proof (cases "msh_action w act x s'")
        case (Go s2)
        then have "f w (with_rest (l', s2)) = Some r"
          using eq t Tok act l'(4) unfolding sa_sel by (simp add: sa with_rest_def)
        moreover have "line_room (restb l') s2" "yy_start s2 \<in> {1, 3}"
          using action_keeps [OF Go] l'(4,5) s1(2) ok(3) by (auto simp: line_room_def)
        ultimately show ?thesis using IH l'(3) step Go by auto
      qed (use eq t Tok act step sa_sel sa in auto)
    qed (use inv in simp)
  qed
  with assms show ?thesis by blast
qed

lemma line_run:
  assumes "msh_line w line (with_rest (l, s)) = Some r" "at_line l s" "yywrap E" "YY_BUF_SIZE + 2 \<le> room E" "room E < 2 ^ 31"
  shows "\<exists>r'. lex_line E w line l s = Some r' \<and> r = map_sh with_rest r' \<and> (\<forall>l' s'. r' = Go (l', s') \<longrightarrow> at_line l' s')"
proof (cases "BUFSIZ \<le> length line + 1")
  case True
  then show ?thesis using assms(1) by (simp add: msh_line_def lex_line_def)
next
  case False
  define s1 where "s1 = (if line = [] then s else s\<lparr>core := (core s)\<lparr>history := history (core s) @ [line]\<rparr>\<rparr>)\<lparr>buf := line @ [NL]\<rparr>"
  have "with_rest (l, s1) = (if line = [] then with_rest (l, s)
      else (with_rest (l, s))\<lparr>core := (core (with_rest (l, s)))\<lparr>history := history (core (with_rest (l, s))) @ [line]\<rparr>\<rparr>)\<lparr>buf := line @ [NL]\<rparr>"
    by (cases s) (simp add: s1_def with_rest_def)
  then have "msh_yylex w (with_rest (l, s1)) = Some r" using assms(1) False by (simp add: msh_line_def)
  moreover have "lex_line E w line l s = lex_yylex E w l s1" using False by (simp add: lex_line_def s1_def)
  moreover have "line_room (restb l) s1" "yy_start s1 \<in> {1, 3}" "rest_ok l"
    using assms(2) False by (auto simp: at_line_def line_room_def new_buffer_def s1_def)
  ultimately show ?thesis using yylex_run [OF _ _ _ _ assms(3-5), of w l s1 r] by simp
qed

lemma main_run:
  assumes "msh_main w lines (with_rest (l, s)) = Some r" "at_line l s" "yywrap E" "YY_BUF_SIZE + 2 \<le> room E" "room E < 2 ^ 31"
  shows "\<exists>r'. lex_main E w lines l s = Some r' \<and> r = map_sh with_rest r'"
  using assms(1,2)
proof (induction lines arbitrary: l s)
  case (Cons x xs)
  obtain r1 where r1: "msh_line w x (with_rest (l, s)) = Some r1" using Cons.prems(1) by (auto split: option.splits)
  from line_run [OF this Cons.prems(2) assms(3-5)] obtain r2 where
    r2: "lex_line E w x l s = Some r2" "r1 = map_sh with_rest r2" "\<forall>l' s'. r2 = Go (l', s') \<longrightarrow> at_line l' s'" by blast
  show ?case
  proof (cases r2)
    case (Go p)
    then show ?thesis using Cons r1 r2 by (cases p) auto
  qed (use Cons.prems(1) r1 r2 in auto)
qed simp

lemma lex_init_ok: "rest_ok (lex_init E)" "restb (lex_init E) = new_buffer"
  by (auto simp: rest_ok_def restb_def released_def data_ok_def absb_def lex_init_def new_buffer_def YY_BUF_SIZE_def
      YY_BUFFER_NEW_def YY_BUFFER_EOF_PENDING_def nth_list_update)

text \<open>
  C7: the shell with its compiled scanner behaves as the shell whose scanner works on lists of characters: if the latter
  comes to the end of the input, exits or crashes, so does the former, with the same state of the shell, and the characters left in its
  array are those of the list. The array starts with arbitrary contents, and never has to grow.
\<close>

theorem lex_main_refines:
  assumes "msh_main w lines (msh_init c) = Some r" "yywrap E" "YY_BUF_SIZE + 2 \<le> room E" "room E < 2 ^ 31"
  shows "\<exists>r'. lex_main E w lines (lex_init E) (msh_init c) = Some r' \<and> r = map_sh (\<lambda>(l, s). s\<lparr>mlexer := restb l\<rparr>) r'"
proof -
  have "with_rest (lex_init E, msh_init c) = msh_init c" by (simp add: with_rest_def lex_init_ok msh_init_def)
  moreover have "at_line (lex_init E) (msh_init c)" by (simp add: at_line_def lex_init_ok msh_init_def)
  moreover have "with_rest = (\<lambda>(l, s). s\<lparr>mlexer := restb l\<rparr>)" by (auto simp: with_rest_def)
  ultimately show ?thesis using main_run [of w lines "lex_init E" "msh_init c" r E] assms by simp
qed

theorem lex_main_refines_witness:
  "lex_main \<lparr>room = 20000, junk = \<lambda>_. CHR ''x'', yywrap = True\<rparr> msh_world [session_line]
     (lex_init \<lparr>room = 20000, junk = \<lambda>_. CHR ''x'', yywrap = True\<rparr>) (msh_init msh_start) = Some (Exit 3)"
proof -
  let ?E = "\<lparr>room = 20000, junk = \<lambda>_. CHR ''x'', yywrap = True\<rparr>"
  have "msh_main msh_world [session_line] (msh_init msh_start) = Some (Exit 3)"
    using msh_line_step [of "msh_init msh_start" session_line msh_world] session
    by (simp add: at_prompt_def msh_init_def list_and_reset_def)
  then obtain r' where r': "lex_main ?E msh_world [session_line] (lex_init ?E) (msh_init msh_start) = Some r'"
    "Exit 3 = map_sh (\<lambda>(l, s). s\<lparr>mlexer := restb l\<rparr>) r'"
    using lex_main_refines [of msh_world "[session_line]" msh_start "Exit 3" ?E] by (auto simp: YY_BUF_SIZE_def)
  have "r' = Exit 3" using r'(2) by (cases r') simp_all
  with r'(1) show ?thesis by simp
qed

end
