(* ===== verification/LexBuffers.thy ===== *)
theory LexBuffers
  imports LexInput LexMsh FlexBuffers
begin

text \<open>
  The two models of the scanner's buffers fit together: \<open>FlexBuffers\<close> has buffers in a heap and a stack of them, \<open>LexEngine\<close> the current buffer
  with the variables of the scanner. On the current buffer, restarting, giving back a character and creating the first buffer are the
  same in both.
\<close>

definition lex_of :: "nat \<times> nat \<Rightarrow> FlexBuffers.ybuf \<Rightarrow> yyg \<Rightarrow> lexb" where
  "lex_of la B g =
     \<lparr>ch_buf = yy_ch_buf B, buf_size = yy_buf_size B, buf_chars = int (yy_n_chars B), status = yy_buffer_status B, fill = yy_fill_buffer B,
      ours = yy_is_our_buffer B, c_buf_p = yy_c_buf_p g, text_ptr = yytext_ptr g, chars = n_chars g, hold = yy_hold_char g,
      acc_state = fst la, acc_cpos = snd la\<rparr>"

definition lex_state :: "nat \<times> nat \<Rightarrow> yyg \<Rightarrow> lexb option" where
  "lex_state la g = (case current g of Go (Some b) \<Rightarrow> map_option (\<lambda>B. lex_of la B g) (heap g b) | _ \<Rightarrow> None)"

lemma current_fields [simp]:
  "current (g\<lparr>heap := h\<rparr>) = current g" "current (g\<lparr>n_chars := n\<rparr>) = current g" "current (g\<lparr>yytext_ptr := p\<rparr>) = current g"
  "current (g\<lparr>yy_c_buf_p := p\<rparr>) = current g" "current (g\<lparr>yyin := f\<rparr>) = current g" "current (g\<lparr>yy_hold_char := c\<rparr>) = current g"
  by (simp_all add: current_def split: option.splits)

lemma restart_agrees:
  assumes "current g = Go (Some b)" "heap g b = Some B"
  shows "map_sh (lex_state la) (yyrestart tty mem file g) = map_sh Some (restart (lex_of la B g))"
  using assms
  by (auto simp: yyrestart_def need_buffer_def yy_init_buffer_def yy_flush_buffer_def yy_load_buffer_state_def FlexBuffers.deref_def store_def
      lex_state_def lex_of_def restart_def FlexBuffers.YY_BUFFER_NEW_def LexEngine.YY_BUFFER_NEW_def Let_def nth_list_update)

lemma shift_up_eq: "shift_up ch n dest = map_sh (\<lambda>ch. (ch, dest - n)) (move_up ch dest n)"
  by (induction ch n dest rule: shift_up.induct) auto

lemma unput_agrees:
  assumes "current g = Go (Some b)" "heap g b = Some B" "n_chars g \<le> yy_buf_size B"
  shows "map_sh (lex_state la) (FlexBuffers.yyunput c bp g) = map_sh Some (LexInput.yyunput c bp (lex_of la B g))"
proof (cases "length (yy_ch_buf B) \<le> yy_c_buf_p g")
  case True
  then show ?thesis using assms by (simp add: FlexBuffers.yyunput_def LexInput.yyunput_def FlexBuffers.deref_def lex_of_def put_char_def Let_def)
next
  case False
  note d = FlexBuffers.yyunput_def LexInput.yyunput_def FlexBuffers.deref_def lex_of_def put_char_def Let_def unput_at_def store_def
    lex_state_def yy_fatal_error_def shift_up_eq
  show ?thesis
  proof (cases "yy_c_buf_p g < 2")
    case small: True
    let ?m = "move_up ((yy_ch_buf B)[yy_c_buf_p g := yy_hold_char g]) (yy_buf_size B + 2) (n_chars g + 2)"
    show ?thesis using assms False small by (cases ?m) (auto simp: d)
  next
    case big: False
    then show ?thesis using assms False by (auto simp: d)
  qed
qed

text \<open>The first call of \<open>yylex\<close>; \<open>mem\<close> is what the new block holds.\<close>

lemma first_buffer_agrees:
  assumes "yy_buffer_stack g = None" "\<forall>n. mem_ok g n" "length mem = FlexScanner.YY_BUF_SIZE + 2" "\<forall>i. junk E i = mem ! i"
  shows "map_sh (lex_state (0, 0)) (sbind (need_buffer tty mem g) yy_load_buffer_state) = Go (Some (lex_init E))"
proof -
  have "map (junk E) [0..<length mem] = mem" using assms(4) by (intro nth_equalityI) simp_all
  then have "map (junk E) [0..<FlexScanner.YY_BUF_SIZE + 2] = mem" using assms(3) by simp
  then show ?thesis
    using assms
    by (simp add: need_buffer_def current_def yyensure_buffer_stack_def yyalloc_def yy_create_buffer_def yy_init_buffer_def yy_flush_buffer_def
        FlexBuffers.deref_def store_def set_current_def yy_load_buffer_state_def lex_state_def lex_of_def lex_init_def Let_def
        FlexBuffers.YY_BUF_SIZE_def FlexScanner.YY_BUF_SIZE_def FlexBuffers.YY_BUFFER_NEW_def LexEngine.YY_BUFFER_NEW_def)
qed

end
