(* ===== verification/JobTable.thy ===== *)
theory JobTable
  imports Prelude
begin

text \<open>
  The interface of a table of jobs with a fixed number of slots: \<open>jobs\<close> reads the table as a finite
  map from keys to commands, \<open>add\<close> enters a job unless the table is full, \<open>del\<close> removes one.
\<close>

datatype ('k, 'v) job_op = Add 'k 'v | Del 'k

fun job_run :: "('k \<Rightarrow> 'v \<Rightarrow> 's \<Rightarrow> 's) \<Rightarrow> ('k \<Rightarrow> 's \<Rightarrow> 's) \<Rightarrow> ('k, 'v) job_op list \<Rightarrow> 's \<Rightarrow> 's" where
  "job_run add del [] s = s"
| "job_run add del (Add k v # ops) s = job_run add del ops (add k v s)"
| "job_run add del (Del k # ops) s = job_run add del ops (del k s)"

text \<open>The specification: the same operations on a map with at most \<open>cap\<close> entries.\<close>

fun map_run :: "nat \<Rightarrow> ('k, 'v) job_op list \<Rightarrow> ('k \<rightharpoonup> 'v) \<Rightarrow> ('k \<rightharpoonup> 'v)" where
  "map_run cap [] m = m"
| "map_run cap (Add k v # ops) m = map_run cap ops (if card (dom m) < cap then m(k \<mapsto> v) else m)"
| "map_run cap (Del k # ops) m = map_run cap ops (m(k := None))"

text \<open>Only new and valid keys are entered.\<close>

fun fresh_keys :: "('k \<Rightarrow> bool) \<Rightarrow> nat \<Rightarrow> ('k, 'v) job_op list \<Rightarrow> ('k \<rightharpoonup> 'v) \<Rightarrow> bool" where
  "fresh_keys valid cap [] m = True"
| "fresh_keys valid cap (Add k v # ops) m =
     (valid k \<and> m k = None \<and> fresh_keys valid cap ops (if card (dom m) < cap then m(k \<mapsto> v) else m))"
| "fresh_keys valid cap (Del k # ops) m = (valid k \<and> fresh_keys valid cap ops (m(k := None)))"

locale job_table =
  fixes jobs :: "'s \<Rightarrow> 'k \<rightharpoonup> 'v" and add :: "'k \<Rightarrow> 'v \<Rightarrow> 's \<Rightarrow> 's" and del :: "'k \<Rightarrow> 's \<Rightarrow> 's"
    and inv :: "'s \<Rightarrow> bool" and valid :: "'k \<Rightarrow> bool" and cap :: nat
  assumes bounded: "inv s \<Longrightarrow> finite (dom (jobs s)) \<and> card (dom (jobs s)) \<le> cap"
    and add_room: "inv s \<Longrightarrow> valid k \<Longrightarrow> jobs s k = None \<Longrightarrow> card (dom (jobs s)) < cap \<Longrightarrow>
      inv (add k v s) \<and> jobs (add k v s) = (jobs s)(k \<mapsto> v)"
    and add_full: "inv s \<Longrightarrow> card (dom (jobs s)) = cap \<Longrightarrow> inv (add k v s) \<and> jobs (add k v s) = jobs s"
    and del: "inv s \<Longrightarrow> valid k \<Longrightarrow> inv (del k s) \<and> jobs (del k s) = (jobs s)(k := None)"
begin

lemma run_refines:
  assumes "inv s" and "fresh_keys valid cap ops (jobs s)"
  shows "inv (job_run add del ops s) \<and> jobs (job_run add del ops s) = map_run cap ops (jobs s)"
  using assms
proof (induction ops arbitrary: s)
  case Nil
  then show ?case by simp
next
  case (Cons op ops)
  show ?case
  proof (cases op)
    case (Add k v)
    show ?thesis
    proof (cases "card (dom (jobs s)) < cap")
      case True
      have a: "inv (add k v s)" "jobs (add k v s) = (jobs s)(k \<mapsto> v)"
        using add_room [of s k v] Cons.prems Add True by simp_all
      show ?thesis using Cons.IH [OF a(1)] Cons.prems(2) Add True a(2) by (simp del: fun_upd_apply)
    next
      case False
      then have "card (dom (jobs s)) = cap" using bounded [OF Cons.prems(1)] by simp
      then have a: "inv (add k v s)" "jobs (add k v s) = jobs s" using add_full [OF Cons.prems(1)] by simp_all
      show ?thesis using Cons.IH [OF a(1)] Cons.prems(2) Add False a(2) by simp
    qed
  next
    case (Del k)
    have a: "inv (del k s)" "jobs (del k s) = (jobs s)(k := None)" using del [of s k] Cons.prems Del by simp_all
    show ?thesis using Cons.IH [OF a(1)] Cons.prems(2) Del a(2) by (simp del: fun_upd_apply)
  qed
qed

end

end
