(* ===== verification/KodersShell.thy ===== *)
theory KodersShell
  imports ShellExec JobTable
begin

text \<open>
  The shell in \<open>src/2/myshell_koders.c\<close>: the argument array, the built-in commands for the environment,
  the log file, foreground and background commands and the table of background processes.

  Strings are lists of characters without zero bytes. What the outside world answers is in the
  record \<open>kworld\<close>; what the shell prints, logs and starts is a list of events
  (what a forked child prints before it becomes another program is not recorded). Storing more into a
  buffer than it holds is \<open>Crash\<close>.
\<close>

definition BUFF_SIZE :: nat where "BUFF_SIZE = 1024"

section \<open>State\<close>

text \<open>
  \<open>putenv\<close> does not copy: it enters a pointer into \<open>environ\<close>. The pointer is that of \<open>temp\<close>, an array in
  a block of \<open>main\<close>. Its lifetime ends with the block; the model keeps its last contents, as a
  compiler does that gives it a place of its own in the frame of \<open>main\<close>.
\<close>

datatype entry = Fixed string | Temp

datatype kevent =
  K_out string | K_err string | K_log string string | K_exec int "string list" | K_wait int |
  K_chdir string | K_overrun string

record kshell =
  k_env :: "entry list"
  k_temp :: string
  bgPids :: "int list"
  bgCmds :: "string list"
  k_log :: "kevent list"

datatype wstatus = Exited int | Signaled | Stopped

record kworld =
  kw_cwd :: string
  kw_chdir :: "string \<Rightarrow> bool"
  kw_append :: "string \<Rightarrow> bool"
  kw_putenv :: bool
  kw_fork :: int
  kw_reaped :: "(int \<times> wstatus) list"
  kw_errno :: string

definition emit :: "kevent list \<Rightarrow> kshell \<Rightarrow> kshell" where
  "emit es s = s\<lparr>k_log := k_log s @ es\<rparr>"

section \<open>The environment\<close>

definition entry_str :: "kshell \<Rightarrow> entry \<Rightarrow> string" where
  "entry_str s en = (case en of Fixed x \<Rightarrow> x | Temp \<Rightarrow> k_temp s)"

definition var_name :: "string \<Rightarrow> string" where
  "var_name x = takeWhile (\<lambda>c. c \<noteq> CHR ''='') x"

definition var_value :: "string \<Rightarrow> string" where
  "var_value x = tl (dropWhile (\<lambda>c. c \<noteq> CHR ''='') x)"

definition getenv :: "string \<Rightarrow> kshell \<Rightarrow> string option" where
  "getenv n s = map_option (\<lambda>en. var_value (entry_str s en)) (find (\<lambda>en. var_name (entry_str s en) = n) (k_env s))"

definition unsetenv :: "string \<Rightarrow> kshell \<Rightarrow> kshell" where
  "unsetenv n s = s\<lparr>k_env := filter (\<lambda>en. var_name (entry_str s en) \<noteq> n) (k_env s)\<rparr>"

fun replace_entry :: "(entry \<Rightarrow> bool) \<Rightarrow> entry list \<Rightarrow> entry list" where
  "replace_entry P [] = [Temp]"
| "replace_entry P (en # ens) = (if P en then Temp # ens else en # replace_entry P ens)"

definition putenv_temp :: "kshell \<Rightarrow> kshell" where
  "putenv_temp s = s\<lparr>k_env := replace_entry (\<lambda>en. var_name (entry_str s en) = var_name (k_temp s)) (k_env s)\<rparr>"

section \<open>Messages and the log file\<close>

definition logger :: "kworld \<Rightarrow> string \<Rightarrow> kshell \<Rightarrow> kshell sh" where
  "logger w msg s =
     (case getenv ''MYSH_DEBUG'' s of
        None \<Rightarrow> Go s
      | Some f \<Rightarrow>
          if BUFF_SIZE < length f + 2 then Crash
          else if kw_append w f then Go (emit [K_log f msg] s)
          else Go (unsetenv ''MYSH_DEBUG''
            (emit [K_err (''MYSH ERROR: logger file '' @ f @ [NL] @ ''failed to open: '' @ kw_errno w @ [NL])] s)))"

text \<open>A message is formatted into a block of 1024 bytes, logged, and (for errors) written to standard error.\<close>

definition log_msg :: "kworld \<Rightarrow> string \<Rightarrow> kshell \<Rightarrow> kshell sh" where
  "log_msg w msg s = (if length msg < BUFF_SIZE then logger w msg s else Crash)"

definition error_msg :: "kworld \<Rightarrow> string \<Rightarrow> kshell \<Rightarrow> kshell sh" where
  "error_msg w msg s = sbind (log_msg w msg s) (\<lambda>s. Go (emit [K_err msg] s))"

section \<open>The argument array\<close>

definition delim :: "char \<Rightarrow> bool" where
  "delim c \<longleftrightarrow> c = CHR '' '' \<or> c = TAB"

text \<open>
  The loop at the end of \<open>makeargv\<close> removes empty arguments from the end. Without a token to look at it
  reads the pointer before the array.
\<close>

fun drop_empty :: "string list \<Rightarrow> string list sh" where
  "drop_empty [] = Crash"
| "drop_empty (x # xs) = (if x = [] then drop_empty xs else Go (rev (x # xs)))"

definition makeargv :: "string \<Rightarrow> string list sh" where
  "makeargv s =
     (let toks = strtok_all delim s in
      if toks = [] then Crash
      else drop_empty (butlast (last toks) # tl (rev toks)))"

section \<open>Background processes\<close>

definition slot_of :: "int \<Rightarrow> kshell \<Rightarrow> nat option" where
  "slot_of p s = find (\<lambda>i. bgPids s ! i = p) [0..<128]"

definition addbgPid :: "int \<Rightarrow> string \<Rightarrow> kshell \<Rightarrow> kshell" where
  "addbgPid p cmd s =
     (let s = emit [K_overrun cmd] s in
      case slot_of 0 s of
        None \<Rightarrow> s
      | Some i \<Rightarrow> s\<lparr>bgPids := (bgPids s)[i := p], bgCmds := (bgCmds s)[i := cmd]\<rparr>)"

definition deletebgPid :: "int \<Rightarrow> kshell \<Rightarrow> kshell" where
  "deletebgPid p s =
     (case slot_of p s of None \<Rightarrow> s | Some i \<Rightarrow> s\<lparr>bgPids := (bgPids s)[i := 0]\<rparr>)"

definition getbgCmd :: "int \<Rightarrow> kshell \<Rightarrow> string option" where
  "getbgCmd p s = map_option (\<lambda>i. bgCmds s ! i) (slot_of p s)"

fun status_text :: "int \<Rightarrow> wstatus \<Rightarrow> string \<Rightarrow> string \<times> string" where
  "status_text p (Exited n) c =
     (if n = 0 then (''MYSH DONE PID '' @ dec p @ '': '' @ c, ''MYSH DONE: '' @ c)
      else (''MYSH EXIT '' @ dec n @ '': '' @ c, ''MYSH EXIT '' @ dec n @ '': '' @ c))"
| "status_text p Signaled c = (''MYSH TERMINATED: '' @ c, ''MYSH TERMINATED: '' @ c)"
| "status_text p Stopped c = (''MYSH STOPPED: '' @ c, ''MYSH STOPPED: '' @ c)"

text \<open>
  The loop around \<open>waitpid(-1, ..., WNOHANG)\<close>, over the children that have finished. A child that is not
  in the table has a null pointer for its command, which is then printed.
\<close>

fun reap :: "kworld \<Rightarrow> (int \<times> wstatus) list \<Rightarrow> kshell \<Rightarrow> kshell sh" where
  "reap w [] s = Go s"
| "reap w ((p, st) # cs) s =
     (case getbgCmd p s of
        None \<Rightarrow> Crash
      | Some c \<Rightarrow>
          (let (out, msg) = status_text p st c
           in sbind (log_msg w (''MYSH OUTPUT FROM BACKGROUND PROCESS FINISHING: '' @ msg) (emit [K_out out] s)) (\<lambda>s. reap w cs (deletebgPid p s))))"

section \<open>Commands\<close>

definition k_setenv :: "kworld \<Rightarrow> string list \<Rightarrow> kshell \<Rightarrow> kshell sh" where
  "k_setenv w argv s =
     (if length argv \<noteq> 3 then error_msg w (''MYSH ERROR: Usage: '' @ argv ! 0 @ '' name value'' @ [NL]) s
      else
        (let t = argv ! 1 @ ''='' @ (if argv ! 1 = ''MYSH_DEBUG'' then kw_cwd w @ ''/'' @ argv ! 2 else argv ! 2) in
         if 512 \<le> length t then Crash
         else if kw_putenv w then Go (putenv_temp (s\<lparr>k_temp := t\<rparr>))
         else error_msg w (''MYSH ERROR: '' @ argv ! 1 @ '': environment variable failed to set: '' @ kw_errno w @ [NL])
                (s\<lparr>k_temp := t\<rparr>)))"

definition k_printenv :: "kworld \<Rightarrow> string list \<Rightarrow> kshell \<Rightarrow> kshell sh" where
  "k_printenv w argv s =
     (if length argv \<noteq> 2 then error_msg w (''MYSH ERROR: Usage: '' @ argv ! 0 @ '' name'' @ [NL]) s
      else
        (case getenv (argv ! 1) s of
           None \<Rightarrow> error_msg w (''MYSH ERROR: '' @ argv ! 1 @ '': environment variable is undefined'' @ [NL]) s
         | Some v \<Rightarrow> log_msg w (''MYSH OUTPUT FROM PRINTENV: '' @ v @ [NL]) (emit [K_out (v @ [NL])] s)))"

definition k_unsetenv :: "kworld \<Rightarrow> string list \<Rightarrow> kshell \<Rightarrow> kshell sh" where
  "k_unsetenv w argv s =
     (if length argv \<noteq> 2 then error_msg w (''MYSH ERROR: Usage: '' @ argv ! 0 @ '' name'' @ [NL]) s
      else
        (case getenv (argv ! 1) s of
           None \<Rightarrow> error_msg w
             (''MYSH ERROR: '' @ argv ! 1 @ '': environment variable is undefined and can not be unset'' @ [NL]) s
         | Some _ \<Rightarrow>
             if argv ! 1 = [] \<or> CHR ''='' \<in> set (argv ! 1) then
               error_msg w (''MYSH ERROR: '' @ argv ! 1 @ '': environment variable unset: '' @ kw_errno w @ [NL]) s
             else Go (unsetenv (argv ! 1) s)))"

definition k_cd :: "kworld \<Rightarrow> string list \<Rightarrow> kshell \<Rightarrow> kshell sh" where
  "k_cd w argv s =
     (if length argv \<noteq> 2 then error_msg w (''MYSH ERROR: Usage: '' @ argv ! 0 @ '' path'' @ [NL]) s
      else if kw_chdir w (argv ! 1) then Go (emit [K_chdir (argv ! 1)] s)
      else error_msg w (''MYSH ERROR: change directory to: '' @ argv ! 1 @ '' failed: '' @ kw_errno w @ [NL]) s)"

text \<open>
  An external command; \<open>line\<close> is the input buffer. A trailing \<open>&\<close> is taken off and puts the command
  into the background.
\<close>

definition k_parent :: "kworld \<Rightarrow> bool \<Rightarrow> string \<Rightarrow> kshell \<Rightarrow> kshell sh" where
  "k_parent w bg line s =
     sbind
       (if \<not> bg then Go (emit [K_wait (kw_fork w), K_out [NL]] s)
        else sbind (log_msg w (''MYSH OUTPUT FROM BACKGROUND PROCESS BEING CREADED: MYSH BGPID: '' @ dec (kw_fork w) @ [NL]) s)
               (\<lambda>s. Go (addbgPid (kw_fork w) line s)))
       (reap w (kw_reaped w))"

definition k_external :: "kworld \<Rightarrow> string list \<Rightarrow> string \<Rightarrow> kshell \<Rightarrow> kshell sh" where
  "k_external w argv line s =
     (let bg = (last argv = ''&''); argv = (if bg then butlast argv else argv) in
      if argv = [] then sbind (error_msg w (''MYSH ERROR: Usage: cmd ...'' @ [NL]) s) (\<lambda>_. Exit 1)
      else if kw_fork w < 0 then sbind (log_msg w (''MYSH ERROR: Failed to fork'' @ [NL]) s) (\<lambda>_. Exit 1)
      else k_parent w bg line (emit [K_exec (kw_fork w) argv] s))"

section \<open>The main loop\<close>

definition k_prompt :: "kworld \<Rightarrow> string" where
  "k_prompt w = ''mysh'' @ (if kw_cwd w = [] then ''> '' else '' ('' @ kw_cwd w @ '')'' @ [NL] @ ''> '')"

definition k_command :: "kworld \<Rightarrow> string list \<Rightarrow> string \<Rightarrow> kshell \<Rightarrow> kshell sh" where
  "k_command w argv line s =
     (if argv ! 0 = ''exit'' then Exit (if length argv = 1 then 0 else atoi (argv ! 1))
      else if argv ! 0 = ''setenv'' then k_setenv w argv s
      else if argv ! 0 = ''printenv'' then k_printenv w argv s
      else if argv ! 0 = ''unsetenv'' then k_unsetenv w argv s
      else if argv ! 0 = ''cd'' then k_cd w argv s
      else k_external w argv line s)"

text \<open>
  One line: \<open>line\<close> is what \<open>read\<close> put into the 1024 bytes of \<open>buf\<close>; when it fills them there is no
  terminating zero.
\<close>

definition k_line :: "kworld \<Rightarrow> string \<Rightarrow> kshell \<Rightarrow> kshell sh" where
  "k_line w line s =
     (let s = emit [K_out (k_prompt w)] s in
      if BUFF_SIZE \<le> length line then Crash
      else if line = [NL] then Go s
      else
        sbind (log_msg w (''MYSH INPUT FROM THE PROMPT: '' @ line) s) (\<lambda>s.
        sbind (makeargv line) (\<lambda>argv. k_command w argv line s)))"

fun k_main :: "(kworld \<times> string) list \<Rightarrow> kshell \<Rightarrow> kshell sh" where
  "k_main [] s = Go s"
| "k_main ((w, line) # ls) s = sbind (k_line w line s) (k_main ls)"

definition k_init :: "string list \<Rightarrow> kshell" where
  "k_init environ =
     \<lparr>k_env = map Fixed environ, k_temp = [], bgPids = replicate 128 0, bgCmds = replicate 128 [], k_log = []\<rparr>"

section \<open>The argument array of a line\<close>

lemma strtok_newline:
  "strtok_all delim (body @ [NL]) =
     (if body = [] \<or> delim (last body) then strtok_all delim body @ [[NL]]
      else butlast (strtok_all delim body) @ [last (strtok_all delim body) @ [NL]])"
  by (rule strtok_snoc) (simp add: delim_def)

text \<open>
  For a line that ends in a newline, \<open>makeargv\<close> returns exactly its words, the maximal
  runs of characters other than blanks and tabs, whether or not blanks precede the newline; a line
  of blanks only makes it read outside the argument array.
\<close>

theorem makeargv_words:
  "makeargv (body @ [NL]) = (if strtok_all delim body = [] then Crash else Go (strtok_all delim body))"
proof (cases "body = [] \<or> delim (last body)")
  case True
  have "drop_empty (rev ws) = (if ws = [] then Crash else Go ws)" if "\<forall>w \<in> set ws. w \<noteq> []" for ws
    using that by (cases ws rule: rev_cases) auto
  with True show ?thesis using strtok_nonempty [of _ delim body] by (simp add: makeargv_def strtok_newline)
next
  case False
  then have "strtok_all delim body \<noteq> []" using strtok_Nil last_in_set by blast
  with False show ?thesis
    using strtok_nonempty [of "last (strtok_all delim body)" delim body]
    by (cases "strtok_all delim body" rule: rev_cases) (simp_all add: makeargv_def strtok_newline)
qed

section \<open>The table of background processes\<close>

definition bg_jobs :: "kshell \<Rightarrow> int \<rightharpoonup> string" where
  "bg_jobs s p = (if p = 0 then None else getbgCmd p s)"

definition bg_ok :: "kshell \<Rightarrow> bool" where
  "bg_ok s \<longleftrightarrow> length (bgPids s) = 128 \<and> length (bgCmds s) = 128 \<and>
     (\<forall>i < 128. \<forall>j < 128. bgPids s ! i \<noteq> 0 \<and> bgPids s ! i = bgPids s ! j \<longrightarrow> i = j)"

lemma slot_of_Some:
  "slot_of p s = Some i \<longleftrightarrow> i < 128 \<and> bgPids s ! i = p \<and> (\<forall>j < i. bgPids s ! j \<noteq> p)"
  unfolding slot_of_def find_Some_iff by auto

lemma slot_of_None: "slot_of p s = None \<longleftrightarrow> (\<forall>i < 128. bgPids s ! i \<noteq> p)"
  unfolding slot_of_def find_None_iff by auto

lemma bg_jobs_slot:
  assumes "bg_ok s" and "i < 128" and "bgPids s ! i \<noteq> 0"
  shows "bg_jobs s (bgPids s ! i) = Some (bgCmds s ! i)"
proof -
  have "bgPids s ! j \<noteq> bgPids s ! i" if "j < i" for j
    using assms that unfolding bg_ok_def by (metis less_trans nat_neq_iff)
  then have "slot_of (bgPids s ! i) s = Some i"
    unfolding slot_of_Some using assms(2) by blast
  with assms(3) show ?thesis by (simp add: bg_jobs_def getbgCmd_def)
qed

lemma bg_jobs_None: "bg_jobs s p = None \<longleftrightarrow> p = 0 \<or> (\<forall>i < 128. bgPids s ! i \<noteq> p)"
  by (auto simp: bg_jobs_def getbgCmd_def slot_of_None)

lemma bg_jobs_eqI:
  assumes "bg_ok s'" and "\<And>i. i < 128 \<Longrightarrow> bgPids s' ! i \<noteq> 0 \<Longrightarrow> m (bgPids s' ! i) = Some (bgCmds s' ! i)"
    and "\<And>p. p = 0 \<or> (\<forall>i < 128. bgPids s' ! i \<noteq> p) \<Longrightarrow> m p = None"
  shows "bg_jobs s' = m"
proof
  fix p
  show "bg_jobs s' p = m p"
  proof (cases "p = 0 \<or> (\<forall>i < 128. bgPids s' ! i \<noteq> p)")
    case True
    then show ?thesis using assms(3) bg_jobs_None by metis
  next
    case False
    then show ?thesis using bg_jobs_slot [OF assms(1)] assms(2) by metis
  qed
qed

lemma card_bg_jobs:
  assumes "bg_ok s"
  shows "dom (bg_jobs s) = (!) (bgPids s) ` {i. i < 128 \<and> bgPids s ! i \<noteq> 0}"
    "card (dom (bg_jobs s)) = card {i. i < 128 \<and> bgPids s ! i \<noteq> 0}"
proof -
  show d: "dom (bg_jobs s) = (!) (bgPids s) ` {i. i < 128 \<and> bgPids s ! i \<noteq> 0}"
    using bg_jobs_None [of s] by (auto simp: dom_def)
  have "inj_on ((!) (bgPids s)) {i. i < 128 \<and> bgPids s ! i \<noteq> 0}"
    using assms by (auto simp: bg_ok_def inj_on_def)
  then show "card (dom (bg_jobs s)) = card {i. i < 128 \<and> bgPids s ! i \<noteq> 0}" by (simp add: d card_image)
qed

lemma free_slot:
  assumes "bg_ok s"
  shows "card (dom (bg_jobs s)) < 128 \<longleftrightarrow> slot_of 0 s \<noteq> None"
proof -
  define A where "A = {i. i < 128 \<and> bgPids s ! i \<noteq> 0}"
  have sub: "A \<subseteq> {..< 128}" by (auto simp: A_def)
  have "card A < 128 \<longleftrightarrow> A \<noteq> {..< 128}"
    using psubset_card_mono [of "{..< 128}" A] sub by auto
  also have "\<dots> \<longleftrightarrow> (\<exists>i < 128. bgPids s ! i = 0)" by (auto simp: A_def)
  finally show ?thesis using card_bg_jobs(2) [OF assms] by (auto simp: slot_of_None A_def)
qed

lemma addbgPid_slot:
  assumes "slot_of 0 s = Some i"
  shows "addbgPid p c s = s\<lparr>bgPids := (bgPids s)[i := p], bgCmds := (bgCmds s)[i := c], k_log := k_log s @ [K_overrun c]\<rparr>"
  using assms by (simp add: addbgPid_def emit_def slot_of_def)

lemma addbgPid_full: "slot_of 0 s = None \<Longrightarrow> addbgPid p c s = emit [K_overrun c] s"
  by (simp add: addbgPid_def emit_def slot_of_def)

lemma bg_ok_clear:
  assumes "bg_ok s" and "i < 128"
  shows "bg_ok (s\<lparr>bgPids := (bgPids s)[i := 0]\<rparr>)"
proof -
  have len: "length (bgPids s) = 128" "length (bgCmds s) = 128" using assms(1) by (simp_all add: bg_ok_def)
  have "a = b" if "a < 128" "b < 128" "(bgPids s)[i := 0] ! a \<noteq> 0" "(bgPids s)[i := 0] ! a = (bgPids s)[i := 0] ! b" for a b
  proof -
    have "a \<noteq> i" "b \<noteq> i" using that assms(2) len by auto
    with that assms(1) show ?thesis unfolding bg_ok_def by simp
  qed
  with len show ?thesis by (simp add: bg_ok_def)
qed

interpretation bg: job_table bg_jobs addbgPid deletebgPid bg_ok "\<lambda>p. p \<noteq> 0" 128
proof
  fix s k v
  assume ok: "bg_ok s"
  have len: "length (bgPids s) = 128" "length (bgCmds s) = 128" using ok by (simp_all add: bg_ok_def)
  show "finite (dom (bg_jobs s)) \<and> card (dom (bg_jobs s)) \<le> 128"
  proof -
    have "card {i. i < 128 \<and> bgPids s ! i \<noteq> 0} \<le> 128"
      using card_mono [of "{..< 128 :: nat}" "{i. i < 128 \<and> bgPids s ! i \<noteq> 0}"] by auto
    then show ?thesis using card_bg_jobs [OF ok] by simp
  qed
  show "bg_ok (addbgPid k v s) \<and> bg_jobs (addbgPid k v s) = bg_jobs s" if "card (dom (bg_jobs s)) = 128"
  proof -
    have "slot_of 0 s = None" using free_slot [OF ok] that by auto
    with ok show ?thesis
      by (simp add: addbgPid_full bg_ok_def) (simp add: emit_def bg_jobs_def fun_eq_iff getbgCmd_def slot_of_def)
  qed
  show "bg_ok (addbgPid k v s) \<and> bg_jobs (addbgPid k v s) = (bg_jobs s)(k \<mapsto> v)"
    if new: "k \<noteq> 0" "bg_jobs s k = None" "card (dom (bg_jobs s)) < 128"
  proof -
    obtain i where i: "slot_of 0 s = Some i" using free_slot [OF ok] new(3) by auto
    have "i < 128" "bgPids s ! i = 0" "\<forall>j < 128. bgPids s ! j \<noteq> k"
      using i new(1,2) by (auto simp: slot_of_Some bg_jobs_None)
    then have ok': "bg_ok (addbgPid k v s)"
      using ok by (auto simp: addbgPid_slot [OF i] bg_ok_def nth_list_update split: if_splits)
    moreover have "bg_jobs (addbgPid k v s) = (bg_jobs s)(k \<mapsto> v)"
      using \<open>i < 128\<close> \<open>bgPids s ! i = 0\<close> len new(1) bg_jobs_slot [OF ok] \<open>\<forall>j < 128. bgPids s ! j \<noteq> k\<close>
      by (intro bg_jobs_eqI [OF ok']) (auto simp: addbgPid_slot [OF i] nth_list_update bg_jobs_None split: if_splits)
    ultimately show ?thesis by simp
  qed
  show "bg_ok (deletebgPid k s) \<and> bg_jobs (deletebgPid k s) = (bg_jobs s)(k := None)" if "k \<noteq> 0"
  proof (cases "slot_of k s")
    case None
    then have "bg_jobs s k = None" by (simp add: bg_jobs_None slot_of_None)
    with ok None show ?thesis by (simp add: deletebgPid_def fun_upd_idem)
  next
    case (Some i)
    have i: "i < 128" "bgPids s ! i = k" using Some by (auto simp: slot_of_Some)
    have del: "deletebgPid k s = s\<lparr>bgPids := (bgPids s)[i := 0]\<rparr>" using Some by (simp add: deletebgPid_def)
    have ok': "bg_ok (deletebgPid k s)" using bg_ok_clear [OF ok i(1)] by (simp add: del)
    moreover have "bg_jobs (deletebgPid k s) = (bg_jobs s)(k := None)"
    proof (rule bg_jobs_eqI [OF ok'])
      fix j
      assume j: "j < 128" "bgPids (deletebgPid k s) ! j \<noteq> 0"
      then have "j \<noteq> i" using i len by (auto simp: del)
      moreover from this have "bgPids s ! j \<noteq> k" using ok i j that unfolding bg_ok_def by metis
      ultimately show "((bg_jobs s)(k := None)) (bgPids (deletebgPid k s) ! j) = Some (bgCmds (deletebgPid k s) ! j)"
        using j bg_jobs_slot [OF ok j(1)] by (simp add: del)
    next
      fix p
      assume "p = 0 \<or> (\<forall>j < 128. bgPids (deletebgPid k s) ! j \<noteq> p)"
      then have "p = 0 \<or> p = k \<or> (\<forall>j < 128. bgPids s ! j \<noteq> p)"
        using i(2) by (metis del kshell.select_convs(3) kshell.surjective kshell.update_convs(3) nth_list_update_neq)
      then show "((bg_jobs s)(k := None)) p = None" by (auto simp: bg_jobs_None)
    qed
    ultimately show ?thesis by simp
  qed
qed

lemma bg_init: "bg_ok (k_init env)" "bg_jobs (k_init env) = Map.empty"
  by (simp_all add: bg_ok_def k_init_def bg_jobs_def getbgCmd_def slot_of_def find_None_iff fun_eq_iff)



section \<open>Variables share one buffer\<close>

lemma var_name_eq: "CHR ''='' \<notin> set a \<Longrightarrow> var_name (a @ ''='' @ x) = a"
  by (simp add: var_name_def takeWhile_append_if)

lemma var_value_eq: "CHR ''='' \<notin> set a \<Longrightarrow> var_value (a @ ''='' @ x) = x"
  by (simp add: var_value_def dropWhile_append_if)

lemma find_replace_entry:
  assumes "\<not> P Temp \<Longrightarrow> False"
  shows "find P (replace_entry P ens) = (case find P ens of None \<Rightarrow> Some Temp | Some _ \<Rightarrow> Some Temp)"
  using assms by (induction ens) auto

lemma getenv_putenv:
  assumes "CHR ''='' \<notin> set a"
  shows "getenv a (putenv_temp (s\<lparr>k_temp := a @ ''='' @ x\<rparr>)) = Some x"
proof -
  let ?s = "s\<lparr>k_temp := a @ ''='' @ x\<rparr>"
  have "entry_str (putenv_temp ?s) en = entry_str ?s en" for en by (simp add: putenv_temp_def entry_str_def split: entry.splits)
  moreover have "find (\<lambda>en. var_name (entry_str ?s en) = a) (replace_entry (\<lambda>en. var_name (entry_str ?s en) = a) (k_env s)) = Some Temp"
    using find_replace_entry [of "\<lambda>en. var_name (entry_str ?s en) = a" "k_env s"] var_name_eq [OF assms, of x]
    by (auto simp: entry_str_def split: option.splits)
  ultimately show ?thesis
    using var_name_eq [OF assms, of x] var_value_eq [OF assms, of x]
    by (simp add: getenv_def) (simp add: putenv_temp_def entry_str_def)
qed

lemma putenv_entries: "set (k_env (putenv_temp s)) \<subseteq> set (k_env s) \<union> {Temp}"
proof -
  have "set (replace_entry P ens) \<subseteq> set ens \<union> {Temp}" for P ens by (induction ens) auto
  then show ?thesis by (simp add: putenv_temp_def)
qed

lemma getenv_None_if:
  assumes "getenv a s = None" and "set (k_env s') \<subseteq> set (k_env s) \<union> {Temp}" and "var_name (k_temp s') \<noteq> a"
  shows "getenv a s' = None"
proof -
  have "var_name (entry_str s' en) \<noteq> a" if "en \<in> set (k_env s')" for en
  proof (cases en)
    case (Fixed y)
    with that assms(1,2) show ?thesis by (auto simp: getenv_def find_None_iff entry_str_def)
  qed (use assms(3) in \<open>simp add: entry_str_def\<close>)
  then show ?thesis by (auto simp: getenv_def find_None_iff)
qed

text \<open>
  \<open>setenv\<close> sets a variable, but since every call hands the same array to \<open>putenv\<close>, the next
  \<open>setenv\<close> of another variable takes the first one away again: only the variable set last is there.
\<close>

theorem setenv_shares_buffer:
  assumes "getenv a s = None" and "a \<noteq> b" and "CHR ''='' \<notin> set a" and "CHR ''='' \<notin> set b"
    and "a \<noteq> ''MYSH_DEBUG''" and "b \<noteq> ''MYSH_DEBUG''" and "kw_putenv w"
    and "length a + length x < 511" and "length b + length y < 511"
  shows "\<exists>s1 s2. k_setenv w [''setenv'', a, x] s = Go s1 \<and> getenv a s1 = Some x \<and>
    k_setenv w [''setenv'', b, y] s1 = Go s2 \<and> getenv b s2 = Some y \<and> getenv a s2 = None"
proof -
  let ?s1 = "putenv_temp (s\<lparr>k_temp := a @ ''='' @ x\<rparr>)"
  let ?s2 = "putenv_temp (?s1\<lparr>k_temp := b @ ''='' @ y\<rparr>)"
  have run: "k_setenv w [''setenv'', a, x] s = Go ?s1" "k_setenv w [''setenv'', b, y] ?s1 = Go ?s2"
    using assms(5-9) by (simp_all add: k_setenv_def)
  have "set (k_env ?s2) \<subseteq> set (k_env s) \<union> {Temp}"
    using putenv_entries [of "?s1\<lparr>k_temp := b @ ''='' @ y\<rparr>"] putenv_entries [of "s\<lparr>k_temp := a @ ''='' @ x\<rparr>"] by auto
  moreover have "var_name (k_temp ?s2) \<noteq> a"
    using var_name_eq [OF assms(4), of y] assms(2) by (simp add: putenv_temp_def)
  ultimately have "getenv a ?s2 = None" using getenv_None_if [OF assms(1)] by blast
  with run getenv_putenv [OF assms(3)] getenv_putenv [OF assms(4)] show ?thesis by blast
qed

definition calm_world :: kworld where
  "calm_world = \<lparr>kw_cwd = ''/'', kw_chdir = (\<lambda>_. True), kw_append = (\<lambda>_. True), kw_putenv = True, kw_fork = 7,
     kw_reaped = [], kw_errno = []\<rparr>"

theorem setenv_shares_buffer_witness:
  "\<exists>s1 s2. k_setenv calm_world [''setenv'', ''A'', ''1''] (k_init [''HOME=/'']) = Go s1 \<and> getenv ''A'' s1 = Some ''1'' \<and>
    k_setenv calm_world [''setenv'', ''B'', ''2''] s1 = Go s2 \<and> getenv ''B'' s2 = Some ''2'' \<and> getenv ''A'' s2 = None"
proof -
  have "getenv ''A'' (k_init [''HOME=/'']) = None" by code_simp
  then show ?thesis by (intro setenv_shares_buffer) (simp_all add: calm_world_def)
qed

text \<open>
  Lines that end the shell by accident: a line of blanks, the end of the input (an empty read), and a
  lone \<open>&\<close>.
\<close>

theorem koders_accidents:
  "k_line calm_world ('' '' @ [NL]) (k_init []) = Crash" "k_line calm_world [] (k_init []) = Crash"
  "k_line calm_world (''&'' @ [NL]) (k_init []) = Exit 1"
  by code_simp+

end
