(* ===== verification/MyShell.thy ===== *)
theory MyShell
  imports ShellExec
begin

text \<open>
  The shell in \<open>src/2/myshell.c\<close>. Its words are pointers into one line buffer that \<open>strtok\<close> cuts up in place, and the
  words behind a special symbol are copied to a second array, which is never cleared. So the state has the
  buffer as a list of characters and the arrays as lists of offsets into it; a string is what stands at an offset up to
  the next zero byte. The tables of file descriptors are those of \<open>ShellExec\<close>.
\<close>

abbreviation NUL :: char where "NUL \<equiv> CHR 0x00"

section \<open>State\<close>

definition LMAX :: nat where "LMAX = 100"

text \<open>
  What a process becomes: another program, a process that ends, one that returns to the main loop as a second
  shell, or one that crashes. The shell prints, starts processes and waits.
\<close>

datatype proc = P_exec "string list" fdt | P_exit int string | P_shell fdt | P_crash

datatype myev = Says string | Starts "proc list" | Waits

text \<open>\<open>save\<close> is the position \<open>strtok\<close> keeps between calls; \<open>nforks\<close> counts the calls of \<open>fork\<close>.\<close>

record myshell =
  line :: string
  argv :: "nat list"
  argv2 :: "nat list"
  save :: nat
  vars :: "string \<rightharpoonup> string"
  cwd :: string
  nforks :: nat
  said :: "myev list"

text \<open>
  The outside world: which calls of \<open>fork\<close> succeed, in the shell and in its child; which programs can be executed;
  which files can be created and opened; the directory a change of directory leads to; the name of a directory; whether
  \<open>setenv\<close> finds memory; the file descriptors of the shell.
\<close>

record myworld =
  mw_fork :: "nat \<Rightarrow> bool"
  mw_fork2 :: "nat \<Rightarrow> bool"
  mw_exec :: "string list \<Rightarrow> bool"
  mw_creat :: "string \<Rightarrow> bool"
  mw_open :: "string \<Rightarrow> bool"
  mw_chdir :: "string \<Rightarrow> string \<Rightarrow> string option"
  mw_curdir :: "string \<Rightarrow> string"
  mw_mem :: bool
  mw_fds :: fdt

definition say :: "myev list \<Rightarrow> myshell \<Rightarrow> myshell" where
  "say es s = s\<lparr>said := said s @ es\<rparr>"

definition cstr :: "string \<Rightarrow> nat \<Rightarrow> string" where
  "cstr m p = takeWhile (\<lambda>c. c \<noteq> NUL) (drop p m)"

definition args :: "myshell \<Rightarrow> string list" where
  "args s = map (cstr (line s)) (argv s)"

definition args2 :: "myshell \<Rightarrow> string list" where
  "args2 s = map (cstr (line s)) (argv2 s)"

section \<open>Reading a line\<close>

text \<open>
  \<open>strtok\<close> in place: the start of the next word (nothing at the end of the string), the position kept for the next call,
  and the buffer, in which the delimiter behind the word has become a zero byte.
\<close>

definition strtok_at :: "char \<Rightarrow> nat \<Rightarrow> string \<Rightarrow> nat option \<times> nat \<times> string" where
  "strtok_at d p m =
     (let q = p + length (takeWhile (\<lambda>c. c = d) (drop p m));
          n = length (takeWhile (\<lambda>c. c \<noteq> d \<and> c \<noteq> NUL) (drop q m));
          r = q + n
      in if n = 0 then (None, q, m)
         else if r < length m \<and> m ! r = d then (Some q, r + 1, m[r := NUL])
         else (Some q, r, m))"

lemma strtok_at_progress:
  assumes "strtok_at d p m = (Some w, r, m')"
  shows "p < r \<and> p < length m \<and> length m' = length m"
proof -
  define q where "q = p + length (takeWhile (\<lambda>c. c = d) (drop p m))"
  define n where "n = length (takeWhile (\<lambda>c. c \<noteq> d \<and> c \<noteq> NUL) (drop q m))"
  have st: "strtok_at d p m =
     (if n = 0 then (None, q, m)
      else if q + n < length m \<and> m ! (q + n) = d then (Some q, q + n + 1, m[q + n := NUL]) else (Some q, q + n, m))"
    by (simp add: strtok_at_def Let_def q_def n_def)
  with assms have n: "n \<noteq> 0" by (auto split: if_splits)
  then have "q < length m" by (cases "q < length m") (simp_all add: n_def)
  moreover have "p \<le> q" by (simp add: q_def)
  moreover have "r = q + n \<or> r = q + n + 1" "length m' = length m" using st assms n by (auto split: if_splits)
  ultimately show ?thesis using n by auto
qed

function words_at :: "nat \<Rightarrow> string \<Rightarrow> nat list \<times> nat \<times> string" where
  "words_at p m =
     (case strtok_at (CHR '' '') p m of
        (None, q, m) \<Rightarrow> ([], q, m)
      | (Some w, r, m) \<Rightarrow> (let (ws, q, m) = words_at r m in (w # ws, q, m)))"
  by pat_completeness auto
termination
  by (relation "measure (\<lambda>(p, m). length m - p)") (auto dest!: strtok_at_progress [OF sym])

declare words_at.simps [simp del]

text \<open>
  At the end of the input \<open>getchar\<close> returns \<open>EOF\<close>, for ever; as a character of the line it is \<open>0xFF\<close>. The loop that
  skips the rest of a long line has no other end than a newline.
\<close>

function fill :: "nat \<Rightarrow> string \<Rightarrow> string \<Rightarrow> nat \<times> string \<times> string" where
  "fill i m inp =
     (if i < LMAX then
        (case inp of
           [] \<Rightarrow> fill (i + 1) (m[i := CHR 0xFF]) []
         | c # cs \<Rightarrow> if c = NL then (i, m[i := c], cs) else fill (i + 1) (m[i := c]) cs)
      else (i, m, inp))"
  by pat_completeness auto
termination
  by (relation "measure (\<lambda>(i, m, inp). LMAX - i)") auto

declare fill.simps [simp del]

partial_function (option) skip_line :: "string \<Rightarrow> string option" where
  "skip_line inp =
     (case inp of [] \<Rightarrow> skip_line [] | c # cs \<Rightarrow> if c = NL then Some cs else skip_line cs)"

text \<open>The array of arguments has \<open>LMAX / 2\<close> elements and needs one for the null pointer at the end.\<close>

definition split_line :: "string \<Rightarrow> myshell \<Rightarrow> myshell sh" where
  "split_line m s =
     (let (ws, q, m) = words_at 0 m
      in if LMAX div 2 \<le> length ws then Crash else Go (s\<lparr>line := m, argv := ws, save := q\<rparr>))"

definition readLine :: "string \<Rightarrow> myshell \<Rightarrow> (myshell sh \<times> string) option" where
  "readLine inp s =
     (let (i, m, inp) = fill 0 (line s) inp
      in if i = LMAX then
           (case skip_line inp of
              None \<Rightarrow> None
            | Some inp \<Rightarrow> Some (split_line (m[LMAX - 1 := NUL]) s, inp))
         else Some (split_line (m[i := NUL]) s, inp))"

section \<open>Redirection\<close>

text \<open>
  \<open>extractCommand\<close> moves the words behind the symbol to the front of \<open>argv2\<close>; what stood there beyond
  them stays. Clearing the moved words of \<open>argv\<close> also ends its outer loop.
\<close>

definition extractCommand :: "string \<Rightarrow> myshell \<Rightarrow> myshell" where
  "extractCommand symbol s =
     (let pre = takeWhile (\<lambda>p. cstr (line s) p \<noteq> symbol) (argv s);
          post = drop (length pre + 1) (argv s)
      in if length pre = length (argv s) then s
         else s\<lparr>argv := pre, argv2 := post @ drop (length post) (argv2 s)\<rparr>)"

definition execvp :: "myworld \<Rightarrow> fdt \<Rightarrow> string list \<Rightarrow> proc \<Rightarrow> proc" where
  "execvp w t as failed = (if as = [] then P_crash else if mw_exec w as then P_exec as t else failed)"

definition fork :: "myshell \<Rightarrow> myshell" where
  "fork s = s\<lparr>nforks := nforks s + 1\<rparr>"

text \<open>The name of the command is used as a format.\<close>

fun printf0 :: "string \<Rightarrow> string option" where
  "printf0 [] = Some []"
| "printf0 (c # cs) =
     (if c = CHR ''%'' then
        (case cs of
           [] \<Rightarrow> None
         | d # ds \<Rightarrow> if d = CHR ''%'' then map_option ((#) d) (printf0 ds) else None)
      else map_option ((#) c) (printf0 cs))"

definition done_message :: "myshell \<Rightarrow> myshell sh" where
  "done_message s =
     (case args s of
        [] \<Rightarrow> Crash
      | c # _ \<Rightarrow> (case printf0 c of None \<Rightarrow> Crash | Some t \<Rightarrow> Go (say [Says ''Done '', Says t, Says (''.'' @ [NL])] s)))"

text \<open>
  Both redirections: the descriptor is closed and the file opened, which gives it the lowest free descriptor. A
  missing file name is a null pointer, which the kernel refuses.
\<close>

definition redirected :: "nat \<Rightarrow> (string \<Rightarrow> bool) \<Rightarrow> (string \<Rightarrow> fobj) \<Rightarrow> myworld \<Rightarrow> myshell \<Rightarrow> fdt" where
  "redirected n ok file w s =
     (let t = close_fd n (mw_fds w) in
      case args2 s of
        [] \<Rightarrow> t
      | f # _ \<Rightarrow> if ok f then (case open_fd (file f) t of None \<Rightarrow> t | Some t \<Rightarrow> t) else t)"

definition run_redirected :: "fdt \<Rightarrow> myworld \<Rightarrow> myshell \<Rightarrow> myshell sh" where
  "run_redirected t w s =
     (if \<not> mw_fork w (nforks s) then Exit 1
      else done_message (say [Starts [execvp w t (args s) (P_exit 1 ''execv'')], Waits] (fork s)))"

definition outRedirection :: "myworld \<Rightarrow> myshell \<Rightarrow> myshell sh" where
  "outRedirection w s =
     (let s = extractCommand ''>'' s in run_redirected (redirected 1 (mw_creat w) Outfile w s) w s)"

definition inRedirection :: "myworld \<Rightarrow> myshell \<Rightarrow> myshell sh" where
  "inRedirection w s =
     (let s = extractCommand ''<'' s in run_redirected (redirected 0 (mw_open w) Infile w s) w s)"

section \<open>Background commands and pipes\<close>

text \<open>
  \<open>backgrounding\<close> and \<open>piping\<close> run in a child, so what they do to the arrays is lost for the shell. The results are the
  processes that come of it.
\<close>

definition not_found :: "string list \<Rightarrow> string" where
  "not_found as = ''Command '' @ hd as @ '' not found'' @ [NL]"

definition backgrounding :: "myworld \<Rightarrow> myshell \<Rightarrow> proc list" where
  "backgrounding w s =
     (let s = extractCommand ''&'' s in
      if \<not> mw_fork2 w (nforks s) then [P_exit (- 1) (''panic: can'' @ [CHR 0x27] @ ''t fork'' @ [NL])]
      else [execvp w (mw_fds w) (args s) (P_exit 1 (not_found (args s))), P_exit 0 []])"

definition dup :: "nat \<Rightarrow> fdt \<Rightarrow> fdt" where
  "dup n t = (case t n of None \<Rightarrow> t | Some f \<Rightarrow> (case open_fd f t of None \<Rightarrow> t | Some t \<Rightarrow> t))"

text \<open>
  Neither exec is followed by an exit: a process whose program cannot be executed falls through to the \<open>wait\<close> of
  \<open>process\<close> and returns to the main loop.
\<close>

definition piping :: "myworld \<Rightarrow> myshell \<Rightarrow> proc list" where
  "piping w s =
     (let s = extractCommand ''|'' s in
      case mk_pipe 0 (mw_fds w) of
        None \<Rightarrow> [P_crash]
      | Some (t, r, wr) \<Rightarrow>
          if \<not> mw_fork2 w (nforks s) then [P_shell t]
          else (let t1 = close_fd r (dup wr (close_fd 1 t)); t2 = close_fd wr (dup r (close_fd 0 t))
                in [execvp w t1 (args s) (P_shell t1), execvp w t2 (args2 s) (P_shell t2)]))"

definition process :: "nat \<Rightarrow> myworld \<Rightarrow> myshell \<Rightarrow> myshell sh" where
  "process type w s =
     (if \<not> mw_fork w (nforks s) then Exit (- 1)
      else Go (say [Starts (if type = 0 then [execvp w (mw_fds w) (args s) (P_exit 0 (not_found (args s)))]
                            else if type = 1 then backgrounding w s
                            else piping w s), Waits] (fork s)))"

section \<open>Environment and directory\<close>

definition set_var :: "myworld \<Rightarrow> string \<Rightarrow> string \<Rightarrow> myshell \<Rightarrow> myshell" where
  "set_var w n v s = (if mw_mem w then s\<lparr>vars := (vars s)(n \<mapsto> v)\<rparr> else s)"

text \<open>\<open>setenv\<close> refuses a null pointer as name; as value it is read, whatever it is.\<close>

definition setEnv :: "nat \<Rightarrow> myworld \<Rightarrow> myshell \<Rightarrow> myshell sh" where
  "setEnv n w s =
     (let (name, p, m) = strtok_at (CHR ''='') (if n < length (argv s) then argv s ! n else save s) (line s);
          (v, p, m) = strtok_at (CHR '' '') p m;
          s = s\<lparr>line := m, save := p\<rparr>
      in case name of
           None \<Rightarrow> Go (say [Says (''Error in setting environment'' @ [NL])] s)
         | Some x \<Rightarrow>
             (case v of
                None \<Rightarrow> Crash
              | Some y \<Rightarrow>
                  Go (say [Says ((if mw_mem w then ''Environment set successfully'' else ''Error in setting environment'') @ [NL])]
                        (set_var w (cstr m x) (cstr m y) s))))"

definition unsetEnv :: "myshell \<Rightarrow> myshell" where
  "unsetEnv s =
     (case args s of
        _ # n # _ \<Rightarrow>
          if n = [] \<or> CHR ''='' \<in> set n then say [Says (''Error in unsetting environment'' @ [NL])] s
          else say [Says (''Environment variable '' @ n @ '' unset successfully'' @ [NL])] (s\<lparr>vars := (vars s)(n := None)\<rparr>)
      | _ \<Rightarrow> say [Says (''Error in unsetting environment'' @ [NL])] s)"

definition chdir_to :: "myworld \<Rightarrow> string \<Rightarrow> myshell \<Rightarrow> myshell \<times> bool" where
  "chdir_to w d s = (case mw_chdir w (cwd s) d of None \<Rightarrow> (s, False) | Some c \<Rightarrow> (s\<lparr>cwd := c\<rparr>, True))"

definition changeDirectory :: "myworld \<Rightarrow> myshell \<Rightarrow> myshell sh" where
  "changeDirectory w s =
     (case vars s ''PWD'' of
        None \<Rightarrow> Crash
      | Some old \<Rightarrow>
          (let s = set_var w ''OLDPWD'' old s;
               report = (\<lambda>(s, ok). Go (say [Says (if ok then ''Current directory: '' @ the (vars s ''PWD'') @ [NL]
                                                  else ''Error in changing directory'' @ [NL])] s))
           in case args s of
                _ # d # _ \<Rightarrow> (let (s, ok) = chdir_to w d s in report (set_var w ''PWD'' (mw_curdir w (cwd s)) s, ok))
              | _ \<Rightarrow>
                  (case vars s ''HOME'' of
                     None \<Rightarrow> Crash
                   | Some h \<Rightarrow> (let (s, ok) = chdir_to w h s in report (set_var w ''PWD'' h s, ok)))))"

section \<open>The main loop\<close>

definition special :: "string \<Rightarrow> bool" where
  "special x \<longleftrightarrow> x \<in> {''>'', ''<'', ''|'', ''&''}"

definition stringCompare :: "myshell \<Rightarrow> char" where
  "stringCompare s = (case find special (args s) of None \<Rightarrow> NUL | Some x \<Rightarrow> hd x)"

definition run_line :: "myworld \<Rightarrow> myshell \<Rightarrow> myshell sh" where
  "run_line w s =
     (case args s of
        [] \<Rightarrow> Go s
      | c # _ \<Rightarrow>
          if c = ''exit'' then Exit 0
          else if c = ''export'' then setEnv 1 w s
          else if CHR ''='' \<in> set c then setEnv 0 w s
          else if c = ''unset'' then Go (unsetEnv s)
          else if c = ''cd'' then changeDirectory w s
          else if stringCompare s = CHR ''<'' then inRedirection w s
          else if stringCompare s = CHR ''>'' then outRedirection w s
          else if stringCompare s = CHR ''|'' then process 2 w s
          else if stringCompare s = CHR ''&'' then process 1 w s
          else process 0 w s)"

text \<open>
  The result is what was said and started before the line that ended the shell, and how it ended; no result
  means that the shell runs for ever.
\<close>

partial_function (option) myshell_main :: "myworld \<Rightarrow> string \<Rightarrow> myshell \<Rightarrow> (myev list \<times> myshell sh) option" where
  "myshell_main w inp s =
     (let s = say [Says ''myshell$ ''] s in
      case readLine inp s of
        None \<Rightarrow> None
      | Some (r, inp) \<Rightarrow>
          (case sbind r (run_line w) of
             Go s' \<Rightarrow> myshell_main w inp s'
           | e \<Rightarrow> Some (said s, e)))"

definition boot :: "(string \<rightharpoonup> string) \<Rightarrow> string \<Rightarrow> myshell" where
  "boot env d = \<lparr>line = replicate LMAX NUL, argv = [], argv2 = [], save = 0, vars = env, cwd = d, nforks = 0,
     said = [Says (''Initializing shell: '' @ [NL])]\<rparr>"

section \<open>Words in the buffer\<close>

lemma cstr_seg: "m = a @ w @ NUL # v \<Longrightarrow> NUL \<notin> set w \<Longrightarrow> cstr m (length a) = w"
  by (auto simp: cstr_def takeWhile_append_if)

text \<open>One call of \<open>strtok\<close>, on a string that is \<open>u\<close> from \<open>p\<close> on: it does what \<open>strtok\<close> on lists does.\<close>

lemma strtok_at_none:
  assumes "drop p m = u @ NUL # v" "\<forall>c \<in> set u. c = d" "d \<noteq> NUL"
  shows "strtok_at d p m = (None, p + length u, m)"
proof -
  have "takeWhile (\<lambda>c. c = d) (drop p m) = u" using assms by (auto simp: takeWhile_append_if)
  moreover have "drop (p + length u) m = NUL # v" using assms(1) by (metis add.commute append_eq_conv_conj drop_drop)
  ultimately show ?thesis by (simp add: strtok_at_def Let_def)
qed

lemma strtok_at_some:
  assumes "m = a @ b @ w @ x # v" "\<forall>c \<in> set b. c = d" "w \<noteq> []" "\<forall>c \<in> set w. c \<noteq> d \<and> c \<noteq> NUL" "x = d \<or> x = NUL"
    "d \<noteq> NUL"
  shows "strtok_at d (length a) m =
    (Some (length (a @ b)), length (a @ b @ w) + (if x = d then 1 else 0), a @ b @ w @ NUL # v)"
proof -
  have 1: "takeWhile (\<lambda>c. c = d) (drop (length a) m) = b"
    using assms(1-4) by (cases w) (auto simp: takeWhile_append_if)
  have 2: "takeWhile (\<lambda>c. c \<noteq> d \<and> c \<noteq> NUL) (drop (length a + length b) m) = w"
    using assms by (auto simp: takeWhile_append_if)
  have 3: "m ! (length a + length b + length w) = x"
    using assms(1) nth_append_length [of "a @ b @ w" x v] by (simp add: add.assoc)
  have 4: "m[length a + length b + length w := y] = a @ b @ w @ y # v" for y
    using assms(1) list_update_length [of "a @ b @ w" x v y] by (simp add: add.assoc)
  have 5: "length a + length b + length w < length m" using assms(1) by simp
  have st: "strtok_at d (length a) m = (Some (length a + length b), length a + length b + length w + (if x = d then 1 else 0),
      if x = d then a @ b @ w @ NUL # v else m)"
    by (simp only: strtok_at_def Let_def 1 2 3 4 5) (use assms(3) in simp)
  show ?thesis
  proof (cases "x = d")
    case False
    with assms(5) have "x = NUL" by blast
    with st False assms(1) show ?thesis by (simp add: add.assoc)
  qed (use st in \<open>simp add: add.assoc\<close>)
qed

text \<open>The words of a text: leading blanks, the first word, and the rest behind the blank that ends it.\<close>

lemma words_cases:
  obtains (none) "\<forall>c \<in> set u. c = d"
  | (word) b w r where "u = b @ w @ r" "\<forall>c \<in> set b. c = d" "w \<noteq> []" "\<forall>c \<in> set w. c \<noteq> d" "r = [] \<or> hd r = d"
      "strtok_all (\<lambda>c. c = d) u = w # strtok_all (\<lambda>c. c = d) (drop 1 r)"
proof (cases "\<forall>c \<in> set u. c = d")
  case False
  let ?s = "dropWhile (\<lambda>c. c = d) u"
  have s: "?s \<noteq> []" using False by (auto simp: dropWhile_eq_Nil_conv)
  then have "hd ?s \<noteq> d" using hd_dropWhile [of "\<lambda>c. c = d" u] by simp
  then have "takeWhile (\<lambda>c. c \<noteq> d) ?s \<noteq> []" using s by (cases ?s) auto
  moreover have "dropWhile (\<lambda>c. c \<noteq> d) ?s = [] \<or> hd (dropWhile (\<lambda>c. c \<noteq> d) ?s) = d"
    using hd_dropWhile [of "\<lambda>c. c \<noteq> d" ?s] by blast
  moreover have "strtok_all (\<lambda>c. c = d) u =
      takeWhile (\<lambda>c. c \<noteq> d) ?s # strtok_all (\<lambda>c. c = d) (drop 1 (dropWhile (\<lambda>c. c \<noteq> d) ?s))"
    using s by (subst strtok_all_rec) (simp add: strtok_def Let_def comp_def)
  moreover have "u = takeWhile (\<lambda>c. c = d) u @ takeWhile (\<lambda>c. c \<noteq> d) ?s @ dropWhile (\<lambda>c. c \<noteq> d) ?s" by simp
  moreover have "\<forall>c \<in> set (takeWhile (\<lambda>c. c = d) u). c = d" "\<forall>c \<in> set (takeWhile (\<lambda>c. c \<noteq> d) ?s). c \<noteq> d"
    by (auto dest: set_takeWhileD)
  ultimately show thesis by (intro that(2))
qed (use that in blast)

lemma words_at_exact:
  assumes "m = a @ u @ NUL # v" "NUL \<notin> set u" "words_at (length a) m = (ws, q, m')"
  shows "\<exists>u'. m' = a @ u' @ NUL # v \<and> length u' = length u \<and>
    map (cstr m') ws = strtok_all (\<lambda>c. c = CHR '' '') u"
  using assms
proof (induction "length u" arbitrary: a u m ws q m' rule: less_induct)
  case less
  let ?d = "CHR '' ''"
  have dm: "drop (length a) m = u @ NUL # v" using less.prems(1) by simp
  show ?case
  proof (cases rule: words_cases [of u ?d])
    case none
    then have "strtok_all (\<lambda>c. c = ?d) u = []" by (simp add: strtok_Nil)
    moreover have "words_at (length a) m = ([], length a + length u, m)"
      by (subst words_at.simps) (simp add: strtok_at_none [OF dm none])
    ultimately show ?thesis using less.prems by (intro exI [of _ u]) simp
  next
    case (word b w r)
    define x where "x = hd (r @ [NUL])"
    define z where "z = (if r = [] then [] else [NUL])"
    define y where "y = tl (r @ NUL # v)"
    have m: "m = a @ b @ w @ x # y"
      using less.prems(1) word(1) by (cases r) (auto simp: x_def y_def)
    have w: "\<forall>c \<in> set w. c \<noteq> ?d \<and> c \<noteq> NUL" using word(1,4) less.prems(2) by auto
    have x: "x = ?d \<or> x = NUL" using word(5) by (cases r) (auto simp: x_def)
    have "strtok_at ?d (length a) m =
        (Some (length (a @ b)), length (a @ b @ w) + (if x = ?d then 1 else 0), a @ b @ w @ NUL # y)"
      by (rule strtok_at_some [OF m word(2,3) w x]) simp
    also have "length (a @ b @ w) + (if x = ?d then 1 else 0) = length (a @ b @ w @ z)"
      using word(5) by (cases r) (auto simp: x_def z_def)
    also have "a @ b @ w @ NUL # y = (a @ b @ w @ z) @ drop 1 r @ NUL # v"
      by (cases r) (auto simp: y_def z_def)
    finally have st: "strtok_at ?d (length a) m =
      (Some (length (a @ b)), length (a @ b @ w @ z), (a @ b @ w @ z) @ drop 1 r @ NUL # v)" .
    then obtain ws' where ws: "ws = length (a @ b) # ws'"
      "words_at (length (a @ b @ w @ z)) ((a @ b @ w @ z) @ drop 1 r @ NUL # v) = (ws', q, m')"
      using less.prems(3) by (subst (asm) words_at.simps) (auto split: prod.splits)
    have "length (drop 1 r) < length u" using word(1,3) by (cases w) auto
    moreover have "NUL \<notin> set (drop 1 r)" "NUL \<notin> set w"
      using word(1) less.prems(2) by (auto dest: in_set_dropD)
    moreover note less.hyps [OF _ refl _ ws(2)]
    ultimately obtain u' where u': "m' = (a @ b @ w @ z) @ u' @ NUL # v"
      "length u' = length (drop 1 r)" "map (cstr m') ws' = strtok_all (\<lambda>c. c = ?d) (drop 1 r)" by blast
    note nw = \<open>NUL \<notin> set w\<close>
    have "m' = (a @ b) @ w @ NUL # (if r = [] then v else u' @ NUL # v)"
      using u'(1,2) by (auto simp: z_def)
    from cstr_seg [OF this nw] u' ws(1) word(1,6) show ?thesis
      by (intro exI [of _ "b @ w @ z @ u'"]) (cases r, auto simp: z_def)
  qed
qed

section \<open>Lines\<close>

lemma skip_line_rest: "NL \<notin> set l \<Longrightarrow> skip_line (l @ NL # rest) = Some rest"
  by (induction l) (subst skip_line.simps, auto)+

lemma skip_line_hangs: "NL \<notin> set inp \<Longrightarrow> skip_line inp = None"
proof (rule ccontr)
  assume a: "NL \<notin> set inp" "skip_line inp \<noteq> None"
  have "NL \<in> set i" if "skip_line i = Some r" for i r
    by (rule skip_line.raw_induct [OF _ that, where P = "\<lambda>i r. NL \<in> set i"]) (fastforce split: list.splits if_splits)
  with a show False by blast
qed

lemma take_upd_snoc: "i < length m \<Longrightarrow> take (Suc i) (m[i := c]) = take i m @ [c]"
  by (simp add: take_Suc_conv_app_nth)

lemma fill_line:
  assumes "NL \<notin> set l" "i + length l < LMAX" "length m = LMAX"
  shows "fill i m (l @ NL # rest) = (i + length l, take i m @ l @ NL # drop (i + length l + 1) m, rest)"
  using assms
proof (induction l arbitrary: i m)
  case Nil
  then show ?case by (subst fill.simps) (simp add: upd_conv_take_nth_drop)
next
  case (Cons c l)
  then show ?case
    by (subst fill.simps) (auto simp: take_upd_snoc)
qed

lemma fill_long:
  assumes "NL \<notin> set (take (LMAX - i) l)" "LMAX \<le> i + length l" "i \<le> LMAX" "length m = LMAX"
  shows "fill i m (l @ rest) = (LMAX, take i m @ take (LMAX - i) l, drop (LMAX - i) l @ rest)"
  using assms
proof (induction l arbitrary: i m)
  case Nil
  then show ?case by (subst fill.simps) simp
next
  case (Cons c l)
  show ?case
  proof (cases "i < LMAX")
    case True
    then have "LMAX - i = Suc (LMAX - (i + 1))" by simp
    with Cons True show ?thesis
      by (subst fill.simps) (auto simp: take_upd_snoc)
  qed (use Cons in \<open>subst fill.simps, simp\<close>)
qed

lemma fill_eof:
  assumes "NL \<notin> set inp" "i \<le> LMAX"
  shows "\<exists>m' r. fill i m inp = (LMAX, m', r) \<and> NL \<notin> set r"
  using assms
proof (induction i m inp rule: fill.induct)
  case (1 i m inp)
  show ?case
  proof (cases "i < LMAX")
    case True
    then show ?thesis using 1(1) [OF True] 1(2) [OF True] 1(3)
      by (cases inp) (subst fill.simps, auto)+
  qed (use 1(3,4) in \<open>subst fill.simps, simp\<close>)
qed

abbreviation blank :: "char \<Rightarrow> bool" where "blank c \<equiv> c = CHR '' ''"

lemma split_line_words:
  assumes "m = u @ NUL # v" "NUL \<notin> set u"
  shows "if LMAX div 2 \<le> length (strtok_all blank u) then split_line m s = Crash
    else \<exists>m' ws q. split_line m s = Go (s\<lparr>line := m', argv := ws, save := q\<rparr>) \<and> length m' = length m \<and>
      map (cstr m') ws = strtok_all blank u"
proof -
  obtain ws q m' where w: "words_at 0 m = (ws, q, m')" by (metis prod_cases3)
  with words_at_exact [of m "[]" u v ws q m'] assms obtain u' where
    "m' = u' @ NUL # v" "length u' = length u" "map (cstr m') ws = strtok_all blank u" by auto
  moreover from this(3) have "length ws = length (strtok_all blank u)" by (metis length_map)
  ultimately show ?thesis using w assms(1)
    by (auto simp: split_line_def intro!: exI [of _ m'] exI [of _ ws] exI [of _ q])
qed

text \<open>
  Reading a line cuts it into the words between blanks, in the buffer itself: the arguments afterwards are
  those of the reference tokenizer on the first 99 characters of the line, the rest of a longer line is skipped, and the next
  line is the next to be read. A line of 50 words or more writes past the array of arguments.
\<close>

lemma readLine_words:
  assumes "NL \<notin> set l" "NUL \<notin> set l" "length (line s) = LMAX"
  shows "if LMAX div 2 \<le> length (strtok_all blank (take (LMAX - 1) l)) then readLine (l @ NL # rest) s = Some (Crash, rest)
    else \<exists>m ws q. readLine (l @ NL # rest) s = Some (Go (s\<lparr>line := m, argv := ws, save := q\<rparr>), rest) \<and> length m = LMAX \<and>
      map (cstr m) ws = strtok_all blank (take (LMAX - 1) l)"
proof -
  have n: "NUL \<notin> set (take (LMAX - 1) l)" using assms(2) by (meson in_set_takeD)
  show ?thesis
  proof (cases "length l < LMAX")
    case True
    let ?v = "drop (length l + 1) (line s)"
    have "fill 0 (line s) (l @ NL # rest) = (length l, l @ NL # ?v, rest)"
      using fill_line [of l 0 "line s" rest] assms True by simp
    then have r: "readLine (l @ NL # rest) s = Some (split_line (l @ NUL # ?v) s, rest)"
      using True by (simp add: readLine_def)
    have "take (LMAX - 1) l = l" using True by simp
    with split_line_words [OF refl, of l ?v s] n assms(3) True show ?thesis
      unfolding r by (auto split: if_splits)
  next
    case False
    have "fill 0 (line s) (l @ NL # rest) = (LMAX, take LMAX l, drop LMAX l @ NL # rest)"
      using fill_long [of 0 l "line s" "NL # rest"] assms False by (auto dest: in_set_takeD)
    moreover have "skip_line (drop LMAX l @ NL # rest) = Some rest"
      using assms(1) by (intro skip_line_rest) (auto dest: in_set_dropD)
    moreover have "(take LMAX l)[LMAX - 1 := NUL] = take (LMAX - 1) l @ [NUL]"
      using False by (simp add: LMAX_def upd_conv_take_nth_drop)
    ultimately have r: "readLine (l @ NL # rest) s = Some (split_line (take (LMAX - 1) l @ [NUL]) s, rest)"
      by (simp add: readLine_def)
    have "length (take (LMAX - 1) l @ [NUL]) = LMAX" using False by (simp add: LMAX_def)
    with split_line_words [OF refl n, of "[]" s] show ?thesis
      unfolding r by (auto split: if_splits)
  qed
qed

lemma readLine_eof: "NL \<notin> set inp \<Longrightarrow> readLine inp s = None"
  using fill_eof [of inp 0 "line s"] skip_line_hangs by (auto simp: readLine_def)

section \<open>Sessions\<close>

text \<open>A line that starts one program and waits for it, or has no words; and what the shell does about it.\<close>

definition plain :: "string list \<Rightarrow> bool" where
  "plain ws \<longleftrightarrow> length ws < LMAX div 2 \<and> \<not> list_ex special ws \<and>
     (case ws of [] \<Rightarrow> True | c # _ \<Rightarrow> c \<notin> {''exit'', ''export'', ''unset'', ''cd''} \<and> CHR ''='' \<notin> set c)"

definition plain_events :: "myworld \<Rightarrow> string list \<Rightarrow> myev list" where
  "plain_events w ws = Says ''myshell$ '' #
     (if ws = [] then [] else [Starts [execvp w (mw_fds w) ws (P_exit 0 (not_found ws))], Waits])"

lemma run_plain:
  assumes "plain (args s)" "\<And>n. mw_fork w n"
  shows "\<exists>s'. run_line w s = Go s' \<and> said s' = said s @ tl (plain_events w (args s)) \<and> line s' = line s"
proof (cases "args s")
  case (Cons c as)
  have "find special (args s) = None" using assms(1) by (auto simp: plain_def find_None_iff list_ex_iff)
  then have "stringCompare s = NUL" by (simp add: stringCompare_def)
  with assms Cons have "run_line w s = process 0 w s" by (simp add: run_line_def plain_def)
  with assms(2) Cons show ?thesis by (simp add: process_def plain_events_def say_def fork_def)
qed (use assms in \<open>simp add: run_line_def plain_events_def\<close>)

definition words :: "string \<Rightarrow> string list" where
  "words l = strtok_all blank (take (LMAX - 1) l)"

definition as_lines :: "string list \<Rightarrow> string" where
  "as_lines ls = concat (map (\<lambda>l. l @ [NL]) ls)"

definition plain_line :: "string \<Rightarrow> bool" where
  "plain_line l \<longleftrightarrow> NL \<notin> set l \<and> NUL \<notin> set l \<and> plain (words l)"

lemma read_plain:
  assumes "NL \<notin> set l" "NUL \<notin> set l" "length (words l) < LMAX div 2" "length (line s) = LMAX"
  shows "\<exists>s'. readLine (l @ NL # rest) s = Some (Go s', rest) \<and> args s' = words l \<and> length (line s') = LMAX \<and> said s' = said s"
proof -
  from readLine_words [OF assms(1,2,4), of rest] assms(3) obtain m ws q where
    "readLine (l @ NL # rest) s = Some (Go (s\<lparr>line := m, argv := ws, save := q\<rparr>), rest)" "length m = LMAX"
    "map (cstr m) ws = words l"
    by (auto simp: words_def)
  then show ?thesis by (intro exI [of _ "s\<lparr>line := m, argv := ws, save := q\<rparr>"]) (simp add: args_def)
qed

lemma main_step:
  assumes "readLine inp (say [Says ''myshell$ ''] s) = Some (Go s1, rest)" "run_line w s1 = Go s2"
  shows "myshell_main w inp s = myshell_main w rest s2"
  using assms by (subst myshell_main.simps) simp

lemma main_plain_lines:
  assumes "\<forall>l \<in> set ls. plain_line l" "\<And>n. mw_fork w n" "length (line s) = LMAX"
  shows "\<exists>s'. myshell_main w (as_lines ls @ rest) s = myshell_main w rest s' \<and> length (line s') = LMAX \<and>
    said s' = said s @ concat (map (plain_events w \<circ> words) ls)"
  using assms(1,3)
proof (induction ls arbitrary: s)
  case (Cons l ls)
  let ?p = "say [Says ''myshell$ ''] s"
  from Cons.prems read_plain [of l ?p "as_lines ls @ rest"] obtain s1 where s1:
    "readLine (l @ NL # as_lines ls @ rest) ?p = Some (Go s1, as_lines ls @ rest)" "args s1 = words l"
    "length (line s1) = LMAX" "said s1 = said ?p"
    by (auto simp: plain_line_def plain_def say_def)
  with Cons.prems(1) run_plain [of s1 w, OF _ assms(2)] obtain s2 where s2:
    "run_line w s1 = Go s2" "said s2 = said s1 @ tl (plain_events w (words l))" "line s2 = line s1"
    by (auto simp: plain_line_def)
  have "said s2 = said s @ plain_events w (words l)" using s1(4) s2(2) by (simp add: say_def plain_events_def)
  moreover have "myshell_main w (as_lines (l # ls) @ rest) s = myshell_main w (as_lines ls @ rest) s2"
    using main_step [OF s1(1) s2(1)] by (simp add: as_lines_def)
  ultimately show ?case using Cons.IH [of s2] Cons.prems(1) s1(3) s2(3) by auto
qed (auto simp: as_lines_def)

text \<open>
  C20: On lines that each start one program, the shell starts the program with the words of its line, cut at 99 characters, waits for
  it, and goes on to the next line. The line \<open>exit\<close> ends it with code 0. If the input ends without that line, the shell
  never ends: at the end of the input the loop that reads a line takes no newline and the loop behind it waits for one for ever.
\<close>

theorem myshell_session:
  assumes "\<forall>l \<in> set ls. plain_line l" "\<And>n. mw_fork w n" "length (line s) = LMAX" "NL \<notin> set inp"
  shows "myshell_main w (as_lines (ls @ [''exit'']) @ rest) s =
      Some (said s @ concat (map (plain_events w \<circ> words) ls) @ [Says ''myshell$ ''], Exit 0) \<and>
    myshell_main w (as_lines ls @ inp) s = None"
proof
  from main_plain_lines [OF assms(1-3), of "as_lines [''exit''] @ rest"] obtain s' where s':
    "myshell_main w (as_lines ls @ as_lines [''exit''] @ rest) s = myshell_main w (as_lines [''exit''] @ rest) s'"
    "length (line s') = LMAX" "said s' = said s @ concat (map (plain_events w \<circ> words) ls)" by blast
  let ?p = "say [Says ''myshell$ ''] s'"
  have e: "words ''exit'' = [''exit'']" by (simp add: words_def LMAX_def)
  have "length (line ?p) = LMAX" using s'(2) by (simp add: say_def)
  with read_plain [of "''exit''" ?p rest] e obtain s1 where
    "readLine (''exit'' @ NL # rest) ?p = Some (Go s1, rest)" "args s1 = [''exit'']" by (auto simp: LMAX_def)
  then have "myshell_main w (''exit'' @ NL # rest) s' = Some (said ?p, Exit 0)"
    by (subst myshell_main.simps) (simp add: run_line_def)
  with s' show "myshell_main w (as_lines (ls @ [''exit'']) @ rest) s =
      Some (said s @ concat (map (plain_events w \<circ> words) ls) @ [Says ''myshell$ ''], Exit 0)"
    by (simp add: as_lines_def say_def)
next
  from main_plain_lines [OF assms(1-3), of inp] obtain s' where
    "myshell_main w (as_lines ls @ inp) s = myshell_main w inp s'" by blast
  then show "myshell_main w (as_lines ls @ inp) s = None"
    using readLine_eof [OF assms(4)] by (subst (asm) (2) myshell_main.simps) simp
qed

definition kind_world :: myworld where
  "kind_world = \<lparr>mw_fork = (\<lambda>_. True), mw_fork2 = (\<lambda>_. True), mw_exec = (\<lambda>_. True), mw_creat = (\<lambda>_. True),
     mw_open = (\<lambda>_. True), mw_chdir = (\<lambda>c d. Some d), mw_curdir = (\<lambda>d. d), mw_mem = True,
     mw_fds = [0 \<mapsto> Term, 1 \<mapsto> Term, 2 \<mapsto> Term]\<rparr>"

theorem myshell_session_witness:
  "myshell_main kind_world (as_lines [''ls -l  a'', '' '', ''exit''] @ ''x'') (boot Map.empty ''/'') =
    Some ([Says (''Initializing shell: '' @ [NL]), Says ''myshell$ '',
      Starts [P_exec [''ls'', ''-l'', ''a''] (mw_fds kind_world)], Waits, Says ''myshell$ '', Says ''myshell$ ''], Exit 0) \<and>
   myshell_main kind_world (as_lines [''ls -l  a'', '' ''] @ ''ex'') (boot Map.empty ''/'') = None"
proof -
  have w: "words ''ls -l  a'' = [''ls'', ''-l'', ''a'']" "words '' '' = []" by (simp_all add: words_def LMAX_def)
  have "\<forall>l \<in> set [''ls -l  a'', '' '']. plain_line l"
    by (simp add: plain_line_def plain_def w special_def LMAX_def)
  from myshell_session [OF this, of kind_world "boot Map.empty ''/''" "''ex''" "''x''"] show ?thesis
    by (simp add: kind_world_def boot_def w plain_events_def execvp_def)
qed

section \<open>Pipes and stale arguments\<close>

lemma find_first: "\<not> list_ex P xs \<Longrightarrow> P x \<Longrightarrow> find P (xs @ x # ys) = Some x"
  by (induction xs) auto

lemma dup_lowest:
  assumes "t n = Some f" "free_fd t = Some k"
  shows "dup n t = t(k \<mapsto> f)"
  using assms by (simp add: dup_def open_fd_def)

lemma free_closed: "k < 2 \<Longrightarrow> t 0 \<noteq> None \<or> k = 0 \<Longrightarrow> free_fd (close_fd k t) = Some k"
  by (rule free_fd_least) (auto simp: OPEN_MAX_def close_fd_def less_Suc_eq numeral_2_eq_2)

lemma extract_args:
  assumes "args s = pre @ x0 # post" "x0 \<notin> set pre"
  shows "args (extractCommand x0 s) = pre"
    "args2 (extractCommand x0 s) = post @ drop (length post) (args2 s)"
    "nforks (extractCommand x0 s) = nforks s"
proof -
  let ?P = "\<lambda>p. cstr (line s) p \<noteq> x0"
  have t: "map (cstr (line s)) (takeWhile ?P (argv s)) = takeWhile (\<lambda>y. y \<noteq> x0) (args s)"
    by (simp add: args_def takeWhile_map comp_def)
  also have "\<dots> = pre" using assms by (auto simp: takeWhile_append_if)
  finally have m: "map (cstr (line s)) (takeWhile ?P (argv s)) = pre" .
  then have l: "length (takeWhile ?P (argv s)) = length pre" by (metis length_map)
  have d: "map (cstr (line s)) (drop (length pre + 1) (argv s)) = post"
    using assms(1) by (simp add: args_def flip: drop_map)
  then have ld: "length (drop (length pre + 1) (argv s)) = length post" by (metis length_map)
  have "length (argv s) = length (args s)" by (simp add: args_def)
  then have ne: "length pre \<noteq> length (argv s)" using assms(1) by simp
  have e: "extractCommand x0 s = s\<lparr>argv := takeWhile ?P (argv s),
      argv2 := drop (length pre + 1) (argv s) @ drop (length post) (argv2 s)\<rparr>"
    using ne ld unfolding extractCommand_def l by (simp add: Let_def l)
  show "args (extractCommand x0 s) = pre" "args2 (extractCommand x0 s) = post @ drop (length post) (args2 s)"
    "nforks (extractCommand x0 s) = nforks s"
    using m d unfolding e by (simp_all add: args_def args2_def drop_map)
qed

text \<open>
  A command with one \<open>|\<close> starts two programs, joined by a pipe: the first has the words before the symbol as arguments and
  the pipe as standard output, the second reads the pipe. Its arguments are the words behind the symbol, followed by
  whatever an earlier redirection has left further back in \<open>argv2\<close>: pointers into the line buffer, which now holds another line.
\<close>

theorem myshell_pipe:
  assumes "args s = pre @ ''|'' # post" "\<not> list_ex special pre" "pre \<noteq> []" "post \<noteq> []"
    "hd pre \<notin> {''exit'', ''export'', ''unset'', ''cd''}" "CHR ''='' \<notin> set (hd pre)"
    "mw_fork w (nforks s)" "mw_fork2 w (nforks s)" "\<And>as. mw_exec w as" "mw_fds w 0 \<noteq> None" "mw_fds w 1 \<noteq> None"
    "mk_pipe 0 (mw_fds w) = Some (t, r, wr)"
  shows "\<exists>t1 t2. run_line w s =
      Go (say [Starts [P_exec pre t1, P_exec (post @ drop (length post) (args2 s)) t2], Waits] (fork s)) \<and>
    t1 0 = mw_fds w 0 \<and> t1 1 = Some (Pipe_w 0) \<and> t2 0 = Some (Pipe_r 0) \<and> t2 1 = mw_fds w 1 \<and> t1 r = None \<and> t2 wr = None"
proof -
  have n: "''|'' \<notin> set pre" using assms(2) by (auto simp: list_ex_iff special_def)
  note x = extract_args [OF assms(1) n]
  have "find special (args s) = Some ''|''"
    using find_first [of special pre "''|''" post] assms(1,2) by (simp add: special_def)
  then have "stringCompare s = CHR ''|''" by (simp add: stringCompare_def)
  moreover obtain c cs where "pre = c # cs" using assms(3) by (cases pre) auto
  ultimately have run: "run_line w s = process 2 w s" using assms(1,5,6) by (simp add: run_line_def)
  from assms(12) have t: "t = (mw_fds w)(r \<mapsto> Pipe_r 0, wr \<mapsto> Pipe_w 0)" "mw_fds w r = None" "mw_fds w wr = None" "r \<noteq> wr"
    by (auto simp: mk_pipe_def dest!: free_fd_SomeD split: option.splits if_splits)
  with assms(10,11) have d: "r \<noteq> 0" "r \<noteq> 1" "wr \<noteq> 0" "wr \<noteq> 1" by metis+
  let ?t1 = "close_fd r (dup wr (close_fd 1 t))" and ?t2 = "close_fd wr (dup r (close_fd 0 t))"
  have "close_fd 1 t wr = Some (Pipe_w 0)" "close_fd 0 t r = Some (Pipe_r 0)" "t 0 \<noteq> None"
    using t(1,4) d assms(10) by (auto simp: close_fd_def)
  then have "dup wr (close_fd 1 t) = (close_fd 1 t)(1 \<mapsto> Pipe_w 0)" "dup r (close_fd 0 t) = (close_fd 0 t)(0 \<mapsto> Pipe_r 0)"
    using free_closed [of 1 t] free_closed [of 0 t] by (simp_all add: dup_lowest)
  then have fd: "?t1 0 = mw_fds w 0 \<and> ?t1 1 = Some (Pipe_w 0) \<and> ?t2 0 = Some (Pipe_r 0) \<and> ?t2 1 = mw_fds w 1 \<and>
    ?t1 r = None \<and> ?t2 wr = None"
    using t d by (simp add: close_fd_def)
  have "piping w s = [P_exec pre ?t1, P_exec (post @ drop (length post) (args2 s)) ?t2]"
    using assms(3,4,8,9,12) x by (simp add: piping_def Let_def execvp_def)
  with run assms(7) fd show ?thesis by (auto simp: process_def)
qed

text \<open>After \<open>ls > out x\<close>, the command \<open>aa | b\<close> runs \<open>b\<close> with the argument \<open>x\<close> of the line before.\<close>

definition stale_shell :: "myshell option" where
  "stale_shell =
     (case readLine (''ls > out x'' @ NL # ''aa | b'' @ [NL]) (boot Map.empty ''/'') of
        Some (Go s, inp) \<Rightarrow>
          (case outRedirection kind_world s of
             Go s \<Rightarrow> (case readLine inp s of Some (Go s, _) \<Rightarrow> Some s | _ \<Rightarrow> None)
           | _ \<Rightarrow> None)
      | _ \<Rightarrow> None)"

lemma stale_shell_args:
  "map_option (\<lambda>s. (args s, args2 s, nforks s)) stale_shell = Some ([''aa'', ''|'', ''b''], [''b'', ''x''], 1)"
  by code_simp

theorem myshell_pipe_witness:
  "\<exists>s t1 t2. stale_shell = Some s \<and>
    run_line kind_world s = Go (say [Starts [P_exec [''aa''] t1, P_exec [''b'', ''x''] t2], Waits] (fork s)) \<and>
    t1 1 = Some (Pipe_w 0) \<and> t2 0 = Some (Pipe_r 0)"
proof -
  obtain s where s: "stale_shell = Some s" "args s = [''aa''] @ ''|'' # [''b'']" "args2 s = [''b'', ''x'']"
    using stale_shell_args by auto
  have "free_fd [0 \<mapsto> Term, 1 \<mapsto> Term, 2 \<mapsto> Term] = Some 3"
    "free_fd [0 \<mapsto> Term, 1 \<mapsto> Term, 2 \<mapsto> Term, 3 \<mapsto> Pipe_r 0] = Some 4"
    by (auto intro!: free_fd_least simp: OPEN_MAX_def numeral_eq_Suc less_Suc_eq)
  then have "mk_pipe 0 (mw_fds kind_world) = Some ((mw_fds kind_world)(3 \<mapsto> Pipe_r 0, 4 \<mapsto> Pipe_w 0), 3, 4)"
    by (simp add: mk_pipe_def kind_world_def del: One_nat_def)
  from myshell_pipe [OF s(2) _ _ _ _ _ _ _ _ _ _ this] s(1,3) show ?thesis
    by (auto simp: special_def kind_world_def)
qed

section \<open>Assignments and directories\<close>

text \<open>
  An assignment with an empty value hands a null pointer to \<open>setenv\<close>. And a change to the home directory that fails still
  sets \<open>PWD\<close> to it.
\<close>

theorem myshell_empty_assignment:
  "(case readLine (''A='' @ [NL]) (boot Map.empty ''/'') of
      Some (Go s, _) \<Rightarrow> (case run_line kind_world s of Crash \<Rightarrow> True | _ \<Rightarrow> False) | _ \<Rightarrow> False)"
  by code_simp

theorem myshell_cd_failed:
  assumes "args s = [''cd'']" "vars s ''PWD'' = Some old" "vars s ''HOME'' = Some h" "mw_chdir w (cwd s) h = None" "mw_mem w"
  shows "\<exists>s'. run_line w s = Go s' \<and> cwd s' = cwd s \<and> vars s' ''PWD'' = Some h \<and> vars s' ''OLDPWD'' = Some old"
proof -
  have a: "args (s\<lparr>vars := e\<rparr>) = args s" for e by (simp add: args_def)
  show ?thesis using assms
    by (simp add: run_line_def changeDirectory_def Let_def chdir_to_def set_var_def say_def a)
qed

end
