(* ===== verification/PittShell.thy ===== *)
theory PittShell
  imports CString "HOL-Library.Multiset"
begin

text \<open>
  The shell in \<open>src/2/myshell_cs_pitt_edu.c\<close>: background commands, redirection of input and output, and a handler for the
  signal that a child has ended, which itself calls \<open>wait\<close>. The arrays of arguments come from \<open>getline\<close>, which is not part of
  the repository. Since the handler and the main program compete for the ended children, the shell is a step function over a
  program counter, with the ends of children and the signals as steps of their own.
\<close>

section \<open>Arguments\<close>

text \<open>An array of pointers: \<open>None\<close> is the null pointer. Its arguments are those before the first null pointer.\<close>

type_synonym parray = "string option list"

definition cargs :: "parray \<Rightarrow> string list" where
  "cargs a = map the (takeWhile (\<lambda>x. x \<noteq> None) a)"

definition array_of :: "string list \<Rightarrow> parray" where
  "array_of ws = map Some ws @ [None]"

definition starts :: "char \<Rightarrow> string \<Rightarrow> bool" where
  "starts c x \<longleftrightarrow> x \<noteq> [] \<and> hd x = c"

text \<open>The last argument is cut off when it begins with an ampersand.\<close>

definition ampersand :: "parray \<Rightarrow> parray \<times> bool" where
  "ampersand a =
     (let n = length (cargs a)
      in if 0 < n \<and> starts (CHR ''&'') (cargs a ! (n - 1)) then (a[n - 1 := None], True) else (a, False))"

text \<open>The loop that moves the arguments behind a redirection to the front, beginning with the test of \<open>args[j-1]\<close>.\<close>

function shift_args :: "nat \<Rightarrow> parray \<Rightarrow> parray sh" where
  "shift_args j a =
     (if j = 0 \<or> length a \<le> j - 1 then Crash
      else if a ! (j - 1) = None then Go a
      else if length a \<le> j + 2 then Crash
      else shift_args (j + 1) (a[j := a ! (j + 2)]))"
  by pat_completeness auto
termination
  by (relation "measure (\<lambda>(j, a). length a - j)") auto

declare shift_args.simps [simp del]

datatype redir = R_none | R_file string | R_error

definition redirect :: "char \<Rightarrow> parray \<Rightarrow> (parray \<times> redir) sh" where
  "redirect c a =
     (let ws = cargs a; i = length (takeWhile (\<lambda>x. \<not> starts c x) ws) in
      if i = length ws then Go (a, R_none)
      else if length ws \<le> i + 1 then Go (a, R_error)
      else sbind (shift_args i a) (\<lambda>a. Go (a, R_file (ws ! (i + 1)))))"

definition redirect_input :: "parray \<Rightarrow> (parray \<times> redir) sh" where
  "redirect_input a = redirect (CHR ''<'') a"

definition redirect_output :: "parray \<Rightarrow> (parray \<times> redir) sh" where
  "redirect_output a = redirect (CHR ''>'') a"

section \<open>Processes\<close>

text \<open>
  Where the shell is: before its prompt, before or inside \<open>waitpid\<close>, inside the handler (with the place it returns to),
  ended, or crashed. Children run, have ended and wait to be collected, or have been collected. \<open>pend\<close>: a
  \<open>SIGCHLD\<close> is pending.
\<close>

datatype ppc = Prompt | Called int | Waiting int | Handler ppc | Gone | Died

datatype stream = Inherited | File string | Closed

datatype pchild = PC_exec "string list" stream stream | PC_exit | PC_crash

record pitt =
  pc :: ppc
  running :: "int list"
  zombies :: "int list"
  reaped :: "int list"
  started :: "(int \<times> pchild) list"
  pend :: bool
  shown :: "string list"

record pworld =
  pw_read :: "string \<Rightarrow> bool"
  pw_write :: "string \<Rightarrow> bool"
  pw_exec :: "string list \<Rightarrow> bool"

definition print :: "string \<Rightarrow> pitt \<Rightarrow> pitt" where
  "print x s = s\<lparr>shown := shown s @ [x]\<rparr>"

text \<open>\<open>freopen\<close> closes the stream when the file cannot be opened.\<close>

definition freopen :: "(string \<Rightarrow> bool) \<Rightarrow> redir \<Rightarrow> stream" where
  "freopen ok r = (case r of R_file f \<Rightarrow> if ok f then File f else Closed | _ \<Rightarrow> Inherited)"

definition command_child :: "pworld \<Rightarrow> string list \<Rightarrow> redir \<Rightarrow> redir \<Rightarrow> pchild" where
  "command_child w ws inp out =
     (if ws = [] then PC_crash
      else if pw_exec w ws then PC_exec ws (freopen (pw_read w) inp) (freopen (pw_write w) out)
      else PC_exit)"

text \<open>
  \<open>pid\<close> is what \<open>fork\<close> returned. The code compares it with error numbers, which \<open>fork\<close> never returns: a child whose number is
  11 or 12 is taken for an error and not waited for, and -1 is taken for a child.
\<close>

definition do_command :: "pworld \<Rightarrow> string list \<Rightarrow> bool \<Rightarrow> redir \<Rightarrow> redir \<Rightarrow> int \<Rightarrow> pitt \<Rightarrow> pitt" where
  "do_command w ws block inp out pid s =
     (let s = (if 0 < pid then s\<lparr>running := pid # running s, started := (pid, command_child w ws inp out) # started s\<rparr> else s)
      in if pid = EAGAIN then print ''Error EAGAIN: '' s
         else if pid = ENOMEM then print ''Error ENOMEM: '' s
         else if block then print (''Waiting for child, pid = '' @ dec pid @ [NL]) (s\<lparr>pc := Called pid\<rparr>)
         else s)"

definition internal_command :: "parray \<Rightarrow> bool sh" where
  "internal_command a = (if hd (cargs a) = ''exit'' then Exit 0 else Go False)"

text \<open>One round of the main loop, after \<open>getline\<close> has returned the array.\<close>

definition main_round :: "pworld \<Rightarrow> parray \<Rightarrow> int \<Rightarrow> pitt \<Rightarrow> pitt sh" where
  "main_round w a pid s =
     (let s = print ''->'' s in
      if cargs a = [] then Go s
      else sbind (internal_command a) (\<lambda>more.
        if more then Go s
        else
          (let (a, bg) = ampersand a in
           sbind (redirect_input a) (\<lambda>(a, inp).
             if inp = R_error then Go (print (''Syntax error!'' @ [NL]) s)
             else
               (let s = (case inp of R_file f \<Rightarrow> print (''Redirecting input from: '' @ f @ [NL]) s | _ \<Rightarrow> s) in
                sbind (redirect_output a) (\<lambda>(a, out).
                  if out = R_error then Go (print (''Syntax error!'' @ [NL]) s)
                  else
                    (let s = (case out of R_file f \<Rightarrow> print (''Redirecting output to: '' @ f @ [NL]) s | _ \<Rightarrow> s)
                     in Go (do_command w (cargs a) (\<not> bg) inp out pid s))))))))"

section \<open>Steps\<close>

text \<open>
  The kernel delivers a pending signal before the program goes on, so the steps of the program need that none is pending; the
  signal is blocked while its handler runs. \<open>waitpid\<close> looks for the child before it looks for signals; when a signal
  arrives while it sleeps, it fails, since \<open>sigset\<close> does not ask for a restart.
\<close>

definition collect :: "int \<Rightarrow> pitt \<Rightarrow> pitt" where
  "collect p s = s\<lparr>zombies := remove1 p (zombies s), reaped := p # reaped s\<rparr>"

definition wait_target :: "int \<Rightarrow> pitt \<Rightarrow> int option" where
  "wait_target p s =
     (if p = - 1 then (case zombies s of [] \<Rightarrow> None | q # _ \<Rightarrow> Some q)
      else if p \<in> set (zombies s) then Some p else None)"

definition has_child :: "int \<Rightarrow> pitt \<Rightarrow> bool" where
  "has_child p s \<longleftrightarrow> (if p = - 1 then running s \<noteq> [] \<or> zombies s \<noteq> [] else p \<in> set (running s @ zombies s))"

text \<open>The handler: \<open>wait\<close> collects any child that has ended, fails when there is no child, and sleeps otherwise.\<close>

definition sig_handler :: "pitt \<Rightarrow> pitt option" where
  "sig_handler s =
     (case pc s of
        Handler k \<Rightarrow>
          (case wait_target (- 1) s of
             Some q \<Rightarrow> Some ((print (''Wait returned '' @ dec q @ [NL]) (collect q s))\<lparr>pc := k\<rparr>)
           | None \<Rightarrow>
               if has_child (- 1) s then None
               else Some ((print (''Wait returned '' @ dec (- 1) @ [NL]) s)\<lparr>pc := k\<rparr>))
      | _ \<Rightarrow> None)"

datatype paction = PA_line parray int | PA_waitpid | PA_wait | PA_signal | PA_handler | PA_end int

definition fork_result :: "int \<Rightarrow> pitt \<Rightarrow> bool" where
  "fork_result pid s \<longleftrightarrow> pid = - 1 \<or> 0 < pid \<and> pid \<notin> set (running s @ zombies s)"

fun pitt_exec :: "pworld \<Rightarrow> paction \<Rightarrow> pitt \<Rightarrow> pitt option" where
  "pitt_exec w (PA_line a pid) s =
     (if pc s = Prompt \<and> \<not> pend s \<and> fork_result pid s then
        (case main_round w a pid s of
           Go s' \<Rightarrow> Some s'
         | Exit n \<Rightarrow> Some (s\<lparr>pc := Gone\<rparr>)
         | Crash \<Rightarrow> Some (s\<lparr>pc := Died\<rparr>))
      else None)"
| "pitt_exec w PA_waitpid s =
     (case pc s of Called p \<Rightarrow> if pend s then None else Some (s\<lparr>pc := Waiting p\<rparr>) | _ \<Rightarrow> None)"
| "pitt_exec w PA_wait s =
     (case pc s of
        Waiting p \<Rightarrow>
          (case wait_target p s of
             Some q \<Rightarrow> Some ((collect q s)\<lparr>pc := Prompt\<rparr>)
           | None \<Rightarrow> if has_child p s then None else Some (s\<lparr>pc := Prompt\<rparr>))
      | _ \<Rightarrow> None)"
| "pitt_exec w PA_signal s =
     (if \<not> pend s then None
      else (case pc s of
              Prompt \<Rightarrow> Some (s\<lparr>pend := False, pc := Handler Prompt\<rparr>)
            | Called p \<Rightarrow> Some (s\<lparr>pend := False, pc := Handler (Called p)\<rparr>)
            | Waiting p \<Rightarrow>
                if wait_target p s = None then Some (s\<lparr>pend := False, pc := Handler Prompt\<rparr>) else None
            | _ \<Rightarrow> None))"
| "pitt_exec w PA_handler s = sig_handler s"
| "pitt_exec w (PA_end p) s =
     (if p \<in> set (running s) \<and> pc s \<noteq> Gone \<and> pc s \<noteq> Died then
        Some (s\<lparr>running := remove1 p (running s), zombies := zombies s @ [p], pend := True\<rparr>)
      else None)"

definition init_pitt :: pitt where
  "init_pitt = \<lparr>pc = Prompt, running = [], zombies = [], reaped = [], started = [], pend = False, shown = []\<rparr>"

inductive pitt_run :: "pworld \<Rightarrow> (paction \<Rightarrow> bool) \<Rightarrow> pitt \<Rightarrow> bool"
  for w :: pworld and allowed :: "paction \<Rightarrow> bool" where
  pitt_start: "pitt_run w allowed init_pitt"
| pitt_next: "pitt_run w allowed s \<Longrightarrow> allowed a \<Longrightarrow> pitt_exec w a s = Some t \<Longrightarrow> pitt_run w allowed t"

fun pitt_execs :: "pworld \<Rightarrow> paction list \<Rightarrow> pitt \<Rightarrow> pitt option" where
  "pitt_execs w [] s = Some s"
| "pitt_execs w (a # as) s = (case pitt_exec w a s of None \<Rightarrow> None | Some t \<Rightarrow> pitt_execs w as t)"

section \<open>Redirections\<close>

lemma map_Some_the: "None \<notin> set xs \<Longrightarrow> map Some (map the xs) = xs"
  by (induction xs) auto

lemma array_form:
  assumes "None \<in> set a"
  obtains r where "a = map Some (cargs a) @ None # r"
proof -
  have "map Some (map the (takeWhile (\<lambda>x. x \<noteq> None) a)) = takeWhile (\<lambda>x. x \<noteq> None) a"
    by (rule map_Some_the) (auto dest: set_takeWhileD)
  moreover obtain x r where "dropWhile (\<lambda>x. x \<noteq> None) a = x # r"
    using assms by (cases "dropWhile (\<lambda>x. x \<noteq> None) a") (auto simp: dropWhile_eq_Nil_conv)
  moreover from this have "x = None" using hd_dropWhile [of "\<lambda>x. x \<noteq> None" a] by simp
  ultimately show thesis using that [of r] takeWhile_dropWhile_id [of "\<lambda>x. x \<noteq> None" a] by (simp add: cargs_def)
qed

lemma cargs_array: "cargs (map Some ws @ None # r) = ws"
  by (induction ws) (auto simp: cargs_def)

lemma shift_args_moves:
  assumes "p \<noteq> []"
  shows "\<exists>r'. shift_args (length p) (map Some p @ x # y # map Some q @ None # r) = Go (map Some (p @ q) @ None # r')"
  using assms
proof (induction q arbitrary: p x y)
  case Nil
  let ?a = "map Some p @ x # y # None # r"
  have 1: "?a ! (length p - 1) \<noteq> None" "?a ! (length p + 2) = None" "?a[length p := None] = map Some p @ None # y # None # r"
    using Nil by (simp_all add: nth_append list_update_append)
  have "shift_args (length p + 1) (map Some p @ None # y # None # r) = Go (map Some p @ None # y # None # r)"
    by (subst shift_args.simps) (simp add: nth_append)
  with 1 Nil show ?case by (subst shift_args.simps) auto
next
  case (Cons z q)
  let ?a = "map Some p @ x # y # Some z # map Some q @ None # r"
  have 1: "?a ! (length p - 1) \<noteq> None" "?a ! (length p + 2) = Some z"
    "?a[length p := Some z] = map Some (p @ [z]) @ y # Some z # map Some q @ None # r"
    using Cons.prems by (simp_all add: nth_append list_update_append)
  with Cons.prems have "shift_args (length p) ?a = shift_args (length (p @ [z])) (map Some (p @ [z]) @ y # Some z # map Some q @ None # r)"
    by (subst shift_args.simps) auto
  with Cons.IH [of "p @ [z]" y "Some z"] show ?case by simp
qed

text \<open>
  A redirection with a file name, behind at least one other argument, is recognised and removed from the arguments together
  with the name; the loop that moves the remaining arguments ends within the array. A redirection as the first
  argument makes that loop read the pointer in front of the array.
\<close>

theorem pitt_redirect:
  assumes "None \<in> set a" "cargs a = pre @ op # f # post" "\<forall>x \<in> set pre. \<not> starts c x" "starts c op"
  shows "if pre = [] then redirect c a = Crash
    else \<exists>b. redirect c a = Go (b, R_file f) \<and> cargs b = pre @ post \<and> None \<in> set b"
proof -
  obtain r where "a = map Some (cargs a) @ None # r" using array_form [OF assms(1)] .
  then have a: "a = map Some pre @ Some op # Some f # map Some post @ None # r" using assms(2) by simp
  have "takeWhile (\<lambda>x. \<not> starts c x) (cargs a) = pre" using assms(2-4) by (simp add: takeWhile_append_if)
  then have re: "redirect c a = sbind (shift_args (length pre) a) (\<lambda>a. Go (a, R_file f))"
    using assms(2) by (simp add: redirect_def Let_def nth_append)
  show ?thesis
  proof (cases "pre = []")
    case True
    then show ?thesis using re by (simp add: shift_args.simps [of 0])
  next
    case False
    from shift_args_moves [OF this, of "Some op" "Some f" post r] obtain r' where
      "shift_args (length pre) a = Go (map Some (pre @ post) @ None # r')" unfolding a by blast
    with re False cargs_array [of "pre @ post" r'] show ?thesis by auto
  qed
qed

theorem pitt_redirect_witness:
  "\<exists>b. redirect_input (array_of [''sort'', ''<'', ''names'', ''-r'']) = Go (b, R_file ''names'') \<and>
    cargs b = [''sort'', ''-r''] \<and> None \<in> set b"
  using pitt_redirect [of "array_of [''sort'', ''<'', ''names'', ''-r'']" "[''sort'']" "''<''" "''names''" "[''-r'']" "CHR ''<''"]
  by (simp add: redirect_input_def array_of_def cargs_def starts_def)

section \<open>Children\<close>

definition prints_only :: "pitt \<Rightarrow> pitt \<Rightarrow> bool" where
  "prints_only s t \<longleftrightarrow> (\<exists>x. t = s\<lparr>shown := x\<rparr>)"

lemma prints_only_print: "prints_only s t \<Longrightarrow> prints_only s (print x t)"
  by (auto simp: prints_only_def print_def)

lemma prints_only_refl: "prints_only s s"
  unfolding prints_only_def by (rule exI [of _ "shown s"]) simp

lemma prints_only_redir: "prints_only s t \<Longrightarrow> prints_only s (case r of R_file f \<Rightarrow> print (g f) t | _ \<Rightarrow> t)"
  by (cases r) (auto simp: prints_only_print)

text \<open>A round of the main loop that neither ends nor crashes the shell prints, and runs at most one command.\<close>

lemma main_round_cases:
  assumes "main_round w a pid s = Go s'"
  obtains (same) "prints_only s s'"
  | (command) t ws inp out where "prints_only s t" "s' = do_command w ws (\<not> snd (ampersand a)) inp out pid t"
proof -
  obtain a1 bg where amp: "ampersand a = (a1, bg)" by fastforce
  let ?t = "print ''->'' s"
  have t: "prints_only s ?t" by (intro prints_only_print prints_only_refl)
  show thesis
  proof (cases "cargs a = []")
    case True
    then show thesis using assms t same by (simp add: main_round_def)
  next
    case False
    with assms amp obtain a2 inp where i: "redirect_input a1 = Go (a2, inp)"
      by (auto simp: main_round_def internal_command_def sbind_eq_Go Let_def split: if_splits)
    let ?t1 = "case inp of R_file f \<Rightarrow> print (''Redirecting input from: '' @ f @ [NL]) ?t | _ \<Rightarrow> ?t"
    have t1: "prints_only s ?t1" using t by (rule prints_only_redir)
    show thesis
    proof (cases "inp = R_error")
      case True
      with assms amp False i have "s' = print (''Syntax error!'' @ [NL]) ?t"
        by (auto simp: main_round_def internal_command_def split: if_splits)
      then show thesis using prints_only_print [OF t] same by blast
    next
      case ni: False
      with assms amp False i obtain a3 out where o1: "redirect_output a2 = Go (a3, out)"
        "(if out = R_error then Go (print (''Syntax error!'' @ [NL]) ?t1)
          else Go (do_command w (cargs a3) (\<not> bg) inp out pid
            (case out of R_file f \<Rightarrow> print (''Redirecting output to: '' @ f @ [NL]) ?t1 | _ \<Rightarrow> ?t1))) = Go s'"
        by (auto simp: main_round_def internal_command_def sbind_eq_Go Let_def split: if_splits)
      show thesis
      proof (cases "out = R_error")
        case True
        with o1 have "s' = print (''Syntax error!'' @ [NL]) ?t1" by simp
        then show thesis using prints_only_print [OF t1] same by blast
      next
        case False
        with o1(2) amp have "s' = do_command w (cargs a3) (\<not> snd (ampersand a)) inp out pid
            (case out of R_file f \<Rightarrow> print (''Redirecting output to: '' @ f @ [NL]) ?t1 | _ \<Rightarrow> ?t1)" by simp
        then show thesis by (rule command [OF prints_only_redir [OF t1]])
      qed
    qed
  qed
qed

lemma do_command_fields:
  "zombies (do_command w ws b inp out pid s) = zombies s" "reaped (do_command w ws b inp out pid s) = reaped s"
  "pend (do_command w ws b inp out pid s) = pend s"
  "running (do_command w ws b inp out pid s) = (if 0 < pid then [pid] else []) @ running s"
  "map fst (started (do_command w ws b inp out pid s)) = (if 0 < pid then [pid] else []) @ map fst (started s)"
  "pc (do_command w ws b inp out pid s) = (if b \<and> pid \<noteq> EAGAIN \<and> pid \<noteq> ENOMEM then Called pid else pc s)"
  by (simp_all add: do_command_def Let_def print_def)

definition conserved :: "pitt \<Rightarrow> bool" where
  "conserved s \<longleftrightarrow> mset (map fst (started s)) = mset (running s) + mset (zombies s) + mset (reaped s)"

lemma conserved_collect: "conserved s \<Longrightarrow> q \<in> set (zombies s) \<Longrightarrow> conserved (collect q s)"
  by (auto simp: conserved_def collect_def multiset_eq_iff)

lemma wait_target_zombie: "wait_target p s = Some q \<Longrightarrow> q \<in> set (zombies s)"
  by (auto simp: wait_target_def split: if_splits list.splits)

lemma print_fields:
  "zombies (print x s) = zombies s" "reaped (print x s) = reaped s" "pend (print x s) = pend s" "pc (print x s) = pc s"
  "running (print x s) = running s" "started (print x s) = started s"
  by (simp_all add: print_def)

lemma conserved_fields:
  "conserved (s\<lparr>pc := k\<rparr>) = conserved s" "conserved (s\<lparr>pend := b\<rparr>) = conserved s" "conserved (print x s) = conserved s"
  by (simp_all add: conserved_def print_def)

text \<open>What a line does to the children and to the place of the program.\<close>

lemma line_step:
  assumes "pitt_exec w (PA_line a pid) s = Some t"
  shows "pc s = Prompt \<and> \<not> pend s \<and> fork_result pid s \<and> zombies t = zombies s \<and> reaped t = reaped s \<and> pend t = pend s \<and>
    (running t = running s \<and> map fst (started t) = map fst (started s) \<and> pc t \<in> {Prompt, Gone, Died} \<or>
     running t = (if 0 < pid then [pid] else []) @ running s \<and>
     map fst (started t) = (if 0 < pid then [pid] else []) @ map fst (started s) \<and>
     pc t = (if \<not> snd (ampersand a) \<and> pid \<noteq> EAGAIN \<and> pid \<noteq> ENOMEM then Called pid else Prompt))"
proof (cases "main_round w a pid s")
  case (Go s')
  with assms have g: "pc s = Prompt" "\<not> pend s" "fork_result pid s" "t = s'" by (auto split: if_splits)
  from Go show ?thesis
  proof (cases rule: main_round_cases)
    case same
    with g show ?thesis by (auto simp: prints_only_def)
  next
    case (command t' ws inp out)
    from command(1) have "pc t' = pc s" "zombies t' = zombies s" "reaped t' = reaped s" "pend t' = pend s"
      "running t' = running s" "started t' = started s" by (auto simp: prints_only_def)
    with g command(2) show ?thesis by (simp add: do_command_fields)
  qed
qed (use assms in \<open>auto split: if_splits\<close>)

lemma conserved_step:
  assumes "conserved s" "pitt_exec w a s = Some t"
  shows "conserved t"
proof (cases a)
  case (PA_line x pid)
  from line_step [OF assms(2) [unfolded PA_line]] assms(1) show ?thesis
    by (auto simp: conserved_def simp del: mset_map)
next
  case PA_wait
  with assms(2) obtain p where "pc s = Waiting p" by (cases "pc s") auto
  with PA_wait assms conserved_collect [OF assms(1) wait_target_zombie, of p] show ?thesis
    by (auto simp: conserved_fields split: option.splits if_splits)
next
  case PA_handler
  with assms(2) obtain k where "pc s = Handler k" by (cases "pc s") (auto simp: sig_handler_def)
  with PA_handler assms conserved_collect [OF assms(1) wait_target_zombie, of "- 1"] show ?thesis
    by (auto simp: conserved_fields sig_handler_def split: option.splits if_splits)
next
  case (PA_end p)
  with assms show ?thesis by (auto simp: conserved_def multiset_eq_iff split: if_splits)
qed (use assms in \<open>auto simp: conserved_def split: ppc.splits if_splits\<close>)

text \<open>
  No child is lost or counted twice: in every state the shell can reach, each child it has started is running,
  has ended and waits to be collected, or was collected once, by \<open>waitpid\<close> or by the handler.
\<close>

theorem pitt_children_conserved:
  assumes "pitt_run w allowed s"
  shows "mset (map fst (started s)) = mset (running s) + mset (zombies s) + mset (reaped s)"
proof -
  from assms have "conserved s"
  proof induction
    case pitt_start
    then show ?case by (simp add: conserved_def init_pitt_def)
  qed (rule conserved_step)
  then show ?thesis by (simp add: conserved_def)
qed

section \<open>Waiting for commands\<close>

text \<open>Runs in which every line is in the foreground, and every fork succeeds with a number the code takes for a child (not 11, \<open>EAGAIN\<close>,
  and not 12, \<open>ENOMEM\<close>).\<close>

definition foreground :: "paction \<Rightarrow> bool" where
  "foreground a \<longleftrightarrow> (case a of PA_line x pid \<Rightarrow> \<not> snd (ampersand x) \<and> 0 < pid \<and> pid \<noteq> EAGAIN \<and> pid \<noteq> ENOMEM | _ \<Rightarrow> True)"

fun fg_ok :: "ppc \<Rightarrow> int list \<Rightarrow> int list \<Rightarrow> bool \<Rightarrow> bool" where
  "fg_ok (Called p) r z b \<longleftrightarrow> r = [p] \<and> z = [] \<and> \<not> b \<or> r = [] \<and> z = [p] \<and> b \<or> r = [] \<and> z = []"
| "fg_ok (Waiting p) r z b \<longleftrightarrow> r = [p] \<and> z = [] \<and> \<not> b \<or> r = [] \<and> z = [p] \<or> r = [] \<and> z = []"
| "fg_ok (Handler k) r z b \<longleftrightarrow>
     (case k of Prompt \<Rightarrow> r = [] \<and> z = [] | Called p \<Rightarrow> r = [] \<and> (z = [] \<or> z = [p]) \<and> \<not> b | _ \<Rightarrow> False)"
| "fg_ok Prompt r z b \<longleftrightarrow> r = [] \<and> z = []"
| "fg_ok Gone r z b \<longleftrightarrow> True"
| "fg_ok Died r z b \<longleftrightarrow> True"

definition fg_inv :: "pitt \<Rightarrow> bool" where
  "fg_inv s \<longleftrightarrow> fg_ok (pc s) (running s) (zombies s) (pend s) \<and> (\<forall>p. pc s = Waiting p \<or> pc s = Called p \<or> pc s = Handler (Called p) \<longrightarrow> 0 < p)"

lemma fg_step:
  assumes "fg_inv s" "foreground a" "pitt_exec w a s = Some t"
  shows "fg_inv t"
proof (cases a)
  case (PA_line x pid)
  with assms(2) have "\<not> snd (ampersand x)" "0 < pid" "pid \<noteq> EAGAIN" "pid \<noteq> ENOMEM" by (simp_all add: foreground_def)
  with line_step [OF assms(3) [unfolded PA_line]] assms(1) show ?thesis by (auto simp: fg_inv_def)
next
  case PA_wait
  with assms show ?thesis
    by (auto simp: fg_inv_def wait_target_def has_child_def collect_def split: ppc.splits option.splits if_splits)
next
  case PA_handler
  with assms show ?thesis
    by (auto simp: fg_inv_def sig_handler_def wait_target_def has_child_def collect_def print_fields
      split: ppc.splits option.splits if_splits list.splits)
next
  case PA_signal
  with assms show ?thesis
    by (auto simp: fg_inv_def wait_target_def split: ppc.splits if_splits)
next
  case (PA_end p)
  with assms(3) have t: "p \<in> set (running s)" "pc s \<noteq> Gone" "pc s \<noteq> Died"
    "t = s\<lparr>running := remove1 p (running s), zombies := zombies s @ [p], pend := True\<rparr>" by (auto split: if_splits)
  with assms(1) have "running s = [p] \<and> zombies s = [] \<and> (pc s = Called p \<or> pc s = Waiting p)"
    by (cases "pc s") (auto simp: fg_inv_def split: ppc.splits)
  with assms(1) t(4) show ?thesis by (auto simp: fg_inv_def)
qed (use assms in \<open>auto simp: fg_inv_def split: ppc.splits if_splits\<close>)

text \<open>
  C19: As long as no command was put into the background, every \<open>fork\<close> has succeeded and no child has got the process number
  11 or 12, the shell shows a prompt only when every command it has started has ended and was collected, in whatever order
  the ends of the children, the signals, \<open>waitpid\<close> and the handler come. The condition on the numbers is needed: the code takes
  11 and 12 for the error numbers \<open>EAGAIN\<close> and \<open>ENOMEM\<close>, so that with such a child a foreground command leaves the shell at its
  prompt while the child runs.
\<close>

theorem pitt_foreground:
  assumes "pitt_run w foreground s" "pc s = Prompt"
  shows "running s = [] \<and> mset (reaped s) = mset (map fst (started s)) \<and>
    (pid \<in> {11, 12} \<longrightarrow> pc (do_command w ws True inp out pid s) = Prompt \<and>
       running (do_command w ws True inp out pid s) = [pid])"
proof -
  have "pid \<in> {11, 12} \<longrightarrow> pc (do_command w ws True inp out pid s) = pc s \<and>
      running (do_command w ws True inp out pid s) = pid # running s"
    by (auto simp: do_command_def print_def EAGAIN_def ENOMEM_def)
  moreover from assms(1) have "conserved s \<and> fg_inv s"
  proof induction
    case pitt_start
    then show ?case by (simp add: conserved_def fg_inv_def init_pitt_def)
  qed (use conserved_step fg_step in blast)
  ultimately show ?thesis using assms(2) by (simp add: conserved_def fg_inv_def)
qed

lemma pitt_execs_run:
  "pitt_run w allowed s \<Longrightarrow> list_all allowed as \<Longrightarrow> pitt_execs w as s = Some t \<Longrightarrow> pitt_run w allowed t"
  by (induction as arbitrary: s) (auto split: option.splits intro: pitt_next)

definition any_world :: pworld where
  "any_world = \<lparr>pw_read = (\<lambda>_. True), pw_write = (\<lambda>_. True), pw_exec = (\<lambda>_. True)\<rparr>"

text \<open>One command in the foreground, collected by \<open>waitpid\<close>; the handler then finds no child.\<close>

definition one_command :: "paction list" where
  "one_command = [PA_line (array_of [''ls'', ''-l'']) 100, PA_waitpid, PA_end 100, PA_wait, PA_signal, PA_handler]"

definition after_one :: pitt where
  "after_one = \<lparr>pc = Prompt, running = [], zombies = [], reaped = [100],
     started = [(100, PC_exec [''ls'', ''-l''] Inherited Inherited)], pend = False,
     shown = [''->'', ''Waiting for child, pid = 100'' @ [NL], ''Wait returned -1'' @ [NL]]\<rparr>"

lemma one_command_runs: "pitt_execs any_world one_command init_pitt = Some after_one"
  by code_simp

lemma one_command_run:
  assumes "list_all allowed one_command"
  shows "pitt_run any_world allowed after_one"
  by (rule pitt_execs_run [OF pitt_start assms one_command_runs])

theorem pitt_children_conserved_witness:
  "mset (map fst (started after_one)) = mset (running after_one) + mset (zombies after_one) + mset (reaped after_one) \<and>
   map fst (started after_one) = [100]"
  using pitt_children_conserved [OF one_command_run [of "\<lambda>_. True"]] by (simp add: one_command_def after_one_def)

theorem pitt_foreground_witness:
  "pc after_one = Prompt \<and> running after_one = [] \<and> mset (reaped after_one) = mset (map fst (started after_one))"
proof -
  have "list_all foreground one_command"
    by (simp add: one_command_def foreground_def ampersand_def array_of_def cargs_def starts_def EAGAIN_def ENOMEM_def)
  from pitt_foreground [OF one_command_run [OF this]] show ?thesis by (fastforce simp: after_one_def)
qed

text \<open>
  With a command in the background the handler misbehaves in both orders. After the foreground command was
  collected by \<open>waitpid\<close>, the handler's \<open>wait\<close> sleeps until the background command ends, and the shell with it. And a background command that
  ends while the shell waits interrupts \<open>waitpid\<close>, so that the prompt appears while the foreground command still runs.
\<close>

definition two_commands :: "paction list" where
  "two_commands = [PA_line (array_of [''sleep'', ''9'', ''&'']) 100, PA_line (array_of [''ls'']) 101, PA_waitpid]"

definition stuck_handler :: pitt where
  "stuck_handler = \<lparr>pc = Handler Prompt, running = [100], zombies = [], reaped = [101],
     started = [(101, PC_exec [''ls''] Inherited Inherited), (100, PC_exec [''sleep'', ''9''] Inherited Inherited)],
     pend = False, shown = [''->'', ''->'', ''Waiting for child, pid = 101'' @ [NL]]\<rparr>"

theorem pitt_handler_blocks:
  "pitt_execs any_world (two_commands @ [PA_end 101, PA_wait, PA_signal]) init_pitt = Some stuck_handler \<and>
   (pitt_exec w a stuck_handler \<noteq> None \<longrightarrow> a = PA_end 100)"
proof
  show "pitt_execs any_world (two_commands @ [PA_end 101, PA_wait, PA_signal]) init_pitt = Some stuck_handler"
    by code_simp
  show "pitt_exec w a stuck_handler \<noteq> None \<longrightarrow> a = PA_end 100"
    by (cases a) (simp_all add: stuck_handler_def sig_handler_def wait_target_def has_child_def)
qed

theorem pitt_wait_interrupted:
  "map_option (\<lambda>s. (pc s, running s)) (pitt_execs any_world (two_commands @ [PA_end 100, PA_signal, PA_handler]) init_pitt) =
    Some (Prompt, [101])"
  by code_simp

end
