(* ===== verification/IntervalTimer.thy ===== *)
theory IntervalTimer
  imports CString
begin

text \<open>
  \<open>src/3/mytimer.c\<close>: a parent and two children compute Fibonacci numbers while three interval timers each
  measure real, virtual and profiling time; and \<open>src/3/fibnocci.c\<close>, the iterative version. The kernel's part is
  what \<open>setitimer\<close> documents: a timer counts down while its clock runs; when it expires, it
  restarts from its interval and a signal is sent. The timers of a process are independent of each other, so a run
  is a sequence of microseconds, each of one of the three clocks.
\<close>

section \<open>Interval timers\<close>

datatype which = ITIMER_REAL | ITIMER_VIRTUAL | ITIMER_PROF

record timeval =
  tv_sec :: int
  tv_usec :: int

record itimerval =
  it_interval :: timeval
  it_value :: timeval

definition usecs :: "timeval \<Rightarrow> int" where
  "usecs t = 1000000 * tv_sec t + tv_usec t"

definition tv_of :: "int \<Rightarrow> timeval" where
  "tv_of u = \<lparr>tv_sec = u div 1000000, tv_usec = u mod 1000000\<rparr>"

text \<open>One microsecond of the timer's clock; the flag says that it expired.\<close>

definition count_down :: "itimerval \<Rightarrow> itimerval \<times> bool" where
  "count_down t =
     (if usecs (it_value t) = 0 then (t, False)
      else if usecs (it_value t) = 1 then (t\<lparr>it_value := it_interval t\<rparr>, True)
      else (t\<lparr>it_value := tv_of (usecs (it_value t) - 1)\<rparr>, False))"

section \<open>A process of the program\<close>

text \<open>
  \<open>secs\<close> stands for \<open>p_real_secs\<close>, \<open>c1_virtual_secs\<close> and so on, each process having its own three; \<open>counts\<close> for
  \<open>count_real\<close>, \<open>count_virt\<close> and \<open>count_prof\<close>; \<open>shown\<close> for the messages of the handlers.
\<close>

record tproc =
  timers :: "which \<Rightarrow> itimerval"
  secs :: "which \<Rightarrow> int"
  counts :: "which \<Rightarrow> int"
  shown :: "(which \<times> int) list"

definition nine :: timeval where
  "nine = \<lparr>tv_sec = 9, tv_usec = 999999\<rparr>"

definition disarmed :: itimerval where
  "disarmed = \<lparr>it_interval = \<lparr>tv_sec = 0, tv_usec = 0\<rparr>, it_value = \<lparr>tv_sec = 0, tv_usec = 0\<rparr>\<rparr>"

definition start_timer :: "which \<Rightarrow> tproc \<Rightarrow> tproc" where
  "start_timer w p = p\<lparr>timers := (timers p)(w := \<lparr>it_interval = nine, it_value = nine\<rparr>)\<rparr>"

definition start_timers :: "tproc \<Rightarrow> tproc" where
  "start_timers p = start_timer ITIMER_PROF (start_timer ITIMER_VIRTUAL (start_timer ITIMER_REAL p))"

definition fork_child :: "tproc \<Rightarrow> tproc" where
  "fork_child p = p\<lparr>timers := \<lambda>_. disarmed\<rparr>"

definition on_signal :: "which \<Rightarrow> tproc \<Rightarrow> tproc" where
  "on_signal w p =
     p\<lparr>counts := (counts p)(w := counts p w + 1),
       shown := shown p @ [(w, counts p w + 1)],
       secs := (secs p)(w := secs p w + 10)\<rparr>"

definition clock_tick :: "which \<Rightarrow> tproc \<Rightarrow> tproc" where
  "clock_tick w p =
     (let (t, expired) = count_down (timers p w);
          p = p\<lparr>timers := (timers p)(w := t)\<rparr>
      in if expired then on_signal w p else p)"

fun run_clocks :: "which list \<Rightarrow> tproc \<Rightarrow> tproc" where
  "run_clocks [] p = p"
| "run_clocks (w # ws) p = run_clocks ws (clock_tick w p)"

text \<open>
  The seconds and microseconds that are printed at the end. The source calls \<open>getitimer\<close> first and reads the seconds variable
  afterwards; both are read in the same state here, so no expiry comes between them.
\<close>

definition elapsed :: "which \<Rightarrow> tproc \<Rightarrow> int \<times> int" where
  "elapsed w p = (secs p w + 9 - tv_sec (it_value (timers p w)), 999999 - tv_usec (it_value (timers p w)))"

section \<open>The Fibonacci numbers\<close>

text \<open>\<open>'l\<close> is the type of \<open>unsigned long\<close>, of 32 or of 64 bits.\<close>

function fibonacci :: "u32 \<Rightarrow> 'l::len word" where
  "fibonacci n = (if n = 0 \<or> n = 1 then of_nat (unat n) else fibonacci (n - 1) + fibonacci (n - 2))"
  by pat_completeness auto
termination
proof (relation "measure unat", simp)
  fix n :: u32
  assume "\<not> (n = 0 \<or> n = 1)"
  then have "2 \<le> unat n"
    by (metis One_nat_def Suc_1 Suc_leI le_neq_implies_less linorder_not_le nat_less_le not_less_eq_eq unat_1 unat_eq_zero unsigned_1 word_unat_eq_iff zero_order(1))
  then show "(n - 1, n) \<in> measure unat" "(n - 2, n) \<in> measure unat"
    by (auto simp: unat_sub_if')
qed

declare fibonacci.simps [simp del]

text \<open>
  \<open>fib\<close> of \<open>fibnocci.c\<close> works on variables of type \<open>int\<close>; \<open>None\<close> is the overflow of the addition.
\<close>

definition fib_step :: "nat \<Rightarrow> int \<times> int \<times> int \<Rightarrow> (int \<times> int \<times> int) option" where
  "fib_step i v =
     (case v of (f1, f2, f) \<Rightarrow>
        if 1 < i then (if f1 + f2 < 2 ^ 31 then Some (f2, f1 + f2, f1 + f2) else None)
        else Some (f1, f2, int i))"

fun fib_loop :: "nat \<Rightarrow> nat \<Rightarrow> int \<times> int \<times> int \<Rightarrow> int option" where
  "fib_loop i 0 v = Some (snd (snd v))"
| "fib_loop i (Suc k) v = (case fib_step i v of None \<Rightarrow> None | Some v \<Rightarrow> fib_loop (i + 1) k v)"

definition fib :: "u32 \<Rightarrow> int option" where
  "fib n = fib_loop 0 (unat n) (0, 1, 0)"

section \<open>The program\<close>

datatype mt_result = Usage | Bad_pointer | Reports "(int \<times> (which \<Rightarrow> int \<times> int)) list"

text \<open>
  The three processes with the microseconds that pass for each of them while it computes. \<open>argv\<close> is the list
  of the arguments after the name of the program; the parent reads the third. The two children are
  forked before the parent's timers have expired.
\<close>

definition measured :: "string \<Rightarrow> which list \<Rightarrow> tproc \<Rightarrow> int \<times> (which \<Rightarrow> int \<times> int)" where
  "measured arg ws p =
     (sint (fibonacci (word_of_int (atoi arg)) :: u32), \<lambda>w. elapsed w (run_clocks ws p))"

definition mytimer_main :: "string list \<Rightarrow> which list \<Rightarrow> which list \<Rightarrow> which list \<Rightarrow> mt_result" where
  "mytimer_main argv ws1 ws2 wsp =
     (if length argv < 2 then Usage
      else if length argv < 3 then Bad_pointer
      else
        (let p = start_timers \<lparr>timers = \<lambda>_. disarmed, secs = \<lambda>_. 0, counts = \<lambda>_. 0, shown = []\<rparr>
         in Reports
              [measured (argv ! 0) ws1 (start_timers (fork_child p)),
               measured (argv ! 1) ws2 (start_timers (fork_child p)),
               measured (argv ! 2) wsp p]))"

section \<open>What is measured\<close>

definition ticks :: "which \<Rightarrow> which list \<Rightarrow> int" where
  "ticks w ws = int (length (filter (\<lambda>x. x = w) ws))"

text \<open>
  The period of a timer is one microsecond short of ten seconds. After \<open>u\<close> microseconds it has
  expired \<open>u div period\<close> times, each counted as ten seconds.
\<close>

definition period :: int where "period = 9999999"

definition after :: "which \<Rightarrow> int \<Rightarrow> tproc \<Rightarrow> bool" where
  "after w u p \<longleftrightarrow>
     it_interval (timers p w) = nine \<and> it_value (timers p w) = tv_of (period - u mod period) \<and>
     secs p w = 10 * (u div period) \<and> counts p w = u div period"

lemma nine_tv: "nine = tv_of period" "usecs nine = period"
  by (simp_all add: nine_def tv_of_def period_def usecs_def)

lemma usecs_tv_of [simp]: "usecs (tv_of u) = u"
  by (simp add: usecs_def tv_of_def)

lemma after_start: "secs p w = 0 \<Longrightarrow> counts p w = 0 \<Longrightarrow> after w 0 (start_timers p)"
  by (cases w) (simp_all add: after_def start_timers_def start_timer_def nine_tv)

lemma div_mod_succ:
  fixes u n :: int
  assumes "0 < n"
  shows "(u + 1) div n = (if u mod n = n - 1 then u div n + 1 else u div n) \<and>
    (u + 1) mod n = (if u mod n = n - 1 then 0 else u mod n + 1)"
proof -
  obtain q r where qr: "u = n * q + r" "q = u div n" "r = u mod n" by (metis mult_div_mod_eq)
  have r: "0 \<le> r" "r < n" using assms qr(3) by simp_all
  show ?thesis
  proof (cases "r = n - 1")
    case True
    then have "u + 1 = n * (q + 1)" using qr(1) by (simp add: distrib_left)
    then show ?thesis using True assms qr(2,3) by simp
  next
    case False
    then have "u + 1 = n * q + (r + 1)" "0 \<le> r + 1" "r + 1 < n" using qr(1) r by auto
    then have "(u + 1) div n = q" "(u + 1) mod n = r + 1"
      using int_div_pos_eq [of "u + 1" n q "r + 1"] int_mod_pos_eq [of "u + 1" n q "r + 1"] by auto
    with False qr(2,3) show ?thesis by simp
  qed
qed

lemma after_tick:
  assumes "after w u p" "0 \<le> u"
  shows "after w (u + 1) (clock_tick w p)"
proof -
  have r: "0 \<le> u mod period" "u mod period < period" by (simp_all add: period_def)
  show ?thesis
  proof (cases "u mod period = period - 1")
    case True
    then show ?thesis
      using assms r div_mod_succ [of period u]
      by (simp add: after_def clock_tick_def count_down_def on_signal_def nine_tv period_def)
  next
    case False
    then have "period - u mod period \<noteq> 0" "period - u mod period \<noteq> 1" using r by auto
    with False show ?thesis
      using assms r div_mod_succ [of period u]
      by (simp add: after_def clock_tick_def count_down_def period_def)
  qed
qed

lemma after_other: "after w u p \<Longrightarrow> v \<noteq> w \<Longrightarrow> after w u (clock_tick v p)"
  by (auto simp: after_def clock_tick_def on_signal_def Let_def split: prod.splits)

lemma after_run: "after w u p \<Longrightarrow> 0 \<le> u \<Longrightarrow> after w (u + ticks w ws) (run_clocks ws p)"
proof (induction ws arbitrary: u p)
  case (Cons v ws)
  then show ?case
    using Cons.IH [of "u + 1" "clock_tick w p"] Cons.IH [of u "clock_tick v p"]
      after_tick [of w u p] after_other [of w u p v]
    by (cases "v = w") (auto simp: ticks_def add.assoc)
qed (simp add: ticks_def)

text \<open>The printed time is the time that passed plus one microsecond for each expiry, in normal form.\<close>

lemma elapsed_after:
  assumes "after w u p" "0 \<le> u"
  shows "1000000 * fst (elapsed w p) + snd (elapsed w p) = u + u div period"
    "0 \<le> snd (elapsed w p)" "snd (elapsed w p) < 1000000"
proof -
  define v where "v = period - u mod period"
  have "1000000 * (v div 1000000) + v mod 1000000 = v" by simp
  moreover have "9999999 * (u div period) + period - v = u" by (simp add: v_def period_def)
  moreover have "period = 9999999" by (simp add: period_def)
  moreover have "fst (elapsed w p) = 10 * (u div period) + 9 - v div 1000000"
    "snd (elapsed w p) = 999999 - v mod 1000000"
    using assms by (simp_all add: after_def v_def elapsed_def tv_of_def)
  ultimately show "1000000 * fst (elapsed w p) + snd (elapsed w p) = u + u div period"
    by linarith
  show "0 \<le> snd (elapsed w p)" "snd (elapsed w p) < 1000000"
    using assms pos_mod_bound [of 1000000 v] pos_mod_sign [of 1000000 v]
    by (auto simp: after_def elapsed_def tv_of_def v_def)
qed

text \<open>The Fibonacci numbers, and both programs against them.\<close>

fun F :: "nat \<Rightarrow> nat" where
  "F 0 = 0"
| "F (Suc 0) = 1"
| "F (Suc (Suc n)) = F (Suc n) + F n"

lemma F_pos: "0 < n \<Longrightarrow> 0 < F n"
  by (induction n rule: F.induct) auto

lemma F_Suc_le: "F n \<le> F (Suc n)"
  by (cases n rule: F.cases) auto

lemma F_mono: "m \<le> n \<Longrightarrow> F m \<le> F n"
  by (rule lift_Suc_mono_le [of F]) (auto intro: F_Suc_le)

lemma fibonacci_F: "fibonacci n = (of_nat (F (unat n)) :: 'l::len word)"
proof (induction n rule: fibonacci.induct)
  case (1 n)
  show ?case
  proof (cases "n = 0 \<or> n = 1")
    case True
    then show ?thesis by (subst fibonacci.simps) auto
  next
    case False
    then have "unat n \<noteq> 0" "unat n \<noteq> 1" by (metis unat_eq_zero) (metis False unat_1 word_unat_eq_iff)
    then obtain k where k: "unat n = Suc (Suc k)" by (metis One_nat_def not0_implies_Suc)
    then have "unat (n - 1) = Suc k" "unat (n - 2) = k" by (auto simp: unat_sub_if')
    with 1 False k show ?thesis by (subst fibonacci.simps) simp
  qed
qed

lemma fib_loop_F:
  "2 \<le> i \<Longrightarrow>
   fib_loop i k (int (F (i - 2)), int (F (i - 1)), int (F (i - 1))) =
     (if k = 0 \<or> F (i + k - 1) < 2 ^ 31 then Some (int (F (i + k - 1))) else None)"
proof (induction k arbitrary: i)
  case (Suc k)
  obtain j where j: "i = Suc (Suc j)" using Suc.prems le_Suc_ex [of 2 i] by (auto simp: numeral_2_eq_2)
  have s: "int (F j) + int (F (Suc j)) = int (F (Suc (Suc j)))" by simp
  have m: "F (Suc (Suc j)) \<le> F (Suc (Suc j) + k)" by (rule F_mono) simp
  have step: "fib_step i (int (F j), int (F (Suc j)), int (F (Suc j))) =
      (if F i < 2 ^ 31 then Some (int (F (Suc j)), int (F i), int (F i)) else None)"
  proof -
    have "int (F j) + int (F (Suc j)) < 2 ^ 31 \<longleftrightarrow> F i < 2 ^ 31"
      unfolding s j by (metis of_nat_less_iff of_nat_numeral of_nat_power)
    then show ?thesis using s j by (simp only: fib_step_def prod.case) simp
  qed
  have IH: "fib_loop (i + 1) k (int (F (Suc j)), int (F i), int (F i)) =
      (if k = 0 \<or> F (i + k) < 2 ^ 31 then Some (int (F (i + k))) else None)"
    using Suc.IH [of "i + 1"] j by simp
  show ?case
    using IH m step by (simp add: j del: F.simps)
qed simp

lemma fib_F:
  "fib n = (if n = 0 then Some 0 else if F (unat n - 1) < 2 ^ 31 then Some (int (F (unat n - 1))) else None)"
proof (cases "unat n" rule: F.cases)
  case (3 k)
  have "fib n = fib_loop 2 k (int (F (2 - 2)), int (F (2 - 1)), int (F (2 - 1)))"
    using 3 by (simp add: fib_def fib_step_def numeral_2_eq_2)
  then show ?thesis using 3 fib_loop_F [of 2 k] by (auto simp: unat_eq_zero)
qed (auto simp: fib_def fib_step_def unat_eq_zero)

fun F_pair :: "nat \<Rightarrow> int \<times> int" where
  "F_pair 0 = (0, 1)"
| "F_pair (Suc n) = (case F_pair n of (a, b) \<Rightarrow> (b, a + b))"

lemma F_pair: "F_pair n = (int (F n), int (F (Suc n)))"
  by (induction n) auto

lemma F_46: "F 46 = 1836311903" "F 47 = 2971215073"
proof -
  have "F_pair 46 = (1836311903, 2971215073)" by code_simp
  then show "F 46 = 1836311903" "F 47 = 2971215073" using F_pair [of 46] by simp_all
qed

lemma F_small: "F n < 2 ^ 31 \<longleftrightarrow> n \<le> 46"
proof
  assume "F n < 2 ^ 31"
  then have "\<not> F 47 \<le> F n" by (simp add: F_46)
  then show "n \<le> 46" using F_mono [of 47 n] by linarith
next
  assume "n \<le> 46"
  then show "F n < 2 ^ 31" using F_mono [of n 46] by (simp add: F_46)
qed

text \<open>
  The recursion of \<open>mytimer.c\<close> and the loop of \<open>fibnocci.c\<close> compute the Fibonacci
  numbers. The recursion returns for every argument and yields \<open>F n\<close> modulo the width of \<open>unsigned long\<close>. The
  loop, asked for the first \<open>n\<close> items, yields the last of them, \<open>F (n - 1)\<close>, for up to 47 items, and overflows
  its \<open>int\<close> variables for more.
\<close>

lemma fib_programs_agree:
  "(fibonacci n :: 'l::len word) = of_nat (F (unat n)) \<and>
   fib n = (if n = 0 then Some 0 else if unat n \<le> 47 then Some (int (F (unat n - 1))) else None)"
proof -
  have "unat n - 1 \<le> 46 \<longleftrightarrow> unat n \<le> 47" by linarith
  then show ?thesis by (simp only: fibonacci_F fib_F F_small simp_thms)
qed

text \<open>
  C32: each of the three processes reports, for each of its timers, the time its clock has
  run plus one microsecond for every expiry (the handlers count an expiry as ten seconds, the timers
  are set to 9.999999 seconds), as seconds and a number of microseconds below one million, provided no
  timer expires between the call of \<open>getitimer\<close> and the reading of its seconds variable; and for
  arguments from 0 to 46 the number it prints is the Fibonacci number.
\<close>

theorem mytimer_reports:
  assumes "3 \<le> length argv" "i < 3"
  shows "\<exists>rs. mytimer_main argv ws1 ws2 wsp = Reports rs \<and> length rs = 3 \<and>
    (let (n, r) = rs ! i; ws = [ws1, ws2, wsp] ! i; k = atoi (argv ! i) in
       (\<forall>w. 1000000 * fst (r w) + snd (r w) = ticks w ws + ticks w ws div 9999999 \<and>
         0 \<le> snd (r w) \<and> snd (r w) < 1000000) \<and>
       (0 \<le> k \<and> k \<le> 46 \<longrightarrow> n = int (F (nat k))))"
proof -
  have num: "fst (measured arg ws p) = int (F (nat (atoi arg)))" if "0 \<le> atoi arg" "atoi arg \<le> 46" for arg ws p
  proof -
    have "unat (word_of_int (atoi arg) :: u32) = nat (atoi arg)"
      using that by (simp add: unsigned_of_int take_bit_int_eq_self)
    moreover have "F (nat (atoi arg)) < 2 ^ 31" using that F_small by simp
    then have "sint (of_nat (F (nat (atoi arg))) :: u32) = int (F (nat (atoi arg)))"
      by (simp add: signed_of_nat signed_take_bit_int_eq_self)
    ultimately show ?thesis by (simp add: measured_def fibonacci_F)
  qed
  have time: "1000000 * fst (r w) + snd (r w) = ticks w ws + ticks w ws div 9999999 \<and>
      0 \<le> snd (r w) \<and> snd (r w) < 1000000"
    if "r = snd (measured arg ws (start_timers p))" "secs p = (\<lambda>_. 0)" "counts p = (\<lambda>_. 0)" for arg ws p r w
  proof -
    have "after w (0 + ticks w ws) (run_clocks ws (start_timers p))"
      using that by (intro after_run after_start) simp_all
    from elapsed_after [OF this] that show ?thesis by (simp add: measured_def ticks_def period_def)
  qed
  have i: "i = 0 \<or> i = 1 \<or> i = 2" using assms(2) by linarith
  have p: "secs (fork_child (start_timers p)) = secs p" "counts (fork_child (start_timers p)) = counts p" for p
    by (simp_all add: fork_child_def start_timers_def start_timer_def)
  show ?thesis
    using i assms(1) num time [OF refl] p
    by (auto simp: mytimer_main_def Let_def split_beta numeral_2_eq_2)
qed

theorem mytimer_reports_witness:
  "\<exists>rs. mytimer_main [''6'', ''7'', ''8''] [] [ITIMER_REAL, ITIMER_PROF] [ITIMER_REAL] = Reports rs \<and> length rs = 3 \<and>
     (let (n, r) = rs ! 1 in n = 13 \<and> 1000000 * fst (r ITIMER_REAL) + snd (r ITIMER_REAL) = 1)"
proof -
  have a: "atoi ''7'' = 7" by code_simp
  have f: "F (nat 7) = 13" by code_simp
  show ?thesis
    using mytimer_reports [of "[''6'', ''7'', ''8'']" 1 "[]" "[ITIMER_REAL, ITIMER_PROF]" "[ITIMER_REAL]"] a f
    by (auto simp: Let_def ticks_def)
qed

end
