(* ===== verification/TickClocks.thy ===== *)
theory TickClocks
  imports IntervalTimer
begin

text \<open>
  \<open>src/3/mygettimeofday.c\<close> and \<open>src/3/clock.c\<close>: a child process keeps a clock by counting the signals of a timer
  with an interval of one microsecond; the parent counts the seconds the child reports. Both programs arm the timer
  before they install the handler of its signal, so the order of these steps and of the signals is part of the model.
\<close>

section \<open>The processes\<close>

text \<open>
  Without a handler, \<open>SIGALRM\<close> ends the process it is sent to. \<open>fired\<close> counts the signals the child has
  handled; \<open>pend\<close> is the pending signal of the parent, of which there is at most one.
\<close>

datatype phase = Unarmed | Armed | Ready | Killed

record 's clock =
  child :: phase
  data :: 's
  fired :: nat
  parent :: phase
  pend :: bool
  main_sec :: int

definition boot :: "'s \<Rightarrow> 's clock" where
  "boot d = \<lparr>child = Unarmed, data = d, fired = 0, parent = Unarmed, pend = False, main_sec = 0\<rparr>"

definition setitimer_child :: "'s clock \<Rightarrow> 's clock" where
  "setitimer_child c = c\<lparr>child := Armed\<rparr>"

definition signal_child :: "'s clock \<Rightarrow> 's clock" where
  "signal_child c = c\<lparr>child := Ready\<rparr>"

definition signal_parent :: "'s clock \<Rightarrow> 's clock" where
  "signal_parent c = c\<lparr>parent := Ready\<rparr>"

definition kill_parent :: "'s clock \<Rightarrow> 's clock" where
  "kill_parent c =
     (if parent c = Ready then c\<lparr>pend := True\<rparr> else c\<lparr>parent := Killed\<rparr>)"

definition action_1s :: "'s clock \<Rightarrow> 's clock" where
  "action_1s c = c\<lparr>pend := False, main_sec := int32 (main_sec c + 1)\<rparr>"

text \<open>A handler of the child returns its new data and whether it signals the parent.\<close>

definition child_alarm :: "('s \<Rightarrow> 's \<times> bool) \<Rightarrow> 's clock \<Rightarrow> 's clock" where
  "child_alarm handle c =
     (if child c = Ready then
        (let (d, k) = handle (data c); c = c\<lparr>data := d, fired := fired c + 1\<rparr>
         in if k then kill_parent c else c)
      else c\<lparr>child := Killed\<rparr>)"

inductive clock_step :: "('s \<Rightarrow> 's \<times> bool) \<Rightarrow> 's clock \<Rightarrow> 's clock \<Rightarrow> bool" for handle where
  arm: "child c = Unarmed \<Longrightarrow> clock_step handle c (setitimer_child c)"
| install: "child c = Armed \<Longrightarrow> clock_step handle c (signal_child c)"
| expire: "child c \<in> {Armed, Ready} \<Longrightarrow> clock_step handle c (child_alarm handle c)"
| install_parent: "parent c = Unarmed \<Longrightarrow> clock_step handle c (signal_parent c)"
| deliver: "parent c = Ready \<Longrightarrow> pend c \<Longrightarrow> clock_step handle c (action_1s c)"

inductive clock_run :: "('s \<Rightarrow> 's \<times> bool) \<Rightarrow> 's clock \<Rightarrow> 's clock \<Rightarrow> bool" for handle where
  start: "clock_run handle c c"
| next_step: "clock_run handle c c' \<Longrightarrow> clock_step handle c' c'' \<Longrightarrow> clock_run handle c c''"

section \<open>The two handlers\<close>

text \<open>\<open>mygettimeofday.c\<close>: \<open>passed\<close> holds what is printed.\<close>

record counters =
  count :: int
  passed_sec :: int
  passed_usec :: int
  passed :: "int list"

definition count_handle :: "counters \<Rightarrow> counters \<times> bool" where
  "count_handle d =
     (let n = count d + 1 in
      if n = 100000 then
        (d\<lparr>passed_sec := int32 (passed_sec d + 1), count := 0, passed_usec := 0,
           passed := passed d @ [int32 (passed_sec d + 1)]\<rparr>, True)
      else (d\<lparr>count := n, passed_usec := passed_usec d + 1\<rparr>, False))"

definition zero_counters :: counters where
  "zero_counters = \<lparr>count = 0, passed_sec = 0, passed_usec = 0, passed = []\<rparr>"

text \<open>\<open>clock.c\<close>: the time of day is carried on; each time \<open>localtime\<close> and the microseconds are printed.\<close>

record ('a) wall =
  tv :: timeval
  printed :: "('a \<times> int) list"

definition clock_handle :: "(int \<Rightarrow> 'a) \<Rightarrow> 'a wall \<Rightarrow> 'a wall \<times> bool" where
  "clock_handle localtime d =
     (let t = (if tv_usec (tv d) = 999999 then \<lparr>tv_sec = int32 (tv_sec (tv d) + 1), tv_usec = 0\<rparr>
               else (tv d)\<lparr>tv_usec := tv_usec (tv d) + 1\<rparr>)
      in (d\<lparr>tv := t, printed := printed d @ [(localtime (tv_sec t), tv_usec t)]\<rparr>, False))"

section \<open>Counting signals\<close>

text \<open>
  What holds of the data after every number of signals holds in every reachable state: the child
  is the only one that changes its data.
\<close>

lemma clock_run_data:
  assumes run: "clock_run handle (boot d) c"
    and init: "Q 0 d"
    and handle: "\<And>n d d' k. Q n d \<Longrightarrow> handle d = (d', k) \<Longrightarrow> Q (Suc n) d'"
  shows "Q (fired c) (data c)"
  using run
proof (induction "boot d" c rule: clock_run.induct)
  case start
  then show ?case using init by (simp add: boot_def)
next
  case (next_step c' c'')
  from next_step(3,2) show ?case
    by (cases rule: clock_step.cases)
      (auto simp: setitimer_child_def signal_child_def signal_parent_def action_1s_def kill_parent_def child_alarm_def
        Let_def dest: handle split: prod.splits)
qed

definition count_inv :: "nat \<Rightarrow> counters \<Rightarrow> bool" where
  "count_inv n d \<longleftrightarrow>
     (n < 100000 * 2 ^ 31 \<longrightarrow>
      count d = int (n mod 100000) \<and> passed_sec d = int (n div 100000) \<and> passed_usec d = count d)"

lemma div_mod_Suc:
  fixes n k :: nat
  assumes "0 < k"
  shows "Suc n div k = (if n mod k = k - 1 then n div k + 1 else n div k)"
    "Suc n mod k = (if n mod k = k - 1 then 0 else n mod k + 1)"
  using assms by (auto simp: div_Suc mod_Suc)

lemma count_handle_inv:
  assumes "count_inv n d" "count_handle d = (d', k)"
  shows "count_inv (Suc n) d'"
proof (cases "Suc n < 100000 * 2 ^ 31")
  case True
  then have d: "count d = int (n mod 100000)" "passed_sec d = int (n div 100000)" "passed_usec d = count d"
    using assms(1) by (auto simp: count_inv_def)
  have "int32 (int (n div 100000) + 1) = int (n div 100000) + 1" if "n mod 100000 = 99999"
  proof -
    have "n div 100000 + 1 = Suc n div 100000" using that div_mod_Suc(1) [of 100000 n] by simp
    also have "\<dots> < 2 ^ 31" using True by (simp add: less_mult_imp_div_less)
    finally show ?thesis by (intro int32_id) simp_all
  qed
  then show ?thesis
    using assms(2) d div_mod_Suc [of 100000 n]
    by (auto simp: count_handle_def count_inv_def Let_def split: if_splits)
qed (simp add: count_inv_def)

text \<open>The parent has counted no more seconds than the child has reported.\<close>

definition parent_inv :: "counters clock \<Rightarrow> bool" where
  "parent_inv c \<longleftrightarrow>
     (fired c < 100000 * 2 ^ 31 \<longrightarrow>
      0 \<le> main_sec c \<and> main_sec c + (if pend c then 1 else 0) \<le> int (fired c div 100000))"

lemma parent_inv_step:
  assumes "count_inv (fired c) (data c)" "parent_inv c" "clock_step count_handle c c'"
  shows "parent_inv c'"
  using assms(3)
proof (cases rule: clock_step.cases)
  case expire
  then show ?thesis
    using assms(1,2) div_mod_Suc [of 100000 "fired c"]
    by (auto simp: child_alarm_def kill_parent_def parent_inv_def count_inv_def count_handle_def Let_def
        split: if_splits)
next
  case deliver
  have "int (fired c div 100000) < 2 ^ 31" if "fired c < 100000 * 2 ^ 31"
    using that less_mult_imp_div_less [of "fired c" "2 ^ 31" 100000] by (simp add: mult.commute)
  then show ?thesis
    using deliver assms(2) int32_id [of "main_sec c + 1"] by (auto simp: action_1s_def parent_inv_def)
qed (use assms(2) in \<open>simp_all add: setitimer_child_def signal_child_def signal_parent_def parent_inv_def\<close>)

lemma count_inv_run: "clock_run count_handle (boot zero_counters) c \<Longrightarrow> count_inv (fired c) (data c)"
  by (erule clock_run_data) (auto intro: count_handle_inv simp: count_inv_def [of 0] zero_counters_def)

lemma parent_inv_run: "clock_run count_handle (boot zero_counters) c \<Longrightarrow> parent_inv c"
proof (induction "boot zero_counters" c rule: clock_run.induct)
  case (next_step c' c'')
  then show ?case using count_inv_run parent_inv_step by blast
qed (simp add: boot_def parent_inv_def)

definition wall_inv :: "int \<Rightarrow> nat \<Rightarrow> 'a wall \<Rightarrow> bool" where
  "wall_inv u n d \<longleftrightarrow>
     (u + int n < 1000000 * 2 ^ 31 \<longrightarrow>
      usecs (tv d) = u + int n \<and> 0 \<le> tv_usec (tv d) \<and> tv_usec (tv d) < 1000000 \<and> length (printed d) = n)"

lemma clock_handle_inv:
  assumes "wall_inv u n d" "clock_handle lt d = (d', k)" "0 \<le> u"
  shows "wall_inv u (Suc n) d'"
proof (cases "u + int (Suc n) < 1000000 * 2 ^ 31")
  case True
  then have d: "usecs (tv d) = u + int n" "0 \<le> tv_usec (tv d)" "tv_usec (tv d) < 1000000" "length (printed d) = n"
    using assms(1) by (auto simp: wall_inv_def)
  then have "int32 (tv_sec (tv d) + 1) = tv_sec (tv d) + 1" if "tv_usec (tv d) = 999999"
    using True that assms(3) by (intro int32_id) (auto simp: usecs_def)
  then show ?thesis
    using assms(2) d by (auto simp: clock_handle_def wall_inv_def usecs_def Let_def split: if_splits)
qed (simp add: wall_inv_def)


text \<open>
  In every reachable state of \<open>mygettimeofday.c\<close>, after \<open>n\<close> handled signals the child
  has counted \<open>n div 100000\<close> seconds and \<open>n mod 100000\<close> further signals, and the parent, which loses reports
  that come while one is pending, has counted at most as many seconds. The timer sends a signal every
  microsecond, so what the program calls a second is a tenth of one.
\<close>

theorem second_counter_exact:
  assumes "clock_run count_handle (boot zero_counters) c" "fired c < 100000 * 2 ^ 31"
  shows "passed_sec (data c) = int (fired c div 100000) \<and> count (data c) = int (fired c mod 100000) \<and>
    passed_usec (data c) = count (data c) \<and> 0 \<le> main_sec c \<and> main_sec c \<le> passed_sec (data c)"
  using count_inv_run [OF assms(1)] parent_inv_run [OF assms(1)] assms(2)
  by (auto simp: count_inv_def parent_inv_def split: if_splits)

lemma clock_armed: "clock_run h (boot d) (setitimer_child (boot d))"
  by (rule clock_run.next_step [OF clock_run.start clock_step.arm]) (simp add: boot_def)

lemma clock_started: "clock_run h (boot d) (signal_child (setitimer_child (boot d)))"
  by (rule clock_run.next_step [OF clock_armed clock_step.install]) (simp add: setitimer_child_def)

theorem second_counter_exact_witness:
  "let c = child_alarm count_handle (signal_child (setitimer_child (boot zero_counters))) in
   clock_run count_handle (boot zero_counters) c \<and> passed_sec (data c) = 0 \<and> count (data c) = 1 \<and> main_sec c \<le> 0"
proof -
  let ?b = "signal_child (setitimer_child (boot zero_counters))"
  have r: "clock_run count_handle (boot zero_counters) (child_alarm count_handle ?b)"
    by (rule clock_run.next_step [OF clock_started clock_step.expire]) (simp add: signal_child_def)
  have f: "fired (child_alarm count_handle ?b) = 1"
    by (simp add: child_alarm_def signal_child_def setitimer_child_def boot_def zero_counters_def count_handle_def)
  show ?thesis using second_counter_exact [OF r] r f by (simp add: Let_def)
qed

text \<open>
  In every reachable state of \<open>clock.c\<close> the time it keeps is the time of day it started with
  plus one microsecond for every handled signal, with the microseconds below one million, and it has printed one
  line per signal.
\<close>

theorem wall_clock_exact:
  assumes "clock_run (clock_handle localtime) (boot \<lparr>tv = t, printed = []\<rparr>) c"
    and "0 \<le> tv_usec t" "tv_usec t < 1000000" "0 \<le> tv_sec t" "usecs t + int (fired c) < 1000000 * 2 ^ 31"
  shows "usecs (tv (data c)) = usecs t + int (fired c) \<and>
    0 \<le> tv_usec (tv (data c)) \<and> tv_usec (tv (data c)) < 1000000 \<and> length (printed (data c)) = fired c"
proof -
  have u: "0 \<le> usecs t" using assms(2,4) by (simp add: usecs_def)
  have "wall_inv (usecs t) (fired c) (data c)"
    using assms(1)
    by (rule clock_run_data) (use assms(2,3) u in \<open>auto intro: clock_handle_inv simp: wall_inv_def [of _ 0]\<close>)
  then show ?thesis using assms(5) by (simp add: wall_inv_def)
qed

theorem wall_clock_exact_witness:
  "let t = \<lparr>tv_sec = 7, tv_usec = 999999\<rparr>;
       c = child_alarm (clock_handle id) (signal_child (setitimer_child (boot \<lparr>tv = t, printed = []\<rparr>)))
   in clock_run (clock_handle id) (boot \<lparr>tv = t, printed = []\<rparr>) c \<and> usecs (tv (data c)) = 8000000"
proof -
  let ?t = "\<lparr>tv_sec = 7, tv_usec = 999999\<rparr>"
  let ?c = "child_alarm (clock_handle id) (signal_child (setitimer_child (boot \<lparr>tv = ?t, printed = []\<rparr>)))"
  have r: "clock_run (clock_handle id) (boot \<lparr>tv = ?t, printed = []\<rparr>) ?c"
    by (rule clock_run.next_step [OF clock_started clock_step.expire]) (simp add: signal_child_def)
  have f: "fired ?c = 1"
    by (simp add: child_alarm_def signal_child_def setitimer_child_def boot_def clock_handle_def)
  show ?thesis using wall_clock_exact [OF r] r f by (simp add: Let_def usecs_def)
qed

text \<open>
  The order of the calls leaves a race in both programs: a signal that comes between \<open>setitimer\<close> and \<open>signal\<close> ends
  the child before it has counted anything; and a report that comes before the parent has installed its handler
  ends the parent.
\<close>

theorem clock_start_race:
  "\<exists>c. clock_run handle (boot d) c \<and> child c = Killed \<and> fired c = 0"
  "snd (handle d) \<Longrightarrow> \<exists>c. clock_run handle (boot d) c \<and> parent c = Killed"
proof -
  have "clock_run handle (boot d) (child_alarm handle (setitimer_child (boot d)))"
    by (rule clock_run.next_step [OF clock_armed clock_step.expire]) (simp add: setitimer_child_def)
  moreover have "child (child_alarm handle (setitimer_child (boot d))) = Killed"
    "fired (child_alarm handle (setitimer_child (boot d))) = 0"
    by (simp_all add: child_alarm_def setitimer_child_def boot_def)
  ultimately show "\<exists>c. clock_run handle (boot d) c \<and> child c = Killed \<and> fired c = 0" by blast
  assume k: "snd (handle d)"
  let ?b = "signal_child (setitimer_child (boot d))"
  have "clock_run handle (boot d) (child_alarm handle ?b)"
    by (rule clock_run.next_step [OF clock_started clock_step.expire]) (simp add: signal_child_def)
  moreover have "parent (child_alarm handle ?b) = Killed"
    using k by (auto simp: child_alarm_def kill_parent_def signal_child_def setitimer_child_def boot_def split: prod.splits)
  ultimately show "\<exists>c. clock_run handle (boot d) c \<and> parent c = Killed" by blast
qed

end
