(* ===== verification/InterruptMonitor.thy ===== *)
theory InterruptMonitor
  imports IntervalTimer
begin

text \<open>
  \<open>src/3/inter_moniter.c\<close>: three timers, and at each signal the number of interrupts since the last signal of
  the same timer, computed from \<open>/proc/stat\<close>. The three handlers share the variables \<open>cur_intr\<close> and \<open>procFile\<close> and can
  interrupt each other, so a handler is a sequence of steps (opening the file, one \<open>fgets\<close>, the assignment, printing,
  remembering) and the handlers under way are a stack. A signal is blocked while its own handler runs.
\<close>

section \<open>Reading the number of interrupts\<close>

text \<open>
  The loop of \<open>read_intr\<close> over the buffers \<open>fgets\<close> fills, with the position in the file and the text
  that it copies to the debug file; the result is \<open>- 1\<close> when no line starts with \<open>intr\<close>. The file is that of
  the kernel and ends with a newline. \<open>read_intr None\<close> is the file that cannot be opened, which ends the program.
\<close>

fun scan_stat :: "nat \<Rightarrow> string list \<Rightarrow> (nat \<times> string) list \<times> int" where
  "scan_stat pos [] = ([], - 1)"
| "scan_stat pos (l # ls) =
     (if has_prefix ''intr'' l then ([(pos, l)], atoi (drop 5 l))
      else (let (d, v) = scan_stat (pos + length l) ls in ((pos, l) # d, v)))"

definition read_intr :: "string option \<Rightarrow> ((nat \<times> string) list \<times> int) option" where
  "read_intr f = map_option (\<lambda>text. scan_stat 0 (fgets_all 2048 text)) f"

section \<open>The program\<close>

text \<open>
  Where a handler is: before \<open>fopen\<close>, in the loop of \<open>read_intr\<close> with the number of characters read, back from
  \<open>read_intr\<close> with its result, about to print, about to store. \<open>procFile\<close> is the rest of the open stream, as the
  buffers \<open>fgets\<close> will fill, or \<open>None\<close> when the stream was closed.
\<close>

datatype hpc = H_open | H_scan nat | H_got int | H_print | H_store

record monitor =
  cur_intr :: int
  old_intr :: "which \<Rightarrow> int"
  itvs :: "itimerval list"
  installed :: "which \<Rightarrow> bool"
  stack :: "(which \<times> hpc) list"
  reports :: "which \<Rightarrow> int list"
  procFile :: "string list option"
  calls :: "which \<Rightarrow> nat"
  dumps :: "which \<Rightarrow> (nat \<times> nat \<times> string) list"
  exited :: "int option"

fun map_timer :: "which \<Rightarrow> nat" where
  "map_timer ITIMER_REAL = 0"
| "map_timer ITIMER_VIRTUAL = 1"
| "map_timer ITIMER_PROF = 2"

definition init_itvs :: "int \<Rightarrow> int \<Rightarrow> itimerval list" where
  "init_itvs s us =
     replicate 3 \<lparr>it_interval = \<lparr>tv_sec = s, tv_usec = us\<rparr>, it_value = \<lparr>tv_sec = 0, tv_usec = 1250\<rparr>\<rparr>"

text \<open>\<open>main\<close> up to the calls of \<open>setitimer\<close>; \<open>argv\<close> without the name of the program.\<close>

definition monitor_main :: "string list \<Rightarrow> string option \<Rightarrow> monitor option" where
  "monitor_main argv f =
     (if argv \<noteq> [] \<and> length argv \<noteq> 2 then None
      else
        (let (s, us) = (if argv = [] then (0, 1250) else (atoi (argv ! 0), atoi (argv ! 1)))
         in map_option (\<lambda>(d, v).
              \<lparr>cur_intr = v, old_intr = \<lambda>_. v, itvs = init_itvs s us, installed = \<lambda>_. False, stack = [],
               reports = \<lambda>_. [], procFile = None, calls = (\<lambda>_. 0)(ITIMER_REAL := 1),
               dumps = (\<lambda>_. [])(ITIMER_REAL := map (Pair 1) d), exited = None\<rparr>)
              (read_intr f)))"

definition install_handler :: "which \<Rightarrow> monitor \<Rightarrow> monitor" where
  "install_handler w m = m\<lparr>installed := (installed m)(w := True)\<rparr>"

definition deliver :: "which \<Rightarrow> monitor \<Rightarrow> monitor" where
  "deliver w m =
     (if installed m w then m\<lparr>stack := (w, H_open) # stack m\<rparr> else m\<lparr>exited := Some 128\<rparr>)"

definition clean :: "monitor \<Rightarrow> monitor" where
  "clean m = m\<lparr>exited := Some 1\<rparr>"

text \<open>
  One step of the innermost handler (\<open>sigh_real\<close>, \<open>sigh_virt\<close>, \<open>sigh_prof\<close>): open, read a line, assign, print the
  difference, remember. \<open>f\<close> is the contents of \<open>/proc/stat\<close> when it is opened. A handler that was interrupted in its
  loop finds the stream of the inner handler in \<open>procFile\<close>, which that one has closed: using it is undefined, and the
  program is taken to end there (139).
\<close>

definition handler_step :: "string option \<Rightarrow> monitor \<Rightarrow> monitor" where
  "handler_step f m =
     (case stack m of
        [] \<Rightarrow> m
      | (w, H_open) # r \<Rightarrow>
          (case f of
             None \<Rightarrow> m\<lparr>exited := Some 1\<rparr>
           | Some text \<Rightarrow>
               m\<lparr>procFile := Some (fgets_all 2048 text), calls := (calls m)(w := calls m w + 1), stack := (w, H_scan 0) # r\<rparr>)
      | (w, H_scan pos) # r \<Rightarrow>
          (case procFile m of
             None \<Rightarrow> m\<lparr>exited := Some 139\<rparr>
           | Some [] \<Rightarrow> m\<lparr>stack := (w, H_got (- 1)) # r\<rparr>
           | Some (l # ls) \<Rightarrow>
               (let m = m\<lparr>dumps := (dumps m)(w := dumps m w @ [(calls m w, pos, l)])\<rparr>
                in if has_prefix ''intr'' l then m\<lparr>procFile := None, stack := (w, H_got (atoi (drop 5 l))) # r\<rparr>
                   else m\<lparr>procFile := Some ls, stack := (w, H_scan (pos + length l)) # r\<rparr>))
      | (w, H_got v) # r \<Rightarrow>
          (let m = m\<lparr>cur_intr := v\<rparr>
           in if v = - 1 then m\<lparr>exited := Some 1\<rparr> else m\<lparr>stack := (w, H_print) # r\<rparr>)
      | (w, H_print) # r \<Rightarrow>
          m\<lparr>reports := (reports m)(w := reports m w @ [cur_intr m - old_intr m w]), stack := (w, H_store) # r\<rparr>
      | (w, H_store) # r \<Rightarrow> m\<lparr>old_intr := (old_intr m)(w := cur_intr m), stack := r\<rparr>)"

text \<open>
  The runs. With the flag set, no signal comes between the printing and the storing step of a handler.
\<close>

inductive monitor_step :: "bool \<Rightarrow> monitor \<Rightarrow> monitor \<Rightarrow> bool" for lucky where
  install: "exited m = None \<Longrightarrow> monitor_step lucky m (install_handler w m)"
| signal: "exited m = None \<Longrightarrow> w \<notin> fst ` set (stack m) \<Longrightarrow>
    (lucky \<Longrightarrow> stack m \<noteq> [] \<Longrightarrow> snd (hd (stack m)) \<noteq> H_store) \<Longrightarrow> monitor_step lucky m (deliver w m)"
| handler: "exited m = None \<Longrightarrow> monitor_step lucky m (handler_step f m)"
| interrupt: "exited m = None \<Longrightarrow> monitor_step lucky m (clean m)"

inductive monitor_run :: "bool \<Rightarrow> monitor \<Rightarrow> monitor \<Rightarrow> bool" for lucky where
  start: "monitor_run lucky m m"
| more: "monitor_run lucky m m' \<Longrightarrow> monitor_step lucky m' m'' \<Longrightarrow> monitor_run lucky m m''"

section \<open>What the file says\<close>

lemma scan_stat_skip:
  assumes "\<forall>l \<in> set ls. \<not> has_prefix ''intr'' l"
  shows "snd (scan_stat pos (ls @ l # r)) = (if has_prefix ''intr'' l then atoi (drop 5 l) else snd (scan_stat (pos + sum_list (map length ls) + length l) r))"
  using assms by (induction ls arbitrary: pos) (auto simp: split_beta add.assoc)

text \<open>
  When the lines before the \<open>intr\<close> line of \<open>/proc/stat\<close> fit into the buffer of 2048 bytes, \<open>read_intr\<close> returns
  the total of that line, however long the line itself is, as a 32-bit number.
\<close>

lemma read_intr_value:
  assumes "\<forall>l \<in> set ls. NL \<notin> set l \<and> length l + 2 \<le> 2048 \<and> \<not> has_prefix ''intr'' (l @ [NL])"
    and "length (dec n) < 2000"
  shows "map_option snd (read_intr (Some (concat (map (\<lambda>l. l @ [NL]) ls) @ ''intr '' @ dec n @ '' '' @ rest))) = Some (int32 n)"
proof -
  let ?p = "''intr '' @ dec n @ '' ''"
  have "NL \<notin> set ?p" "length ?p + 2 \<le> 2048" using assms(2) dec_no_NL by auto
  then obtain r ls' where h: "fgets_all 2048 (?p @ rest) = (?p @ r) # ls'"
    using fgets_head [of ?p 2048 rest] by auto
  have "snd (scan_stat 0 (map (\<lambda>l. l @ [NL]) ls @ (?p @ r) # ls')) = atoi (dec n @ '' '' @ r)"
    using assms(1) by (subst scan_stat_skip) auto
  moreover have "atoi (dec n @ '' '' @ r) = int32 n" by (rule atoi_dec) (simp add: is_digit_def)
  ultimately show ?thesis using fgets_lines [of ls 2048 "?p @ rest"] assms(1) h by (simp add: read_intr_def)
qed

text \<open>
  A handler that is not interrupted in its loop comes back from \<open>read_intr\<close> with the number \<open>scan_stat\<close> finds, and has
  changed nothing but the debug file and the stream.
\<close>

lemma handler_reads:
  assumes "stack m = (w, H_scan pos) # r" "procFile m = Some ls" "snd (scan_stat pos ls) = v"
  shows "\<exists>k m'. (handler_step f ^^ k) m = m' \<and> stack m' = (w, H_got v) # r \<and> reports m' = reports m \<and>
    old_intr m' = old_intr m \<and> cur_intr m' = cur_intr m \<and> exited m' = exited m"
  using assms
proof (induction ls arbitrary: m pos)
  case Nil
  then show ?case by (intro exI [of _ 1]) (simp add: handler_step_def)
next
  case (Cons l ls)
  show ?case
  proof (cases "has_prefix ''intr'' l")
    case True
    then show ?thesis using Cons.prems by (intro exI [of _ 1]) (simp add: handler_step_def)
  next
    case False
    let ?m = "handler_step f m"
    have m: "stack ?m = (w, H_scan (pos + length l)) # r" "procFile ?m = Some ls"
      "reports ?m = reports m" "old_intr ?m = old_intr m" "cur_intr ?m = cur_intr m" "exited ?m = exited m"
      using Cons.prems False by (simp_all add: handler_step_def)
    have "snd (scan_stat (pos + length l) ls) = v" using Cons.prems(3) False by (simp add: split_beta)
    from Cons.IH [OF m(1,2) this] obtain k m' where "(handler_step f ^^ k) ?m = m'" "stack m' = (w, H_got v) # r"
      "reports m' = reports ?m" "old_intr m' = old_intr ?m" "cur_intr m' = cur_intr ?m" "exited m' = exited ?m"
      by blast
    then show ?thesis using m by (intro exI [of _ "Suc k"]) (simp add: funpow_Suc_right del: funpow.simps)
  qed
qed

section \<open>The reported differences\<close>

text \<open>
  In a lucky run only the innermost handler can be about to store, and the reports of a timer add up
  to the value it stored last, or is about to store.
\<close>

definition monitor_inv :: "int \<Rightarrow> monitor \<Rightarrow> bool" where
  "monitor_inv v m \<longleftrightarrow>
     distinct (map fst (stack m)) \<and>
     (\<forall>x \<in> set (tl (stack m)). snd x \<noteq> H_store) \<and>
     (\<forall>w. v + sum_list (reports m w) =
        (if stack m \<noteq> [] \<and> hd (stack m) = (w, H_store) then cur_intr m else old_intr m w))"

lemma monitor_inv_signal:
  assumes "monitor_inv v m" "w \<notin> fst ` set (stack m)" "stack m \<noteq> [] \<Longrightarrow> snd (hd (stack m)) \<noteq> H_store"
  shows "monitor_inv v (deliver w m)"
  using assms by (cases "stack m") (auto simp: monitor_inv_def deliver_def)

lemma monitor_inv_handler:
  assumes "monitor_inv v m"
  shows "monitor_inv v (handler_step f m)"
proof (cases "stack m")
  case Nil
  with assms show ?thesis by (simp add: handler_step_def)
next
  case (Cons x r)
  obtain w pc where x: "x = (w, pc)" by (cases x)
  have r: "w \<notin> fst ` set r" "\<forall>y \<in> set r. snd y \<noteq> H_store" using assms Cons x by (auto simp: monitor_inv_def)
  then have hd: "hd r \<noteq> (u, H_store)" if "r \<noteq> []" for u using that by (cases r) auto
  have tl: "\<forall>y \<in> set (tl r). snd y \<noteq> H_store" using r(2) by (cases r) auto
  have s: "pc \<noteq> H_store \<Longrightarrow> v + sum_list (reports m w) = old_intr m w"
    using assms Cons x by (auto simp: monitor_inv_def)
  show ?thesis
    using assms Cons x r hd tl s
    by (cases pc) (auto simp: monitor_inv_def handler_step_def Let_def add_diff_eq split: option.splits list.splits)
qed

lemma monitor_inv_run: "monitor_run True m m' \<Longrightarrow> monitor_inv v m \<Longrightarrow> monitor_inv v m'"
proof (induction m m' rule: monitor_run.induct)
  case (more m m' m'')
  have inv: "monitor_inv v m'" by (rule more.IH [OF more.prems])
  from more.hyps(2) show ?case
  proof (cases rule: monitor_step.cases)
    case (signal w)
    then show ?thesis using inv by (auto intro: monitor_inv_signal)
  next
    case (handler f)
    then show ?thesis using inv by (auto intro: monitor_inv_handler)
  qed (use inv in \<open>simp_all add: install_handler_def clean_def monitor_inv_def\<close>)
qed simp

text \<open>
  C33: in every run in which no signal comes between the printing and the storing step of
  a handler, when no handler is under way, the differences reported for a timer add up to the number last stored for it
  minus the number read at the start: nothing is lost or counted twice, whatever other nesting of handlers the run has
  survived. A run does not survive every nesting: the handlers share \<open>procFile\<close>, and a handler that finds it closed in
  its loop, because one nested there has closed it, uses a closed stream; the run is taken to end there, with the
  handler under way.
\<close>

theorem interrupt_reports_exact:
  assumes "monitor_main argv f = Some m" "monitor_run True m m'" "stack m' = []"
  shows "sum_list (reports m' w) = old_intr m' w - cur_intr m"
proof -
  have "monitor_inv (cur_intr m) m"
    using assms(1) by (auto simp: monitor_main_def monitor_inv_def split: if_splits)
  then have "monitor_inv (cur_intr m) m'" using assms(2) by (rule monitor_inv_run [rotated])
  then have "cur_intr m + sum_list (reports m' w) = old_intr m' w" using assms(3) by (simp add: monitor_inv_def)
  then show ?thesis by simp
qed

text \<open>Concrete runs, as sequences of actions.\<close>

datatype action = Install which | Signal which | Handle string

fun act :: "action \<Rightarrow> monitor \<Rightarrow> monitor" where
  "act (Install w) m = install_handler w m"
| "act (Signal w) m = deliver w m"
| "act (Handle f) m = handler_step (Some f) m"

fun act_ok :: "bool \<Rightarrow> action \<Rightarrow> monitor \<Rightarrow> bool" where
  "act_ok lucky (Signal w) m =
     (w \<notin> fst ` set (stack m) \<and> (lucky \<longrightarrow> stack m \<noteq> [] \<longrightarrow> snd (hd (stack m)) \<noteq> H_store))"
| "act_ok lucky _ m = True"

fun acts_ok :: "bool \<Rightarrow> action list \<Rightarrow> monitor \<Rightarrow> bool" where
  "acts_ok lucky [] m = True"
| "acts_ok lucky (a # as) m = (exited m = None \<and> act_ok lucky a m \<and> acts_ok lucky as (act a m))"

lemma act_step: "exited m = None \<Longrightarrow> act_ok lucky a m \<Longrightarrow> monitor_step lucky m (act a m)"
  by (cases a) (auto intro: monitor_step.intros)

lemma acts_run: "monitor_run lucky m0 m \<Longrightarrow> acts_ok lucky as m \<Longrightarrow> monitor_run lucky m0 (fold act as m)"
  by (induction as arbitrary: m) (auto intro: act_step monitor_run.more)

definition stat_text :: "int \<Rightarrow> string" where
  "stat_text n = ''intr '' @ dec n @ '' 0'' @ [NL]"

lemma stat_text_head:
  assumes "length (dec n) < 2000"
  shows "\<exists>l ls. fgets_all 2048 (stat_text n) = l # ls \<and> has_prefix ''intr'' l \<and> atoi (drop 5 l) = int32 n"
proof -
  let ?p = "''intr '' @ dec n @ '' ''"
  have "NL \<notin> set ?p" "length ?p + 2 \<le> 2048" using assms dec_no_NL by auto
  then obtain r ls where "fgets_all 2048 (?p @ ''0'' @ [NL]) = (?p @ r) # ls"
    using fgets_head [of ?p 2048 "''0'' @ [NL]"] by auto
  moreover have "atoi (dec n @ '' '' @ r) = int32 n" by (rule atoi_dec) (simp add: is_digit_def)
  ultimately show ?thesis by (auto simp: stat_text_def)
qed

lemma read_stat_text: "length (dec n) < 2000 \<Longrightarrow> \<exists>d. read_intr (Some (stat_text n)) = Some (d, int32 n)"
  using read_intr_value [of "[]" n "''0'' @ [NL]"] by (auto simp: stat_text_def)

lemma read_samples:
  "\<exists>d. read_intr (Some (stat_text 100)) = Some (d, 100)"
  "\<exists>l ls. fgets_all 2048 (stat_text 110) = l # ls \<and> has_prefix ''intr'' l \<and> atoi (drop 5 l) = 110"
  "\<exists>l ls. fgets_all 2048 (stat_text 115) = l # ls \<and> has_prefix ''intr'' l \<and> atoi (drop 5 l) = 115"
proof -
  have "length (dec 100) < 2000" "length (dec 110) < 2000" "length (dec 115) < 2000" by code_simp+
  then show "\<exists>d. read_intr (Some (stat_text 100)) = Some (d, 100)"
    "\<exists>l ls. fgets_all 2048 (stat_text 110) = l # ls \<and> has_prefix ''intr'' l \<and> atoi (drop 5 l) = 110"
    "\<exists>l ls. fgets_all 2048 (stat_text 115) = l # ls \<and> has_prefix ''intr'' l \<and> atoi (drop 5 l) = 115"
    using read_stat_text [of 100] stat_text_head [of 110] stat_text_head [of 115] by (auto simp: int32_def)
qed

lemmas act_defs = install_handler_def deliver_def handler_step_def monitor_main_def

theorem interrupt_reports_exact_witness:
  "\<exists>m m'. monitor_main [] (Some (stat_text 100)) = Some m \<and> monitor_run True m m' \<and> stack m' = [] \<and>
     reports m' ITIMER_REAL = [10] \<and> sum_list (reports m' ITIMER_REAL) = old_intr m' ITIMER_REAL - cur_intr m"
proof -
  obtain d1 l ls where d: "read_intr (Some (stat_text 100)) = Some (d1, 100)"
    "fgets_all 2048 (stat_text 110) = l # ls" "has_prefix ''intr'' l" "atoi (drop 5 l) = 110"
    using read_samples by blast
  then obtain m where m: "monitor_main [] (Some (stat_text 100)) = Some m" by (simp add: monitor_main_def)
  let ?as = "[Install ITIMER_REAL, Signal ITIMER_REAL, Handle (stat_text 110), Handle [], Handle [], Handle [], Handle []]"
  let ?m' = "fold act ?as m"
  have ok: "acts_ok True ?as m" and st: "stack ?m' = []" and r: "reports ?m' ITIMER_REAL = [10]"
    using m d by (auto simp: act_defs)
  have run: "monitor_run True m ?m'" using acts_run [OF monitor_run.start ok] .
  show ?thesis using interrupt_reports_exact [OF m run st] m run st r by blast
qed

text \<open>
  A signal of another timer between the printing and the storing step makes the
  handler store a number it has not reported: with 100 interrupts at the start, 110 at the
  signal of the real timer and 115 at the nested signal of the virtual timer, the real timer has reported 10
  and will count from 115 on.
\<close>

theorem interrupt_reports_lost:
  "\<exists>m m'. monitor_main [] (Some (stat_text 100)) = Some m \<and> monitor_run False m m' \<and> stack m' = [] \<and>
     reports m' ITIMER_REAL = [10] \<and> old_intr m' ITIMER_REAL = 115"
proof -
  obtain d1 l ls l' ls' where d: "read_intr (Some (stat_text 100)) = Some (d1, 100)"
    "fgets_all 2048 (stat_text 110) = l # ls" "has_prefix ''intr'' l" "atoi (drop 5 l) = 110"
    "fgets_all 2048 (stat_text 115) = l' # ls'" "has_prefix ''intr'' l'" "atoi (drop 5 l') = 115"
    using read_samples by blast
  then obtain m where m: "monitor_main [] (Some (stat_text 100)) = Some m" by (simp add: monitor_main_def)
  let ?as = "[Install ITIMER_REAL, Install ITIMER_VIRTUAL, Signal ITIMER_REAL, Handle (stat_text 110), Handle [], Handle [],
    Handle [], Signal ITIMER_VIRTUAL, Handle (stat_text 115), Handle [], Handle [], Handle [], Handle [], Handle []]"
  have ok: "acts_ok False ?as m" and r: "stack (fold act ?as m) = [] \<and> reports (fold act ?as m) ITIMER_REAL = [10] \<and>
      old_intr (fold act ?as m) ITIMER_REAL = 115"
    using m d by (auto simp: act_defs)
  then show ?thesis using acts_run [OF monitor_run.start ok] m by blast
qed

text \<open>
  A signal of another timer while a handler reads the file is fatal: the nested handler overwrites \<open>procFile\<close> and closes
  its stream, and the outer \<open>fgets\<close> then uses the closed one.
\<close>

theorem interrupt_nested_closed:
  "\<exists>m m'. monitor_main [] (Some (stat_text 100)) = Some m \<and> monitor_run True m m' \<and>
     stack m' = [(ITIMER_REAL, H_scan 0)] \<and> reports m' ITIMER_VIRTUAL = [15] \<and> exited m' = Some 139"
proof -
  obtain d1 l ls l' ls' where d: "read_intr (Some (stat_text 100)) = Some (d1, 100)"
    "fgets_all 2048 (stat_text 110) = l # ls" "has_prefix ''intr'' l" "atoi (drop 5 l) = 110"
    "fgets_all 2048 (stat_text 115) = l' # ls'" "has_prefix ''intr'' l'" "atoi (drop 5 l') = 115"
    using read_samples by blast
  then obtain m where m: "monitor_main [] (Some (stat_text 100)) = Some m" by (simp add: monitor_main_def)
  let ?as = "[Install ITIMER_REAL, Install ITIMER_VIRTUAL, Signal ITIMER_REAL, Handle (stat_text 110),
    Signal ITIMER_VIRTUAL, Handle (stat_text 115), Handle [], Handle [], Handle [], Handle [], Handle []]"
  have ok: "acts_ok True ?as m" and r: "stack (fold act ?as m) = [(ITIMER_REAL, H_scan 0)] \<and>
      reports (fold act ?as m) ITIMER_VIRTUAL = [15] \<and> exited (fold act ?as m) = Some 139"
    using m d by (auto simp: act_defs)
  then show ?thesis using acts_run [OF monitor_run.start ok] m by blast
qed

end
