(* ===== verification/ProcModules.thy ===== *)
theory ProcModules
  imports CString
begin

text \<open>
  The kernel modules of \<open>src/4\<close>: \<open>pm1.c\<close>, \<open>pm11.c\<close>, \<open>pm2.c\<close> and \<open>pm3.c\<close> each add a directory with one file to
  \<open>/proc\<close>. Reading the file gives the tick counter, the time of day, the list of processes or the load
  averages; writing it changes a buffer of the module, or \<open>loops_per_jiffy\<close>. The entries of \<open>/proc\<close> are a list of
  paths, since the kernel enters a name again when it is registered twice and removes the entry it finds first.
\<close>

unbundle bit_operations_syntax

section \<open>Loading and unloading\<close>

type_synonym proc_tree = "string list list"

text \<open>
  The modules differ in the names they use; \<open>undo\<close> is the name they remove when the file cannot be
  created, and \<open>greet\<close> is what they copy into the buffer.
\<close>

record pm_names =
  PMDIR :: string
  PMFILE :: string
  undo :: string
  greet :: "string option"

definition pm1 :: pm_names where
  "pm1 = \<lparr>PMDIR = ''pm1dir'', PMFILE = ''pm1file'', undo = ''pm1file'', greet = Some ''Ticks=''\<rparr>"

definition pm11 :: pm_names where
  "pm11 = \<lparr>PMDIR = ''pm11dir'', PMFILE = ''pm11file'', undo = ''pm11file'', greet = None\<rparr>"

definition pm2 :: pm_names where
  "pm2 = \<lparr>PMDIR = ''pm2dir'', PMFILE = ''pm2file'', undo = ''myfile'', greet = Some ''Ticks=''\<rparr>"

definition pm3 :: pm_names where
  "pm3 = \<lparr>PMDIR = ''pm3dir'', PMFILE = ''pm3file'', undo = ''pm3file'', greet = Some ''Ticks=''\<rparr>"

text \<open>\<open>mydata\<close> is the buffer of 16 characters, \<open>below\<close> the byte in front of it.\<close>

record pm =
  tree :: proc_tree
  mydata :: string
  below :: char

definition MYDATA_LEN :: nat where "MYDATA_LEN = 16"

definition strcpy_data :: "string \<Rightarrow> string \<Rightarrow> string" where
  "strcpy_data src dst = src @ CHR 0x00 # drop (length src + 1) dst"

definition init_module :: "pm_names \<Rightarrow> bool \<Rightarrow> bool \<Rightarrow> pm \<Rightarrow> pm \<times> int" where
  "init_module c dir_ok file_ok s =
     (if \<not> dir_ok then (s, - 1)
      else
        (let s = s\<lparr>tree := [PMDIR c] # tree s\<rparr> in
         if \<not> file_ok then (s\<lparr>tree := remove1 [undo c] (tree s)\<rparr>, - ENOMEM)
         else
           (s\<lparr>tree := [PMDIR c, PMFILE c] # tree s,
              mydata := (case greet c of None \<Rightarrow> mydata s | Some g \<Rightarrow> strcpy_data g (mydata s))\<rparr>, 0)))"

definition cleanup_module :: "pm_names \<Rightarrow> pm \<Rightarrow> pm" where
  "cleanup_module c s = s\<lparr>tree := remove1 [PMDIR c] (remove1 [PMDIR c, PMFILE c] (tree s))\<rparr>"

text \<open>
  The contract of a module that can be loaded and unloaded any number of times: an unloading undoes a successful
  loading, and a loading that fails keeps \<open>/proc\<close> as it was, but for what \<open>residue\<close> allows.
\<close>

locale proc_module =
  fixes load :: "bool \<Rightarrow> bool \<Rightarrow> pm \<Rightarrow> pm \<times> int"
    and unload :: "pm \<Rightarrow> pm"
    and residue :: "proc_tree \<Rightarrow> proc_tree \<Rightarrow> bool"
  assumes unload_load: "load a b s = (s', 0) \<Longrightarrow> tree (unload s') = tree s"
    and load_result: "snd (load a b s) = 0 \<longleftrightarrow> a \<and> b"
    and load_fails: "load a b s = (s', r) \<Longrightarrow> r \<noteq> 0 \<Longrightarrow> tree s' = tree s \<or> a \<and> \<not> b \<and> residue (tree s) (tree s')"
begin

definition attempt :: "bool \<times> bool \<Rightarrow> pm \<Rightarrow> pm" where
  "attempt ab s = (let (s', r) = load (fst ab) (snd ab) s in if r = 0 then unload s' else s')"

lemma attempts_clean:
  assumes "\<forall>(a, b) \<in> set tries. a \<longrightarrow> b"
  shows "tree (fold attempt tries s) = tree s"
  using assms
proof (induction tries arbitrary: s)
  case (Cons ab tries)
  obtain s' r where l: "load (fst ab) (snd ab) s = (s', r)" by fastforce
  have "tree (attempt ab s) = tree s"
    using Cons.prems l unload_load [of "fst ab" "snd ab" s s'] load_fails [OF l]
    by (cases "r = 0") (auto simp: attempt_def)
  then show ?case using Cons by simp
qed simp

end

lemma pm_module:
  "proc_module (init_module c) (cleanup_module c) (\<lambda>t t'. t' = remove1 [undo c] ([PMDIR c] # t))"
  by unfold_locales
    (auto simp: init_module_def cleanup_module_def Let_def ENOMEM_def split: if_splits option.splits)

interpretation pm1: proc_module "init_module pm1" "cleanup_module pm1" "\<lambda>t t'. t' = remove1 [undo pm1] ([PMDIR pm1] # t)"
  by (rule pm_module)

interpretation pm11: proc_module "init_module pm11" "cleanup_module pm11" "\<lambda>t t'. t' = remove1 [undo pm11] ([PMDIR pm11] # t)"
  by (rule pm_module)

interpretation pm2: proc_module "init_module pm2" "cleanup_module pm2" "\<lambda>t t'. t' = remove1 [undo pm2] ([PMDIR pm2] # t)"
  by (rule pm_module)

interpretation pm3: proc_module "init_module pm3" "cleanup_module pm3" "\<lambda>t t'. t' = remove1 [undo pm3] ([PMDIR pm3] # t)"
  by (rule pm_module)

section \<open>Writing\<close>

text \<open>
  \<open>proc_write\<close> of \<open>pm1.c\<close>, \<open>pm11.c\<close> and \<open>pm2.c\<close>. \<open>k\<close> is the number of bytes \<open>copy_from_user\<close> can copy; it fills the
  rest with zeros and reports an error when \<open>k\<close> is too small. A write of no bytes stores its zero in front of the buffer.
\<close>

definition copy_from_user :: "nat \<Rightarrow> nat \<Rightarrow> string \<Rightarrow> string \<Rightarrow> string \<times> bool" where
  "copy_from_user k len buffer dst =
     (take (min k len) buffer @ replicate (len - min k len) (CHR 0x00) @ drop len dst, k < len)"

definition proc_write :: "nat \<Rightarrow> string \<Rightarrow> pm \<Rightarrow> pm \<times> int" where
  "proc_write k buffer s =
     (let len = (if MYDATA_LEN < length buffer then MYDATA_LEN else length buffer);
          (v, fault) = copy_from_user k len buffer (mydata s)
      in if fault then (s\<lparr>mydata := v\<rparr>, - EFAULT)
         else if len = 0 then (s\<lparr>mydata := v, below := CHR 0x00\<rparr>, 0)
         else (s\<lparr>mydata := v[len - 1 := CHR 0x00]\<rparr>, int len))"

text \<open>
  \<open>proc_write\<close> of \<open>pm3.c\<close> copies into a buffer on the stack that is not initialised (\<open>junk\<close>, with what
  lies above it) and does not terminate it before \<open>simple_strtol\<close> reads it.
\<close>

definition proc_write3 :: "(string \<Rightarrow> int) \<Rightarrow> string \<Rightarrow> nat \<Rightarrow> string \<Rightarrow> u32 \<times> int" where
  "proc_write3 simple_strtol junk k buffer =
     (let len = (if MYDATA_LEN < length buffer then MYDATA_LEN else length buffer)
      in (word_of_int (simple_strtol (takeWhile (\<lambda>c. c \<noteq> CHR 0x00) (fst (copy_from_user k len buffer junk)))), int len))"

section \<open>Reading\<close>

fun hex_nat :: "nat \<Rightarrow> string" where
  "hex_nat n =
     (let d = n mod 16; c = char_of (if d < 10 then 48 + d else 87 + d)
      in if n < 16 then [c] else hex_nat (n div 16) @ [c])"

declare hex_nat.simps [simp del]

definition pad :: "nat \<Rightarrow> char \<Rightarrow> string \<Rightarrow> string" where
  "pad k c s = replicate (k - length s) c @ s"

definition proc_read1 :: "u32 \<Rightarrow> string" where
  "proc_read1 jiffies = ''0x'' @ pad 8 (CHR ''0'') (hex_nat (unat jiffies)) @ [NL]"

definition proc_read11 :: "int \<Rightarrow> int \<Rightarrow> u32 \<Rightarrow> 64 word \<Rightarrow> string" where
  "proc_read11 sec usec j1 j2 =
     pad 10 (CHR '' '') (dec sec) @ ''.'' @ pad 6 (CHR ''0'') (dec usec) @ [NL] @
     ''0x'' @ pad 8 (CHR ''0'') (hex_nat (unat j1)) @ '' 0x'' @ pad 16 (CHR ''0'') (hex_nat (unat j2)) @ [NL]"

text \<open>
  \<open>pm2.c\<close>: tasks by address; the walk over the parents starts at the current task and ends at
  \<open>init_task\<close>. The result is the text \<open>sprintf\<close> has written to the page, which has 4096 bytes, whatever the length
  of the text.
\<close>

record ptask =
  t_pid :: int
  t_parent :: nat
  t_comm :: string

definition parent_line :: "(nat \<Rightarrow> ptask) \<Rightarrow> nat \<Rightarrow> string" where
  "parent_line ts t = dec (t_pid (ts t)) @ [TAB] @ dec (t_pid (ts (t_parent (ts t)))) @ [TAB] @ ''['' @ t_comm (ts t) @ '']'' @ [NL]"

partial_function (option) walk_parents :: "(nat \<Rightarrow> ptask) \<Rightarrow> nat \<Rightarrow> nat \<Rightarrow> string \<Rightarrow> string option" where
  "walk_parents ts init t page =
     (if t = init then Some (page @ parent_line ts t)
      else walk_parents ts init (t_parent (ts t)) (page @ parent_line ts t))"

definition task_line :: "(nat \<Rightarrow> ptask) \<Rightarrow> nat \<Rightarrow> string" where
  "task_line ts t = dec (t_pid (ts t)) @ [TAB] @ ''['' @ t_comm (ts t) @ '']'' @ [NL]"

definition heading_parents :: string where
  "heading_parents =
     [CHR 0xE9, CHR 0x81, CHR 0x8D, CHR 0xE5, CHR 0x8E, CHR 0x86, CHR 0xE7, CHR 0x88, CHR 0xB6,
      CHR 0xE8, CHR 0xBF, CHR 0x9B, CHR 0xE7, CHR 0xA8, CHR 0x8B, NL] @ ''pid'' @ [TAB] @ ''ppid'' @ [TAB] @ ''comm'' @ [NL]"

definition heading_tasks :: string where
  "heading_tasks =
     [CHR 0xE9, CHR 0x81, CHR 0x8D, CHR 0xE5, CHR 0x8E, CHR 0x86, CHR 0xE4, CHR 0xBB, CHR 0xBB,
      CHR 0xE5, CHR 0x8A, CHR 0xA1, CHR 0xE9, CHR 0x98, CHR 0x9F, CHR 0xE5, CHR 0x88, CHR 0x97, NL] @
     ''comm'' @ [TAB] @ ''pid'' @ [NL]"

definition proc_read2 :: "int \<Rightarrow> int \<Rightarrow> (nat \<Rightarrow> ptask) \<Rightarrow> nat \<Rightarrow> nat list \<Rightarrow> nat \<Rightarrow> pm \<Rightarrow> string option" where
  "proc_read2 jiffies hz ts init tasklist current s =
     map_option (\<lambda>page. page @ heading_tasks @ concat (map (task_line ts) tasklist))
       (walk_parents ts init current
          (takeWhile (\<lambda>c. c \<noteq> CHR 0x00) (mydata s) @ dec jiffies @ '' HZ='' @ dec hz @ [NL] @ heading_parents))"

text \<open>\<open>pm3.c\<close>: fixed-point numbers with 11 fraction bits.\<close>

definition LOAD_INT :: "u32 \<Rightarrow> u32" where
  "LOAD_INT x = drop_bit 11 x"

definition LOAD_FRAC :: "u32 \<Rightarrow> u32" where
  "LOAD_FRAC x = LOAD_INT ((x AND 2047) * 100)"

definition show_load :: "u32 \<Rightarrow> string" where
  "show_load x = dec (uint (LOAD_INT x)) @ ''.'' @ pad 2 (CHR ''0'') (dec (uint (LOAD_FRAC x)))"

definition bogomips :: "u32 \<Rightarrow> u32 \<Rightarrow> u32 \<times> u32" where
  "bogomips hz lpj = (lpj div (500000 div hz), lpj div (5000 div hz) mod 100)"

definition proc_read3 :: "int \<Rightarrow> u32 list \<Rightarrow> u32 \<Rightarrow> u32 \<Rightarrow> string" where
  "proc_read3 param avenrun hz lpj =
     (if param = 0 then
        show_load (avenrun ! 0) @ '' '' @ show_load (avenrun ! 1) @ '' '' @ show_load (avenrun ! 2) @ [NL]
      else if param = 1 then
        ''loops_per_jiffy:'' @ dec (uint lpj) @ [NL] @ ''bogomips=lpj/(500000/HZ):'' @ [NL] @
        dec (uint (fst (bogomips hz lpj))) @ ''.'' @ pad 2 (CHR ''0'') (dec (uint (snd (bogomips hz lpj)))) @ [NL]
      else [])"

section \<open>The buffer and the load averages\<close>

text \<open>The buffer keeps its size and always holds a terminated string.\<close>

definition pm_ok :: "pm \<Rightarrow> bool" where
  "pm_ok s \<longleftrightarrow> length (mydata s) = MYDATA_LEN \<and> CHR 0x00 \<in> set (mydata s)"

lemma copy_from_user_length:
  "len \<le> length buffer \<Longrightarrow> len \<le> length dst \<Longrightarrow> length (fst (copy_from_user k len buffer dst)) = length dst"
  by (simp add: copy_from_user_def)

lemma proc_write_ok: "pm_ok s \<Longrightarrow> pm_ok (fst (proc_write k buffer s))"
proof -
  assume ok: "pm_ok s"
  define len where "len = (if MYDATA_LEN < length buffer then MYDATA_LEN else length buffer)"
  obtain v fault where v: "copy_from_user k len buffer (mydata s) = (v, fault)" by fastforce
  have len: "len \<le> MYDATA_LEN" "len \<le> length buffer" by (auto simp: len_def)
  then have lv: "length v = MYDATA_LEN"
    using ok v copy_from_user_length [of len buffer "mydata s" k] by (simp add: pm_ok_def)
  have "CHR 0x00 \<in> set v" if "fault \<or> len = 0"
    using that v ok by (auto simp: copy_from_user_def pm_ok_def)
  moreover have "CHR 0x00 \<in> set (v[len - 1 := CHR 0x00])" if "len \<noteq> 0"
    using that lv len(1) by (intro set_update_memI) (simp add: MYDATA_LEN_def)
  ultimately show ?thesis
    using ok v lv by (auto simp: proc_write_def pm_ok_def Let_def simp flip: len_def)
qed

lemma init_module_ok: "pm_ok s \<Longrightarrow> c \<in> {pm1, pm11, pm2} \<Longrightarrow> pm_ok (fst (init_module c a b s))"
  by (auto simp: init_module_def pm_ok_def strcpy_data_def Let_def MYDATA_LEN_def pm1_def pm11_def pm2_def)

lemma cleanup_module_ok: "pm_ok s \<Longrightarrow> pm_ok (cleanup_module c s)"
  by (simp add: cleanup_module_def pm_ok_def)

text \<open>The walk over the parents ends when every task descends from \<open>init_task\<close>.\<close>

fun ancestors :: "(nat \<Rightarrow> ptask) \<Rightarrow> nat \<Rightarrow> nat \<Rightarrow> nat list" where
  "ancestors ts t 0 = []"
| "ancestors ts t (Suc k) = t # ancestors ts (t_parent (ts t)) k"

fun descends :: "(nat \<Rightarrow> ptask) \<Rightarrow> nat \<Rightarrow> nat \<Rightarrow> nat \<Rightarrow> bool" where
  "descends ts init t 0 \<longleftrightarrow> t = init"
| "descends ts init t (Suc k) \<longleftrightarrow> t \<noteq> init \<and> descends ts init (t_parent (ts t)) k"

lemma walk_parents_ends:
  "descends ts init t k \<Longrightarrow>
   walk_parents ts init t page = Some (page @ concat (map (parent_line ts) (ancestors ts t (Suc k))))"
proof (induction k arbitrary: t page)
  case 0
  then show ?case by (subst walk_parents.simps) simp
next
  case (Suc k)
  then show ?case by (subst walk_parents.simps) simp
qed

lemma dec_nonempty: "1 \<le> length (dec i)"
  using dec_nat_nonempty by (simp add: dec_def Suc_le_eq)

lemma task_line_length: "5 \<le> length (task_line ts t)"
  using dec_nonempty [of "t_pid (ts t)"] by (simp add: task_line_def del: One_nat_def)

lemma task_lines_length: "5 * length tasks \<le> length (concat (map (task_line ts) tasks))"
proof (induction tasks)
  case (Cons t tasks)
  then show ?case using task_line_length [of ts t] by simp
qed simp

lemma LOAD_unat:
  "unat (LOAD_INT x) = unat x div 2048" "unat (LOAD_FRAC x) = unat x mod 2048 * 100 div 2048"
proof -
  show i: "unat (LOAD_INT x) = unat x div 2048" for x
    by (simp add: LOAD_INT_def drop_bit_eq_div unat_div_distrib)
  have m: "x AND 2047 = take_bit 11 x" by (simp add: take_bit_eq_mask mask_eq_exp_minus_1)
  have "unat (take_bit 11 x) = unat x mod 2048" by (simp add: take_bit_eq_mod unat_mod_distrib)
  moreover have "unat x mod 2048 < 2048" by simp
  ultimately have "unat (take_bit 11 x * 100) = unat x mod 2048 * 100"
    by (subst unat_mult_lem [THEN iffD1]) simp_all
  then show "unat (LOAD_FRAC x) = unat x mod 2048 * 100 div 2048" by (simp add: LOAD_FRAC_def i m)
qed

text \<open>
  Any sequence of loading, unloading and writing, successful or not, of one of the modules that share this \<open>proc_write\<close>: \<open>pm1\<close>,
  \<open>pm11\<close>, \<open>pm2\<close>. (The module \<open>pm3\<close> has another, \<open>proc_write3\<close>, which does not touch the buffer.)
\<close>

datatype pm_op = Load bool bool | Unload | Write nat string

fun pm_do :: "pm_names \<Rightarrow> pm_op \<Rightarrow> pm \<Rightarrow> pm" where
  "pm_do c (Load a b) s = fst (init_module c a b s)"
| "pm_do c Unload s = cleanup_module c s"
| "pm_do c (Write k buffer) s = fst (proc_write k buffer s)"

definition pm_boot :: "proc_tree \<Rightarrow> char \<Rightarrow> pm" where
  "pm_boot t b = \<lparr>tree = t, mydata = replicate MYDATA_LEN (CHR 0x00), below = b\<rparr>"

lemma pm_do_ok: "c \<in> {pm1, pm11, pm2} \<Longrightarrow> pm_ok s \<Longrightarrow> pm_ok (fold (pm_do c) ops s)"
proof (induction ops arbitrary: s)
  case (Cons x ops)
  then have "pm_ok (pm_do c x s)" by (cases x) (auto intro: init_module_ok cleanup_module_ok proc_write_ok)
  with Cons show ?case by simp
qed simp

text \<open>
  C34: after any sequence of loads, unloads and writes of \<open>pm1\<close>, \<open>pm11\<close> or \<open>pm2\<close> (not of \<open>pm3\<close>, which has another
  \<open>proc_write\<close>), with any failures of
  the kernel calls in them, the buffer has its 16 bytes and one of them is zero, so that the \<open>%s\<close> of \<open>pm2.c\<close> prints at
  most 15 characters of it. A write of one to sixteen bytes, if it is not interrupted by a fault,
  stores the bytes with the last one replaced by the zero.
\<close>

theorem proc_buffer_terminated:
  assumes "c \<in> {pm1, pm11, pm2}" "s = fold (pm_do c) ops (pm_boot t b)"
  shows "length (mydata s) = 16 \<and> length (takeWhile (\<lambda>c. c \<noteq> CHR 0x00) (mydata s)) < 16 \<and>
    (\<forall>bs k. 0 < length bs \<and> length bs \<le> 16 \<and> length bs \<le> k \<longrightarrow>
       proc_write k bs s = (s\<lparr>mydata := butlast bs @ CHR 0x00 # drop (length bs) (mydata s)\<rparr>, int (length bs)))"
proof (intro conjI allI impI)
  have "pm_ok (pm_boot t b)" by (simp add: pm_boot_def pm_ok_def MYDATA_LEN_def)
  then have ok: "pm_ok s" using assms pm_do_ok by simp
  then show l: "length (mydata s) = 16" by (simp add: pm_ok_def MYDATA_LEN_def)
  have "takeWhile (\<lambda>c. c \<noteq> CHR 0x00) (mydata s) \<noteq> mydata s"
    using ok takeWhile_eq_all_conv [of "\<lambda>c. c \<noteq> CHR 0x00" "mydata s"] by (auto simp: pm_ok_def)
  then show "length (takeWhile (\<lambda>c. c \<noteq> CHR 0x00) (mydata s)) < 16"
    using l by (metis le_neq_implies_less length_takeWhile_le takeWhile_eq_take take_all order_refl)
  fix bs :: string and k
  assume bs: "0 < length bs \<and> length bs \<le> 16 \<and> length bs \<le> k"
  then obtain x y where "bs = x @ [y]" by (cases bs rule: rev_cases) auto
  with bs l show "proc_write k bs s = (s\<lparr>mydata := butlast bs @ CHR 0x00 # drop (length bs) (mydata s)\<rparr>, int (length bs))"
    by (simp add: proc_write_def copy_from_user_def MYDATA_LEN_def Let_def list_update_append)
qed

theorem proc_buffer_terminated_witness:
  "let s = fold (pm_do pm2) [Load True True, Write 3 ''abcde''] (pm_boot [] CHR ''x'') in
   mydata s = ''abc'' @ [CHR 0x00, CHR 0x00] @ ''='' @ replicate 10 (CHR 0x00) \<and>
   proc_write 9 ''abc'' s =
     (s\<lparr>mydata := ''ab'' @ [CHR 0x00, CHR 0x00, CHR 0x00] @ ''='' @ replicate 10 (CHR 0x00)\<rparr>, 3)"
proof -
  let ?s = "fold (pm_do pm2) [Load True True, Write 3 ''abcde''] (pm_boot [] CHR ''x'')"
  have "mydata ?s = ''abc'' @ [CHR 0x00, CHR 0x00] @ ''='' @ replicate 10 (CHR 0x00)" by code_simp
  then show ?thesis
    using proc_buffer_terminated [of pm2 ?s "[Load True True, Write 3 ''abcde'']" "[]" "CHR ''x''"]
    by (simp add: Let_def)
qed

text \<open>
  Loading and unloading each of the four modules any number of times, where the creation
  of the directory but not that of the file may fail, leaves \<open>/proc\<close> as it was. When the file cannot be created
  the directory stays, and an entry of the root directory with the name of the file, if there is one, goes.
\<close>

theorem proc_modules_reload:
  assumes "c \<in> {pm1, pm11, pm2, pm3}"
  shows "(\<forall>ok. \<forall>s' r. init_module c ok True s = (s', r) \<longrightarrow>
       (r = 0 \<longleftrightarrow> ok) \<and> tree (if r = 0 then cleanup_module c s' else s') = tree s) \<and>
    init_module c True False s = (s\<lparr>tree := [PMDIR c] # remove1 [undo c] (tree s)\<rparr>, - ENOMEM)"
proof (intro conjI allI impI)
  fix ok s' r
  assume l: "init_module c ok True s = (s', r)"
  show "r = 0 \<longleftrightarrow> ok" using l proc_module.load_result [OF pm_module, of c ok True s] by simp
  show "tree (if r = 0 then cleanup_module c s' else s') = tree s"
    using l proc_module.unload_load [OF pm_module, of c ok True s s'] proc_module.load_fails [OF pm_module l] by auto
next
  show "init_module c True False s = (s\<lparr>tree := [PMDIR c] # remove1 [undo c] (tree s)\<rparr>, - ENOMEM)"
    using assms by (auto simp: init_module_def Let_def pm1_def pm11_def pm2_def pm3_def)
qed

theorem proc_modules_reload_witness:
  "tree (cleanup_module pm2 (fst (init_module pm2 True True (pm_boot [[''x'']] CHR ''x'')))) = [[''x'']] \<and>
   tree (fst (init_module pm2 True False (pm_boot [[''myfile''], [''x'']] CHR ''x''))) = [[''pm2dir''], [''x'']]"
proof -
  let ?a = "pm_boot [[''x'']] CHR ''x''" and ?b = "pm_boot [[''myfile''], [''x'']] CHR ''x''"
  obtain s' r where s: "init_module pm2 True True ?a = (s', r)" by fastforce
  have "tree (cleanup_module pm2 s') = tree ?a"
    using proc_modules_reload [of pm2 ?a] s by (auto split: if_splits)
  moreover have "tree (fst (init_module pm2 True False ?b)) = [PMDIR pm2] # remove1 [undo pm2] (tree ?b)"
    using proc_modules_reload [of pm2 ?b] by simp
  ultimately show ?thesis using s by (simp add: pm_boot_def pm2_def)
qed

text \<open>
  C35: reading \<open>pm2file\<close> returns when the reader descends from \<open>init_task\<close>, in \<open>k\<close> generations; the text
  lists these generations from the reader to \<open>init_task\<close> and then every process, and is longer than the
  page of 4096 bytes, into which it is written without a check, as soon as there are 820 processes.
\<close>

theorem process_listing:
  assumes "descends ts init current k"
  shows "\<exists>page. proc_read2 jiffies hz ts init tasks current s =
      Some (page @ concat (map (parent_line ts) (ancestors ts current (Suc k))) @ heading_tasks @
            concat (map (task_line ts) tasks)) \<and>
    (820 \<le> length tasks \<longrightarrow> 4096 \<le> length (the (proc_read2 jiffies hz ts init tasks current s)))"
proof -
  define page where "page = takeWhile (\<lambda>c. c \<noteq> CHR 0x00) (mydata s) @ dec jiffies @ '' HZ='' @ dec hz @ [NL] @ heading_parents"
  have e: "proc_read2 jiffies hz ts init tasks current s =
      Some (page @ concat (map (parent_line ts) (ancestors ts current (Suc k))) @ heading_tasks @
            concat (map (task_line ts) tasks))"
    using walk_parents_ends [OF assms, of page] by (simp add: proc_read2_def page_def)
  moreover have "4096 \<le> length (the (proc_read2 jiffies hz ts init tasks current s))" if "820 \<le> length tasks"
    using that task_lines_length [of tasks ts] by (simp add: e)
  ultimately show ?thesis by blast
qed

theorem process_listing_witness:
  "let ts = (\<lambda>t. if t = 2 then \<lparr>t_pid = 7, t_parent = 1, t_comm = ''cat''\<rparr>
                 else \<lparr>t_pid = int t, t_parent = 0, t_comm = ''x''\<rparr>) in
   \<exists>page. proc_read2 0 100 ts 0 [0, 1, 2] 2 (pm_boot [] CHR ''x'') =
      Some (page @ concat (map (parent_line ts) [2, 1, 0]) @ heading_tasks @ concat (map (task_line ts) [0, 1, 2]))"
proof -
  let ?ts = "\<lambda>t. if t = 2 then \<lparr>t_pid = 7, t_parent = 1, t_comm = ''cat''\<rparr>
    else \<lparr>t_pid = int t, t_parent = 0, t_comm = ''x''\<rparr>"
  have "descends ?ts 0 2 2" by (simp add: numeral_2_eq_2)
  moreover have "ancestors ?ts 2 (Suc 2) = [2, 1, 0]" by (simp add: numeral_2_eq_2)
  ultimately show ?thesis
    using process_listing [of ?ts 0 2 2 0 100 "[0, 1, 2]" "pm_boot [] CHR ''x''"] by (auto simp: Let_def)
qed

lemma hundredths: "100 * (n div (d * 100)) + n div d mod 100 = n div (d :: nat)"
  by (simp add: div_mult2_eq)

text \<open>
  The two parts of a printed load average are the fixed-point number truncated to
  hundredths, with the second part below 100; the two parts of the printed BogoMIPS value agree in
  the same way where HZ divides 5000, as 100, 250 and 1000 do (for 300 they do not).
\<close>

theorem load_average_exact:
  "100 * unat (LOAD_INT x) + unat (LOAD_FRAC x) = 100 * unat x div 2048 \<and> unat (LOAD_FRAC x) < 100 \<and>
   (hz \<in> {100, 250, 1000} \<longrightarrow>
      100 * unat (fst (bogomips hz lpj)) + unat (snd (bogomips hz lpj)) = unat lpj div (5000 div unat hz)) \<and>
   bogomips 300 1667 = (1, 4)"
proof (intro conjI impI)
  have "100 * unat x div 2048 = 100 * (unat x div 2048) + 100 * (unat x mod 2048) div 2048"
  proof -
    have "unat x = unat x mod 2048 + unat x div 2048 * 2048" by simp
    then have "100 * unat x = 100 * (unat x mod 2048) + (100 * (unat x div 2048)) * 2048" by linarith
    then show ?thesis by (metis div_mult_self1 add.commute zero_neq_numeral)
  qed
  then show "100 * unat (LOAD_INT x) + unat (LOAD_FRAC x) = 100 * unat x div 2048"
    by (simp add: LOAD_unat mult.commute)
  show "unat (LOAD_FRAC x) < 100" by (simp add: LOAD_unat less_mult_imp_div_less)
  assume "hz \<in> {100, 250, 1000}"
  then show "100 * unat (fst (bogomips hz lpj)) + unat (snd (bogomips hz lpj)) = unat lpj div (5000 div unat hz)"
    using hundredths [of "unat lpj" 50] hundredths [of "unat lpj" 20] hundredths [of "unat lpj" 5]
    by (auto simp: bogomips_def unat_div_distrib unat_mod_distrib)
next
  show "bogomips 300 1667 = (1, 4)" by (simp add: bogomips_def)
qed

theorem load_average_exact_witness:
  "100 * unat (LOAD_INT 3000) + unat (LOAD_FRAC 3000) = 146 \<and>
   100 * unat (fst (bogomips 250 4390000)) + unat (snd (bogomips 250 4390000)) = 219500"
  using load_average_exact [of 3000 250 4390000] by simp

text \<open>
  Writing a number below \<open>2 ^ 32\<close> in decimal and a newline to \<open>pm3file\<close> sets \<open>loops_per_jiffy\<close> to
  it, whatever was on the stack, and a read with \<open>param\<close> 1 then shows the number. What is used
  of \<open>simple_strtol\<close> is that it returns the number before the first character that is no digit.
\<close>

theorem loops_write_read:
  assumes strtol: "\<And>i c r. \<not> is_digit c \<Longrightarrow> simple_strtol (dec i @ c # r) = i"
    and "0 \<le> n" "n < 2 ^ 32" "length (dec n) < k" "length junk = 16"
    and "proc_write3 simple_strtol junk k (dec n @ [NL]) = (lpj, r)"
  shows "uint lpj = n \<and> r = int (length (dec n)) + 1 \<and>
    (\<exists>rest. proc_read3 1 avenrun hz lpj = ''loops_per_jiffy:'' @ dec n @ [NL] @ rest)"
proof -
  have "nat n < 10 ^ 10" using assms(2,3) by (simp add: nat_less_iff)
  then have l: "length (dec n) \<le> 10" using assms(2) dec_nat_length [of "nat n" 10] by (simp add: dec_def)
  let ?m = "takeWhile (\<lambda>c. c \<noteq> CHR 0x00) (drop (length (dec n) + 1) junk)"
  have z: "CHR 0x00 \<notin> set (dec n)" using dec_nat_digits [of "CHR 0x00"] by (auto simp: dec_def is_digit_def)
  have "fst (copy_from_user k (length (dec n @ [NL])) (dec n @ [NL]) junk) = dec n @ NL # drop (length (dec n) + 1) junk"
    using assms(4) by (simp add: copy_from_user_def min_absorb2)
  moreover have "takeWhile (\<lambda>c. c \<noteq> CHR 0x00) (dec n @ NL # drop (length (dec n) + 1) junk) = dec n @ NL # ?m"
    using z by (auto simp: takeWhile_append_if)
  moreover have "simple_strtol (dec n @ NL # ?m) = n" by (rule strtol) (simp add: is_digit_def)
  ultimately have "lpj = word_of_int n" "r = int (length (dec n)) + 1"
    using assms(6) l by (auto simp: proc_write3_def Let_def MYDATA_LEN_def)
  then show ?thesis using assms(2,3) by (simp add: proc_read3_def unsigned_of_int take_bit_int_eq_self)
qed

lemma strtol10_number: "\<not> is_digit c \<Longrightarrow> strtol10 (dec i @ c # r) = i"
  by (simp add: strtol10_dec)

theorem loops_write_read_witness:
  "uint (fst (proc_write3 strtol10 (replicate 16 CHR ''7'') 100 (dec 4390 @ [NL]))) = 4390"
proof -
  obtain lpj r where p: "proc_write3 strtol10 (replicate 16 CHR ''7'') 100 (dec 4390 @ [NL]) = (lpj, r)" by fastforce
  have "length (dec 4390) < 100" by code_simp
  then show ?thesis
    using loops_write_read [OF strtol10_number _ _ _ _ p] p by simp
qed

end
