(* ===== verification/Observer.thy ===== *)
theory Observer
  imports CString
begin

text \<open>
  \<open>src/1/observer.c\<close>: a program that prints what the files under \<open>/proc\<close> say about the system: name, processor and
  versions (part A), memory and running time (part B), processor statistics (part C), and the load averages
  at regular intervals (part D). Every file is read through one buffer of 81 bytes. The output is a list of items; the
  labels in front of the values are left out.
\<close>

section \<open>Files and output\<close>

record tm =
  tm_sec :: int
  tm_min :: int
  tm_hour :: int
  tm_mday :: int
  tm_mon :: int
  tm_year :: int

datatype item =
  Load_avg "string option" "string option" "string option"
| Error string
| Current_time string
| Seconds int int
| Up_since int int int int tm
| Idle_for int int int int
| Idle_ratio int
| Date int int int int int int
| Quote string string
| Cpu_model nat string
| Memory string string
| Cpu_times nat "string list"
| Counter string int
| Separator

record oenv =
  files :: "string \<Rightarrow> string option"
  clock_now :: int
  ctime :: "int \<Rightarrow> string"
  localtime :: "int \<Rightarrow> tm"

record observer =
  lineBuf :: string
  out :: "item list"

definition LB_SIZE :: nat where "LB_SIZE = 80"

definition print :: "item list \<Rightarrow> observer \<Rightarrow> observer" where
  "print is s = s\<lparr>out := out s @ is\<rparr>"

text \<open>\<open>while (fgets (lineBuf, LB_SIZE + 1, f) != NULL) ...\<close> on the contents of an open file.\<close>

definition each_line :: "(string \<Rightarrow> item list) \<Rightarrow> string \<Rightarrow> observer \<Rightarrow> observer" where
  "each_line f text s =
     (let ls = fgets_all (LB_SIZE + 1) text
      in s\<lparr>lineBuf := (if ls = [] then lineBuf s else last ls), out := out s @ concat (map f ls)\<rparr>)"

section \<open>Load averages and times\<close>

definition blank :: "char \<Rightarrow> bool" where
  "blank c \<longleftrightarrow> c = CHR '' ''"

definition blank_slash :: "char \<Rightarrow> bool" where
  "blank_slash c \<longleftrightarrow> c = CHR '' '' \<or> c = CHR ''/''"

text \<open>The calls \<open>strtok (NULL, d)\<close> of a loop; after the end of the string each returns a null pointer.\<close>

fun strtok_times :: "nat \<Rightarrow> (char \<Rightarrow> bool) \<Rightarrow> string \<Rightarrow> string option list" where
  "strtok_times 0 d s = []"
| "strtok_times (Suc k) d s =
     (case strtok d s of
        None \<Rightarrow> None # strtok_times k d []
      | Some (w, r) \<Rightarrow> Some w # strtok_times k d r)"

definition sampleLoadAvg :: "oenv \<Rightarrow> observer \<Rightarrow> observer" where
  "sampleLoadAvg e s =
     (case files e ''/proc/loadavg'' of
        None \<Rightarrow> print [Error ''cannot open file /proc/loadavg''] s
      | Some text \<Rightarrow>
          (let buf = (case fgets (LB_SIZE + 1) text of None \<Rightarrow> lineBuf s | Some (l, _) \<Rightarrow> l);
               first = strtok blank buf;
               others = strtok_times 5 blank_slash (case first of None \<Rightarrow> [] | Some (_, r) \<Rightarrow> r)
           in print [Load_avg (map_option fst first) (others ! 0) (others ! 1)]
                (s\<lparr>lineBuf := takeWhile blank buf @ (case first of None \<Rightarrow> [] | Some (w, _) \<Rightarrow> w)\<rparr>)))"

definition split_time :: "int \<Rightarrow> int \<times> int \<times> int \<times> int" where
  "split_time t = (cdiv t 86400, cdiv (cmod t 86400) 3600, cdiv (cmod t 3600) 60, cmod t 60)"

definition sampleTime :: "oenv \<Rightarrow> observer \<Rightarrow> observer sh" where
  "sampleTime e s =
     (let s = print [Current_time (ctime e (clock_now e))] s in
      case files e ''/proc/uptime'' of
        None \<Rightarrow> Go (print [Error ''cannot open file /proc/uptime''] s)
      | Some text \<Rightarrow>
          (case fgets (LB_SIZE + 1) text of
             None \<Rightarrow> Go (print [Error ''Read /proc/uptime error''] s)
           | Some (l, _) \<Rightarrow>
               (case strtok_times 2 blank l of
                  [Some u, Some i] \<Rightarrow>
                    (let uptime = atoi u; idletime = atoi i;
                         (day, hour, minute, second) = split_time uptime;
                         (iday, ihour, iminute, isecond) = split_time idletime;
                         s = print [Seconds uptime idletime,
                                    Up_since day hour minute second (localtime e (clock_now e - uptime)),
                                    Idle_for iday ihour iminute isecond] (s\<lparr>lineBuf := takeWhile blank l @ u\<rparr>)
                     in if uptime = 0 then Crash else Go (print [Idle_ratio (cdiv idletime uptime)] s))
                | _ \<Rightarrow> Crash)))"

section \<open>The four parts\<close>

text \<open>Part A does not check that \<open>rtc\<close>, \<open>version\<close> and \<open>version_signature\<close> could be opened.\<close>

definition must_open :: "oenv \<Rightarrow> string \<Rightarrow> (string \<Rightarrow> observer sh) \<Rightarrow> observer sh" where
  "must_open e path f = (case files e path of None \<Rightarrow> Crash | Some text \<Rightarrow> f text)"

definition rtc_line :: "string \<Rightarrow> item list" where
  "rtc_line l =
     (if has_prefix ''rtc_time'' l then [Quote ''time'' (drop 8 l)] else []) @
     (if has_prefix ''rtc_date'' l then [Quote ''date'' (drop 8 l)] else [])"

fun cpu_models :: "nat \<Rightarrow> string list \<Rightarrow> item list" where
  "cpu_models n [] = []"
| "cpu_models n (l # ls) =
     (if has_prefix ''model name'' l then Cpu_model n l # cpu_models (n + 1) ls else cpu_models n ls)"

definition do_part_A :: "oenv \<Rightarrow> observer \<Rightarrow> (observer \<times> int) sh" where
  "do_part_A e s =
     (let t = localtime e (clock_now e);
          s = print [Date (1900 + tm_year t) (tm_mon t + 1) (tm_mday t + 1) (tm_hour t) (tm_min t) (tm_sec t)] s
      in sbind (must_open e ''/proc/driver/rtc'' (\<lambda>text. Go (each_line rtc_line text s))) (\<lambda>s.
         case files e ''/proc/sys/kernel/hostname'' of
           None \<Rightarrow> Go (print [Error ''open file error:/proc/sys/kernel/hostname''] s, - 1)
         | Some text \<Rightarrow>
             (let s = each_line (\<lambda>l. [Quote ''hostname'' l]) text s in
              case files e ''/proc/cpuinfo'' of
                None \<Rightarrow> Go (print [Error ''open file error!''] s, - 1)
              | Some text \<Rightarrow>
                  (let s = print (cpu_models 1 (fgets_all (LB_SIZE + 1) text)) (each_line (\<lambda>_. []) text s) in
                   sbind (must_open e ''/proc/version'' (\<lambda>text. Go (each_line (\<lambda>l. [Quote ''version'' l]) text s))) (\<lambda>s.
                   sbind (must_open e ''/proc/version_signature'' (\<lambda>text. Go (each_line (\<lambda>l. [Quote ''signature'' l]) text s)))
                     (\<lambda>s. Go (s, 0)))))))"

text \<open>\<open>%30.30s\<close>: at most 30 characters, set to the right.\<close>

definition right30 :: "string \<Rightarrow> string" where
  "right30 s = replicate (30 - length s) (CHR '' '') @ take 30 s"

definition mem_line :: "string \<Rightarrow> item list" where
  "mem_line l =
     (if has_prefix ''MemTotal'' l then [Memory ''total'' (right30 (drop 9 l))] else []) @
     (if has_prefix ''MemFree'' l then [Memory ''free'' (right30 (drop 8 l))] else []) @
     (if has_prefix ''Buffers'' l then [Memory ''buffers'' (right30 (drop 8 l))] else []) @
     (if has_prefix ''Cached'' l then [Memory ''cached'' (right30 (drop 7 l))] else [])"

definition do_part_B :: "oenv \<Rightarrow> observer \<Rightarrow> (observer \<times> int) sh" where
  "do_part_B e s =
     (case files e ''/proc/meminfo'' of
        None \<Rightarrow> Go (print [Error ''cannot open /proc/meminfo''] s, - 1)
      | Some text \<Rightarrow> sbind (sampleTime e (each_line mem_line text s)) (\<lambda>s. Go (s, 0)))"

text \<open>
  Part C. The words of a \<open>cpu\<close> line go to an array of 16 pointers, with a null pointer behind them;
  four of them are printed, where the null pointer reads \<open>(null)\<close> and the entries behind it are uninitialised.
\<close>

definition cpu_words :: "string \<Rightarrow> string list sh" where
  "cpu_words l =
     (let ws = strtok_all blank l in
      if ws = [] \<or> 15 < length ws \<or> length ws < 4 then Crash
      else Go (take 4 (tl ws @ [''(null)''])))"

fun stat_lines :: "nat \<Rightarrow> string list \<Rightarrow> item list sh" where
  "stat_lines n [] = Go []"
| "stat_lines n (l # ls) =
     (if has_prefix ''cpu'' l then
        sbind (cpu_words l) (\<lambda>ws. sbind (stat_lines (n + 1) ls) (\<lambda>is. Go (Cpu_times n ws # is)))
      else
        sbind (stat_lines n ls) (\<lambda>is. Go (
          if has_prefix ''ctxt'' l then Counter ''ctxt'' (atoi (drop 4 l)) # is
          else if has_prefix ''processes'' l then Counter ''processes'' (atoi (drop 9 l)) # is
          else if has_prefix ''procs_running'' l then Counter ''procs_running'' (atoi (drop 13 l)) # is
          else if has_prefix ''procs_blocked'' l then Counter ''procs_blocked'' (atoi (drop 13 l)) # is
          else is)))"

definition do_part_C :: "oenv \<Rightarrow> observer \<Rightarrow> observer sh" where
  "do_part_C e s =
     (case files e ''/proc/stat'' of
        None \<Rightarrow> Go (print [Error ''cannot open /proc/stat''] s)
      | Some text \<Rightarrow>
          sbind (stat_lines 0 (fgets_all (LB_SIZE + 1) text)) (\<lambda>is. Go (print is (each_line (\<lambda>_. []) text s))))"

text \<open>Part D: \<open>es\<close> gives the files at each sample; \<open>f k\<close> takes and prints sample number \<open>k\<close>.\<close>

partial_function (option) load_loop :: "(nat \<Rightarrow> observer \<Rightarrow> observer) \<Rightarrow> int \<Rightarrow> int \<Rightarrow> int \<Rightarrow> nat \<Rightarrow> observer \<Rightarrow> observer option" where
  "load_loop f interval duration iteration k s =
     (if iteration < duration then load_loop f interval duration (int32 (iteration + interval)) (k + 1) (f k s)
      else Some s)"

definition take_sample :: "(nat \<Rightarrow> oenv) \<Rightarrow> nat \<Rightarrow> observer \<Rightarrow> observer" where
  "take_sample es k s = print [Separator] (sampleLoadAvg (es k) s)"

definition do_part_D :: "(nat \<Rightarrow> oenv) \<Rightarrow> string \<Rightarrow> string \<Rightarrow> observer \<Rightarrow> observer option" where
  "do_part_D es interval_str duration_str s =
     (let interval = atoi interval_str; duration = atoi duration_str
      in load_loop (take_sample es) interval duration interval 1 (take_sample es 0 s))"

text \<open>
  \<open>main\<close>, with the arguments after the name of the program; \<open>None\<close> is a run that does not end. An argument other than the
  three letters does nothing.
\<close>

definition observer_main :: "(nat \<Rightarrow> oenv) \<Rightarrow> string list \<Rightarrow> observer \<Rightarrow> observer sh option" where
  "observer_main es argv s =
     (case argv of
        [] \<Rightarrow> Some (sbind (do_part_A (es 0) s) (\<lambda>(s, _). Go s))
      | a # args \<Rightarrow>
          if length a < 2 \<or> a ! 0 \<noteq> CHR ''-'' then Some (Exit 1)
          else if a ! 1 = CHR ''b'' then Some (sbind (do_part_B (es 0) s) (\<lambda>(s, _). Go s))
          else if a ! 1 = CHR ''c'' then Some (do_part_C (es 0) s)
          else if a ! 1 = CHR ''d'' then
            (if length args < 2 then Some (Exit 1)
             else map_option Go (do_part_D es (args ! 0) (args ! 1) s))
          else Some (Go s))"

section \<open>What is printed\<close>

lemma split_time_unique:
  fixes t :: int
  assumes "t = 86400 * d + 3600 * h + 60 * m + s" "0 \<le> h" "h < 24" "0 \<le> m" "m < 60" "0 \<le> s" "s < 60"
  shows "t div 86400 = d" "t mod 86400 div 3600 = h" "t mod 3600 div 60 = m" "t mod 60 = s"
proof -
  have a: "t = 86400 * d + (3600 * h + 60 * m + s)" "t = 3600 * (24 * d + h) + (60 * m + s)"
    "t = 60 * (1440 * d + 60 * h + m) + s"
    using assms(1) by simp_all
  show "t div 86400 = d" using int_div_pos_eq [OF a(1)] assms by auto
  have h: "t mod 86400 = 3600 * h + (60 * m + s)" using int_mod_pos_eq [OF a(1)] assms by auto
  show "t mod 86400 div 3600 = h" using int_div_pos_eq [OF h] assms by auto
  have m: "t mod 3600 = 60 * m + s" using int_mod_pos_eq [OF a(2)] assms by auto
  show "t mod 3600 div 60 = m" using int_div_pos_eq [OF m] assms by auto
  show "t mod 60 = s" using int_mod_pos_eq [OF a(3)] assms by auto
qed

lemma div_less_of_mod:
  fixes t :: int
  shows "t mod 86400 div 3600 < 24" "t mod 3600 div 60 < 60"
  using pos_mod_bound [of 86400 t] pos_mod_bound [of 3600 t] by linarith+

text \<open>
  The days, hours, minutes and seconds of a time that is not negative are in their ranges and add
  up to it; no other choice does.
\<close>

theorem split_time_exact:
  assumes "0 \<le> t"
  shows "split_time t = (d, h, m, s) \<longleftrightarrow>
    t = 86400 * d + 3600 * h + 60 * m + s \<and> 0 \<le> d \<and> 0 \<le> h \<and> h < 24 \<and> 0 \<le> m \<and> m < 60 \<and> 0 \<le> s \<and> s < 60"
proof -
  have "split_time t = (t div 86400, t mod 86400 div 3600, t mod 3600 div 60, t mod 60)"
    using assms by (simp add: split_time_def cdiv_pos cmod_pos)
  moreover have "86400 * (t div 86400) + 3600 * (t mod 86400 div 3600) + 60 * (t mod 3600 div 60) + t mod 60 = t"
  proof -
    have "t mod 86400 mod 3600 = t mod 3600" "t mod 3600 mod 60 = t mod 60" by (simp_all add: mod_mod_cancel)
    then show ?thesis
      using mult_div_mod_eq [of 86400 t] mult_div_mod_eq [of 3600 "t mod 86400"] mult_div_mod_eq [of 60 "t mod 3600"]
      by linarith
  qed
  moreover have "t mod 86400 div 3600 < 24" "t mod 3600 div 60 < 60" by (rule div_less_of_mod)+
  moreover have "0 \<le> t div 86400" "0 \<le> t mod 86400 div 3600" "0 \<le> t mod 3600 div 60" "0 \<le> t mod 60" "t mod 60 < 60"
    using assms by (simp_all add: pos_imp_zdiv_nonneg_iff)
  ultimately show ?thesis using split_time_unique [of t d h m s] by (metis prod.inject)
qed

theorem split_time_exact_witness: "split_time 100000 = (1, 3, 46, 40)"
  using split_time_exact [of 100000 1 3 46 40] by simp

text \<open>The words of a line in the format of \<open>/proc/loadavg\<close>.\<close>

lemma strtok_word:
  assumes "w \<noteq> []" "\<forall>c \<in> set w. \<not> d c" "d x"
  shows "strtok d (w @ x # r) = Some (w, r)"
proof -
  have "dropWhile d (w @ x # r) = w @ x # r" using assms(1,2) by (cases w) auto
  moreover have "takeWhile (Not \<circ> d) (w @ x # r) = w" "dropWhile (Not \<circ> d) (w @ x # r) = x # r"
    using assms(2,3) by (auto simp: takeWhile_append_if dropWhile_append_if)
  ultimately show ?thesis using assms(1) by (simp add: strtok_def Let_def)
qed

definition plain :: "string \<Rightarrow> bool" where
  "plain w \<longleftrightarrow> w \<noteq> [] \<and> CHR '' '' \<notin> set w \<and> CHR ''/'' \<notin> set w \<and> NL \<notin> set w"

lemma plain_strtok:
  assumes "plain w"
  shows "strtok blank (w @ CHR '' '' # r) = Some (w, r)" "strtok blank_slash (w @ CHR '' '' # r) = Some (w, r)"
  using assms by (auto simp: plain_def blank_def blank_slash_def intro!: strtok_word)

text \<open>
  From the line the kernel writes, whatever follows the three averages, one call of
  \<open>sampleLoadAvg\<close> shows exactly the three averages.
\<close>

theorem load_averages_shown:
  assumes "files e ''/proc/loadavg'' = Some (a @ '' '' @ b @ '' '' @ c @ '' '' @ rest)"
    and "plain a" "plain b" "plain c" "length a + length b + length c \<le> 76"
  shows "out (sampleLoadAvg e s) = out s @ [Load_avg (Some a) (Some b) (Some c)]"
proof -
  let ?p = "a @ '' '' @ b @ '' '' @ c @ '' ''"
  let ?t = "?p @ rest"
  have p: "NL \<notin> set ?p" "?p \<noteq> []" "length ?p < 80" using assms(2-5) by (auto simp: plain_def)
  then have "length ?p \<le> min (81 - 1) (line_end ?t)" by (auto simp: line_end_def takeWhile_append_if)
  then obtain k where k: "min (81 - 1) (line_end ?t) = length ?p + k" using le_Suc_ex by blast
  have "take (length q + k) (q @ rest) = q @ take k rest" for q :: string by simp
  from this [of ?p] have f: "fgets 81 ?t = Some (?p @ take k rest, drop (length ?p + k) ?t)"
    using k p(2) by (simp only: fgets_def Let_def) simp
  have five: "strtok_times 5 d x = strtok_times (Suc (Suc (Suc (Suc (Suc 0))))) d x" for d x by (simp add: numeral_eq_Suc)
  show ?thesis
    using assms(1) f plain_strtok [OF assms(2)] plain_strtok [OF assms(3)] plain_strtok [OF assms(4)]
    by (simp add: sampleLoadAvg_def LB_SIZE_def print_def Let_def five)
qed

theorem load_averages_shown_witness:
  "out (sampleLoadAvg
      \<lparr>files = \<lambda>_. Some (''0.20 0.18 0.12 1/80 11206'' @ [NL]), clock_now = 0, ctime = \<lambda>_. [],
       localtime = \<lambda>_. \<lparr>tm_sec = 0, tm_min = 0, tm_hour = 0, tm_mday = 1, tm_mon = 0, tm_year = 70\<rparr>\<rparr>
      \<lparr>lineBuf = [], out = []\<rparr>) = [Load_avg (Some ''0.20'') (Some ''0.18'') (Some ''0.12'')]"
  using load_averages_shown [of
      "\<lparr>files = \<lambda>_. Some (''0.20 0.18 0.12 1/80 11206'' @ [NL]), clock_now = 0, ctime = \<lambda>_. [],
       localtime = \<lambda>_. \<lparr>tm_sec = 0, tm_min = 0, tm_hour = 0, tm_mday = 1, tm_mon = 0, tm_year = 70\<rparr>\<rparr>"
      "''0.20''" "''0.18''" "''0.12''" "''1/80 11206'' @ [NL]" "\<lparr>lineBuf = [], out = []\<rparr>"]
  by (simp add: plain_def)

text \<open>Part D takes its samples one after the other.\<close>

fun sampled :: "(nat \<Rightarrow> observer \<Rightarrow> observer) \<Rightarrow> nat \<Rightarrow> nat \<Rightarrow> observer \<Rightarrow> observer" where
  "sampled f k 0 s = s"
| "sampled f k (Suc n) s = sampled f (k + 1) n (f k s)"

lemma load_loop_samples:
  assumes "0 < interval" "duration + interval \<le> 2 ^ 31" "0 \<le> iteration" "duration \<le> iteration + int n * interval"
    "n \<noteq> 0 \<longrightarrow> iteration + int (n - 1) * interval < duration"
  shows "load_loop f interval duration iteration k s = Some (sampled f k n s)"
  using assms
proof (induction n arbitrary: iteration k s)
  case 0
  then show ?case by (subst load_loop.simps) simp
next
  case (Suc n)
  have "0 \<le> int n * interval" using Suc.prems(1) by simp
  then have lt: "iteration < duration" using Suc.prems(5) by simp
  have i: "int32 (iteration + interval) = iteration + interval"
    using Suc.prems(1,2,3) lt by (intro int32_id) auto
  have "load_loop f interval duration (iteration + interval) (k + 1) (f k s) = Some (sampled f (k + 1) n (f k s))"
    using Suc.prems by (intro Suc.IH) (auto simp: algebra_simps of_nat_diff)
  then show ?case using lt i by (subst load_loop.simps) simp
qed

text \<open>The loop takes a sample for each interval that begins before the duration is over.\<close>

lemma load_loop_count:
  assumes "0 < interval" "duration + interval \<le> 2 ^ 31" "0 \<le> iteration"
  shows "load_loop f interval duration iteration k s =
    Some (sampled f k (nat ((duration - iteration + interval - 1) div interval)) s)"
proof -
  define q where "q = (duration - iteration + interval - 1) div interval"
  have e: "q * interval + (duration - iteration + interval - 1) mod interval = duration - iteration + interval - 1"
    by (simp add: q_def)
  have m: "0 \<le> (duration - iteration + interval - 1) mod interval" "(duration - iteration + interval - 1) mod interval < interval"
    using assms(1) by simp_all
  have q: "duration - iteration \<le> q * interval" "(q - 1) * interval < duration - iteration"
    using e m by (auto simp: left_diff_distrib)
  show ?thesis unfolding q_def [symmetric]
  proof (rule load_loop_samples [OF assms])
    show "duration \<le> iteration + int (nat q) * interval"
    proof (cases "0 \<le> q")
      case False
      then have "q * interval \<le> 0" using assms(1) by (simp add: mult_le_0_iff)
      with q(1) False show ?thesis by simp
    qed (use q(1) in simp)
    show "nat q \<noteq> 0 \<longrightarrow> iteration + int (nat q - 1) * interval < duration"
      using q(2) by (auto simp: of_nat_diff)
  qed
qed

lemma load_loop_stuck:
  "load_loop f interval duration iteration k s = Some s' \<Longrightarrow>
   interval = 0 \<longrightarrow> int32 iteration = iteration \<longrightarrow> \<not> iteration < duration"
  by (erule load_loop.raw_induct [where P = "\<lambda>f interval duration iteration k s s'.
        interval = 0 \<longrightarrow> int32 iteration = iteration \<longrightarrow> \<not> iteration < duration", rotated])
    (auto split: if_splits)

text \<open>
  C36: With a positive interval, and a duration and an interval that together are at most \<open>2 ^ 31\<close>, part D ends after one
  sample, or after as many samples as intervals begin within the duration; with the interval 0 and a positive duration it never ends.
\<close>

theorem observer_load_samples:
  assumes "atoi i = interval" "atoi d = duration"
  shows "(0 < interval \<and> duration + interval \<le> 2 ^ 31 \<longrightarrow>
      do_part_D es i d s = Some (sampled (take_sample es) 0 (nat (max 1 ((duration + interval - 1) div interval))) s)) \<and>
    (interval = 0 \<and> 0 < duration \<longrightarrow> do_part_D es i d s = None)"
proof (intro conjI impI)
  assume pos: "0 < interval \<and> duration + interval \<le> 2 ^ 31"
  then have "(duration + interval - 1) div interval = (duration - 1) div interval + 1"
    using div_add_self2 [of interval "duration - 1"] by (simp add: algebra_simps)
  moreover have "nat (max 1 (x + 1)) = Suc (nat x)" for x :: int by arith
  ultimately have "nat (max 1 ((duration + interval - 1) div interval)) = Suc (nat ((duration - 1) div interval))" by metis
  with pos load_loop_count [of interval duration interval "take_sample es" 1] assms
  show "do_part_D es i d s = Some (sampled (take_sample es) 0 (nat (max 1 ((duration + interval - 1) div interval))) s)"
    by (simp add: do_part_D_def)
next
  assume z: "interval = 0 \<and> 0 < duration"
  show "do_part_D es i d s = None"
    using load_loop_stuck [of "take_sample es" 0 duration 0] z assms
    by (cases "do_part_D es i d s") (auto simp: do_part_D_def Let_def int32_def)
qed

theorem observer_load_samples_witness:
  "let es = (\<lambda>_. \<lparr>files = \<lambda>_. None, clock_now = 0, ctime = \<lambda>_. [],
       localtime = \<lambda>_. \<lparr>tm_sec = 0, tm_min = 0, tm_hour = 0, tm_mday = 1, tm_mon = 0, tm_year = 70\<rparr>\<rparr>);
       s = \<lparr>lineBuf = [], out = []\<rparr>
   in do_part_D es ''2'' ''5'' s = Some (sampled (take_sample es) 0 3 s) \<and> do_part_D es ''0'' ''5'' s = None"
proof -
  have a: "atoi ''2'' = 2" "atoi ''5'' = 5" "atoi ''0'' = 0" by code_simp+
  show ?thesis
    using observer_load_samples [OF a(1,2)] observer_load_samples [OF a(3,2)] by (simp add: Let_def numeral_3_eq_3)
qed

section \<open>The earlier version\<close>

text \<open>
  \<open>src/1/observer.v1.c\<close> has the four parts inside \<open>main\<close>. Parts A and C are the code of \<open>do_part_A\<close> and \<open>do_part_C\<close>, and
  \<open>sampleLoadAvg\<close> is the same; \<open>sampleTime\<close> does not print the ratio of the times, and part D counts its samples from 0 and prints no
  separator. An argument of one character leaves the letter \<open>c2\<close> zero.
\<close>

definition sampleTime1 :: "oenv \<Rightarrow> observer \<Rightarrow> observer sh" where
  "sampleTime1 e s =
     (let s = print [Current_time (ctime e (clock_now e))] s in
      case files e ''/proc/uptime'' of
        None \<Rightarrow> Go (print [Error ''cannot open file /proc/uptime''] s)
      | Some text \<Rightarrow>
          (case fgets (LB_SIZE + 1) text of
             None \<Rightarrow> Go (print [Error ''Read /proc/uptime error''] s)
           | Some (l, _) \<Rightarrow>
               (case strtok_times 2 blank l of
                  [Some u, Some i] \<Rightarrow>
                    (let uptime = atoi u; idletime = atoi i;
                         (day, hour, minute, second) = split_time uptime;
                         (iday, ihour, iminute, isecond) = split_time idletime
                     in Go (print [Seconds uptime idletime,
                                   Up_since day hour minute second (localtime e (clock_now e - uptime)),
                                   Idle_for iday ihour iminute isecond] (s\<lparr>lineBuf := takeWhile blank l @ u\<rparr>)))
                | _ \<Rightarrow> Crash)))"

definition part_B1 :: "oenv \<Rightarrow> observer \<Rightarrow> observer sh" where
  "part_B1 e s =
     (case files e ''/proc/meminfo'' of
        None \<Rightarrow> Go (print [Error ''cannot open /proc/meminfo''] s)
      | Some text \<Rightarrow> sampleTime1 e (each_line mem_line text s))"

definition part_D1 :: "(nat \<Rightarrow> oenv) \<Rightarrow> string \<Rightarrow> string \<Rightarrow> observer \<Rightarrow> observer option" where
  "part_D1 es interval_str duration_str s =
     (let interval = atoi interval_str; duration = atoi duration_str
      in load_loop (sampleLoadAvg \<circ> es) interval duration 0 1 (sampleLoadAvg (es 0) s))"

definition observer1_main :: "(nat \<Rightarrow> oenv) \<Rightarrow> string list \<Rightarrow> observer \<Rightarrow> observer sh option" where
  "observer1_main es argv s =
     (case argv of
        [] \<Rightarrow> Some (sbind (do_part_A (es 0) s) (\<lambda>(s, _). Go s))
      | a # args \<Rightarrow>
          if a = [] \<or> a ! 0 \<noteq> CHR ''-'' then Some (Exit 1)
          else if length a < 2 then Some (Go s)
          else if a ! 1 = CHR ''b'' then Some (part_B1 (es 0) s)
          else if a ! 1 = CHR ''c'' then Some (do_part_C (es 0) s)
          else if a ! 1 = CHR ''d'' then
            (if length args < 2 then Some (Exit 1) else map_option Go (part_D1 es (args ! 0) (args ! 1) s))
          else Some (Go s))"

definition no_marks :: "observer \<Rightarrow> item list" where
  "no_marks s = filter (\<lambda>x. x \<noteq> Separator) (out s)"

lemma sample_marks:
  "no_marks (take_sample es k s) = no_marks (sampleLoadAvg (es k) s) \<and> lineBuf (take_sample es k s) = lineBuf (sampleLoadAvg (es k) s)"
  by (simp add: take_sample_def no_marks_def print_def)

lemma sampleLoadAvg_marks:
  assumes "no_marks s = no_marks t" "lineBuf s = lineBuf t"
  shows "no_marks (sampleLoadAvg e s) = no_marks (sampleLoadAvg e t) \<and> lineBuf (sampleLoadAvg e s) = lineBuf (sampleLoadAvg e t)"
  using assms by (simp add: sampleLoadAvg_def Let_def print_def no_marks_def split: option.splits)

lemma sampled_marks:
  "no_marks s = no_marks t \<Longrightarrow> lineBuf s = lineBuf t \<Longrightarrow>
   no_marks (sampled (take_sample es) k n s) = no_marks (sampled (sampleLoadAvg \<circ> es) k n t) \<and>
   lineBuf (sampled (take_sample es) k n s) = lineBuf (sampled (sampleLoadAvg \<circ> es) k n t)"
proof (induction n arbitrary: k s t)
  case (Suc n)
  from sampleLoadAvg_marks [OF Suc.prems, of "es k"] sample_marks [of es k s]
  show ?case using Suc.IH [of "take_sample es k s" "sampleLoadAvg (es k) t" "k + 1"] by simp
qed simp

lemma sampled_snoc: "sampled f k (Suc n) s = f (k + n) (sampled f k n s)"
  by (induction n arbitrary: k s) simp_all

text \<open>
  Part D of the two versions: with a positive interval and duration, the earlier version takes the samples of the later
  one, in the same order, and one more, after the duration is over.
\<close>

theorem observer_versions:
  assumes "atoi i = interval" "atoi d = duration" "0 < interval" "0 < duration" "duration + interval \<le> 2 ^ 31"
  shows "\<exists>s1 s2 n. do_part_D es i d s = Some s1 \<and> part_D1 es i d s = Some (sampleLoadAvg (es n) s2) \<and>
    no_marks s1 = no_marks s2 \<and> n = nat ((duration + interval - 1) div interval)"
proof -
  define n where "n = nat ((duration - 1) div interval)"
  have "(duration + interval - 1) div interval = (duration - 1) div interval + 1"
    using assms(3) div_add_self2 [of interval "duration - 1"] by (simp add: algebra_simps)
  then have n: "nat ((duration + interval - 1) div interval) = Suc n"
    using assms(3,4) by (simp add: n_def nat_add_distrib pos_imp_zdiv_nonneg_iff)
  let ?s2 = "sampled (sampleLoadAvg \<circ> es) 1 n (sampleLoadAvg (es 0) s)"
  have "do_part_D es i d s = Some (sampled (take_sample es) 1 n (take_sample es 0 s))"
    using load_loop_count [of interval duration interval] assms by (simp add: do_part_D_def n_def)
  moreover have "part_D1 es i d s = Some (sampleLoadAvg (es (Suc n)) ?s2)"
    using load_loop_count [of interval duration 0] assms n sampled_snoc [of "sampleLoadAvg \<circ> es" 1 n]
    by (simp add: part_D1_def)
  moreover have "no_marks (sampled (take_sample es) 1 n (take_sample es 0 s)) = no_marks ?s2"
    using sampled_marks [of "take_sample es 0 s" "sampleLoadAvg (es 0) s"] sample_marks by blast
  ultimately show ?thesis using n
    by (intro exI [of _ "sampled (take_sample es) 1 n (take_sample es 0 s)"] exI [of _ ?s2] exI [of _ "Suc n"]) simp
qed

theorem observer_versions_witness:
  "let es = (\<lambda>_. \<lparr>files = \<lambda>_. None, clock_now = 0, ctime = \<lambda>_. [],
       localtime = \<lambda>_. \<lparr>tm_sec = 0, tm_min = 0, tm_hour = 0, tm_mday = 1, tm_mon = 0, tm_year = 70\<rparr>\<rparr>);
       s = \<lparr>lineBuf = [], out = []\<rparr>
   in \<exists>s1 s2 n. do_part_D es ''2'' ''5'' s = Some s1 \<and> part_D1 es ''2'' ''5'' s = Some (sampleLoadAvg (es n) s2) \<and>
    no_marks s1 = no_marks s2 \<and> n = 3"
proof -
  have a: "atoi ''2'' = 2" "atoi ''5'' = 5" by code_simp+
  show ?thesis using observer_versions [OF a] by (simp add: Let_def)
qed

end
