(* ===== verification/ChKey.thy ===== *)
theory ChKey
  imports CString
begin

text \<open>
  \<open>src/1/chkey.c\<close>: shows or changes the kernel variables \<open>sysrq\<close> and \<open>ctrl-alt-del\<close> through their files under
  \<open>/proc/sys/kernel\<close>. Reading such a file gives the variable in decimal and a newline; what is written to it is
  read as a decimal number.
\<close>

unbundle bit_operations_syntax

section \<open>The two files\<close>

text \<open>
  The variables, and which of the files can be opened for reading (with \<open>r+\<close>) and for writing.
  \<open>shown\<close> is what the program prints.
\<close>

record keys =
  sysrq :: int
  cad :: int
  shown :: "int list"

record kperm =
  read_sysrq :: bool
  read_cad :: bool
  open_sysrq :: bool
  open_cad :: bool

definition BUFSIZE :: nat where "BUFSIZE = 32"

definition proc_text :: "int \<Rightarrow> string" where
  "proc_text v = dec v @ [NL]"

definition proc_store :: "string \<Rightarrow> int" where
  "proc_store s = int32 (strtol10 s)"

definition read_number :: "bool \<Rightarrow> int \<Rightarrow> int sh" where
  "read_number ok v =
     (if \<not> ok then Exit (- 1)
      else (case fgets BUFSIZE (proc_text v) of None \<Rightarrow> Crash | Some (l, _) \<Rightarrow> Go (atoi l)))"

definition readSysrq :: "kperm \<Rightarrow> keys \<Rightarrow> int sh" where
  "readSysrq p s = read_number (read_sysrq p) (sysrq s)"

definition readCad :: "kperm \<Rightarrow> keys \<Rightarrow> int sh" where
  "readCad p s = read_number (read_cad p) (cad s)"

definition write_sysrq :: "kperm \<Rightarrow> int \<Rightarrow> keys \<Rightarrow> (keys \<times> int) sh" where
  "write_sysrq p v s =
     (if \<not> open_sysrq p then Go (s, - 1) else Go (s\<lparr>sysrq := proc_store (dec v)\<rparr>, 0))"

text \<open>
  \<open>write_cad\<close> tests \<open>sysrqFile\<close> where it means \<open>cadFile\<close>; \<open>sysrqFile\<close> is never null at this point, since
  \<open>readSysrq\<close> has set it.
\<close>

definition write_cad :: "kperm \<Rightarrow> int \<Rightarrow> keys \<Rightarrow> (keys \<times> int) sh" where
  "write_cad p v s =
     (if \<not> open_cad p then Crash else Go (s\<lparr>cad := proc_store (dec v)\<rparr>, 0))"

section \<open>Numbers on the command line\<close>

definition digit_of :: "char \<Rightarrow> int" where
  "digit_of c =
     (let n = of_char c :: int in
      if 48 \<le> n \<and> n \<le> 57 then n - 48
      else if 97 \<le> n \<and> n \<le> 122 then n - 87
      else if 65 \<le> n \<and> n \<le> 90 then n - 55
      else 36)"

definition base_val :: "int \<Rightarrow> string \<Rightarrow> int" where
  "base_val b s = foldl (\<lambda>v c. b * v + digit_of c) 0 (takeWhile (\<lambda>c. digit_of c < b) s)"

definition unsigned_auto :: "string \<Rightarrow> int" where
  "unsigned_auto s =
     (if has_prefix ''0x'' s \<or> has_prefix ''0X'' s then base_val 16 (drop 2 s)
      else if has_prefix ''0'' s then base_val 8 s
      else base_val 10 s)"

text \<open>
  \<open>strtol (s, NULL, 0)\<close>, where \<open>long\<close> has \<open>lb\<close> bits: a number outside its range gives \<open>LONG_MAX\<close> or \<open>LONG_MIN\<close>. For a number that
  starts with \<open>0x\<close> the base 16 gives the same. The program stores the result in an \<open>int\<close>.
\<close>

definition strtol_val :: "string \<Rightarrow> int" where
  "strtol_val s =
     (case dropWhile is_space s of
        [] \<Rightarrow> 0
      | c # cs \<Rightarrow> (if c = CHR ''-'' then - unsigned_auto cs
                   else if c = CHR ''+'' then unsigned_auto cs else unsigned_auto (c # cs)))"

definition strtol_auto :: "nat \<Rightarrow> string \<Rightarrow> int" where
  "strtol_auto lb s = max (- (2 ^ (lb - 1))) (min (2 ^ (lb - 1) - 1) (strtol_val s))"

section \<open>The program\<close>

text \<open>
  \<open>argv\<close> is the list of arguments after the name of the program. The letters of a first argument that is too short are
  uninitialised variables.
\<close>

definition chkey_write :: "nat \<Rightarrow> kperm \<Rightarrow> char \<Rightarrow> string list \<Rightarrow> int \<Rightarrow> int \<Rightarrow> keys \<Rightarrow> keys sh" where
  "chkey_write lb p c3 args sysrq_value cad_value s =
     (if c3 = CHR ''s'' then
        sbind (write_sysrq p (case args of v # _ \<Rightarrow> int32 (strtol_auto lb v) | [] \<Rightarrow> 0xFF XOR sysrq_value) s) (\<lambda>(s, _). Go s)
      else if c3 = CHR ''c'' then
        sbind (write_cad p (case args of v # _ \<Rightarrow> int32 (strtol_auto lb v) | [] \<Rightarrow> 0xFF XOR cad_value) s) (\<lambda>(s, _). Go s)
      else Go s)"

definition chkey_main :: "nat \<Rightarrow> kperm \<Rightarrow> string list \<Rightarrow> keys \<Rightarrow> keys sh" where
  "chkey_main lb p argv s =
     (case argv of
        [] \<Rightarrow> Go s
      | a # args \<Rightarrow>
          if 2 \<le> length args then Go s
          else
            sbind (readSysrq p s) (\<lambda>sysrq_value.
            sbind (readCad p s) (\<lambda>cad_value.
              if length a < 3 then Crash
              else if a ! 0 \<noteq> CHR ''-'' then Go s
              else if a ! 1 = CHR ''r'' then
                Go (if a ! 2 = CHR ''s'' then s\<lparr>shown := shown s @ [sysrq_value]\<rparr>
                    else if a ! 2 = CHR ''c'' then s\<lparr>shown := shown s @ [cad_value]\<rparr>
                    else s)
              else if a ! 1 = CHR ''w'' then chkey_write lb p (a ! 2) args sysrq_value cad_value s
              else Go s)))"

section \<open>Reading back\<close>

lemma dec_length_int32:
  assumes "- (2 ^ 31) \<le> v" "v < 2 ^ 31"
  shows "length (dec v) \<le> 11"
proof -
  have "nat (- v) < 10 ^ 10" "nat v < 10 ^ 10" using assms by (auto simp: nat_less_iff)
  then show ?thesis using dec_nat_length [of "nat (- v)" 10] dec_nat_length [of "nat v" 10] by (simp add: dec_def)
qed

lemma read_number_value:
  assumes "- (2 ^ 31) \<le> v" "v < 2 ^ 31"
  shows "read_number True v = Go v"
proof -
  have l: "length (dec v) \<le> 11" using assms by (rule dec_length_int32)
  have "line_end (proc_text v) = length (dec v) + 1"
    using dec_no_NL [of v] by (auto simp: proc_text_def line_end_def takeWhile_append_if)
  then have "fgets BUFSIZE (proc_text v) = Some (dec v @ [NL], [])"
    using l by (simp add: fgets_def Let_def BUFSIZE_def proc_text_def)
  moreover have "atoi (dec v @ [NL]) = v" using assms by (subst atoi_dec) (simp_all add: is_digit_def int32_id)
  ultimately show ?thesis by (simp add: read_number_def)
qed

lemma proc_store_dec: "- (2 ^ 31) \<le> v \<Longrightarrow> v < 2 ^ 31 \<Longrightarrow> proc_store (dec v) = v"
  using strtol10_dec [of "[]" v] by (simp add: proc_store_def int32_id)

lemma xor_FF_range:
  fixes v :: int
  assumes "- (2 ^ 31) \<le> v" "v < 2 ^ 31"
  shows "- (2 ^ 31) \<le> 0xFF XOR v" "0xFF XOR v < 2 ^ 31"
proof -
  have "signed_take_bit 31 v = v" using assms by (simp add: signed_take_bit_int_eq_self)
  moreover have "signed_take_bit 31 (a XOR b) = signed_take_bit 31 a XOR signed_take_bit 31 b" for a b :: int
    by (rule bit_eqI) (simp add: bit_signed_take_bit_iff bit_xor_iff)
  moreover have "signed_take_bit 31 0xFF = (0xFF :: int)" by (simp add: signed_take_bit_int_eq_self)
  ultimately have "signed_take_bit 31 (0xFF XOR v) = 0xFF XOR v" by simp
  then show "- (2 ^ 31) \<le> 0xFF XOR v" "0xFF XOR v < 2 ^ 31" by (simp_all add: signed_take_bit_int_eq_self_iff)
qed

definition keys_ok :: "keys \<Rightarrow> bool" where
  "keys_ok s \<longleftrightarrow> - (2 ^ 31) \<le> sysrq s \<and> sysrq s < 2 ^ 31 \<and> - (2 ^ 31) \<le> cad s \<and> cad s < 2 ^ 31"

definition all_open :: kperm where
  "all_open = \<lparr>read_sysrq = True, read_cad = True, open_sysrq = True, open_cad = True\<rparr>"

text \<open>What \<open>strtol\<close> makes of a number in the range of \<open>int\<close>, and of numbers outside that of a 32-bit \<open>long\<close>.\<close>

lemma strtol_auto_cases:
  assumes "32 \<le> lb"
  shows "- (2 ^ 31) \<le> strtol_val v \<Longrightarrow> strtol_val v < 2 ^ 31 \<Longrightarrow> int32 (strtol_auto lb v) = strtol_val v"
    and "2 ^ 31 \<le> strtol_val v \<Longrightarrow> int32 (strtol_auto 32 v) = 2 ^ 31 - 1"
    and "strtol_val v < - (2 ^ 31) \<Longrightarrow> int32 (strtol_auto 32 v) = - (2 ^ 31)"
proof -
  have "(2 :: int) ^ 31 \<le> 2 ^ (lb - 1)" using assms by (intro power_increasing) auto
  then show "- (2 ^ 31) \<le> strtol_val v \<Longrightarrow> strtol_val v < 2 ^ 31 \<Longrightarrow> int32 (strtol_auto lb v) = strtol_val v"
    by (simp add: strtol_auto_def int32_id)
  show "2 ^ 31 \<le> strtol_val v \<Longrightarrow> int32 (strtol_auto 32 v) = 2 ^ 31 - 1"
    "strtol_val v < - (2 ^ 31) \<Longrightarrow> int32 (strtol_auto 32 v) = - (2 ^ 31)"
    by (simp_all add: strtol_auto_def int32_id)
qed

text \<open>
  C37: where the files can be opened, \<open>-ws v\<close> followed by \<open>-rs\<close> shows the number \<open>v\<close> stands for, if it is in the range of \<open>int\<close>, and
  leaves the other variable alone. A number outside that range is stored and shown as what \<open>strtol\<close> returns for it (\<open>LONG_MAX\<close> or
  \<open>LONG_MIN\<close> outside the range of \<open>long\<close>) cut to 32 bits: with a 32-bit \<open>long\<close> that is the largest or smallest \<open>int\<close>.
  \<open>-ws\<close> twice without a number gives back the value the variable had; and \<open>-wc\<close> behaves in the same way. \<open>long\<close> has at least 32 bits.
\<close>

theorem chkey_read_write:
  fixes v :: string
  assumes "keys_ok s" and "32 \<le> lb"
  defines "n \<equiv> int32 (strtol_auto lb v)"
  shows "sbind (chkey_main lb all_open [''-ws'', v] s) (chkey_main lb all_open [''-rs'']) =
      Go (s\<lparr>sysrq := n, shown := shown s @ [n]\<rparr>) \<and>
    sbind (chkey_main lb all_open [''-wc'', v] s) (chkey_main lb all_open [''-rc'']) =
      Go (s\<lparr>cad := n, shown := shown s @ [n]\<rparr>) \<and>
    (- (2 ^ 31) \<le> strtol_val v \<and> strtol_val v < 2 ^ 31 \<longrightarrow> n = strtol_val v) \<and>
    (lb = 32 \<and> 2 ^ 31 \<le> strtol_val v \<longrightarrow> n = 2 ^ 31 - 1) \<and>
    (lb = 32 \<and> strtol_val v < - (2 ^ 31) \<longrightarrow> n = - (2 ^ 31)) \<and>
    sbind (chkey_main lb all_open [''-ws''] s) (chkey_main lb all_open [''-ws'']) = Go s \<and>
    sbind (chkey_main lb all_open [''-wc''] s) (chkey_main lb all_open [''-wc'']) = Go s"
proof -
  note defs = chkey_main_def readSysrq_def readCad_def chkey_write_def write_sysrq_def write_cad_def all_open_def
  have r: "- (2 ^ 31) \<le> sysrq s" "sysrq s < 2 ^ 31" "- (2 ^ 31) \<le> cad s" "cad s < 2 ^ 31"
    using assms by (auto simp: keys_ok_def)
  have n: "- (2 ^ 31) \<le> n" "n < 2 ^ 31" using int32_range by (auto simp: n_def)
  note val = read_number_value [OF r(1,2)] read_number_value [OF r(3,4)] read_number_value [OF n]
    read_number_value [OF xor_FF_range [OF r(1,2)]] read_number_value [OF xor_FF_range [OF r(3,4)]]
    proc_store_dec [OF r(1,2)] proc_store_dec [OF r(3,4)] proc_store_dec [OF n]
    proc_store_dec [OF xor_FF_range [OF r(1,2)]] proc_store_dec [OF xor_FF_range [OF r(3,4)]]
  have x: "255 XOR (255 XOR w) = (w :: int)" for w by (simp add: xor.assoc [symmetric])
  have "(- (2 ^ 31) \<le> strtol_val v \<and> strtol_val v < 2 ^ 31 \<longrightarrow> n = strtol_val v) \<and>
    (lb = 32 \<and> 2 ^ 31 \<le> strtol_val v \<longrightarrow> n = 2 ^ 31 - 1) \<and>
    (lb = 32 \<and> strtol_val v < - (2 ^ 31) \<longrightarrow> n = - (2 ^ 31))"
    using strtol_auto_cases [OF assms(2), of v] unfolding n_def by blast
  then show ?thesis by (simp add: defs val x flip: n_def)
qed

theorem chkey_read_write_witness:
  "sbind (chkey_main 32 all_open [''-ws'', ''0x1f''] \<lparr>sysrq = 1, cad = 0, shown = []\<rparr>) (chkey_main 32 all_open [''-rs'']) =
     Go \<lparr>sysrq = 31, cad = 0, shown = [31]\<rparr> \<and>
   sbind (chkey_main 32 all_open [''-ws'', ''0xffffffff''] \<lparr>sysrq = 1, cad = 0, shown = []\<rparr>) (chkey_main 32 all_open [''-rs'']) =
     Go \<lparr>sysrq = 2147483647, cad = 0, shown = [2147483647]\<rparr>"
proof -
  have v: "strtol_val ''0x1f'' = 31" "strtol_val ''0xffffffff'' = 4294967295" by code_simp+
  have ok: "keys_ok \<lparr>sysrq = 1, cad = 0, shown = []\<rparr>" "(32 :: nat) \<le> 32" by (simp_all add: keys_ok_def)
  show ?thesis
    using chkey_read_write [OF ok, of "''0x1f''"] chkey_read_write [OF ok, of "''0xffffffff''"] v by simp
qed

text \<open>A \<open>ctrl-alt-del\<close> file that can be read but not written makes \<open>write_cad\<close> print to a null pointer.\<close>

theorem chkey_cad_unchecked:
  "keys_ok s \<Longrightarrow> chkey_main lb (all_open\<lparr>open_cad := False\<rparr>) [''-wc''] s = Crash"
  by (simp add: chkey_main_def readSysrq_def readCad_def chkey_write_def write_cad_def all_open_def keys_ok_def
      read_number_value)

end
