(* ===== verification/SyscallTable.thy ===== *)
theory SyscallTable
  imports Prelude
begin

text \<open>
  System calls added by hand: \<open>src/5/syscall.c\<close>, a module that searches the running kernel for the table of system
  calls and puts its own function into it, and the two small calls at the end of \<open>src/5/kernel/sys.c\<close>.
  Kernel memory is a function from addresses to 32-bit words.
\<close>

section \<open>The module\<close>

definition NR_close :: nat where "NR_close = 6"
definition NR_mysyscall :: nat where "NR_mysyscall = 349"
definition NR_syscalls :: nat where "NR_syscalls = 345"

record kmem =
  words :: "nat \<Rightarrow> nat"
  saved :: nat
  table :: "nat option"

text \<open>
  The symbols of the kernel the module is linked against: the addresses of \<open>loops_per_jiffy\<close>,
  \<open>boot_cpu_data\<close>, \<open>sys_close\<close> and of the module's own function.
\<close>

record ksyms =
  loops_per_jiffy :: nat
  boot_cpu_data :: nat
  sys_close :: nat
  sys_mysyscall_addr :: nat

function find_table :: "ksyms \<Rightarrow> nat \<Rightarrow> (nat \<Rightarrow> nat) \<Rightarrow> nat option" where
  "find_table k ptr m =
     (if ptr < boot_cpu_data k then
        (if m (ptr + 4 * NR_close) = sys_close k then Some ptr else find_table k (ptr + 4) m)
      else None)"
  by pat_completeness auto
termination
  by (relation "measure (\<lambda>(k, ptr, m). boot_cpu_data k - ptr)") auto

declare find_table.simps [simp del]

definition find_sys_call_table :: "ksyms \<Rightarrow> kmem \<Rightarrow> nat option" where
  "find_sys_call_table k s = find_table k (loops_per_jiffy k) (words s)"

text \<open>\<open>None\<close>: the table was not found and the module uses the null pointer.\<close>

definition init_addsyscall :: "ksyms \<Rightarrow> kmem \<Rightarrow> kmem option" where
  "init_addsyscall k s =
     (case find_sys_call_table k s of
        None \<Rightarrow> None
      | Some t \<Rightarrow>
          Some (s\<lparr>table := Some t, saved := words s (t + 4 * NR_mysyscall),
                  words := (words s)(t + 4 * NR_mysyscall := sys_mysyscall_addr k)\<rparr>))"

definition exit_addsyscall :: "kmem \<Rightarrow> kmem option" where
  "exit_addsyscall s =
     map_option (\<lambda>t. s\<lparr>words := (words s)(t + 4 * NR_mysyscall := saved s)\<rparr>) (table s)"

section \<open>The added calls\<close>

text \<open>
  \<open>sys_mysyscall\<close> of the module: the time of day, unless it cannot be copied to the user. The call of the same name in
  \<open>sys.c\<close> converts the tick counter and stores it through the pointers it is given. \<open>sys_mycall\<close> adds ten.
\<close>

definition sys_mysyscall :: "int \<times> int \<Rightarrow> bool \<Rightarrow> (int \<times> int) option \<times> int" where
  "sys_mysyscall now copy_ok = (if copy_ok then (Some now, 0) else (None, - EFAULT))"

definition sys_mysyscall_jiffies ::
  "(u32 \<Rightarrow> 'a) \<Rightarrow> (u32 \<Rightarrow> 'b) \<Rightarrow> u32 \<Rightarrow> 'b \<times> 'a \<times> int" where
  "sys_mysyscall_jiffies jiffies_to_timespec jiffies_to_timeval jiffies =
     (jiffies_to_timeval jiffies, jiffies_to_timespec jiffies, sint jiffies)"

definition sys_mycall :: "int \<Rightarrow> int" where
  "sys_mycall num = int32 (num + 10)"

text \<open>The entries of \<open>unistd_32.h\<close> for the calls added to the kernel.\<close>

definition added_calls :: "(string \<times> nat) list" where
  "added_calls =
     [(''mysyscall'', 338), (''do_pfcount'', 339), (''myevent_open'', 340), (''myevent_wait'', 341),
      (''myevent_signal'', 342), (''myevent_close'', 343), (''mycall'', 344)]"

section \<open>The search\<close>

lemma find_table_Some:
  "find_table k ptr m = Some t \<longleftrightarrow>
     (\<exists>i. t = ptr + 4 * i \<and> t < boot_cpu_data k \<and> m (t + 4 * NR_close) = sys_close k \<and>
        (\<forall>j < i. m (ptr + 4 * j + 4 * NR_close) \<noteq> sys_close k))"
proof (induction k ptr m rule: find_table.induct)
  case (1 k ptr m)
  show ?case
  proof (cases "ptr < boot_cpu_data k \<and> m (ptr + 4 * NR_close) \<noteq> sys_close k")
    case True
    have shift: "(\<forall>j < Suc i. m (ptr + 4 * j + 4 * NR_close) \<noteq> sys_close k) \<longleftrightarrow>
        (\<forall>j < i. m (ptr + 4 + 4 * j + 4 * NR_close) \<noteq> sys_close k)" for i
      using True by (simp add: All_less_Suc2 add.assoc)
    have "find_table k ptr m = Some t \<longleftrightarrow> find_table k (ptr + 4) m = Some t"
      using True by (subst find_table.simps) simp
    also have "\<dots> \<longleftrightarrow> (\<exists>i. t = ptr + 4 * Suc i \<and> t < boot_cpu_data k \<and> m (t + 4 * NR_close) = sys_close k \<and>
        (\<forall>j < Suc i. m (ptr + 4 * j + 4 * NR_close) \<noteq> sys_close k))"
      using 1 True by (simp only: shift) (simp add: add.assoc)
    also have "\<dots> \<longleftrightarrow> (\<exists>i. t = ptr + 4 * i \<and> t < boot_cpu_data k \<and> m (t + 4 * NR_close) = sys_close k \<and>
        (\<forall>j < i. m (ptr + 4 * j + 4 * NR_close) \<noteq> sys_close k))" (is "?l \<longleftrightarrow> ?r")
    proof
      assume ?r
      then obtain i where i: "t = ptr + 4 * i" "t < boot_cpu_data k" "m (t + 4 * NR_close) = sys_close k"
        "\<forall>j < i. m (ptr + 4 * j + 4 * NR_close) \<noteq> sys_close k" by blast
      then have "i \<noteq> 0" using True by (intro notI) simp
      then obtain i' where "i = Suc i'" using not0_implies_Suc by blast
      with i show ?l by blast
    qed blast
    finally show ?thesis .
  next
    case False
    have "i = 0" if "\<forall>j < i. m (ptr + 4 * j + 4 * NR_close) \<noteq> sys_close k" "m (ptr + 4 * NR_close) = sys_close k" for i
      using that(1) [rule_format, of 0] that(2) by (cases i) auto
    with False show ?thesis
      by (subst find_table.simps) (auto intro: exI [of _ 0])
  qed
qed

text \<open>
  C38: the search ends and finds the first position whose entry for \<open>close\<close> is the address of
  \<open>sys_close\<close>; loading the module then changes exactly the word of entry 349 to the module's
  function, and unloading it gives back the memory. If there is no such position, loading uses a null pointer. Entry
  349 lies behind the table, which has 345 entries. (The search covers the positions from \<open>loops_per_jiffy\<close> up to \<open>boot_cpu_data\<close>.)
\<close>

theorem syscall_patch_undone:
  assumes "t = loops_per_jiffy k + 4 * i" "t < boot_cpu_data k" "words s (t + 4 * NR_close) = sys_close k"
    and "\<forall>j < i. words s (loops_per_jiffy k + 4 * j + 4 * NR_close) \<noteq> sys_close k"
  shows "\<exists>s'. init_addsyscall k s = Some s' \<and>
    words s' = (words s)(t + 4 * NR_mysyscall := sys_mysyscall_addr k) \<and>
    map_option words (exit_addsyscall s') = Some (words s) \<and> NR_syscalls \<le> NR_mysyscall \<and>
    ((\<forall>j. loops_per_jiffy k + 4 * j < boot_cpu_data k \<longrightarrow>
        words u (loops_per_jiffy k + 4 * j + 4 * NR_close) \<noteq> sys_close k) \<longrightarrow> init_addsyscall k u = None)"
proof -
  have "find_sys_call_table k s = Some t"
    using assms find_table_Some by (auto simp: find_sys_call_table_def)
  moreover have "init_addsyscall k u = None"
    if none: "\<forall>j. loops_per_jiffy k + 4 * j < boot_cpu_data k \<longrightarrow>
      words u (loops_per_jiffy k + 4 * j + 4 * NR_close) \<noteq> sys_close k"
  proof (cases "find_sys_call_table k u")
    case (Some t')
    then obtain j where "t' = loops_per_jiffy k + 4 * j" "t' < boot_cpu_data k"
      "words u (t' + 4 * NR_close) = sys_close k"
      unfolding find_sys_call_table_def find_table_Some by blast
    then show ?thesis using none by blast
  qed (simp add: init_addsyscall_def)
  ultimately show ?thesis by (simp add: init_addsyscall_def exit_addsyscall_def NR_syscalls_def NR_mysyscall_def)
qed

theorem syscall_patch_undone_witness:
  "\<exists>s'. init_addsyscall \<lparr>loops_per_jiffy = 1000, boot_cpu_data = 2000, sys_close = 77, sys_mysyscall_addr = 99\<rparr>
       \<lparr>words = (\<lambda>_. 0)(1032 := 77), saved = 0, table = None\<rparr> = Some s' \<and>
     words s' (1008 + 4 * NR_mysyscall) = 99 \<and> map_option words (exit_addsyscall s') = Some ((\<lambda>_. 0)(1032 := 77)) \<and>
     init_addsyscall \<lparr>loops_per_jiffy = 1000, boot_cpu_data = 2000, sys_close = 77, sys_mysyscall_addr = 99\<rparr>
       \<lparr>words = (\<lambda>_. 0), saved = 0, table = None\<rparr> = None"
  using syscall_patch_undone [of 1008 "\<lparr>loops_per_jiffy = 1000, boot_cpu_data = 2000, sys_close = 77, sys_mysyscall_addr = 99\<rparr>"
      2 "\<lparr>words = (\<lambda>_. 0)(1032 := 77), saved = 0, table = None\<rparr>" "\<lparr>words = (\<lambda>_. 0), saved = 0, table = None\<rparr>"]
  by (auto simp: NR_close_def)

end
