(* ===== verification/SyscallNumbers.thy ===== *)
theory SyscallNumbers
  imports SyscallTable
begin

text \<open>
  The numbers of the system calls: \<open>src/5/kernel/unistd_32.h\<close>, which programs use, and \<open>src/5/kernel/syscall_table_32.S\<close>, by which the kernel
  finds the function for a number. The calls of this repository were added to both by hand; here it is checked that the two files
  fit together.
\<close>

section \<open>The header\<close>

text \<open>Names without the prefix \<open>__NR_\<close> and numbers, thirty numbers at a time.\<close>

definition unistd_0 :: "(string \<times> int) list" where
  "unistd_0 =
     [(''restart_syscall'', 0), (''exit'', 1), (''fork'', 2), (''read'', 3), (''write'', 4), (''open'', 5), (''close'', 6),
      (''waitpid'', 7), (''creat'', 8), (''link'', 9), (''unlink'', 10), (''execve'', 11), (''chdir'', 12), (''time'', 13),
      (''mknod'', 14), (''chmod'', 15), (''lchown'', 16), (''break'', 17), (''oldstat'', 18), (''lseek'', 19), (''getpid'', 20),
      (''mount'', 21), (''umount'', 22), (''setuid'', 23), (''getuid'', 24), (''stime'', 25), (''ptrace'', 26), (''alarm'', 27),
      (''oldfstat'', 28), (''pause'', 29)]"

definition unistd_1 :: "(string \<times> int) list" where
  "unistd_1 =
     [(''utime'', 30), (''stty'', 31), (''gtty'', 32), (''access'', 33), (''nice'', 34), (''ftime'', 35), (''sync'', 36),
      (''kill'', 37), (''rename'', 38), (''mkdir'', 39), (''rmdir'', 40), (''dup'', 41), (''pipe'', 42), (''times'', 43),
      (''prof'', 44), (''brk'', 45), (''setgid'', 46), (''getgid'', 47), (''signal'', 48), (''geteuid'', 49), (''getegid'', 50),
      (''acct'', 51), (''umount2'', 52), (''lock'', 53), (''ioctl'', 54), (''fcntl'', 55), (''mpx'', 56), (''setpgid'', 57),
      (''ulimit'', 58), (''oldolduname'', 59)]"

definition unistd_2 :: "(string \<times> int) list" where
  "unistd_2 =
     [(''umask'', 60), (''chroot'', 61), (''ustat'', 62), (''dup2'', 63), (''getppid'', 64), (''getpgrp'', 65), (''setsid'', 66),
      (''sigaction'', 67), (''sgetmask'', 68), (''ssetmask'', 69), (''setreuid'', 70), (''setregid'', 71), (''sigsuspend'', 72),
      (''sigpending'', 73), (''sethostname'', 74), (''setrlimit'', 75), (''getrlimit'', 76), (''getrusage'', 77),
      (''gettimeofday'', 78), (''settimeofday'', 79), (''getgroups'', 80), (''setgroups'', 81), (''select'', 82),
      (''symlink'', 83), (''oldlstat'', 84), (''readlink'', 85), (''uselib'', 86), (''swapon'', 87), (''reboot'', 88),
      (''readdir'', 89)]"

definition unistd_3 :: "(string \<times> int) list" where
  "unistd_3 =
     [(''mmap'', 90), (''munmap'', 91), (''truncate'', 92), (''ftruncate'', 93), (''fchmod'', 94), (''fchown'', 95),
      (''getpriority'', 96), (''setpriority'', 97), (''profil'', 98), (''statfs'', 99), (''fstatfs'', 100), (''ioperm'', 101),
      (''socketcall'', 102), (''syslog'', 103), (''setitimer'', 104), (''getitimer'', 105), (''stat'', 106), (''lstat'', 107),
      (''fstat'', 108), (''olduname'', 109), (''iopl'', 110), (''vhangup'', 111), (''idle'', 112), (''vm86old'', 113),
      (''wait4'', 114), (''swapoff'', 115), (''sysinfo'', 116), (''ipc'', 117), (''fsync'', 118), (''sigreturn'', 119)]"

definition unistd_4 :: "(string \<times> int) list" where
  "unistd_4 =
     [(''clone'', 120), (''setdomainname'', 121), (''uname'', 122), (''modify_ldt'', 123), (''adjtimex'', 124),
      (''mprotect'', 125), (''sigprocmask'', 126), (''create_module'', 127), (''init_module'', 128), (''delete_module'', 129),
      (''get_kernel_syms'', 130), (''quotactl'', 131), (''getpgid'', 132), (''fchdir'', 133), (''bdflush'', 134),
      (''sysfs'', 135), (''personality'', 136), (''afs_syscall'', 137), (''setfsuid'', 138), (''setfsgid'', 139),
      (''_llseek'', 140), (''getdents'', 141), (''_newselect'', 142), (''flock'', 143), (''msync'', 144), (''readv'', 145),
      (''writev'', 146), (''getsid'', 147), (''fdatasync'', 148), (''_sysctl'', 149)]"

definition unistd_5 :: "(string \<times> int) list" where
  "unistd_5 =
     [(''mlock'', 150), (''munlock'', 151), (''mlockall'', 152), (''munlockall'', 153), (''sched_setparam'', 154),
      (''sched_getparam'', 155), (''sched_setscheduler'', 156), (''sched_getscheduler'', 157), (''sched_yield'', 158),
      (''sched_get_priority_max'', 159), (''sched_get_priority_min'', 160), (''sched_rr_get_interval'', 161),
      (''nanosleep'', 162), (''mremap'', 163), (''setresuid'', 164), (''getresuid'', 165), (''vm86'', 166),
      (''query_module'', 167), (''poll'', 168), (''nfsservctl'', 169), (''setresgid'', 170), (''getresgid'', 171),
      (''prctl'', 172), (''rt_sigreturn'', 173), (''rt_sigaction'', 174), (''rt_sigprocmask'', 175), (''rt_sigpending'', 176),
      (''rt_sigtimedwait'', 177), (''rt_sigqueueinfo'', 178), (''rt_sigsuspend'', 179)]"

definition unistd_6 :: "(string \<times> int) list" where
  "unistd_6 =
     [(''pread64'', 180), (''pwrite64'', 181), (''chown'', 182), (''getcwd'', 183), (''capget'', 184), (''capset'', 185),
      (''sigaltstack'', 186), (''sendfile'', 187), (''getpmsg'', 188), (''putpmsg'', 189), (''vfork'', 190),
      (''ugetrlimit'', 191), (''mmap2'', 192), (''truncate64'', 193), (''ftruncate64'', 194), (''stat64'', 195),
      (''lstat64'', 196), (''fstat64'', 197), (''lchown32'', 198), (''getuid32'', 199), (''getgid32'', 200),
      (''geteuid32'', 201), (''getegid32'', 202), (''setreuid32'', 203), (''setregid32'', 204), (''getgroups32'', 205),
      (''setgroups32'', 206), (''fchown32'', 207), (''setresuid32'', 208), (''getresuid32'', 209)]"

definition unistd_7 :: "(string \<times> int) list" where
  "unistd_7 =
     [(''setresgid32'', 210), (''getresgid32'', 211), (''chown32'', 212), (''setuid32'', 213), (''setgid32'', 214),
      (''setfsuid32'', 215), (''setfsgid32'', 216), (''pivot_root'', 217), (''mincore'', 218), (''madvise'', 219),
      (''madvise1'', 219), (''getdents64'', 220), (''fcntl64'', 221), (''gettid'', 224), (''readahead'', 225),
      (''setxattr'', 226), (''lsetxattr'', 227), (''fsetxattr'', 228), (''getxattr'', 229), (''lgetxattr'', 230),
      (''fgetxattr'', 231), (''listxattr'', 232), (''llistxattr'', 233), (''flistxattr'', 234), (''removexattr'', 235),
      (''lremovexattr'', 236), (''fremovexattr'', 237), (''tkill'', 238), (''sendfile64'', 239)]"

definition unistd_8 :: "(string \<times> int) list" where
  "unistd_8 =
     [(''futex'', 240), (''sched_setaffinity'', 241), (''sched_getaffinity'', 242), (''set_thread_area'', 243),
      (''get_thread_area'', 244), (''io_setup'', 245), (''io_destroy'', 246), (''io_getevents'', 247), (''io_submit'', 248),
      (''io_cancel'', 249), (''fadvise64'', 250), (''exit_group'', 252), (''lookup_dcookie'', 253), (''epoll_create'', 254),
      (''epoll_ctl'', 255), (''epoll_wait'', 256), (''remap_file_pages'', 257), (''set_tid_address'', 258),
      (''timer_create'', 259), (''timer_settime'', 259 + 1), (''timer_gettime'', 259 + 2), (''timer_getoverrun'', 259 + 3),
      (''timer_delete'', 259 + 4), (''clock_settime'', 259 + 5), (''clock_gettime'', 259 + 6), (''clock_getres'', 259 + 7),
      (''clock_nanosleep'', 259 + 8), (''statfs64'', 268), (''fstatfs64'', 269)]"

definition unistd_9 :: "(string \<times> int) list" where
  "unistd_9 =
     [(''tgkill'', 270), (''utimes'', 271), (''fadvise64_64'', 272), (''vserver'', 273), (''mbind'', 274),
      (''get_mempolicy'', 275), (''set_mempolicy'', 276), (''mq_open'', 277), (''mq_unlink'', 277 + 1),
      (''mq_timedsend'', 277 + 2), (''mq_timedreceive'', 277 + 3), (''mq_notify'', 277 + 4), (''mq_getsetattr'', 277 + 5),
      (''kexec_load'', 283), (''waitid'', 284), (''add_key'', 286), (''request_key'', 287), (''keyctl'', 288),
      (''ioprio_set'', 289), (''ioprio_get'', 290), (''inotify_init'', 291), (''inotify_add_watch'', 292),
      (''inotify_rm_watch'', 293), (''migrate_pages'', 294), (''openat'', 295), (''mkdirat'', 296), (''mknodat'', 297),
      (''fchownat'', 298), (''futimesat'', 299)]"

definition unistd_10 :: "(string \<times> int) list" where
  "unistd_10 =
     [(''fstatat64'', 300), (''unlinkat'', 301), (''renameat'', 302), (''linkat'', 303), (''symlinkat'', 304),
      (''readlinkat'', 305), (''fchmodat'', 306), (''faccessat'', 307), (''pselect6'', 308), (''ppoll'', 309),
      (''unshare'', 310), (''set_robust_list'', 311), (''get_robust_list'', 312), (''splice'', 313), (''sync_file_range'', 314),
      (''tee'', 315), (''vmsplice'', 316), (''move_pages'', 317), (''getcpu'', 318), (''epoll_pwait'', 319),
      (''utimensat'', 320), (''signalfd'', 321), (''timerfd_create'', 322), (''eventfd'', 323), (''fallocate'', 324),
      (''timerfd_settime'', 325), (''timerfd_gettime'', 326), (''signalfd4'', 327), (''eventfd2'', 328),
      (''epoll_create1'', 329)]"

definition unistd_11 :: "(string \<times> int) list" where
  "unistd_11 =
     [(''dup3'', 330), (''pipe2'', 331), (''inotify_init1'', 332), (''preadv'', 333), (''pwritev'', 334),
      (''rt_tgsigqueueinfo'', 335), (''perf_event_open'', 336), (''recvmmsg'', 337), (''mysyscall'', 338), (''do_pfcount'', 339),
      (''myevent_open'', 340), (''myevent_wait'', 341), (''myevent_signal'', 342), (''myevent_close'', 343), (''mycall'', 344)]"

definition unistd :: "(string \<times> int) list" where
  "unistd = unistd_0 @ unistd_1 @ unistd_2 @ unistd_3 @ unistd_4 @ unistd_5 @ unistd_6 @ unistd_7 @ unistd_8 @ unistd_9 @ unistd_10 @ unistd_11"

section \<open>The table of the kernel\<close>

definition sys_call_table_0 :: "string list" where
  "sys_call_table_0 =
     [''sys_restart_syscall'', ''sys_exit'', ''ptregs_fork'', ''sys_read'', ''sys_write'', ''sys_open'', ''sys_close'',
      ''sys_waitpid'', ''sys_creat'', ''sys_link'', ''sys_unlink'', ''ptregs_execve'', ''sys_chdir'', ''sys_time'',
      ''sys_mknod'', ''sys_chmod'', ''sys_lchown16'', ''sys_ni_syscall'', ''sys_stat'', ''sys_lseek'', ''sys_getpid'',
      ''sys_mount'', ''sys_oldumount'', ''sys_setuid16'', ''sys_getuid16'', ''sys_stime'', ''sys_ptrace'', ''sys_alarm'',
      ''sys_fstat'', ''sys_pause'']"

definition sys_call_table_1 :: "string list" where
  "sys_call_table_1 =
     [''sys_utime'', ''sys_ni_syscall'', ''sys_ni_syscall'', ''sys_access'', ''sys_nice'', ''sys_ni_syscall'', ''sys_sync'',
      ''sys_kill'', ''sys_rename'', ''sys_mkdir'', ''sys_rmdir'', ''sys_dup'', ''sys_pipe'', ''sys_times'', ''sys_ni_syscall'',
      ''sys_brk'', ''sys_setgid16'', ''sys_getgid16'', ''sys_signal'', ''sys_geteuid16'', ''sys_getegid16'', ''sys_acct'',
      ''sys_umount'', ''sys_ni_syscall'', ''sys_ioctl'', ''sys_fcntl'', ''sys_ni_syscall'', ''sys_setpgid'', ''sys_ni_syscall'',
      ''sys_olduname'']"

definition sys_call_table_2 :: "string list" where
  "sys_call_table_2 =
     [''sys_umask'', ''sys_chroot'', ''sys_ustat'', ''sys_dup2'', ''sys_getppid'', ''sys_getpgrp'', ''sys_setsid'',
      ''sys_sigaction'', ''sys_sgetmask'', ''sys_ssetmask'', ''sys_setreuid16'', ''sys_setregid16'', ''sys_sigsuspend'',
      ''sys_sigpending'', ''sys_sethostname'', ''sys_setrlimit'', ''sys_old_getrlimit'', ''sys_getrusage'', ''sys_gettimeofday'',
      ''sys_settimeofday'', ''sys_getgroups16'', ''sys_setgroups16'', ''sys_old_select'', ''sys_symlink'', ''sys_lstat'',
      ''sys_readlink'', ''sys_uselib'', ''sys_swapon'', ''sys_reboot'', ''sys_old_readdir'']"

definition sys_call_table_3 :: "string list" where
  "sys_call_table_3 =
     [''sys_old_mmap'', ''sys_munmap'', ''sys_truncate'', ''sys_ftruncate'', ''sys_fchmod'', ''sys_fchown16'',
      ''sys_getpriority'', ''sys_setpriority'', ''sys_ni_syscall'', ''sys_statfs'', ''sys_fstatfs'', ''sys_ioperm'',
      ''sys_socketcall'', ''sys_syslog'', ''sys_setitimer'', ''sys_getitimer'', ''sys_newstat'', ''sys_newlstat'',
      ''sys_newfstat'', ''sys_uname'', ''ptregs_iopl'', ''sys_vhangup'', ''sys_ni_syscall'', ''ptregs_vm86old'', ''sys_wait4'',
      ''sys_swapoff'', ''sys_sysinfo'', ''sys_ipc'', ''sys_fsync'', ''ptregs_sigreturn'']"

definition sys_call_table_4 :: "string list" where
  "sys_call_table_4 =
     [''ptregs_clone'', ''sys_setdomainname'', ''sys_newuname'', ''sys_modify_ldt'', ''sys_adjtimex'', ''sys_mprotect'',
      ''sys_sigprocmask'', ''sys_ni_syscall'', ''sys_init_module'', ''sys_delete_module'', ''sys_ni_syscall'', ''sys_quotactl'',
      ''sys_getpgid'', ''sys_fchdir'', ''sys_bdflush'', ''sys_sysfs'', ''sys_personality'', ''sys_ni_syscall'',
      ''sys_setfsuid16'', ''sys_setfsgid16'', ''sys_llseek'', ''sys_getdents'', ''sys_select'', ''sys_flock'', ''sys_msync'',
      ''sys_readv'', ''sys_writev'', ''sys_getsid'', ''sys_fdatasync'', ''sys_sysctl'']"

definition sys_call_table_5 :: "string list" where
  "sys_call_table_5 =
     [''sys_mlock'', ''sys_munlock'', ''sys_mlockall'', ''sys_munlockall'', ''sys_sched_setparam'', ''sys_sched_getparam'',
      ''sys_sched_setscheduler'', ''sys_sched_getscheduler'', ''sys_sched_yield'', ''sys_sched_get_priority_max'',
      ''sys_sched_get_priority_min'', ''sys_sched_rr_get_interval'', ''sys_nanosleep'', ''sys_mremap'', ''sys_setresuid16'',
      ''sys_getresuid16'', ''ptregs_vm86'', ''sys_ni_syscall'', ''sys_poll'', ''sys_nfsservctl'', ''sys_setresgid16'',
      ''sys_getresgid16'', ''sys_prctl'', ''ptregs_rt_sigreturn'', ''sys_rt_sigaction'', ''sys_rt_sigprocmask'',
      ''sys_rt_sigpending'', ''sys_rt_sigtimedwait'', ''sys_rt_sigqueueinfo'', ''sys_rt_sigsuspend'']"

definition sys_call_table_6 :: "string list" where
  "sys_call_table_6 =
     [''sys_pread64'', ''sys_pwrite64'', ''sys_chown16'', ''sys_getcwd'', ''sys_capget'', ''sys_capset'', ''ptregs_sigaltstack'',
      ''sys_sendfile'', ''sys_ni_syscall'', ''sys_ni_syscall'', ''ptregs_vfork'', ''sys_getrlimit'', ''sys_mmap_pgoff'',
      ''sys_truncate64'', ''sys_ftruncate64'', ''sys_stat64'', ''sys_lstat64'', ''sys_fstat64'', ''sys_lchown'', ''sys_getuid'',
      ''sys_getgid'', ''sys_geteuid'', ''sys_getegid'', ''sys_setreuid'', ''sys_setregid'', ''sys_getgroups'', ''sys_setgroups'',
      ''sys_fchown'', ''sys_setresuid'', ''sys_getresuid'']"

definition sys_call_table_7 :: "string list" where
  "sys_call_table_7 =
     [''sys_setresgid'', ''sys_getresgid'', ''sys_chown'', ''sys_setuid'', ''sys_setgid'', ''sys_setfsuid'', ''sys_setfsgid'',
      ''sys_pivot_root'', ''sys_mincore'', ''sys_madvise'', ''sys_getdents64'', ''sys_fcntl64'', ''sys_ni_syscall'',
      ''sys_ni_syscall'', ''sys_gettid'', ''sys_readahead'', ''sys_setxattr'', ''sys_lsetxattr'', ''sys_fsetxattr'',
      ''sys_getxattr'', ''sys_lgetxattr'', ''sys_fgetxattr'', ''sys_listxattr'', ''sys_llistxattr'', ''sys_flistxattr'',
      ''sys_removexattr'', ''sys_lremovexattr'', ''sys_fremovexattr'', ''sys_tkill'', ''sys_sendfile64'']"

definition sys_call_table_8 :: "string list" where
  "sys_call_table_8 =
     [''sys_futex'', ''sys_sched_setaffinity'', ''sys_sched_getaffinity'', ''sys_set_thread_area'', ''sys_get_thread_area'',
      ''sys_io_setup'', ''sys_io_destroy'', ''sys_io_getevents'', ''sys_io_submit'', ''sys_io_cancel'', ''sys_fadvise64'',
      ''sys_ni_syscall'', ''sys_exit_group'', ''sys_lookup_dcookie'', ''sys_epoll_create'', ''sys_epoll_ctl'',
      ''sys_epoll_wait'', ''sys_remap_file_pages'', ''sys_set_tid_address'', ''sys_timer_create'', ''sys_timer_settime'',
      ''sys_timer_gettime'', ''sys_timer_getoverrun'', ''sys_timer_delete'', ''sys_clock_settime'', ''sys_clock_gettime'',
      ''sys_clock_getres'', ''sys_clock_nanosleep'', ''sys_statfs64'', ''sys_fstatfs64'']"

definition sys_call_table_9 :: "string list" where
  "sys_call_table_9 =
     [''sys_tgkill'', ''sys_utimes'', ''sys_fadvise64_64'', ''sys_ni_syscall'', ''sys_mbind'', ''sys_get_mempolicy'',
      ''sys_set_mempolicy'', ''sys_mq_open'', ''sys_mq_unlink'', ''sys_mq_timedsend'', ''sys_mq_timedreceive'',
      ''sys_mq_notify'', ''sys_mq_getsetattr'', ''sys_kexec_load'', ''sys_waitid'', ''sys_ni_syscall'', ''sys_add_key'',
      ''sys_request_key'', ''sys_keyctl'', ''sys_ioprio_set'', ''sys_ioprio_get'', ''sys_inotify_init'',
      ''sys_inotify_add_watch'', ''sys_inotify_rm_watch'', ''sys_migrate_pages'', ''sys_openat'', ''sys_mkdirat'',
      ''sys_mknodat'', ''sys_fchownat'', ''sys_futimesat'']"

definition sys_call_table_10 :: "string list" where
  "sys_call_table_10 =
     [''sys_fstatat64'', ''sys_unlinkat'', ''sys_renameat'', ''sys_linkat'', ''sys_symlinkat'', ''sys_readlinkat'',
      ''sys_fchmodat'', ''sys_faccessat'', ''sys_pselect6'', ''sys_ppoll'', ''sys_unshare'', ''sys_set_robust_list'',
      ''sys_get_robust_list'', ''sys_splice'', ''sys_sync_file_range'', ''sys_tee'', ''sys_vmsplice'', ''sys_move_pages'',
      ''sys_getcpu'', ''sys_epoll_pwait'', ''sys_utimensat'', ''sys_signalfd'', ''sys_timerfd_create'', ''sys_eventfd'',
      ''sys_fallocate'', ''sys_timerfd_settime'', ''sys_timerfd_gettime'', ''sys_signalfd4'', ''sys_eventfd2'',
      ''sys_epoll_create1'']"

definition sys_call_table_11 :: "string list" where
  "sys_call_table_11 =
     [''sys_dup3'', ''sys_pipe2'', ''sys_inotify_init1'', ''sys_preadv'', ''sys_pwritev'', ''sys_rt_tgsigqueueinfo'',
      ''sys_perf_event_open'', ''sys_recvmmsg'', ''sys_mysyscall'', ''sys_do_pfcount'', ''sys_myevent_open'',
      ''sys_myevent_wait'', ''sys_myevent_signal'', ''sys_myevent_close'', ''sys_mycall'']"

definition sys_call_table :: "string list" where
  "sys_call_table = sys_call_table_0 @ sys_call_table_1 @ sys_call_table_2 @ sys_call_table_3 @ sys_call_table_4 @ sys_call_table_5 @ sys_call_table_6 @ sys_call_table_7 @ sys_call_table_8 @ sys_call_table_9 @ sys_call_table_10 @ sys_call_table_11"

section \<open>What belongs together\<close>

text \<open>
  A call is served by the function of its name. The others are these: calls that need the saved registers, calls of which there is an older and
  a newer version, and calls that are not implemented any more.
\<close>

definition other_function :: "(string \<times> string) list" where
  "other_function =
     [(''fork'', ''ptregs_fork''), (''execve'', ''ptregs_execve''), (''lchown'', ''sys_lchown16''),
      (''break'', ''sys_ni_syscall''), (''oldstat'', ''sys_stat''), (''umount'', ''sys_oldumount''),
      (''setuid'', ''sys_setuid16''), (''getuid'', ''sys_getuid16''), (''oldfstat'', ''sys_fstat''),
      (''stty'', ''sys_ni_syscall''), (''gtty'', ''sys_ni_syscall''), (''ftime'', ''sys_ni_syscall''),
      (''prof'', ''sys_ni_syscall''), (''setgid'', ''sys_setgid16''), (''getgid'', ''sys_getgid16''),
      (''geteuid'', ''sys_geteuid16''), (''getegid'', ''sys_getegid16''), (''umount2'', ''sys_umount''),
      (''lock'', ''sys_ni_syscall''), (''mpx'', ''sys_ni_syscall''), (''ulimit'', ''sys_ni_syscall''),
      (''oldolduname'', ''sys_olduname''), (''setreuid'', ''sys_setreuid16''), (''setregid'', ''sys_setregid16''),
      (''getrlimit'', ''sys_old_getrlimit''), (''getgroups'', ''sys_getgroups16''), (''setgroups'', ''sys_setgroups16''),
      (''select'', ''sys_old_select''), (''oldlstat'', ''sys_lstat''), (''readdir'', ''sys_old_readdir''),
      (''mmap'', ''sys_old_mmap''), (''fchown'', ''sys_fchown16''), (''profil'', ''sys_ni_syscall''),
      (''stat'', ''sys_newstat''), (''lstat'', ''sys_newlstat''), (''fstat'', ''sys_newfstat''), (''olduname'', ''sys_uname''),
      (''iopl'', ''ptregs_iopl''), (''idle'', ''sys_ni_syscall''), (''vm86old'', ''ptregs_vm86old''),
      (''sigreturn'', ''ptregs_sigreturn''), (''clone'', ''ptregs_clone''), (''uname'', ''sys_newuname''),
      (''create_module'', ''sys_ni_syscall''), (''get_kernel_syms'', ''sys_ni_syscall''), (''afs_syscall'', ''sys_ni_syscall''),
      (''setfsuid'', ''sys_setfsuid16''), (''setfsgid'', ''sys_setfsgid16''), (''_llseek'', ''sys_llseek''),
      (''_newselect'', ''sys_select''), (''_sysctl'', ''sys_sysctl''), (''setresuid'', ''sys_setresuid16''),
      (''getresuid'', ''sys_getresuid16''), (''vm86'', ''ptregs_vm86''), (''query_module'', ''sys_ni_syscall''),
      (''setresgid'', ''sys_setresgid16''), (''getresgid'', ''sys_getresgid16''), (''rt_sigreturn'', ''ptregs_rt_sigreturn''),
      (''chown'', ''sys_chown16''), (''sigaltstack'', ''ptregs_sigaltstack''), (''getpmsg'', ''sys_ni_syscall''),
      (''putpmsg'', ''sys_ni_syscall''), (''vfork'', ''ptregs_vfork''), (''ugetrlimit'', ''sys_getrlimit''),
      (''mmap2'', ''sys_mmap_pgoff''), (''lchown32'', ''sys_lchown''), (''getuid32'', ''sys_getuid''),
      (''getgid32'', ''sys_getgid''), (''geteuid32'', ''sys_geteuid''), (''getegid32'', ''sys_getegid''),
      (''setreuid32'', ''sys_setreuid''), (''setregid32'', ''sys_setregid''), (''getgroups32'', ''sys_getgroups''),
      (''setgroups32'', ''sys_setgroups''), (''fchown32'', ''sys_fchown''), (''setresuid32'', ''sys_setresuid''),
      (''getresuid32'', ''sys_getresuid''), (''setresgid32'', ''sys_setresgid''), (''getresgid32'', ''sys_getresgid''),
      (''chown32'', ''sys_chown''), (''setuid32'', ''sys_setuid''), (''setgid32'', ''sys_setgid''),
      (''setfsuid32'', ''sys_setfsuid''), (''setfsgid32'', ''sys_setfsgid''), (''madvise1'', ''sys_madvise''),
      (''vserver'', ''sys_ni_syscall'')]"

definition serves :: "string \<Rightarrow> string \<Rightarrow> bool" where
  "serves nm t \<longleftrightarrow> (if t = ''sys_'' @ nm then True else (nm, t) \<in> set other_function)"

text \<open>
  Both files are in the order of the numbers, so one pass over them is enough: \<open>k\<close> is the number of the next function, \<open>b\<close> says that it has a
  name already. A function without a name is not implemented.
\<close>

fun agree :: "bool \<Rightarrow> int \<Rightarrow> string list \<Rightarrow> (string \<times> int) list \<Rightarrow> bool" where
  "agree b k [] hs \<longleftrightarrow> hs = []"
| "agree b k (t # ts) [] \<longleftrightarrow> (b \<or> t = ''sys_ni_syscall'') \<and> agree False (k + 1) ts []"
| "agree b k (t # ts) ((nm, n) # hs) \<longleftrightarrow>
     (if n = k then serves nm t \<and> (b \<longrightarrow> nm = ''madvise1'') \<and> agree True k (t # ts) hs
      else (b \<or> t = ''sys_ni_syscall'') \<and> agree False (k + 1) ts ((nm, n) # hs))"

lemma agree_serves:
  "agree b k ts hs \<Longrightarrow> (nm, n) \<in> set hs \<Longrightarrow> k \<le> n \<and> n < k + int (length ts) \<and> serves nm (ts ! nat (n - k))"
proof (induction b k ts hs rule: agree.induct)
  case (3 b k t ts nm' n' hs)
  show ?case
  proof (cases "n' = k")
    case True
    then show ?thesis using 3 by (cases "(nm, n) \<in> set hs") auto
  next
    case False
    then have h: "k + 1 \<le> n" "n < k + 1 + int (length ts)" "serves nm (ts ! nat (n - (k + 1)))" using 3 by auto
    moreover have "nat (n - k) = Suc (nat (n - (k + 1)))" using h(1) by simp
    ultimately show ?thesis by simp
  qed
qed auto

lemma agree_unused:
  "agree b k ts hs \<Longrightarrow> i < length ts \<Longrightarrow> b \<longrightarrow> i \<noteq> 0 \<Longrightarrow> \<forall>nm. (nm, k + int i) \<notin> set hs \<Longrightarrow> ts ! i = ''sys_ni_syscall''"
proof (induction b k ts hs arbitrary: i rule: agree.induct)
  case (2 b k t ts)
  then show ?case by (cases i) auto
next
  case (3 b k t ts nm n hs)
  show ?case
  proof (cases "n = k")
    case True
    then have "i \<noteq> 0" using 3(6) by auto
    then show ?thesis using 3 True by auto
  next
    case False
    then show ?thesis using 3 by (cases i) (auto simp: algebra_simps)
  qed
qed simp

lemma agree_one:
  "agree b k ts hs \<Longrightarrow> (nm, n) \<in> set hs \<Longrightarrow>
    (b \<and> n = k \<longrightarrow> nm = ''madvise1'') \<and> ((nm', n) \<in> set hs \<longrightarrow> nm = nm' \<or> ''madvise1'' \<in> {nm, nm'})"
proof (induction b k ts hs arbitrary: nm nm' rule: agree.induct)
  case (3 b k t ts nm1 n1 hs)
  show ?case
  proof (cases "n1 = k")
    case True
    then have a: "b \<longrightarrow> nm1 = ''madvise1''" "agree True k (t # ts) hs" using 3(3) by auto
    note IH = 3(1) [OF True a(2)]
    show ?thesis
    proof (cases "(nm, n) \<in> set hs")
      case tail: True
      from IH [OF tail] True tail show ?thesis by auto
    next
      case False
      then have "nm = nm1" "n = k" using 3(4) True by auto
      with a(1) IH [of nm'] show ?thesis by auto
    qed
  next
    case False
    then have a: "agree False (k + 1) ts ((nm1, n1) # hs)" using 3(3) by simp
    have "n \<noteq> k" using agree_serves [OF a 3(4)] by simp
    with 3(2) [OF False a 3(4)] show ?thesis by simp
  qed
qed auto

lemma agree_skip:
  assumes "b \<or> t = ''sys_ni_syscall''" "agree False (k + 1) ts hs"
  shows "agree b k (t # ts) hs"
proof (cases hs)
  case (Cons h hs')
  obtain nm n where "h = (nm, n)" by (cases h)
  then show ?thesis using assms agree_serves [OF assms(2), of nm n] Cons by simp
qed (use assms in simp)

lemma agree_append:
  "agree b k ts hs \<Longrightarrow> 0 < length ts \<Longrightarrow> agree False (k + int (length ts)) ts' hs' \<Longrightarrow> agree b k (ts @ ts') (hs @ hs')"
proof (induction b k ts hs rule: agree.induct)
  case (2 b k t ts)
  then have "agree False (k + 1) (ts @ ts') hs'" by (cases "ts = []") (simp_all add: algebra_simps)
  then show ?case using 2(2) agree_skip [of b t k "ts @ ts'" hs'] by simp
next
  case (3 b k t ts nm n hs)
  then show ?case by (cases "n = k"; cases "ts = []") (simp_all add: algebra_simps)
qed simp

lemma files_agree_0: "agree False 0 sys_call_table_0 unistd_0"
  by code_simp

lemma files_agree_1: "agree False 30 sys_call_table_1 unistd_1"
  by code_simp

lemma files_agree_2: "agree False 60 sys_call_table_2 unistd_2"
  by code_simp

lemma files_agree_3: "agree False 90 sys_call_table_3 unistd_3"
  by code_simp

lemma files_agree_4: "agree False 120 sys_call_table_4 unistd_4"
  by code_simp

lemma files_agree_5: "agree False 150 sys_call_table_5 unistd_5"
  by code_simp

lemma files_agree_6: "agree False 180 sys_call_table_6 unistd_6"
  by code_simp

lemma files_agree_7: "agree False 210 sys_call_table_7 unistd_7"
  by code_simp

lemma files_agree_8: "agree False 240 sys_call_table_8 unistd_8"
  by code_simp

lemma files_agree_9: "agree False 270 sys_call_table_9 unistd_9"
  by code_simp

lemma files_agree_10: "agree False 300 sys_call_table_10 unistd_10"
  by code_simp

lemma files_agree_11: "agree False 330 sys_call_table_11 unistd_11"
  by code_simp

lemma part_lengths:
  "length sys_call_table_0 = 30" "length sys_call_table_1 = 30" "length sys_call_table_2 = 30" "length sys_call_table_3 = 30"
  "length sys_call_table_4 = 30" "length sys_call_table_5 = 30" "length sys_call_table_6 = 30" "length sys_call_table_7 = 30"
  "length sys_call_table_8 = 30" "length sys_call_table_9 = 30" "length sys_call_table_10 = 30" "length sys_call_table_11 = 15"
  by (simp_all add: sys_call_table_0_def sys_call_table_1_def sys_call_table_2_def sys_call_table_3_def sys_call_table_4_def sys_call_table_5_def sys_call_table_6_def sys_call_table_7_def sys_call_table_8_def sys_call_table_9_def sys_call_table_10_def sys_call_table_11_def)

lemma files_agree: "agree False 0 sys_call_table unistd"
  unfolding sys_call_table_def unistd_def
  by (intro agree_append) (simp_all add: part_lengths files_agree_0 files_agree_1 files_agree_2 files_agree_3 files_agree_4 files_agree_5 files_agree_6 files_agree_7 files_agree_8 files_agree_9 files_agree_10 files_agree_11)

section \<open>The numbers\<close>

lemma table_length: "length sys_call_table = NR_syscalls"
  by (simp add: sys_call_table_def part_lengths NR_syscalls_def)

text \<open>
  A number of the header is an index of the table, and the function there serves the call; no number stands for two calls, but for the old name of
  \<open>madvise\<close>; a number without a name has no function.
\<close>

lemma numbers_fit:
  "(nm, n) \<in> set unistd \<Longrightarrow> 0 \<le> n \<and> n < int NR_syscalls \<and> serves nm (sys_call_table ! nat n)"
  "(nm, n) \<in> set unistd \<Longrightarrow> (nm', n) \<in> set unistd \<Longrightarrow> nm = nm' \<or> ''madvise1'' \<in> {nm, nm'}"
  "k < NR_syscalls \<Longrightarrow> \<forall>nm. (nm, int k) \<notin> set unistd \<Longrightarrow> sys_call_table ! k = ''sys_ni_syscall''"
  using agree_serves [OF files_agree] agree_one [OF files_agree] agree_unused [OF files_agree] table_length by fastforce+

text \<open>The calls of this repository are in both files, and their numbers lead to the functions of these names.\<close>

lemma added_calls_fit:
  assumes "(nm, n) \<in> set added_calls"
  shows "(nm, int n) \<in> set unistd" "sys_call_table ! n = ''sys_'' @ nm"
proof -
  have "list_all (\<lambda>(nm, n). (nm, int n) \<in> set unistd_11) added_calls"
    "list_all (\<lambda>(nm, n). 330 \<le> n \<and> sys_call_table_11 ! (n - 330) = ''sys_'' @ nm) added_calls"
    by (simp_all add: added_calls_def unistd_11_def sys_call_table_11_def)
  then have h: "(nm, int n) \<in> set unistd_11" "330 \<le> n" "sys_call_table_11 ! (n - 330) = ''sys_'' @ nm"
    using assms by (auto simp: list_all_iff)
  show "(nm, int n) \<in> set unistd" using h(1) by (simp add: unistd_def)
  define pre where "pre = sys_call_table_0 @ sys_call_table_1 @ sys_call_table_2 @ sys_call_table_3 @ sys_call_table_4 @ sys_call_table_5 @ sys_call_table_6 @ sys_call_table_7 @ sys_call_table_8 @ sys_call_table_9 @ sys_call_table_10"
  have e: "sys_call_table = pre @ sys_call_table_11" "length pre = 330" by (simp_all add: sys_call_table_def pre_def part_lengths)
  show "sys_call_table ! n = ''sys_'' @ nm" unfolding e(1) using h(2,3) e(2) by (simp add: nth_append)
qed

end
