(* ===== verification/Spec2Isabelle.thy ===== *)
theory Spec2Isabelle
  imports ScullPipeModule ScullPipeSystem PipeListing ScullModule MyEventSystem MySemaphore
    Creds Priority ProcGroups Uts Limits Prctl Reboot PageFault KernelTables PageFlags MmHeader PageTables FlexBuffers Mysh LexBuffers KodersShell MyShell PittShell
    TickClocks InterruptMonitor ProcModules Observer ChKey SyscallNumbers
begin

text \<open>
  \<^bold>\<open>A verification library for linux-homework.\<close>

  The repository is the course work of a class on the Linux kernel: character device drivers
  (\<open>src/7\<close>), system calls for events and semaphores (\<open>src/6\<close>), a kernel with counted page faults and
  the file of system calls they were added to (\<open>src/5\<close>), and user programs: shells (\<open>src/2\<close>), timers
  (\<open>src/3\<close>), modules and programs around \<open>/proc\<close> (\<open>src/1\<close>, \<open>src/4\<close>). The parts do not call each other; what they share is
  the kernel underneath, which the theories model where its behaviour matters (wait queues,
  semaphores, a memory with freed blocks) and take as parameters where it does not (the security
  module, architecture hooks, whether an allocation or a copy to user space succeeds).

  \<^bold>\<open>Conventions.\<close> \<open>Prelude\<close>: error numbers, \<open>byte\<close> and \<open>u32\<close> as words, \<open>int32\<close> and \<open>size_t32\<close> for C
  conversions, \<open>cdiv\<close> and \<open>cmod\<close> for C division, list segments. A call that can sleep is a step function
  over program counters, one step between two points where another process can run; a system run
  is an inductive relation over such steps, with interrupts, signals and failing copies as part of the
  action. A call that cannot sleep is a function from state to state and result. Kernel answers are
  fields of an environment record (\<open>kenv\<close>, \<open>cenv\<close>, \<open>penv\<close>, \<open>prenv\<close>, \<open>rbenv\<close>, \<open>pfenv\<close>; \<open>pgenv\<close>, \<open>plenv\<close>; \<open>shenv\<close>, \<open>mworld\<close>, \<open>kworld\<close>, \<open>myworld\<close>,
  \<open>pworld\<close> for the shells). A loop that the code does not bound is a \<^theory_text>\<open>partial_function\<close> into option, so that not
  returning is \<open>None\<close>, and the theorems show that it returns. \<open>CString\<close> holds what the user programs use of the C
  library (\<open>atoi\<close>, \<open>%d\<close>, \<open>strtok\<close>, \<open>fgets\<close>) and their outcomes: \<open>Go\<close> on with a value, \<open>Exit\<close> with a code, or \<open>Crash\<close>,
  which is any access outside a buffer or through a null pointer.

  \<^bold>\<open>The pipe device\<close> (\<open>src/7/pipe/scull_pipe.c\<close>). \<open>Fifo\<close> states what a bounded first-in first-out
  buffer promises (locale \<open>bounded_fifo\<close>) and proves from it that repeated puts and gets transmit a
  list. \<open>ScullPipe\<close> models \<open>struct scull_pipe\<close>, the steps of \<open>wait_event_interruptible\<close> and of \<open>poll_wait\<close>, and \<open>scull_p_open\<close>, \<open>_release\<close>, \<open>_read\<close>,
  \<open>scull_getwritespace\<close>, \<open>spacefree\<close>, \<open>scull_p_write\<close>, \<open>_poll\<close> and \<open>_fasync\<close>, and interprets the locale on the
  circular buffer. \<open>ScullPipeSystem\<close> composes the calls of any number of processes on one device (open,
  read, write, poll, fasync, release) and shows, for every reachable state, that bytes arrive complete
  and in order, that the semaphore excludes, that no reader sleeps past its data and that the open
  counts are exact; it also shows that \<open>scull_p_open\<close> strands a writer that sleeps for space. \<open>ScullPipeModule\<close>: loading and unloading. \<open>PipeListing\<close>: the listing of the
  devices in \<open>pipe.c\<close>, which stays in its page, and what its caller gets at an offset.

  \<^bold>\<open>The bare device\<close> (\<open>src/7/main.c\<close>). \<open>Scull\<close> works in a byte-addressed memory with live blocks,
  since the code computes addresses: \<open>scull_trim\<close> ends and frees every block once; the first write
  overwrites the list node and a read then follows the pointer the user wrote. \<open>ScullModule\<close>: loading
  and unloading.

  \<^bold>\<open>Events and semaphores\<close> (\<open>src/6/kernel\<close>). \<open>WaitQueue\<close> models the kernel's wait queues.
  \<open>MyEvent\<close> models \<open>myevent.c\<close> over a heap in which using a freed or null pointer is an outcome (\<open>Oops\<close>):
  \<open>scheventNum\<close>, \<open>sys_myevent_open\<close>, \<open>_wait\<close> (split at \<open>schedule\<close>), \<open>_signal\<close>, \<open>_close\<close>. \<open>MyEventSystem\<close> runs
  them: the list stays well formed and no call uses freed or null pointers as long as closes are
  careful and \<open>kmalloc\<close> does not fail, a signal wakes every sleeper of its event, and closes that are not careful strand waiters or leave a
  dangling pointer. \<open>MySemaphore\<close> models \<open>modified/myevent.c\<close> and the drafts \<open>snippt.c\<close>, \<open>snippt2.c\<close>: resources
  are accounted for on one processor, signals are first-in first-out, closing wakes all sleepers; on
  several processors two races remain.

  \<^bold>\<open>System calls\<close> (\<open>src/5/kernel/sys.c\<close>). \<open>Creds\<close>: user and group ids (who may become whom).
  \<open>Priority\<close>: nice values. \<open>ProcGroups\<close>: process groups and sessions. \<open>Uts\<close>: host and domain names.
  \<open>Limits\<close>: resource limits, usage, times, umask. \<open>Prctl\<close>: task settings, with \<open>set_task_comm\<close> and other
  functions of the kernel as parameters. \<open>Reboot\<close>: the paths to restart, halt and power-off as sequences
  of kernel events; \<open>kernel_kexec\<close> and \<open>hibernate\<close> are parameters.

  \<^bold>\<open>Page faults\<close> (\<open>src/5/kernel/fault.c\<close>). \<open>PageFault\<close>: the 32-bit path of \<open>do_page_fault\<close>: the prefetch
  scan recognises exactly the prefetch instructions, \<open>pfcount\<close> counts every fault once and every path
  releases the lock, a bad user access gets one signal. \<open>KernelTables\<close>: the rest of the file: synchronising the page tables of all
  processes with those of the kernel (for 32 bits exactly the missing entries are copied; for 64 bits the loop ends), the 64-bit
  \<open>vmalloc_fault\<close>, the processor errata, and what is printed for an oops.

  \<^bold>\<open>Memory management header\<close> (\<open>src/5/kernel/mm.h\<close>). \<open>PageFlags\<close>: zone, node and section in the upper bits of the flags of a page, for
  every configuration that compiles. \<open>MmHeader\<close>: reference counts (a page reported unused is never taken again), tagged mapping
  pointers, counters with high-water marks, areas, \<open>do_mmap\<close>. \<open>PageTables\<close>: the
  helpers that allocate, map and lock a page of entries; what they lock is what they unlock, with one lock per page or per address space.

  \<^bold>\<open>System calls added by hand\<close> (\<open>src/5/syscall.c\<close>). \<open>SyscallTable\<close>: the search of kernel memory for the table, the
  entry patched at load and restored at unload, and the two small calls at the end of \<open>sys.c\<close>. \<open>SyscallNumbers\<close>: the numbers of
  \<open>unistd_32.h\<close> and the table of \<open>syscall_table_32.S\<close> fit together, the calls of this repository included.

  \<^bold>\<open>Shells\<close> (\<open>src/2\<close>). \<open>FlexScanner\<close> is the engine \<open>flex\<close> generates, over any tables: the compressed transition
  function, backing up to the last accepting state, refilling. Its locale \<open>run_scanner\<close> says what tables must satisfy
  for tokens to be single operators and maximal runs, and proves what one call returns. \<open>MyshScanner\<close> and \<open>MshScanner\<close> hold the
  tables of the two shells and interpret the locale on them (\<open>msh\<close> twice, outside and inside quotes). \<open>FlexBuffers\<close> has the functions
  on several buffers: the stack stays in its array, a pushed buffer or character is read first and the scan then goes on where it was.
  \<open>LexEngine\<close> is the same engine as \<open>lex.yy.c\<close> has it: pointers into a character array, the zero byte behind a token, \<open>yy_get_next_buffer\<close> with its
  copying and growing, and the labels of \<open>yylex\<close>. \<open>LexRefine\<close> proves that a call on the array does what \<open>FlexScanner\<close> says of the list of
  characters left, for tables as \<open>flex\<close> makes them; its locale \<open>scanner_input\<close> is what the scanner relies on in its input. \<open>LexMsh\<close> interprets it on
  the input of \<open>msh\<close>, checks the tables, and shows that the shell with the scanner on the array refines the shell of \<open>Msh\<close>. \<open>LexInput\<close> has \<open>input\<close>
  and \<open>yyunput\<close> on the array; \<open>LexBuffers\<close> shows that the array and the buffers of \<open>FlexBuffers\<close> agree where both have a function.
  \<open>ShellExec\<close> and \<open>Mysh\<close> are \<open>mysh\<close> (\<open>parseline.c\<close>, \<open>mysh.c\<close>), \<open>MshExec\<close> and \<open>Msh\<close> are \<open>msh\<close> (\<open>lex.yy.c\<close>, \<open>msh.c\<close>): expansion of
  variables, built-in commands, redirections, pipelines and lists over tables of file descriptors. Each \<open>_lines\<close> theorem
  says that a session is the reference reading of its lines, command after command; each \<open>_wiring\<close> theorem says which pipe every
  command of a pipeline reads and writes and what the shell keeps open. \<open>JobTable\<close> is the interface of a table of
  jobs; \<open>KodersShell\<close> (\<open>myshell_koders.c\<close>) interprets it on its array of background processes. \<open>MyShell\<close> (\<open>myshell.c\<close>) is a shell whose
  commands are pointers into one line buffer. \<open>PittShell\<close> (\<open>myshell_cs_pitt_edu.c\<close>) has a handler of SIGCHLD: its steps interleave with the
  ends of the children, no child is lost or collected twice, and without background commands (and without children numbered 11 or 12) a prompt means that every command was collected;
  with one, the handler can put the shell to sleep or interrupt its wait.

  \<^bold>\<open>Timers\<close> (\<open>src/3\<close>). \<open>IntervalTimer\<close>: \<open>mytimer.c\<close> and \<open>fibnocci.c\<close>, the reported times are the times that ran and the
  two Fibonacci routines agree. \<open>TickClocks\<close>: \<open>clock.c\<close> and \<open>mygettimeofday.c\<close>, the counted seconds are exact once the handler is
  installed, and a signal before that ends the process. \<open>InterruptMonitor\<close>: \<open>inter_moniter.c\<close>, reports are exact as long as no handler
  interrupts another between its printing and its storing step, and lose interrupts otherwise; a handler interrupted while it reads
  finds its stream closed.

  \<^bold>\<open>Around \<open>/proc\<close>.\<close> \<open>ProcModules\<close>: the modules of \<open>src/4\<close>; the locale \<open>proc_module\<close> is what loading and unloading do to the
  entries of \<open>/proc\<close>, interpreted on each of the four modules. \<open>Observer\<close>: \<open>src/1/observer.c\<close> and the
  earlier \<open>observer.v1.c\<close>, with what the two versions share. \<open>ChKey\<close>: \<open>src/1/chkey.c\<close>.

  \<^bold>\<open>Bounds.\<close> Pipe buffers are positive and below \<open>2 ^ 31\<close>, the range of the module parameter. Event
  numbers are exact for \<open>2 ^ 30 - 1\<close> openings, after which the 32-bit number wraps. The prefetch scan
  looks at 15 bytes, as the code does. The theorems on the shells bound the length of a line, of an expanded word and
  the number of tokens by the arrays of the code; longer input is \<open>Crash\<close>. Page tables have two levels of 1024 entries for 32 bits (no PAE) and
  four levels for 64 bits. Reference counts are exact for fewer than \<open>2 ^ 31 - 2\<close> calls, after which the count can wrap.

  \<^bold>\<open>Not modelled.\<close> The PAE branches of \<open>fault.c\<close> and the conditionals of \<open>do_page_fault\<close> that only exist for 64 bits. Of \<open>mm.h\<close>, the
  declarations of functions of other files, and the functions that are empty in a configuration.
  Of the \<open>flex\<close> skeleton, \<open>yyless\<close>, the default \<open>YY_INPUT\<close>, which both shells replace, and the accessors, which nothing
  calls; the functions on several buffers are modelled once, on the copy in \<open>parseline.c\<close>. Generated files and test programs; \<open>limit_proc.c\<close>, a
  fragment; \<open>shell_on_book.c\<close>, an outline that does not compile; \<open>readline.c\<close>, a call of a library.
\<close>

end
